(* ===== verification/Eux_Prelude.thy ===== *)
theory Eux_Prelude
  imports Main "HOL-Library.Word"
begin

text \<open>
  Shared material of the execution-ucx development: names for the machine integers the C++ code
  uses, the faults that stand for undefined behaviour and failed assertions, decimal printing
  (\<open>std::to_string\<close>), and the lemmas on lists and words that several components use.

  A C++ operation whose precondition the code does not check (an index into a vector, a read of an
  inactive union member, a dereference of a null pointer or of a deleted node, an \<open>assert\<close>) is
  modelled as a value of \<open>fault + 'a\<close>: \<open>Inl\<close> names what went wrong, \<open>Inr\<close> carries
  the result. A theorem that an operation returns \<open>Inr\<close> is a memory-safety statement.
\<close>

unbundle bit_operations_syntax

subsection \<open>Machine integers\<close>

type_synonym u8 = "8 word"
type_synonym u16 = "16 word"
type_synonym u32 = "32 word"
type_synonym u64 = "64 word"

subsection \<open>Faults\<close>

datatype fault =
    OutOfBounds
  | WrongUnionMember
  | NullDeref
  | UseAfterFree
  | AssertFailed
  | SignedOverflow
  | BadVariant
  | OutOfFuel

type_synonym 'a res = "fault + 'a"

named_theorems safe_simps \<open>operations that do not fault under the invariant of their component\<close>

text \<open>Sequencing of faulting operations: the first fault ends the run.\<close>

definition bind_res :: "'a res \<Rightarrow> ('a \<Rightarrow> 'b res) \<Rightarrow> 'b res" where
  "bind_res m f = (case m of Inl e \<Rightarrow> Inl e | Inr a \<Rightarrow> f a)"

lemma bind_res_simps [simp]:
  "bind_res (Inl e) f = Inl e"
  "bind_res (Inr a) f = f a"
  by (simp_all add: bind_res_def)

lemma bind_res_Inr_iff:
  "bind_res m f = Inr b \<longleftrightarrow> (\<exists>a. m = Inr a \<and> f a = Inr b)"
  by (cases m) auto

subsection \<open>Decimal printing\<close>

fun to_digits :: "nat \<Rightarrow> nat list" where
  "to_digits n = (if n < 10 then [n] else to_digits (n div 10) @ [n mod 10])"

declare to_digits.simps [simp del]

definition digit_char :: "nat \<Rightarrow> char" where
  "digit_char d = char_of (48 + d)"

definition to_string :: "nat \<Rightarrow> string" where
  "to_string n = map digit_char (to_digits n)"

definition int_to_string :: "int \<Rightarrow> string" where
  "int_to_string i = (if i < 0 then CHR ''-'' # to_string (nat (- i)) else to_string (nat i))"

primrec of_digits :: "nat list \<Rightarrow> nat \<Rightarrow> nat" where
  "of_digits [] acc = acc"
| "of_digits (d # ds) acc = of_digits ds (10 * acc + d)"

lemma of_digits_append [simp]: "of_digits (xs @ ys) acc = of_digits ys (of_digits xs acc)"
  by (induction xs arbitrary: acc) auto

lemma of_digits_to_digits [simp]: "of_digits (to_digits n) 0 = n"
proof (induction n rule: to_digits.induct)
  case (1 n)
  show ?case
    by (subst to_digits.simps) (use 1 in auto)
qed

lemma to_digits_small: "d \<in> set (to_digits n) \<Longrightarrow> d < 10"
proof (induction n rule: to_digits.induct)
  case (1 n)
  then show ?case
    by (subst (asm) to_digits.simps) (auto split: if_splits)
qed

lemma digit_char_inj: "d < 10 \<Longrightarrow> e < 10 \<Longrightarrow> digit_char d = digit_char e \<Longrightarrow> d = e"
proof -
  assume "d < 10" "e < 10" "digit_char d = digit_char e"
  then have "of_char (char_of (48 + d) :: char) = (of_char (char_of (48 + e) :: char) :: nat)"
    by (simp add: digit_char_def)
  with \<open>d < 10\<close> \<open>e < 10\<close> show ?thesis by simp
qed

lemma digit_char_inj_on: "inj_on digit_char {0..<10}"
  by (auto intro!: inj_onI digit_char_inj)

lemma to_string_inject [simp]: "to_string m = to_string n \<longleftrightarrow> m = n"
proof
  assume "to_string m = to_string n"
  then have "map digit_char (to_digits m) = map digit_char (to_digits n)"
    by (simp add: to_string_def)
  moreover have "inj_on digit_char (set (to_digits m) \<union> set (to_digits n))"
    by (rule inj_on_subset [OF digit_char_inj_on]) (auto dest: to_digits_small)
  ultimately have "to_digits m = to_digits n"
    by (rule map_inj_on)
  then have "of_digits (to_digits m) 0 = of_digits (to_digits n) 0" by simp
  then show "m = n" by simp
qed simp

subsection \<open>Lists\<close>

text \<open>Counting the elements that satisfy a predicate, across one update.\<close>

lemma filter_update_count_down:
  "i < length xs \<Longrightarrow> P (xs ! i) \<Longrightarrow> \<not> P y \<Longrightarrow>
   Suc (length (filter P (xs[i := y]))) = length (filter P xs)"
  by (induction xs arbitrary: i) (auto split: nat.splits)

lemma filter_update_count_up:
  "i < length xs \<Longrightarrow> \<not> P (xs ! i) \<Longrightarrow> P y \<Longrightarrow>
   length (filter P (xs[i := y])) = Suc (length (filter P xs))"
  by (induction xs arbitrary: i) (auto split: nat.splits)

lemma filter_update_count_same:
  "i < length xs \<Longrightarrow> P (xs ! i) = P y \<Longrightarrow>
   length (filter P (xs[i := y])) = length (filter P xs)"
  by (induction xs arbitrary: i) (auto split: nat.splits)

lemma filter_length_pos: "i < length xs \<Longrightarrow> P (xs ! i) \<Longrightarrow> 0 < length (filter P xs)"
  by (auto simp: filter_empty_conv dest: nth_mem)

subsection \<open>Words\<close>

lemma word_less_unat: "(a < b) = (unat a < unat b)" for a b :: "'a::len word"
  by (simp add: word_less_nat_alt)

lemma word_le_unat: "(a \<le> b) = (unat a \<le> unat b)" for a b :: "'a::len word"
  by (simp add: word_le_nat_alt)

lemma unat_bound: "unat (x :: 'a::len word) < 2 ^ LENGTH('a)"
  by (rule unsigned_less)

lemma unat_add1:
  "unat (x :: 'a::len word) + 1 < 2 ^ LENGTH('a) \<Longrightarrow> unat (x + 1) = unat x + 1"
  by (simp add: unat_word_ariths)

lemma unat_word_of_nat:
  "n < 2 ^ LENGTH('a) \<Longrightarrow> unat (word_of_nat n :: 'a::len word) = n"
  by (simp add: unsigned_of_nat take_bit_nat_eq_self)

lemma list_all_update: "list_all P xs \<Longrightarrow> P x \<Longrightarrow> list_all P (xs[i := x])"
  by (auto simp: list_all_iff dest: set_update_subset_insert [THEN subsetD])

lemma list_all_nth: "list_all P xs \<Longrightarrow> i < length xs \<Longrightarrow> P (xs ! i)"
  by (simp add: list_all_length)

lemma list_all_replicate: "P x \<Longrightarrow> list_all P (replicate n x)"
  by (simp add: list_all_length)

text \<open>The count of the elements with a property, in a ring, after an update.\<close>

lemma filter_update_word:
  fixes x :: 'a
  assumes "i < length xs"
  shows "(of_nat (length (filter P (xs[i := x]))) :: 'b::ring_1) =
    of_nat (length (filter P xs)) - of_bool (P (xs ! i)) + of_bool (P x)"
  using assms
proof (induction xs arbitrary: i)
  case Nil
  then show ?case by simp
next
  case (Cons y ys)
  then show ?case by (cases i) auto
qed

text \<open>A list of states in which each is a step from the one before.\<close>

fun chained :: "('a \<Rightarrow> 'a \<Rightarrow> bool) \<Rightarrow> 'a list \<Rightarrow> bool" where
  "chained R [] = True"
| "chained R [x] = True"
| "chained R (x # y # zs) = (R x y \<and> chained R (y # zs))"

lemma chained_rtranclp: "chained R (x # xs) \<Longrightarrow> R\<^sup>*\<^sup>* x (last (x # xs))"
proof (induction xs arbitrary: x)
  case Nil
  then show ?case by simp
next
  case (Cons y xs)
  then show ?case using converse_rtranclp_into_rtranclp [of R x y] by auto
qed

end
