(* ===== verification/Hybrid_Clock.thy ===== *)
theory Hybrid_Clock
  imports Eux_Prelude
begin

text \<open>
  The hybrid logical clock of \<open>rpc_core/utils/hybrid_logical_clock.hpp\<close>: a 64-bit word whose
  upper 48 bits hold milliseconds and whose lower 16 bits hold a logical counter. Every operation
  of the class is a definition here, at its width. The time source
  \<open>CurrentPhysicalTimeMs\<close> is \<open>std::chrono::system_clock\<close>; the definitions take the
  observed time as an argument, as the two-argument \<open>Merge\<close> and \<open>TickLocal\<close> do.
  The lemmas give the clock's value after a merge in closed form, show that a merge moves past both
  clocks while the counter has room, and that it moves backwards when the counter is full.
\<close>

unbundle bit_operations_syntax

subsection \<open>The class\<close>

datatype HybridLogicalClock = HybridLogicalClock (raw: u64)

definition kLogicalBits :: nat where
  "kLogicalBits = 16"

definition kLogicalMask :: u64 where
  "kLogicalMask = push_bit kLogicalBits 1 - 1"

definition kPhysicalMask :: u64 where
  "kPhysicalMask = NOT kLogicalMask"

definition Pack :: "u64 \<Rightarrow> u16 \<Rightarrow> u64" where
  "Pack physical_ms logical = push_bit kLogicalBits physical_ms OR ucast logical"

definition BumpLogical :: "u64 \<Rightarrow> u64" where
  "BumpLogical logical = (logical + 1) AND kLogicalMask"

definition hlc_make :: "u64 \<Rightarrow> u16 \<Rightarrow> HybridLogicalClock" where
  "hlc_make physical_time_ms logical_counter =
     HybridLogicalClock (Pack physical_time_ms logical_counter)"

definition Now :: "u64 \<Rightarrow> HybridLogicalClock" where
  "Now current_ms = hlc_make current_ms 0"

definition PhysicalTimeMs :: "HybridLogicalClock \<Rightarrow> u64" where
  "PhysicalTimeMs c = drop_bit kLogicalBits (raw c)"

definition LogicalCounter :: "HybridLogicalClock \<Rightarrow> u16" where
  "LogicalCounter c = ucast (raw c AND kLogicalMask)"

definition Merge :: "u64 \<Rightarrow> u64 \<Rightarrow> HybridLogicalClock \<Rightarrow> HybridLogicalClock" where
  "Merge remote_raw observed_physical_ms c =
     (let local_physical = drop_bit kLogicalBits (raw c);
          remote_physical = drop_bit kLogicalBits remote_raw
      in if observed_physical_ms > local_physical \<and> observed_physical_ms > remote_physical
         then HybridLogicalClock (push_bit kLogicalBits observed_physical_ms)
         else
           let max_physical = max observed_physical_ms (max local_physical remote_physical);
               next_logical =
                 (if max_physical = local_physical \<and> max_physical = remote_physical
                  then BumpLogical (max (raw c AND kLogicalMask) (remote_raw AND kLogicalMask))
                  else if max_physical = local_physical
                  then BumpLogical (raw c AND kLogicalMask)
                  else if max_physical = remote_physical
                  then BumpLogical (remote_raw AND kLogicalMask)
                  else 0)
           in HybridLogicalClock (push_bit kLogicalBits max_physical OR next_logical))"

definition TickLocal :: "u64 \<Rightarrow> HybridLogicalClock \<Rightarrow> HybridLogicalClock" where
  "TickLocal observed_physical_ms c = Merge (raw c) observed_physical_ms c"

definition Assign :: "u64 \<Rightarrow> u16 \<Rightarrow> HybridLogicalClock \<Rightarrow> HybridLogicalClock" where
  "Assign physical_ms logical c = HybridLogicalClock (Pack physical_ms logical)"

definition AssignRaw :: "u64 \<Rightarrow> HybridLogicalClock \<Rightarrow> HybridLogicalClock" where
  "AssignRaw raw_timestamp c = HybridLogicalClock raw_timestamp"

definition BumpLogicalCounter :: "HybridLogicalClock \<Rightarrow> HybridLogicalClock" where
  "BumpLogicalCounter c =
     HybridLogicalClock ((raw c AND kPhysicalMask) OR BumpLogical (raw c AND kLogicalMask))"

definition ToString :: "HybridLogicalClock \<Rightarrow> string" where
  "ToString c = to_string (unat (PhysicalTimeMs c)) @ ''.'' @ to_string (unat (LogicalCounter c))"

text \<open>
  The comparison operators compare the raw words. Equality of clocks is that of the words, so \<open>operator==\<close>
  is \<open>=\<close>; the two operators below make the clocks a linear order, whose converses are the other two.
\<close>

definition clock_less :: "HybridLogicalClock \<Rightarrow> HybridLogicalClock \<Rightarrow> bool" where
  "clock_less a b = (raw a < raw b)"

definition clock_less_eq :: "HybridLogicalClock \<Rightarrow> HybridLogicalClock \<Rightarrow> bool" where
  "clock_less_eq a b = (raw a \<le> raw b)"

definition clock_greater :: "HybridLogicalClock \<Rightarrow> HybridLogicalClock \<Rightarrow> bool" where
  "clock_greater a b = (raw a > raw b)"

definition clock_greater_eq :: "HybridLogicalClock \<Rightarrow> HybridLogicalClock \<Rightarrow> bool" where
  "clock_greater_eq a b = (raw a \<ge> raw b)"

instantiation HybridLogicalClock :: linorder
begin

definition less_eq_HybridLogicalClock :: "HybridLogicalClock \<Rightarrow> HybridLogicalClock \<Rightarrow> bool" where
  "less_eq_HybridLogicalClock = clock_less_eq"

definition less_HybridLogicalClock :: "HybridLogicalClock \<Rightarrow> HybridLogicalClock \<Rightarrow> bool" where
  "less_HybridLogicalClock = clock_less"

instance
  by standard (auto simp: less_eq_HybridLogicalClock_def less_HybridLogicalClock_def clock_less_def clock_less_eq_def
    intro: HybridLogicalClock.expand)

end

lemmas clock_order_defs = less_eq_HybridLogicalClock_def less_HybridLogicalClock_def clock_less_def clock_less_eq_def

lemma clock_converse: "clock_greater a b \<longleftrightarrow> b < a" "clock_greater_eq a b \<longleftrightarrow> b \<le> a"
  by (simp_all add: clock_order_defs clock_greater_def clock_greater_eq_def)

subsection \<open>The two fields as natural numbers\<close>

abbreviation phys :: "u64 \<Rightarrow> nat" where
  "phys r \<equiv> unat r div 65536"

abbreviation logc :: "u64 \<Rightarrow> nat" where
  "logc r \<equiv> unat r mod 65536"

named_theorems hlc_arith \<open>readings of the clock's bit operations as arithmetic\<close>

lemma kLogicalMask_mask: "kLogicalMask = mask 16"
  by (simp add: kLogicalMask_def kLogicalBits_def mask_eq_exp_minus_1 push_bit_eq_mult)

lemma unat_drop_logical [hlc_arith]: "unat (drop_bit kLogicalBits r) = phys r"
  by (simp add: kLogicalBits_def drop_bit_eq_div unat_div)

lemma unat_and_logical [hlc_arith]: "unat (r AND kLogicalMask) = logc r"
  by (simp add: kLogicalMask_mask unat_mod flip: take_bit_eq_mask)
     (simp add: take_bit_eq_mod unat_mod)

lemma unat_BumpLogical [hlc_arith]: "unat (BumpLogical l) = Suc (unat l) mod 65536"
  by (simp add: BumpLogical_def unat_and_logical unat_word_ariths mod_mod_cancel)

lemma push_or_disjoint:
  assumes "unat p < 2 ^ 48" and "unat l < 65536"
  shows "unat (push_bit kLogicalBits p OR l) = unat (p :: u64) * 65536 + unat (l :: u64)"
proof -
  have l: "take_bit 16 l = l"
    by (rule word_unat_eq_iff [THEN iffD2])
       (use assms(2) in \<open>simp add: take_bit_eq_mod unat_mod\<close>)
  have "\<not> bit (push_bit 16 p) n \<or> \<not> bit l n" for n
    using l by (metis bit_push_bit_iff bit_take_bit_iff linorder_not_le)
  then have "push_bit 16 p AND l = 0"
    by (intro bit_word_eqI) (simp add: bit_and_iff)
  then have "push_bit kLogicalBits p OR l = push_bit kLogicalBits p + l"
    by (simp add: kLogicalBits_def disjunctive_add_eq_or)
  also have "unat \<dots> = unat p * 65536 + unat l"
    using assms by (simp add: kLogicalBits_def push_bit_eq_mult unat_word_ariths)
  finally show ?thesis .
qed

lemma push_physical:
  assumes "unat p < 2 ^ 48"
  shows "unat (push_bit kLogicalBits (p :: u64)) = unat p * 65536"
  using push_or_disjoint [OF assms, of 0] by simp

lemma phys_bound: "phys (r :: u64) < 2 ^ 48"
  using unat_bound [of r] by (simp add: less_mult_imp_div_less)

lemma unat_max: "unat (max a b) = max (unat a) (unat b)" for a b :: "'a::len word"
  by (simp add: max_def word_le_nat_alt)

subsection \<open>Merge in closed form\<close>

definition next_counter :: "u64 \<Rightarrow> u64 \<Rightarrow> nat \<Rightarrow> nat" where
  "next_counter l r m =
     (if m = phys l \<and> m = phys r then Suc (max (logc l) (logc r)) mod 65536
      else if m = phys l then Suc (logc l) mod 65536
      else if m = phys r then Suc (logc r) mod 65536
      else 0)"

lemma next_counter_bound: "next_counter l r m < 65536"
  by (simp add: next_counter_def)

lemma unat_Merge:
  assumes "unat obs < 2 ^ 48"
    and m_def: "m = max (unat obs) (max (phys (raw c)) (phys rem))"
  shows "unat (raw (Merge rem obs c)) = m * 65536 + next_counter (raw c) rem m"
proof (cases "phys (raw c) < unat obs \<and> phys rem < unat obs")
  case True
  then have "m = unat obs" by (auto simp: m_def)
  with True show ?thesis
    by (simp add: Merge_def Let_def word_less_nat_alt unat_drop_logical push_physical [OF assms(1)]
        next_counter_def)
next
  case False
  then have slow: "\<not> (obs > drop_bit kLogicalBits (raw c) \<and> obs > drop_bit kLogicalBits rem)"
    by (simp add: word_less_nat_alt unat_drop_logical)
  let ?p = "max obs (max (drop_bit kLogicalBits (raw c)) (drop_bit kLogicalBits rem))"
  have p: "unat ?p = m" by (simp add: m_def unat_max unat_drop_logical)
  have m48: "m < 2 ^ 48" using assms(1) phys_bound by (simp add: m_def)
  have eqs: "(?p = drop_bit kLogicalBits r) = (m = phys r)" for r
    by (simp add: word_unat_eq_iff p unat_drop_logical)
  let ?n = "if ?p = drop_bit kLogicalBits (raw c) \<and> ?p = drop_bit kLogicalBits rem
            then BumpLogical (max (raw c AND kLogicalMask) (rem AND kLogicalMask))
            else if ?p = drop_bit kLogicalBits (raw c) then BumpLogical (raw c AND kLogicalMask)
            else if ?p = drop_bit kLogicalBits rem then BumpLogical (rem AND kLogicalMask)
            else 0"
  have n: "unat ?n = next_counter (raw c) rem m"
    by (simp only: eqs next_counter_def) (simp add: hlc_arith unat_max)
  have "raw (Merge rem obs c) = push_bit kLogicalBits ?p OR ?n"
    by (simp only: Merge_def Let_def if_not_P [OF slow] HybridLogicalClock.sel)
  moreover have "unat (push_bit kLogicalBits ?p OR ?n) = unat ?p * 65536 + unat ?n"
    by (rule push_or_disjoint) (simp_all only: p n m48 next_counter_bound)
  ultimately show ?thesis by (simp only: p n)
qed

subsection \<open>Progress, wrap-around and round trips\<close>

text \<open>
  The counter has room for one more event: none of the clocks that share the largest physical time
  has its 16-bit counter at the maximum.
\<close>

definition hlc_room :: "HybridLogicalClock \<Rightarrow> u64 \<Rightarrow> HybridLogicalClock \<Rightarrow> bool" where
  "hlc_room r obs c =
     (unat obs < 2 ^ 48 \<and>
      (phys (raw c) = max (unat obs) (max (phys (raw c)) (phys (raw r))) \<longrightarrow> logc (raw c) < 65535) \<and>
      (phys (raw r) = max (unat obs) (max (phys (raw c)) (phys (raw r))) \<longrightarrow> logc (raw r) < 65535))"

lemma next_counter_gt:
  "logc l < 65535 \<Longrightarrow> m = phys l \<Longrightarrow> (m = phys r \<longrightarrow> logc r < 65535) \<Longrightarrow> logc l < next_counter l r m"
  by (simp add: next_counter_def max_def)

lemma next_counter_commute: "next_counter l r m = next_counter r l m"
  by (auto simp: next_counter_def max.commute)

lemma below_by_fields:
  assumes "unat x = m * 65536 + n" "phys r \<le> m" "m = phys r \<longrightarrow> logc r < n"
  shows "r < (x :: u64)"
proof -
  have split: "unat r = phys r * 65536 + logc r" by (rule div_mult_mod_eq [symmetric])
  have "logc r < 65536" by simp
  then have "unat r < unat x"
    using assms split by (cases "m = phys r") linarith+
  then show ?thesis by (simp add: word_less_nat_alt)
qed

lemma Merge_advances:
  assumes "hlc_room r obs c"
  shows "c < Merge (raw r) obs c" and "r < Merge (raw r) obs c"
proof -
  define m where "m = max (unat obs) (max (phys (raw c)) (phys (raw r)))"
  have obs: "unat obs < 2 ^ 48" using assms by (simp add: hlc_room_def)
  note val = unat_Merge [OF obs m_def]
  have c: "m = phys (raw c) \<longrightarrow> logc (raw c) < next_counter (raw c) (raw r) m"
    using assms next_counter_gt [of "raw c" m "raw r"] by (auto simp: hlc_room_def m_def)
  have r: "m = phys (raw r) \<longrightarrow> logc (raw r) < next_counter (raw c) (raw r) m"
    using assms next_counter_gt [of "raw r" m "raw c"]
    by (auto simp: hlc_room_def m_def next_counter_commute [of "raw c"])
  show "c < Merge (raw r) obs c"
    using below_by_fields [OF val _ c] by (simp add: clock_order_defs m_def)
  show "r < Merge (raw r) obs c"
    using below_by_fields [OF val _ r] by (simp add: clock_order_defs m_def)
qed

lemma Pack_fields:
  assumes "unat p < 2 ^ 48"
  shows "unat (Pack p l) = unat p * 65536 + unat l"
  using push_or_disjoint [OF assms, of "ucast l"] unat_bound [of l]
  by (simp add: Pack_def unsigned_ucast_eq take_bit_nat_eq_self)

lemma ToString_split:
  assumes "xs @ ''.'' @ ys = xs' @ ''.'' @ ys'" and "CHR ''.'' \<notin> set xs" and "CHR ''.'' \<notin> set xs'"
  shows "xs = xs' \<and> ys = ys'"
  using assms
proof (induction xs arbitrary: xs')
  case Nil
  then show ?case by (cases xs') auto
next
  case (Cons x xs)
  then show ?case by (cases xs') auto
qed

lemma to_string_no_dot: "CHR ''.'' \<notin> set (to_string n)"
proof
  assume "CHR ''.'' \<in> set (to_string n)"
  then obtain d where d: "d \<in> set (to_digits n)" "digit_char d = CHR ''.''"
    by (auto simp: to_string_def)
  then have "d < 10" by (auto dest: to_digits_small)
  moreover have "of_char (digit_char d) = (46 :: nat)" by (simp add: d(2))
  ultimately show False by (simp add: digit_char_def)
qed

lemma clock_fields_eq:
  assumes "PhysicalTimeMs a = PhysicalTimeMs b" "LogicalCounter a = LogicalCounter b"
  shows "a = b"
proof -
  have "phys (raw a) = phys (raw b)"
    using arg_cong [OF assms(1), of unat] by (simp add: PhysicalTimeMs_def unat_drop_logical)
  moreover have "logc (raw a) = logc (raw b)"
    using arg_cong [OF assms(2), of unat]
    by (simp add: LogicalCounter_def unsigned_ucast_eq unat_and_logical take_bit_nat_eq_self)
  ultimately have "unat (raw a) = unat (raw b)"
    by (metis div_mult_mod_eq)
  then show ?thesis by (auto intro: HybridLogicalClock.expand simp: word_unat_eq_iff)
qed

subsection \<open>Causality over distributed executions\<close>

text \<open>
  An execution is a list of events. Each event belongs to a process and either is local (or a send,
  which also ticks the sender's clock) or receives the message sent by an earlier event, whose
  stamp it merges. \<open>clock_step\<close> gives the clocks and the stamps after one more event.
\<close>

type_synonym 'e clock_event = "nat \<times> nat option \<times> 'e"

definition source_stamp :: "(nat \<Rightarrow> 'c) \<Rightarrow> 'c list \<Rightarrow> nat \<Rightarrow> nat option \<Rightarrow> 'c" where
  "source_stamp clk hist p src =
     (case src of None \<Rightarrow> clk p | Some j \<Rightarrow> if j < length hist then hist ! j else clk p)"

definition clock_step ::
  "('c \<Rightarrow> 'e \<Rightarrow> 'c \<Rightarrow> 'c) \<Rightarrow> 'e clock_event \<Rightarrow> (nat \<Rightarrow> 'c) \<times> 'c list \<Rightarrow> (nat \<Rightarrow> 'c) \<times> 'c list" where
  "clock_step recv ev st =
     (case (ev, st) of ((p, src, e), (clk, hist)) \<Rightarrow>
        let c = recv (source_stamp clk hist p src) e (clk p) in (clk(p := c), hist @ [c]))"

definition clock_run ::
  "('c \<Rightarrow> 'e \<Rightarrow> 'c \<Rightarrow> 'c) \<Rightarrow> (nat \<Rightarrow> 'c) \<Rightarrow> 'e clock_event list \<Rightarrow> (nat \<Rightarrow> 'c) \<times> 'c list" where
  "clock_run recv clk evs = fold (clock_step recv) evs (clk, [])"

text \<open>Every event finds room in its clock and receives from an earlier event only.\<close>

fun run_ok ::
  "('c \<Rightarrow> 'e \<Rightarrow> 'c \<Rightarrow> 'c) \<Rightarrow> ('c \<Rightarrow> 'e \<Rightarrow> 'c \<Rightarrow> bool) \<Rightarrow> (nat \<Rightarrow> 'c) \<times> 'c list \<Rightarrow> 'e clock_event list \<Rightarrow> bool"
where
  "run_ok recv room st [] = True"
| "run_ok recv room (clk, hist) ((p, src, e) # evs) =
     ((case src of None \<Rightarrow> True | Some j \<Rightarrow> j < length hist) \<and>
      room (source_stamp clk hist p src) e (clk p) \<and>
      run_ok recv room (clock_step recv (p, src, e) (clk, hist)) evs)"

inductive happens_before :: "'e clock_event list \<Rightarrow> nat \<Rightarrow> nat \<Rightarrow> bool" for evs where
  same_process: "i < j \<Longrightarrow> j < length evs \<Longrightarrow> fst (evs ! i) = fst (evs ! j) \<Longrightarrow> happens_before evs i j"
| message: "i < j \<Longrightarrow> j < length evs \<Longrightarrow> fst (snd (evs ! j)) = Some i \<Longrightarrow> happens_before evs i j"
| trans: "happens_before evs i j \<Longrightarrow> happens_before evs j k \<Longrightarrow> happens_before evs i k"

lemma run_ok_append:
  "run_ok recv room st (xs @ ys) \<longleftrightarrow>
   run_ok recv room st xs \<and> run_ok recv room (fold (clock_step recv) xs st) ys"
proof (induction xs arbitrary: st)
  case (Cons x xs)
  then show ?case by (cases x; cases st) auto
qed simp

lemma clock_run_snoc:
  "clock_run recv clk (evs @ [ev]) = clock_step recv ev (clock_run recv clk evs)"
  by (simp add: clock_run_def)

lemma length_clock_run: "length (snd (clock_run recv clk evs)) = length evs"
proof (induction evs rule: rev_induct)
  case Nil
  then show ?case by (simp add: clock_run_def)
next
  case (snoc ev evs)
  then show ?case
    by (cases ev; cases "clock_run recv clk evs") (simp add: clock_run_snoc clock_step_def Let_def)
qed

locale causal_clock =
  fixes recv :: "'c::linorder \<Rightarrow> 'e \<Rightarrow> 'c \<Rightarrow> 'c"
    and room :: "'c \<Rightarrow> 'e \<Rightarrow> 'c \<Rightarrow> bool"
  assumes recv_past_local: "room r e c \<Longrightarrow> c < recv r e c"
    and recv_past_remote: "room r e c \<Longrightarrow> r < recv r e c"
begin

definition stamps_causal :: "'e clock_event list \<Rightarrow> (nat \<Rightarrow> 'c) \<Rightarrow> 'c list \<Rightarrow> bool" where
  "stamps_causal evs clk hist \<longleftrightarrow>
     (\<forall>i < length evs. hist ! i \<le> clk (fst (evs ! i))) \<and>
     (\<forall>i j. i < j \<and> j < length evs \<and>
        (fst (evs ! i) = fst (evs ! j) \<or> fst (snd (evs ! j)) = Some i) \<longrightarrow> hist ! i < hist ! j)"

lemma stamps_causal_step:
  assumes inv: "stamps_causal evs clk hist" and len: "length hist = length evs"
    and src: "case src of None \<Rightarrow> True | Some j \<Rightarrow> j < length hist"
    and room: "room (source_stamp clk hist p src) e (clk p)"
    and c: "c = recv (source_stamp clk hist p src) e (clk p)"
  shows "stamps_causal (evs @ [(p, src, e)]) (clk(p := c)) (hist @ [c])"
proof -
  have up: "clk p < c" using recv_past_local [OF room] by (simp add: c)
  have before: "hist ! i < c" if "i < length evs" "fst (evs ! i) = p \<or> src = Some i" for i
    using that(2)
  proof
    assume "fst (evs ! i) = p"
    then have "hist ! i \<le> clk p" using inv that(1) by (auto simp: stamps_causal_def)
    with up show ?thesis by simp
  next
    assume "src = Some i"
    then have "source_stamp clk hist p src = hist ! i"
      using that(1) by (simp add: source_stamp_def len)
    with recv_past_remote [OF room] show ?thesis by (simp add: c)
  qed
  show ?thesis
    unfolding stamps_causal_def
  proof (intro conjI allI impI)
    fix i assume "i < length (evs @ [(p, src, e)])"
    then show "(hist @ [c]) ! i \<le> (clk(p := c)) (fst ((evs @ [(p, src, e)]) ! i))"
      using inv len up by (fastforce simp: stamps_causal_def nth_append less_Suc_eq)
  next
    fix i j
    assume "i < j \<and> j < length (evs @ [(p, src, e)]) \<and>
      (fst ((evs @ [(p, src, e)]) ! i) = fst ((evs @ [(p, src, e)]) ! j) \<or>
       fst (snd ((evs @ [(p, src, e)]) ! j)) = Some i)"
    then show "(hist @ [c]) ! i < (hist @ [c]) ! j"
      using inv len before by (auto simp: stamps_causal_def nth_append less_Suc_eq)
  qed
qed

lemma run_stamps_causal:
  assumes "run_ok recv room (clk, []) evs"
  shows "stamps_causal evs (fst (clock_run recv clk evs)) (snd (clock_run recv clk evs))"
  using assms
proof (induction evs rule: rev_induct)
  case Nil
  then show ?case by (simp add: stamps_causal_def clock_run_def)
next
  case (snoc ev evs)
  obtain p src e where ev: "ev = (p, src, e)" by (cases ev)
  obtain clk' hist where st: "clock_run recv clk evs = (clk', hist)" by fastforce
  then have len: "length hist = length evs" using length_clock_run [of recv clk evs] by simp
  from snoc.prems st have "run_ok recv room (clk', hist) [ev]"
    by (simp add: run_ok_append clock_run_def)
  then have "stamps_causal (evs @ [ev])
      (clk'(p := recv (source_stamp clk' hist p src) e (clk' p)))
      (hist @ [recv (source_stamp clk' hist p src) e (clk' p)])"
    using snoc st len by (auto simp: run_ok_append ev intro!: stamps_causal_step)
  then show ?case by (simp add: clock_run_snoc st ev clock_step_def Let_def fun_upd_def)
qed

lemma happens_before_stamps:
  assumes "happens_before evs i j" and "run_ok recv room (clk, []) evs"
  shows "snd (clock_run recv clk evs) ! i < snd (clock_run recv clk evs) ! j"
  using assms
proof (induction rule: happens_before.induct)
  case (same_process i j)
  then show ?case using run_stamps_causal unfolding stamps_causal_def by blast
next
  case (message i j)
  then show ?case using run_stamps_causal unfolding stamps_causal_def by blast
next
  case (trans i j k)
  then show ?case by (meson less_trans)
qed

end

text \<open>An event of the class: a message's stamp is merged by its raw word.\<close>

definition hlc_receive :: "HybridLogicalClock \<Rightarrow> u64 \<Rightarrow> HybridLogicalClock \<Rightarrow> HybridLogicalClock" where
  "hlc_receive r obs c = Merge (raw r) obs c"

lemma hlc_receive_self: "hlc_receive c obs c = TickLocal obs c"
  by (simp add: hlc_receive_def TickLocal_def)

interpretation hlc: causal_clock hlc_receive hlc_room
  by unfold_locales (simp_all add: hlc_receive_def Merge_advances)

subsection \<open>Properties\<close>

text \<open>
  C13. Causality (the clock condition). In any execution in which every event ticks its process's
  clock with \<open>TickLocal\<close> or, on a receive, with \<open>Merge\<close> of the message's stamp, if event
  \<open>i\<close> happens before event \<open>j\<close> (same process, message, or a chain of them) then the stamp
  of \<open>i\<close> is strictly below the stamp of \<open>j\<close>, as long as no counter is full when it is
  bumped and observed times fit in 48 bits.
\<close>

theorem hlc_clock_condition:
  assumes "happens_before evs i j" and "run_ok hlc_receive hlc_room (clk, []) evs"
  shows "snd (clock_run hlc_receive clk evs) ! i < snd (clock_run hlc_receive clk evs) ! j"
  using assms by (rule hlc.happens_before_stamps)

theorem hlc_clock_condition_witness:
  "(let evs = [(0, None, 5), (1, Some 0, 3)] :: u64 clock_event list;
        hist = snd (clock_run hlc_receive (\<lambda>_. HybridLogicalClock 0) evs)
    in happens_before evs 0 1 \<and> hist = [HybridLogicalClock 327680, HybridLogicalClock 327681] \<and>
       hist ! 0 < hist ! 1)"
proof -
  let ?evs = "[(0, None, 5), (1, Some 0, 3)] :: u64 clock_event list"
  have hb: "happens_before ?evs 0 1" by (rule happens_before.message) simp_all
  have ok: "run_ok hlc_receive hlc_room (\<lambda>_. HybridLogicalClock 0, []) ?evs"
    by (simp add: hlc_room_def source_stamp_def clock_step_def hlc_receive_def Merge_def
        kLogicalBits_def Let_def)
  have hist: "snd (clock_run hlc_receive (\<lambda>_. HybridLogicalClock 0) ?evs) =
      [HybridLogicalClock 327680, HybridLogicalClock 327681]"
    by (simp add: clock_run_def source_stamp_def clock_step_def hlc_receive_def Merge_def
        kLogicalBits_def kLogicalMask_def BumpLogical_def max_def Let_def)
  show ?thesis using hb hist hlc_clock_condition [OF hb ok] by (simp add: Let_def)
qed

text \<open>
  Value of a merge. For an observed time that fits in 48 bits, \<open>Merge\<close> sets the physical
  part to the largest of the observed, local and remote times, and the counter to one more (modulo
  \<open>2 ^ 16\<close>) than the largest counter among the clocks at that time, or to zero when only the
  wall clock is there.
\<close>

theorem merge_value:
  assumes "unat obs < 2 ^ 48"
  shows "unat (PhysicalTimeMs (Merge rem obs c)) =
           max (unat obs) (max (phys (raw c)) (phys rem)) \<and>
         unat (LogicalCounter (Merge rem obs c)) =
           next_counter (raw c) rem (max (unat obs) (max (phys (raw c)) (phys rem)))"
  using unat_Merge [OF assms refl, where c = c and rem = rem] next_counter_bound
  by (simp add: PhysicalTimeMs_def LogicalCounter_def unat_drop_logical unsigned_ucast_eq
      unat_and_logical take_bit_nat_eq_self)

theorem merge_value_witness:
  "unat (7 :: u64) < 2 ^ 48 \<and>
   unat (LogicalCounter (Merge 458755 7 (HybridLogicalClock 458760))) = 9"
  using merge_value [of 7 458755 "HybridLogicalClock 458760"]
  by (simp add: next_counter_def)

text \<open>
  Wrap-around. When the counter of a clock is full and the wall clock has not passed its
  physical time, a local tick moves the clock strictly backwards, to counter zero of the same
  millisecond: causality holds only while fewer than \<open>2 ^ 16\<close> events share a millisecond.
\<close>

theorem tick_full_counter_moves_back:
  assumes "logc (raw c) = 65535" and "unat obs \<le> phys (raw c)"
  shows "TickLocal obs c < c \<and> unat (raw (TickLocal obs c)) = phys (raw c) * 65536"
proof -
  have obs: "unat obs < 2 ^ 48" using assms(2) phys_bound by (rule le_less_trans)
  have "unat (raw (TickLocal obs c)) = phys (raw c) * 65536"
    using unat_Merge [OF obs refl, where c = c and rem = "raw c"] assms
    by (simp add: TickLocal_def next_counter_def max_def)
  moreover have "unat (raw c) = phys (raw c) * 65536 + 65535"
    using assms(1) by (metis div_mult_mod_eq)
  ultimately show ?thesis by (simp add: clock_order_defs word_less_nat_alt)
qed

theorem tick_full_counter_moves_back_witness:
  "TickLocal 3 (HybridLogicalClock 262143) < HybridLogicalClock 262143"
  using tick_full_counter_moves_back [of "HybridLogicalClock 262143" 3] by simp

text \<open>
  Packing round trip. A clock built from a 48-bit physical time and a 16-bit counter (by the
  constructor or by \<open>Assign\<close>) reads back exactly those two fields.
\<close>

theorem hlc_pack_roundtrip:
  assumes "unat p < 2 ^ 48"
  shows "PhysicalTimeMs (hlc_make p l) = p \<and> LogicalCounter (hlc_make p l) = l \<and>
         Assign p l c = hlc_make p l"
proof -
  have l: "unat l < 65536" using unat_bound [of l] by simp
  have "unat (PhysicalTimeMs (hlc_make p l)) = unat p"
    using l by (simp add: PhysicalTimeMs_def hlc_make_def unat_drop_logical Pack_fields [OF assms])
  moreover have "unat (LogicalCounter (hlc_make p l)) = unat l"
    using l by (simp add: LogicalCounter_def hlc_make_def unsigned_ucast_eq unat_and_logical
        Pack_fields [OF assms] take_bit_nat_eq_self)
  ultimately show ?thesis by (simp add: word_unat_eq_iff Assign_def hlc_make_def)
qed

theorem hlc_pack_roundtrip_witness:
  "unat (1700000000000 :: u64) < 2 ^ 48 \<and>
   PhysicalTimeMs (hlc_make 1700000000000 42) = 1700000000000"
  using hlc_pack_roundtrip [of 1700000000000 42] by simp

lemma ToString_inject: "ToString a = ToString b \<longleftrightarrow> a = b"
proof
  assume "ToString a = ToString b"
  then have "to_string (unat (PhysicalTimeMs a)) = to_string (unat (PhysicalTimeMs b)) \<and>
      to_string (unat (LogicalCounter a)) = to_string (unat (LogicalCounter b))"
    unfolding ToString_def by (rule ToString_split) (rule to_string_no_dot)+
  then show "a = b" by (auto intro: clock_fields_eq simp: word_unat_eq_iff)
qed simp

end
