(* ===== verification/Slot_Map.thy ===== *)
theory Slot_Map
  imports Eux_Prelude
begin

text \<open>
  The generational slot map of \<open>axon/include/axon/utils/slot_map.hpp\<close>. Slots live in a vector;
  a slot has a generation counter and a union of a value (even generation) and the next index of the
  free list (odd generation). A key carries the index and the generation it was issued with.
  The union is a datatype, so a read of the inactive member is the fault \<open>WrongUnionMember\<close>;
  the constructor of the stored type may throw, so \<open>emplace\<close> takes the outcome of that
  construction. The class refines a finite map from keys to values; the locale \<open>handle_store\<close>
  states that contract and what clients get from it.
\<close>

subsection \<open>The class\<close>

datatype SlotKey = SlotKey (index: u32) (generation: u32)

definition InvalidIndex :: u32 where
  "InvalidIndex = 4294967295"

definition SlotKey_default :: SlotKey where
  "SlotKey_default = SlotKey InvalidIndex 0"

datatype 'a slot_union = Value 'a | NextFree u32

record 'a Slot =
  slot_generation :: u32
  member :: "'a slot_union"

record 'a SlotMap =
  slots :: "'a Slot list"
  free_head :: u32
  slot_count :: u32

definition SlotMap_new :: "'a SlotMap" where
  "SlotMap_new = \<lparr>slots = [], free_head = InvalidIndex, slot_count = 0\<rparr>"

text \<open>
  Choosing the slot. The free-list head is popped before the value is constructed, so a throwing
  constructor (\<open>None\<close>) leaves the popped or appended slot out of the free list. The result is
  the index, or nothing when the constructor threw.
\<close>

definition SlotMap_take_slot :: "'a option \<Rightarrow> 'a SlotMap \<Rightarrow> (u32 option \<times> 'a SlotMap) res" where
  "SlotMap_take_slot ctor m =
     (if free_head m \<noteq> InvalidIndex then
        let idx = free_head m in
        if unat idx < length (slots m) then
          let slot = slots m ! unat idx in
          case member slot of
            Value _ \<Rightarrow> Inl WrongUnionMember
          | NextFree nf \<Rightarrow>
              let m' = m\<lparr>free_head := nf\<rparr> in
              (case ctor of
                 None \<Rightarrow> Inr (None, m')
               | Some v \<Rightarrow>
                   Inr (Some idx, m'\<lparr>slots := (slots m')[unat idx :=
                     \<lparr>slot_generation = slot_generation slot + 1, member = Value v\<rparr>]\<rparr>))
        else Inl OutOfBounds
      else
        let idx = word_of_nat (length (slots m)) in
        case ctor of
          None \<Rightarrow> Inr (None, m\<lparr>slots := slots m @ [\<lparr>slot_generation = 1, member = NextFree InvalidIndex\<rparr>]\<rparr>)
        | Some v \<Rightarrow> Inr (Some idx, m\<lparr>slots := slots m @ [\<lparr>slot_generation = 0, member = Value v\<rparr>]\<rparr>))"

definition SlotMap_emplace :: "'a option \<Rightarrow> 'a SlotMap \<Rightarrow> (SlotKey option \<times> 'a SlotMap) res" where
  "SlotMap_emplace ctor m =
     bind_res (SlotMap_take_slot ctor m) (\<lambda>(r, m').
       case r of
         None \<Rightarrow> Inr (None, m')
       | Some idx \<Rightarrow>
           if unat idx < length (slots m') then
             Inr (Some (SlotKey idx (slot_generation (slots m' ! unat idx))),
                  m'\<lparr>slot_count := slot_count m' + 1\<rparr>)
           else Inl OutOfBounds)"

definition SlotMap_get :: "SlotKey \<Rightarrow> 'a SlotMap \<Rightarrow> 'a option res" where
  "SlotMap_get key m =
     (if length (slots m) \<le> unat (index key) then Inr None
      else
        let slot = slots m ! unat (index key) in
        if slot_generation slot \<noteq> generation key then Inr None
        else (case member slot of Value v \<Rightarrow> Inr (Some v) | NextFree _ \<Rightarrow> Inl WrongUnionMember))"

definition SlotMap_at :: "SlotKey \<Rightarrow> 'a SlotMap \<Rightarrow> 'a res" where
  "SlotMap_at key m =
     (if unat (index key) < length (slots m) \<and>
         slot_generation (slots m ! unat (index key)) = generation key
      then (case member (slots m ! unat (index key)) of
              Value v \<Rightarrow> Inr v
            | NextFree _ \<Rightarrow> Inl WrongUnionMember)
      else Inl AssertFailed)"

definition SlotMap_erase :: "SlotKey \<Rightarrow> 'a SlotMap \<Rightarrow> (bool \<times> 'a SlotMap) res" where
  "SlotMap_erase key m =
     (if length (slots m) \<le> unat (index key) then Inr (False, m)
      else
        let slot = slots m ! unat (index key) in
        if slot_generation slot \<noteq> generation key then Inr (False, m)
        else case member slot of
          NextFree _ \<Rightarrow> Inl WrongUnionMember
        | Value _ \<Rightarrow>
            Inr (True, m\<lparr>slots := (slots m)[unat (index key) :=
                            \<lparr>slot_generation = slot_generation slot + 1,
                             member = NextFree (free_head m)\<rparr>],
                         free_head := index key,
                         slot_count := slot_count m - 1\<rparr>))"

definition SlotMap_clear :: "'a SlotMap \<Rightarrow> 'a SlotMap res" where
  "SlotMap_clear m =
     (if slot_count m = 0 then Inr m
      else if list_ex (\<lambda>s. even (slot_generation s) \<and> (case member s of Value _ \<Rightarrow> False | NextFree _ \<Rightarrow> True)) (slots m)
      then Inl WrongUnionMember
      else Inr (m\<lparr>slots := [], free_head := InvalidIndex, slot_count := 0\<rparr>))"

definition SlotMap_size :: "'a SlotMap \<Rightarrow> u32" where
  "SlotMap_size m = slot_count m"

definition SlotMap_empty :: "'a SlotMap \<Rightarrow> bool" where
  "SlotMap_empty m = (slot_count m = 0)"

text \<open>The move constructor: the new map and the moved-from one (a moved-from vector is empty).\<close>

definition SlotMap_move :: "'a SlotMap \<Rightarrow> 'a SlotMap \<times> 'a SlotMap" where
  "SlotMap_move other =
     (\<lparr>slots = slots other, free_head = free_head other, slot_count = slot_count other\<rparr>,
      other\<lparr>slots := [], free_head := InvalidIndex, slot_count := 0\<rparr>)"

subsection \<open>Invariant and abstraction\<close>

primrec is_value :: "'a slot_union \<Rightarrow> bool" where
  "is_value (Value v) = True"
| "is_value (NextFree n) = False"

abbreviation active :: "'a Slot \<Rightarrow> bool" where
  "active s \<equiv> is_value (member s)"

primrec free_chain :: "'a Slot list \<Rightarrow> u32 \<Rightarrow> nat list \<Rightarrow> bool" where
  "free_chain ss h [] = (h = InvalidIndex)"
| "free_chain ss h (i # fs) =
     (h \<noteq> InvalidIndex \<and> unat h = i \<and> i < length ss \<and>
      (case member (ss ! i) of Value _ \<Rightarrow> False | NextFree n \<Rightarrow> free_chain ss n fs))"

definition SlotMap_inv :: "'a SlotMap \<Rightarrow> bool" where
  "SlotMap_inv m \<longleftrightarrow>
     length (slots m) < 2 ^ 32 \<and>
     (\<forall>s \<in> set (slots m). even (slot_generation s) = active s) \<and>
     slot_count m = word_of_nat (length (filter active (slots m))) \<and>
     (\<exists>fs. distinct fs \<and> free_chain (slots m) (free_head m) fs)"

lemma SlotMap_invI:
  assumes "length (slots m) < 2 ^ 32" and "\<forall>s \<in> set (slots m). even (slot_generation s) = active s"
    and "slot_count m = word_of_nat (length (filter active (slots m)))"
    and "distinct fs" and "free_chain (slots m) (free_head m) fs"
  shows "SlotMap_inv m"
  using assms by (auto simp: SlotMap_inv_def)

definition SlotMap_abs :: "'a SlotMap \<Rightarrow> SlotKey \<rightharpoonup> 'a" where
  "SlotMap_abs m key =
     (if unat (index key) < length (slots m)
      then (let slot = slots m ! unat (index key) in
            if slot_generation slot = generation key
            then (case member slot of Value v \<Rightarrow> Some v | NextFree _ \<Rightarrow> None) else None)
      else None)"

text \<open>Room for one more element: a free slot, or an index below the reserved one.\<close>

definition SlotMap_room :: "'a SlotMap \<Rightarrow> bool" where
  "SlotMap_room m \<longleftrightarrow> free_head m \<noteq> InvalidIndex \<or> length (slots m) < 2 ^ 32 - 1"

text \<open>Keys that \<open>emplace\<close> can have issued carry an even generation.\<close>

definition issued_key :: "SlotKey \<Rightarrow> bool" where
  "issued_key k \<longleftrightarrow> even (generation k)"

subsection \<open>The free list\<close>

lemma free_chain_bounds: "free_chain ss h fs \<Longrightarrow> i \<in> set fs \<Longrightarrow> i < length ss \<and> \<not> active (ss ! i)"
  by (induction fs arbitrary: h) (auto split: slot_union.splits)

lemma free_chain_update [simp]:
  "i \<notin> set fs \<Longrightarrow> free_chain (ss[i := s]) h fs = free_chain ss h fs"
  by (induction fs arbitrary: h) (auto split: slot_union.splits)

lemma free_chain_append:
  "free_chain ss h fs \<Longrightarrow> free_chain (ss @ [s]) h fs"
  by (induction fs arbitrary: h) (auto simp: nth_append split: slot_union.splits)

lemma free_chain_head:
  assumes "free_chain ss h fs" and "h \<noteq> InvalidIndex"
  obtains nf js where "fs = unat h # js" "unat h < length ss" "member (ss ! unat h) = NextFree nf"
    "free_chain ss nf js"
  using assms by (cases fs) (auto split: slot_union.splits)

lemma unat_InvalidIndex: "unat InvalidIndex = 2 ^ 32 - 1"
  by (simp add: InvalidIndex_def)

lemma SlotKey_index_eq: "(unat (index k) = unat i) = (index k = i)"
  by (simp add: word_unat_eq_iff)

subsection \<open>Each operation against the abstraction\<close>

lemma SlotMap_new_inv: "SlotMap_inv SlotMap_new" "SlotMap_abs SlotMap_new = Map.empty"
  by (auto simp: SlotMap_inv_def SlotMap_new_def SlotMap_abs_def intro: exI [of _ "[]"])

lemma emplace_reuse:
  assumes inv: "SlotMap_inv m" and head: "free_head m \<noteq> InvalidIndex"
  shows "\<exists>k m'. SlotMap_emplace (Some v) m = Inr (Some k, m') \<and> issued_key k \<and> SlotMap_inv m' \<and>
           SlotMap_abs m k = None \<and> SlotMap_abs m' = (SlotMap_abs m)(k \<mapsto> v) \<and>
           length (slots m') = length (slots m)"
proof -
  let ?i = "unat (free_head m)"
  let ?g = "slot_generation (slots m ! ?i) + 1"
  let ?m = "m\<lparr>slots := (slots m)[?i := \<lparr>slot_generation = ?g, member = Value v\<rparr>]\<rparr>"
  let ?k = "SlotKey (free_head m) ?g"
  from inv obtain fs where ch: "distinct fs" "free_chain (slots m) (free_head m) fs"
    by (auto simp: SlotMap_inv_def)
  then obtain nf js where js: "fs = ?i # js" and i: "?i < length (slots m)"
    and nf: "member (slots m ! ?i) = NextFree nf" and tl: "free_chain (slots m) nf js"
    using head by (metis free_chain_head)
  let ?m' = "?m\<lparr>free_head := nf, slot_count := slot_count m + 1\<rparr>"
  have odd: "odd (slot_generation (slots m ! ?i))"
    using inv i nf by (auto simp: SlotMap_inv_def dest: nth_mem)
  have emp: "SlotMap_emplace (Some v) m = Inr (Some ?k, ?m')"
    using head i nf by (simp add: SlotMap_emplace_def SlotMap_take_slot_def Let_def)
  have "?i \<notin> set js" using ch(1) js by simp
  then have chain: "free_chain (slots ?m') nf js" using tl by simp
  have cnt: "length (filter active (slots ?m')) = Suc (length (filter active (slots m)))"
    using i nf by (simp add: filter_update_count_up)
  have all: "\<forall>s \<in> set (slots ?m'). even (slot_generation s) = active s"
    using inv odd i by (auto simp: SlotMap_inv_def dest!: set_update_subset_insert [THEN subsetD])
  have "SlotMap_inv ?m'"
    using inv all cnt chain ch(1) js unfolding SlotMap_inv_def by (auto simp: add.commute)
  moreover have "SlotMap_abs m ?k = None" using i nf by (simp add: SlotMap_abs_def)
  moreover have "SlotMap_abs ?m' = (SlotMap_abs m)(?k \<mapsto> v)"
  proof
    fix key
    show "SlotMap_abs ?m' key = ((SlotMap_abs m)(?k \<mapsto> v)) key"
      using i nf
      by (cases key) (auto simp: SlotMap_abs_def nth_list_update word_unat_eq_iff Let_def)
  qed
  moreover have "issued_key ?k" using odd by (simp add: issued_key_def)
  ultimately show ?thesis using emp by auto
qed

lemma emplace_append:
  assumes inv: "SlotMap_inv m" and head: "free_head m = InvalidIndex"
    and room: "length (slots m) < 2 ^ 32 - 1"
  shows "\<exists>k m'. SlotMap_emplace (Some v) m = Inr (Some k, m') \<and> issued_key k \<and> SlotMap_inv m' \<and>
           SlotMap_abs m k = None \<and> SlotMap_abs m' = (SlotMap_abs m)(k \<mapsto> v) \<and>
           length (slots m') = Suc (length (slots m))"
proof -
  let ?n = "length (slots m)"
  let ?k = "SlotKey (word_of_nat ?n) 0"
  let ?m' = "m\<lparr>slots := slots m @ [\<lparr>slot_generation = 0, member = Value v\<rparr>],
              slot_count := slot_count m + 1\<rparr>"
  have n: "unat (word_of_nat ?n :: u32) = ?n" using room by (simp add: unat_word_of_nat)
  have emp: "SlotMap_emplace (Some v) m = Inr (Some ?k, ?m')"
    using head n by (simp add: SlotMap_emplace_def SlotMap_take_slot_def Let_def)
  from inv obtain fs where "distinct fs" "free_chain (slots m) (free_head m) fs"
    by (auto simp: SlotMap_inv_def)
  then have "distinct fs \<and> free_chain (slots ?m') (free_head ?m') fs"
    by (simp add: free_chain_append)
  then have "SlotMap_inv ?m'"
    using inv room unfolding SlotMap_inv_def by (auto simp: add.commute)
  moreover have "SlotMap_abs m ?k = None" using n by (simp add: SlotMap_abs_def)
  moreover have "SlotMap_abs ?m' = (SlotMap_abs m)(?k \<mapsto> v)"
  proof
    fix key
    have "index key = word_of_nat ?n \<longleftrightarrow> unat (index key) = ?n" by (metis n word_unat_eq_iff)
    then show "SlotMap_abs ?m' key = ((SlotMap_abs m)(?k \<mapsto> v)) key"
      by (cases key) (auto simp: SlotMap_abs_def nth_append n less_Suc_eq)
  qed
  moreover have "issued_key ?k" by (simp add: issued_key_def)
  ultimately show ?thesis using emp by auto
qed

lemma emplace_ok:
  assumes "SlotMap_inv m" and "SlotMap_room m"
  shows "\<exists>k m'. SlotMap_emplace (Some v) m = Inr (Some k, m') \<and> issued_key k \<and> SlotMap_inv m' \<and>
           SlotMap_abs m k = None \<and> SlotMap_abs m' = (SlotMap_abs m)(k \<mapsto> v) \<and>
           length (slots m') \<le> Suc (length (slots m))"
proof (cases "free_head m = InvalidIndex")
  case True
  then show ?thesis
    using emplace_append [OF assms(1) True, of v] assms(2) by (fastforce simp: SlotMap_room_def)
next
  case False
  then show ?thesis using emplace_reuse [OF assms(1) False, of v] by fastforce
qed

lemma SlotMap_get_abs [safe_simps]:
  assumes "SlotMap_inv m" and "issued_key k"
  shows "SlotMap_get k m = Inr (SlotMap_abs m k)"
proof (cases "unat (index k) < length (slots m)")
  case True
  then have "even (slot_generation (slots m ! unat (index k))) = active (slots m ! unat (index k))"
    using assms(1) by (auto simp: SlotMap_inv_def)
  then show ?thesis
    using True assms(2) by (auto simp: SlotMap_get_def SlotMap_abs_def issued_key_def Let_def
        split: slot_union.splits)
qed (simp add: SlotMap_get_def SlotMap_abs_def)

lemma erase_stale:
  assumes "SlotMap_inv m" and "issued_key k" and "SlotMap_abs m k = None"
  shows "SlotMap_erase k m = Inr (False, m)"
proof (cases "unat (index k) < length (slots m)")
  case True
  then have "even (slot_generation (slots m ! unat (index k))) = active (slots m ! unat (index k))"
    using assms(1) by (auto simp: SlotMap_inv_def)
  then show ?thesis
    using True assms(2,3) by (auto simp: SlotMap_erase_def SlotMap_abs_def issued_key_def Let_def
        split: slot_union.splits if_splits)
qed (simp add: SlotMap_erase_def)

lemma erase_live:
  assumes inv: "SlotMap_inv m" and live: "SlotMap_abs m k = Some v"
  shows "\<exists>m'. SlotMap_erase k m = Inr (True, m') \<and> SlotMap_inv m' \<and>
           SlotMap_abs m' = (SlotMap_abs m)(k := None) \<and> length (slots m') = length (slots m) \<and>
           free_head m' = index k"
proof -
  let ?i = "unat (index k)"
  let ?s = "\<lparr>slot_generation = slot_generation (slots m ! ?i) + 1, member = NextFree (free_head m)\<rparr>"
  let ?m' = "m\<lparr>slots := (slots m)[?i := ?s], free_head := index k, slot_count := slot_count m - 1\<rparr>"
  have i: "?i < length (slots m)" and g: "slot_generation (slots m ! ?i) = generation k"
    and v: "member (slots m ! ?i) = Value v"
    using live by (auto simp: SlotMap_abs_def Let_def split: if_splits slot_union.splits)
  have er: "SlotMap_erase k m = Inr (True, ?m')"
    using i g v by (simp add: SlotMap_erase_def Let_def)
  have even: "even (slot_generation (slots m ! ?i))"
    using inv i v by (auto simp: SlotMap_inv_def dest: nth_mem)
  from inv obtain fs where ch: "distinct fs" "free_chain (slots m) (free_head m) fs"
    by (auto simp: SlotMap_inv_def)
  have fresh: "?i \<notin> set fs" using free_chain_bounds [OF ch(2)] v by fastforce
  have "?i < 2 ^ 32 - 1" using i inv by (simp add: SlotMap_inv_def)
  then have "index k \<noteq> InvalidIndex" using unat_InvalidIndex by auto
  then have chain: "distinct (?i # fs) \<and> free_chain (slots ?m') (free_head ?m') (?i # fs)"
    using ch fresh i by simp
  have cnt: "Suc (length (filter active (slots ?m'))) = length (filter active (slots m))"
    using i v by (simp add: filter_update_count_down)
  have all: "\<forall>s \<in> set (slots ?m'). even (slot_generation s) = active s"
    using inv even i by (auto simp: SlotMap_inv_def dest!: set_update_subset_insert [THEN subsetD])
  have "slot_count m - 1 = word_of_nat (length (filter active (slots ?m')))"
    using inv cnt [symmetric] by (simp add: SlotMap_inv_def)
  then have "SlotMap_inv ?m'"
    using inv all chain by (intro SlotMap_invI [where fs = "?i # fs"]) (auto simp: SlotMap_inv_def)
  moreover have "SlotMap_abs ?m' = (SlotMap_abs m)(k := None)"
  proof
    fix key
    show "SlotMap_abs ?m' key = ((SlotMap_abs m)(k := None)) key"
      using i g v by (cases key; cases k)
        (auto simp: SlotMap_abs_def nth_list_update word_unat_eq_iff Let_def)
  qed
  ultimately show ?thesis using er by auto
qed

lemma emplace_throw:
  assumes inv: "SlotMap_inv m" and used: "length (slots m) < 2 ^ 32 - 1"
  shows "\<exists>m'. SlotMap_emplace None m = Inr (None, m') \<and> SlotMap_inv m' \<and>
           SlotMap_abs m' = SlotMap_abs m \<and> length (slots m') \<le> Suc (length (slots m))"
proof -
  from inv obtain fs where ch: "distinct fs" "free_chain (slots m) (free_head m) fs"
    by (auto simp: SlotMap_inv_def)
  show ?thesis
  proof (cases "free_head m = InvalidIndex")
    case True
    let ?m' = "m\<lparr>slots := slots m @ [\<lparr>slot_generation = 1, member = NextFree InvalidIndex\<rparr>]\<rparr>"
    have "SlotMap_inv ?m'"
      using inv ch used by (intro SlotMap_invI [where fs = fs])
        (auto simp: SlotMap_inv_def free_chain_append)
    moreover have "SlotMap_abs ?m' = SlotMap_abs m"
      by (rule ext) (auto simp: SlotMap_abs_def nth_append Let_def)
    ultimately show ?thesis
      using True by (simp add: SlotMap_emplace_def SlotMap_take_slot_def Let_def)
  next
    case False
    then obtain nf js where js: "fs = unat (free_head m) # js" "unat (free_head m) < length (slots m)"
      "member (slots m ! unat (free_head m)) = NextFree nf" "free_chain (slots m) nf js"
      using ch(2) by (metis free_chain_head)
    have "SlotMap_inv (m\<lparr>free_head := nf\<rparr>)"
      using inv ch js by (intro SlotMap_invI [where fs = js]) (auto simp: SlotMap_inv_def)
    moreover have "SlotMap_abs (m\<lparr>free_head := nf\<rparr>) = SlotMap_abs m"
      by (rule ext) (simp add: SlotMap_abs_def)
    ultimately show ?thesis
      using False js by (simp add: SlotMap_emplace_def SlotMap_take_slot_def Let_def)
  qed
qed

lemma count_zero_no_active:
  assumes "SlotMap_inv m" and "slot_count m = 0" and "s \<in> set (slots m)"
  shows "\<not> active s"
proof -
  have "length (filter active (slots m)) < 2 ^ 32"
    using assms(1) le_less_trans [OF length_filter_le] by (auto simp: SlotMap_inv_def)
  then have "length (filter active (slots m)) = 0"
    using assms(1,2) unat_word_of_nat [of "length (filter active (slots m))", where 'a = 32]
    by (simp add: SlotMap_inv_def)
  with assms(3) show ?thesis by (auto simp: filter_empty_conv)
qed

lemma clear_ok:
  assumes "SlotMap_inv m"
  shows "\<exists>m'. SlotMap_clear m = Inr m' \<and> SlotMap_inv m' \<and> SlotMap_abs m' = Map.empty"
proof (cases "slot_count m = 0")
  case True
  have "SlotMap_abs m = Map.empty"
    by (rule ext) (use count_zero_no_active [OF assms True] in
      \<open>fastforce simp: SlotMap_abs_def Let_def split: slot_union.splits dest: nth_mem\<close>)
  with True assms show ?thesis by (simp add: SlotMap_clear_def)
next
  case False
  have "\<not> list_ex (\<lambda>s. even (slot_generation s) \<and>
      (case member s of Value _ \<Rightarrow> False | NextFree _ \<Rightarrow> True)) (slots m)"
    using assms by (auto simp: list_ex_iff SlotMap_inv_def split: slot_union.splits)
  then have "SlotMap_clear m = Inr (m\<lparr>slots := [], free_head := InvalidIndex, slot_count := 0\<rparr>)"
    using False by (simp add: SlotMap_clear_def)
  moreover have "SlotMap_inv (m\<lparr>slots := [], free_head := InvalidIndex, slot_count := 0\<rparr>)"
    by (intro SlotMap_invI [where fs = "[]"]) simp_all
  ultimately show ?thesis by (auto simp: SlotMap_abs_def)
qed

subsection \<open>The contract as an interface\<close>

text \<open>
  A handle store keeps values under keys it issues itself. Clients see a map \<open>contents s\<close>;
  \<open>used\<close> bounds how many more insertions fit below \<open>limit\<close>.
\<close>

datatype ('k, 'v) store_op = Emplace "'v option" | Erase 'k

fun store_run ::
  "('v option \<Rightarrow> 's \<Rightarrow> ('k option \<times> 's) res) \<Rightarrow> ('k \<Rightarrow> 's \<Rightarrow> (bool \<times> 's) res) \<Rightarrow>
   ('k, 'v) store_op list \<Rightarrow> 's \<Rightarrow> 's res" where
  "store_run ins del [] s = Inr s"
| "store_run ins del (Emplace v # ops) s = bind_res (ins v s) (\<lambda>(_, s'). store_run ins del ops s')"
| "store_run ins del (Erase k # ops) s = bind_res (del k s) (\<lambda>(_, s'). store_run ins del ops s')"

fun emplaces :: "('k, 'v) store_op list \<Rightarrow> nat" where
  "emplaces [] = 0"
| "emplaces (Emplace v # ops) = Suc (emplaces ops)"
| "emplaces (Erase k # ops) = emplaces ops"

fun erased_keys :: "('k, 'v) store_op list \<Rightarrow> 'k list" where
  "erased_keys [] = []"
| "erased_keys (Emplace v # ops) = erased_keys ops"
| "erased_keys (Erase k # ops) = k # erased_keys ops"

locale handle_store =
  fixes inv :: "'s \<Rightarrow> bool"
    and contents :: "'s \<Rightarrow> 'k \<rightharpoonup> 'v"
    and issued :: "'k \<Rightarrow> bool"
    and used :: "'s \<Rightarrow> nat"
    and limit :: nat
    and ins :: "'v option \<Rightarrow> 's \<Rightarrow> ('k option \<times> 's) res"
    and del :: "'k \<Rightarrow> 's \<Rightarrow> (bool \<times> 's) res"
    and get :: "'k \<Rightarrow> 's \<Rightarrow> 'v option res"
  assumes ins_ok: "inv s \<Longrightarrow> used s < limit \<Longrightarrow> \<exists>k s'. ins (Some v) s = Inr (Some k, s') \<and> issued k \<and>
        inv s' \<and> contents s k = None \<and> contents s' = (contents s)(k \<mapsto> v) \<and> used s' \<le> Suc (used s)"
    and ins_throw: "inv s \<Longrightarrow> used s < limit \<Longrightarrow> \<exists>s'. ins None s = Inr (None, s') \<and> inv s' \<and>
        contents s' = contents s \<and> used s' \<le> Suc (used s)"
    and del_live: "inv s \<Longrightarrow> contents s k = Some v \<Longrightarrow> \<exists>s'. del k s = Inr (True, s') \<and> inv s' \<and>
        contents s' = (contents s)(k := None) \<and> used s' = used s"
    and del_stale: "inv s \<Longrightarrow> issued k \<Longrightarrow> contents s k = None \<Longrightarrow> del k s = Inr (False, s)"
    and get_contents: "inv s \<Longrightarrow> issued k \<Longrightarrow> get k s = Inr (contents s k)"
begin

lemma ins_step:
  assumes "inv s" "used s < limit"
  obtains r s' where "ins c s = Inr (r, s')" "inv s'" "used s' \<le> Suc (used s)"
    "contents s' = (case r of None \<Rightarrow> contents s | Some k \<Rightarrow> (contents s)(k := c))"
proof (cases c)
  case None
  then show ?thesis using ins_throw [OF assms] that by auto
next
  case (Some v)
  then show ?thesis using ins_ok [OF assms, of v] that by auto
qed

lemma del_step:
  assumes "inv s" "issued k"
  obtains b s' where "del k s = Inr (b, s')" "inv s'" "used s' = used s"
    "contents s' = (contents s)(k := None)" "b = (contents s k \<noteq> None)"
proof (cases "contents s k")
  case None
  then have "(contents s)(k := None) = contents s" by auto
  then show ?thesis using del_stale [OF assms None] None assms(1) that by auto
next
  case (Some v)
  then show ?thesis using del_live [OF assms(1) Some] that by auto
qed

lemma run_safe:
  assumes "inv s" and "used s + emplaces ops \<le> limit" and "list_all issued (erased_keys ops)"
  shows "\<exists>s'. store_run ins del ops s = Inr s' \<and> inv s'"
  using assms
proof (induction ops arbitrary: s)
  case Nil
  then show ?case by simp
next
  case (Cons op ops)
  show ?case
  proof (cases op)
    case (Emplace c)
    with Cons.prems have "used s < limit" by simp
    with Cons.prems(1) obtain r s' where "ins c s = Inr (r, s')" "inv s'" "used s' \<le> Suc (used s)"
      by (rule ins_step)
    with Cons Emplace show ?thesis by fastforce
  next
    case (Erase k)
    with Cons.prems have "issued k" by simp
    with Cons.prems(1) obtain b s' where "del k s = Inr (b, s')" "inv s'" "used s' = used s"
      by (rule del_step)
    with Cons Erase show ?thesis by fastforce
  qed
qed

lemma insert_then_lookup:
  assumes "inv s" "used s < limit" "issued k'"
  shows "\<exists>k s'. ins (Some v) s = Inr (Some k, s') \<and> get k s' = Inr (Some v) \<and>
           (k' \<noteq> k \<longrightarrow> get k' s' = get k' s)"
  using ins_ok [OF assms(1,2), of v] get_contents assms by fastforce

lemma erase_then_lookup:
  assumes "inv s" "issued k"
  shows "\<exists>b s'. del k s = Inr (b, s') \<and> get k s' = Inr None \<and>
           (\<forall>k'. issued k' \<and> k' \<noteq> k \<longrightarrow> get k' s' = get k' s)"
proof -
  obtain b s' where "del k s = Inr (b, s')" "inv s'" "contents s' = (contents s)(k := None)"
    using del_step [OF assms] by metis
  then show ?thesis using get_contents assms by auto
qed

end

interpretation sm: handle_store SlotMap_inv SlotMap_abs issued_key "\<lambda>m. length (slots m)" "2 ^ 32 - 1"
  SlotMap_emplace SlotMap_erase SlotMap_get
proof (unfold_locales, goal_cases)
  case (1 m v)
  then show ?case using emplace_ok [of m v] by (auto simp: SlotMap_room_def)
next
  case (2 m)
  then show ?case by (rule emplace_throw)
next
  case (3 m k v)
  then show ?case using erase_live [of m k v] by auto
next
  case (4 m k)
  then show ?case by (rule erase_stale)
next
  case (5 m k)
  then show ?case by (rule SlotMap_get_abs)
qed

subsection \<open>How far a slot has moved past a key\<close>

text \<open>The number of generations between a key and its slot, modulo \<open>2 ^ 32\<close>.\<close>

definition key_lag :: "SlotKey \<Rightarrow> 'a SlotMap \<Rightarrow> nat" where
  "key_lag k m = unat (slot_generation (slots m ! unat (index k)) - generation k)"

definition stale_by :: "SlotKey \<Rightarrow> 'a SlotMap \<Rightarrow> nat \<Rightarrow> bool" where
  "stale_by k m n \<longleftrightarrow> unat (index k) < length (slots m) \<and> 0 < key_lag k m \<and> key_lag k m \<le> n"

lemma key_lag_bump:
  "unat (g - k) + 1 < 2 ^ 32 \<Longrightarrow> unat (g + 1 - k) = unat (g - k) + 1" for g k :: u32
proof -
  assume "unat (g - k) + 1 < 2 ^ 32"
  then have "unat ((g - k) + 1) = unat (g - k) + 1" by (intro unat_add1) simp
  then show "unat (g + 1 - k) = unat (g - k) + 1" by (simp only: add_diff_eq diff_add_eq)
qed

lemma stale_by_mono: "stale_by k m n \<Longrightarrow> n \<le> n' \<Longrightarrow> stale_by k m n'"
  by (auto simp: stale_by_def)

lemma stale_by_get: "stale_by k m n \<Longrightarrow> SlotMap_get k m = Inr None"
  by (auto simp: stale_by_def key_lag_def SlotMap_get_def Let_def)

lemma stale_by_bump:
  assumes "stale_by k m n" "n + 1 < 2 ^ 32" "i < length (slots m)"
    and "slots m' = (slots m)[i := s]" and "slot_generation s = slot_generation (slots m ! i) + 1"
  shows "stale_by k m' (Suc n)"
proof (cases "i = unat (index k)")
  case True
  have "key_lag k m + 1 < 2 ^ 32" using assms(1,2) by (simp add: stale_by_def)
  then have "key_lag k m' = key_lag k m + 1"
    using assms(3-5) True key_lag_bump by (simp add: key_lag_def)
  then show ?thesis using assms(1,4) by (simp add: stale_by_def)
next
  case False
  then show ?thesis using assms(1,4) by (simp add: stale_by_def key_lag_def)
qed

lemma stale_by_append:
  assumes "stale_by k m n" and "slots m' = slots m @ [s]"
  shows "stale_by k m' (Suc n)"
  using assms by (auto simp: stale_by_def key_lag_def nth_append)

lemma stale_by_emplace:
  assumes "stale_by k m n" "n + 1 < 2 ^ 32" and run: "SlotMap_emplace c m = Inr (r, m')"
  shows "stale_by k m' (Suc n)"
proof (cases "free_head m = InvalidIndex")
  case True
  then show ?thesis
    using run stale_by_append [OF assms(1), of m']
    by (auto simp: SlotMap_emplace_def SlotMap_take_slot_def Let_def bind_res_Inr_iff
        split: option.splits if_splits)
next
  case False
  then have i: "unat (free_head m) < length (slots m)"
    using run by (auto simp: SlotMap_emplace_def SlotMap_take_slot_def Let_def bind_res_Inr_iff
        split: if_splits)
  show ?thesis
  proof (cases c)
    case None
    then have "slots m' = slots m"
      using run False i by (auto simp: SlotMap_emplace_def SlotMap_take_slot_def Let_def
          split: slot_union.splits)
    with assms(1) show ?thesis by (auto simp: stale_by_def key_lag_def)
  next
    case (Some v)
    then show ?thesis
      using run False i stale_by_bump [OF assms(1,2) i, of m']
      by (auto simp: SlotMap_emplace_def SlotMap_take_slot_def Let_def split: slot_union.splits)
  qed
qed

lemma stale_by_erase:
  assumes "stale_by k m n" "n + 1 < 2 ^ 32" and run: "SlotMap_erase j m = Inr (b, m')"
  shows "stale_by k m' (Suc n)"
proof (cases "slots m' = slots m")
  case True
  with assms(1) show ?thesis by (auto simp: stale_by_def key_lag_def)
next
  case False
  then show ?thesis
    using run stale_by_bump [OF assms(1,2), of "unat (index j)" m']
    by (auto simp: SlotMap_erase_def Let_def not_le split: if_splits slot_union.splits)
qed

lemma stale_by_run:
  assumes "stale_by k m n" "n + length ops < 2 ^ 32"
    and "store_run SlotMap_emplace SlotMap_erase ops m = Inr m'"
  shows "stale_by k m' (n + length ops)"
  using assms
proof (induction ops arbitrary: m n)
  case Nil
  then show ?case by simp
next
  case (Cons op ops)
  then have n: "n + 1 < 2 ^ 32" by simp
  obtain m1 where "stale_by k m1 (Suc n)" "store_run SlotMap_emplace SlotMap_erase ops m1 = Inr m'"
  proof (cases op)
    case (Emplace c)
    then show ?thesis
      using Cons.prems stale_by_emplace [OF Cons.prems(1) n] that by (auto simp: bind_res_Inr_iff)
  next
    case (Erase j)
    then show ?thesis
      using Cons.prems stale_by_erase [OF Cons.prems(1) n] that by (auto simp: bind_res_Inr_iff)
  qed
  with Cons.IH [of m1 "Suc n"] Cons.prems(2) show ?case by simp
qed

lemma erase_makes_stale:
  assumes "SlotMap_erase k m = Inr (True, m')"
  shows "stale_by k m' 1"
  using assms by (auto simp: SlotMap_erase_def Let_def stale_by_def key_lag_def not_le
      split: if_splits slot_union.splits)

subsection \<open>Properties\<close>

text \<open>
  C16. Refinement to a finite map. From a well-formed map with fewer than \<open>2 ^ 32 - 1\<close> slots,
  \<open>emplace\<close> returns a key that was not in use, a lookup of that key gives the stored value,
  every other issued key looks up to what it did before, the invariant is kept, and the map of live
  keys is extended by exactly this binding.
\<close>

theorem slotmap_emplace_refines:
  assumes "SlotMap_inv m" and "length (slots m) < 2 ^ 32 - 1"
  shows "\<exists>k m'. SlotMap_emplace (Some v) m = Inr (Some k, m') \<and> SlotMap_inv m' \<and>
           SlotMap_abs m k = None \<and> SlotMap_abs m' = (SlotMap_abs m)(k \<mapsto> v) \<and>
           SlotMap_get k m' = Inr (Some v) \<and>
           (\<forall>k'. issued_key k' \<and> k' \<noteq> k \<longrightarrow> SlotMap_get k' m' = SlotMap_get k' m)"
proof -
  obtain k m' where "SlotMap_emplace (Some v) m = Inr (Some k, m')" "issued_key k" "SlotMap_inv m'"
      "SlotMap_abs m k = None" "SlotMap_abs m' = (SlotMap_abs m)(k \<mapsto> v)"
    using sm.ins_ok [OF assms, of v] by blast
  then show ?thesis using assms(1) by (auto simp: sm.get_contents)
qed

theorem slotmap_emplace_refines_witness:
  "\<exists>k m'. SlotMap_emplace (Some True) SlotMap_new = Inr (Some k, m') \<and>
     SlotMap_get k m' = Inr (Some True)"
  using slotmap_emplace_refines [OF SlotMap_new_inv(1), of True]
  by (auto simp: SlotMap_new_def)

text \<open>
  C15. Memory safety of any sequence of operations. Any sequence of \<open>emplace\<close> calls (whose
  constructors may throw) and \<open>erase\<close> calls with keys of even generation, long enough to fit
  below the index limit, runs without a fault (no out-of-range slot, no read of an inactive union
  member) and keeps the invariant: the free list stays acyclic and disjoint from the live slots.
\<close>

theorem slotmap_runs_safe:
  assumes "SlotMap_inv m" and "length (slots m) + emplaces ops \<le> 2 ^ 32 - 1"
    and "list_all issued_key (erased_keys ops)"
  shows "\<exists>m'. store_run SlotMap_emplace SlotMap_erase ops m = Inr m' \<and> SlotMap_inv m'"
  using assms by (rule sm.run_safe)

theorem slotmap_runs_safe_witness:
  "\<exists>m'. store_run SlotMap_emplace SlotMap_erase
      [Emplace (Some True), Erase (SlotKey 0 0), Emplace None, Emplace (Some False)] SlotMap_new
      = Inr m' \<and> SlotMap_inv m'"
  by (rule slotmap_runs_safe [OF SlotMap_new_inv(1)]) (simp_all add: SlotMap_new_def issued_key_def)

text \<open>
  C18. Stale keys. Once a key has been erased it looks up to nothing after any sequence of fewer than
  \<open>2 ^ 32 - 1\<close> further \<open>emplace\<close> and \<open>erase\<close> calls, also when its slot is reused.
\<close>

theorem slotmap_erased_key_stays_stale:
  assumes "SlotMap_erase k m = Inr (True, m')"
    and "store_run SlotMap_emplace SlotMap_erase ops m' = Inr m''" and "length ops < 2 ^ 32 - 1"
  shows "SlotMap_get k m'' = Inr None"
proof -
  have "stale_by k m'' (1 + length ops)"
    using stale_by_run [OF erase_makes_stale [OF assms(1)] _ assms(2)] assms(3) by simp
  then show ?thesis by (rule stale_by_get)
qed

theorem slotmap_erased_key_stays_stale_witness:
  "\<exists>m1 m2 m3. SlotMap_emplace (Some True) SlotMap_new = Inr (Some (SlotKey 0 0), m1) \<and>
     SlotMap_erase (SlotKey 0 0) m1 = Inr (True, m2) \<and>
     store_run SlotMap_emplace SlotMap_erase [Emplace (Some False)] m2 = Inr m3 \<and>
     SlotMap_get (SlotKey 0 0) m3 = Inr None"
proof -
  let ?m1 = "\<lparr>slots = [\<lparr>slot_generation = 0, member = Value True\<rparr>],
              free_head = InvalidIndex, slot_count = 1\<rparr>"
  let ?m2 = "\<lparr>slots = [\<lparr>slot_generation = 1, member = NextFree InvalidIndex\<rparr>],
              free_head = 0, slot_count = 0\<rparr>"
  let ?m3 = "\<lparr>slots = [\<lparr>slot_generation = 2, member = Value False\<rparr>],
              free_head = InvalidIndex, slot_count = 1\<rparr>"
  have 1: "SlotMap_emplace (Some True) SlotMap_new = Inr (Some (SlotKey 0 0), ?m1)"
    by (simp add: SlotMap_emplace_def SlotMap_take_slot_def SlotMap_new_def InvalidIndex_def)
  have 2: "SlotMap_erase (SlotKey 0 0) ?m1 = Inr (True, ?m2)"
    by (simp add: SlotMap_erase_def)
  have 3: "store_run SlotMap_emplace SlotMap_erase [Emplace (Some False)] ?m2 = Inr ?m3"
    by (simp add: SlotMap_emplace_def SlotMap_take_slot_def InvalidIndex_def)
  show ?thesis using 1 2 3 slotmap_erased_key_stays_stale [OF 2 3] by auto
qed

text \<open>
  Clearing forgets the generations. After \<open>clear\<close> of a non-empty map the next
  \<open>emplace\<close> issues the key (0, 0) again, so the first key the map ever issued, which is stale,
  looks up to the new element.
\<close>

theorem slotmap_clear_revives_first_key:
  assumes "SlotMap_inv m" and "slot_count m \<noteq> 0"
  shows "\<exists>m1 m2. SlotMap_clear m = Inr m1 \<and> SlotMap_get (SlotKey 0 0) m1 = Inr None \<and>
           SlotMap_emplace (Some v) m1 = Inr (Some (SlotKey 0 0), m2) \<and>
           SlotMap_get (SlotKey 0 0) m2 = Inr (Some v)"
proof -
  let ?m1 = "m\<lparr>slots := [], free_head := InvalidIndex, slot_count := 0\<rparr>"
  have "SlotMap_clear m = Inr ?m1"
    using clear_ok [OF assms(1)] assms(2) by (auto simp: SlotMap_clear_def split: if_splits)
  then show ?thesis
    by (simp add: SlotMap_get_def SlotMap_emplace_def SlotMap_take_slot_def Let_def)
qed

theorem slotmap_clear_revives_first_key_witness:
  "\<exists>m1 m2. SlotMap_clear \<lparr>slots = [\<lparr>slot_generation = 0, member = Value True\<rparr>],
      free_head = InvalidIndex, slot_count = 1\<rparr> = Inr m1 \<and>
     SlotMap_emplace (Some False) m1 = Inr (Some (SlotKey 0 0), m2)"
proof -
  have "SlotMap_inv \<lparr>slots = [\<lparr>slot_generation = 0, member = Value True\<rparr>],
      free_head = InvalidIndex, slot_count = 1\<rparr>"
    by (intro SlotMap_invI [where fs = "[]"]) simp_all
  from slotmap_clear_revives_first_key [OF this, of False] show ?thesis by auto
qed

end
