(* ===== verification/Ring_Buffer.thy ===== *)
theory Ring_Buffer
  imports Eux_Prelude
begin

text \<open>
  The pending-request buffer of \<open>axon/include/axon/utils/ring_buffer.hpp\<close>: a fixed array of
  slots indexed by the low bits of the request id, each with an atomic state, the session id used
  for validation and the value, and an atomic element count.
  The first part models every member function as one atomic operation (the calls of one thread).
  The weak compare-exchange of \<open>emplace\<close> may fail spuriously, which is an argument.
  The second part splits the calls at their atomic accesses into a step relation over any number of
  threads. \<open>Size\<close>, the template argument, is the length of the slot array, a power of two.
\<close>

unbundle bit_operations_syntax

subsection \<open>The class\<close>

datatype SlotState = Empty | Occupied

record ('s, 'v) RSlot =
  rs_state :: SlotState
  rs_session :: 's
  rs_value :: 'v
  rs_alive :: bool

record ('s, 'v) RingBuffer =
  rslots :: "('s, 'v) RSlot list"
  rsize :: u64

definition RingBuffer_new :: "nat \<Rightarrow> 's \<Rightarrow> 'v \<Rightarrow> ('s, 'v) RingBuffer" where
  "RingBuffer_new sz s0 v0 =
     \<lparr>rslots = replicate sz \<lparr>rs_state = Empty, rs_session = s0, rs_value = v0, rs_alive = True\<rparr>,
      rsize = 0\<rparr>"

definition RingBuffer_capacity :: "('s, 'v) RingBuffer \<Rightarrow> u64" where
  "RingBuffer_capacity b = word_of_nat (length (rslots b))"

definition request_id_to_index :: "u64 \<Rightarrow> u32 \<Rightarrow> u64" where
  "request_id_to_index sz request_id = ucast request_id AND (sz - 1)"

abbreviation ridx :: "('s, 'v) RingBuffer \<Rightarrow> u32 \<Rightarrow> nat" where
  "ridx b r \<equiv> unat (request_id_to_index (RingBuffer_capacity b) r)"

definition RingBuffer_emplace ::
  "bool \<Rightarrow> u32 \<Rightarrow> 's \<Rightarrow> 'v \<Rightarrow> ('s, 'v) RingBuffer \<Rightarrow> (bool \<times> ('s, 'v) RingBuffer) res" where
  "RingBuffer_emplace spurious request_id session_id v b =
     (let idx = ridx b request_id in
      if length (rslots b) \<le> idx then Inl OutOfBounds
      else
        let slot = rslots b ! idx in
        if rs_state slot \<noteq> Empty \<or> spurious then
          if rs_state slot = Occupied then
            if rs_session slot = session_id
            then Inr (True, b\<lparr>rslots := (rslots b)[idx := slot\<lparr>rs_value := v\<rparr>]\<rparr>)
            else Inr (False, b)
          else Inr (False, b)
        else if RingBuffer_capacity b \<le> rsize b then Inr (False, b)
        else Inr (True, b\<lparr>rslots := (rslots b)[idx :=
                             \<lparr>rs_state = Occupied, rs_session = session_id, rs_value = v, rs_alive = True\<rparr>],
                          rsize := rsize b + 1\<rparr>))"

definition RingBuffer_find :: "u32 \<Rightarrow> 's \<Rightarrow> ('s, 'v) RingBuffer \<Rightarrow> u64 res" where
  "RingBuffer_find request_id session_id b =
     (let idx = ridx b request_id in
      if length (rslots b) \<le> idx then Inl OutOfBounds
      else
        let slot = rslots b ! idx in
        if rs_state slot = Occupied \<and> rs_session slot = session_id
        then Inr (word_of_nat idx) else Inr (RingBuffer_capacity b))"

definition RingBuffer_erase :: "u32 \<Rightarrow> ('s, 'v) RingBuffer \<Rightarrow> (bool \<times> ('s, 'v) RingBuffer) res" where
  "RingBuffer_erase request_id b =
     (let idx = ridx b request_id in
      if length (rslots b) \<le> idx then Inl OutOfBounds
      else
        let slot = rslots b ! idx in
        if rs_state slot \<noteq> Occupied then Inr (False, b)
        else if \<not> rs_alive slot then Inl UseAfterFree
        else Inr (True, b\<lparr>rslots := (rslots b)[idx := slot\<lparr>rs_state := Empty, rs_alive := False\<rparr>],
                          rsize := rsize b - 1\<rparr>))"

definition RingBuffer_erase_session ::
  "u32 \<Rightarrow> 's \<Rightarrow> ('s, 'v) RingBuffer \<Rightarrow> (bool \<times> ('s, 'v) RingBuffer) res" where
  "RingBuffer_erase_session request_id session_id b =
     (let idx = ridx b request_id in
      if length (rslots b) \<le> idx then Inl OutOfBounds
      else
        let slot = rslots b ! idx in
        if rs_state slot \<noteq> Occupied then Inr (False, b)
        else if rs_session slot \<noteq> session_id then Inr (False, b)
        else if \<not> rs_alive slot then Inl UseAfterFree
        else Inr (True, b\<lparr>rslots := (rslots b)[idx := slot\<lparr>rs_state := Empty, rs_alive := False\<rparr>],
                          rsize := rsize b - 1\<rparr>))"

definition RingBuffer_size :: "('s, 'v) RingBuffer \<Rightarrow> u64" where
  "RingBuffer_size b = rsize b"

definition RingBuffer_empty :: "('s, 'v) RingBuffer \<Rightarrow> bool" where
  "RingBuffer_empty b = (RingBuffer_size b = 0)"

definition RingBuffer_full :: "('s, 'v) RingBuffer \<Rightarrow> bool" where
  "RingBuffer_full b = (RingBuffer_capacity b \<le> RingBuffer_size b)"

fun clear_slots :: "('s, 'v) RSlot list \<Rightarrow> ('s, 'v) RSlot list res" where
  "clear_slots [] = Inr []"
| "clear_slots (slot # rest) =
     (if rs_state slot = Occupied \<and> \<not> rs_alive slot then Inl UseAfterFree
      else bind_res (clear_slots rest) (\<lambda>rest'.
        Inr (slot\<lparr>rs_state := Empty, rs_alive := rs_alive slot \<and> rs_state slot \<noteq> Occupied\<rparr> # rest')))"

definition RingBuffer_clear :: "('s, 'v) RingBuffer \<Rightarrow> ('s, 'v) RingBuffer res" where
  "RingBuffer_clear b =
     bind_res (clear_slots (rslots b)) (\<lambda>ss. Inr (b\<lparr>rslots := ss, rsize := 0\<rparr>))"

text \<open>
  \<open>Slot::~Slot\<close> runs its body (explicit destructor calls when the slot is occupied) and then,
  as every C++ destructor, destroys the members. Destroying a dead object is a fault.
\<close>

definition Slot_destroy :: "('s, 'v) RSlot \<Rightarrow> ('s, 'v) RSlot res" where
  "Slot_destroy slot =
     bind_res (if rs_state slot = Occupied
               then if rs_alive slot then Inr (slot\<lparr>rs_alive := False\<rparr>) else Inl UseAfterFree
               else Inr slot)
       (\<lambda>slot'. if rs_alive slot' then Inr (slot'\<lparr>rs_alive := False\<rparr>) else Inl UseAfterFree)"

fun destroy_slots :: "('s, 'v) RSlot list \<Rightarrow> unit res" where
  "destroy_slots [] = Inr ()"
| "destroy_slots (slot # rest) = bind_res (Slot_destroy slot) (\<lambda>_. destroy_slots rest)"

definition RingBuffer_destroy :: "('s, 'v) RingBuffer \<Rightarrow> unit res" where
  "RingBuffer_destroy b = bind_res (RingBuffer_clear b) (\<lambda>b'. destroy_slots (rslots b'))"

definition RingBuffer_at :: "u64 \<Rightarrow> ('s, 'v) RingBuffer \<Rightarrow> 'v res" where
  "RingBuffer_at idx b =
     (if unat idx < length (rslots b) \<and> rs_state (rslots b ! unat idx) = Occupied
      then Inr (rs_value (rslots b ! unat idx)) else Inl AssertFailed)"

definition RingBuffer_session_id_at :: "u64 \<Rightarrow> ('s, 'v) RingBuffer \<Rightarrow> 's res" where
  "RingBuffer_session_id_at idx b =
     (if unat idx < length (rslots b) \<and> rs_state (rslots b ! unat idx) = Occupied
      then Inr (rs_session (rslots b ! unat idx)) else Inl AssertFailed)"

text \<open>The iterator: \<open>advance_to_next_occupied\<close> and the loop \<open>begin() .. end()\<close>.\<close>

function advance_to_next_occupied :: "('s, 'v) RingBuffer \<Rightarrow> nat \<Rightarrow> nat" where
  "advance_to_next_occupied b idx =
     (if idx < length (rslots b) then
        if rs_state (rslots b ! idx) = Occupied then idx
        else advance_to_next_occupied b (Suc idx)
      else idx)"
  by pat_completeness auto
termination
  by (relation "measure (\<lambda>(b, i). length (rslots b) - i)") auto

declare advance_to_next_occupied.simps [simp del]

record ('s, 'v) Entry =
  entry_request_id :: u32
  entry_session_id :: 's
  entry_value :: 'v

definition Iterator_deref :: "('s, 'v) RingBuffer \<Rightarrow> nat \<Rightarrow> ('s, 'v) Entry" where
  "Iterator_deref b idx =
     \<lparr>entry_request_id = word_of_nat idx, entry_session_id = rs_session (rslots b ! idx),
      entry_value = rs_value (rslots b ! idx)\<rparr>"

lemma advance_bounds:
  "idx \<le> length (rslots b) \<Longrightarrow>
   idx \<le> advance_to_next_occupied b idx \<and> advance_to_next_occupied b idx \<le> length (rslots b)"
proof (induction b idx rule: advance_to_next_occupied.induct)
  case (1 b idx)
  then show ?case by (subst (1 2) advance_to_next_occupied.simps) auto
qed

function iterate_from :: "('s, 'v) RingBuffer \<Rightarrow> nat \<Rightarrow> ('s, 'v) Entry list" where
  "iterate_from b idx =
     (let i = advance_to_next_occupied b idx in
      if i < length (rslots b) then Iterator_deref b i # iterate_from b (Suc i) else [])"
  by pat_completeness auto
termination
proof (relation "measure (\<lambda>(b, i). length (rslots b) - i)", goal_cases)
  case (2 b idx i)
  have "idx \<le> i"
  proof (cases "idx \<le> length (rslots b)")
    case True
    then show ?thesis using advance_bounds [OF True] 2(1) by simp
  next
    case False
    then show ?thesis using 2(1) by (simp add: advance_to_next_occupied.simps [of b idx])
  qed
  with 2 show ?case by auto
qed simp

declare iterate_from.simps [simp del]

subsection \<open>Invariant\<close>

abbreviation occupied :: "('s, 'v) RSlot \<Rightarrow> bool" where
  "occupied s \<equiv> rs_state s = Occupied"

definition occupied_count :: "('s, 'v) RingBuffer \<Rightarrow> nat" where
  "occupied_count b = length (filter occupied (rslots b))"

definition pow2_size :: "('s, 'v) RingBuffer \<Rightarrow> bool" where
  "pow2_size b \<longleftrightarrow> (\<exists>k < 64. length (rslots b) = 2 ^ k)"

definition RingBuffer_inv :: "('s, 'v) RingBuffer \<Rightarrow> bool" where
  "RingBuffer_inv b \<longleftrightarrow> pow2_size b \<and> rsize b = word_of_nat (occupied_count b) \<and>
     list_all (\<lambda>s. occupied s \<longrightarrow> rs_alive s) (rslots b)"

text \<open>The entry an index holds, the abstract view of the buffer.\<close>

definition RingBuffer_abs :: "('s, 'v) RingBuffer \<Rightarrow> nat \<rightharpoonup> 's \<times> 'v" where
  "RingBuffer_abs b i =
     (if i < length (rslots b) \<and> occupied (rslots b ! i)
      then Some (rs_session (rslots b ! i), rs_value (rslots b ! i)) else None)"

lemma SlotState_neq [simp]: "(s \<noteq> Occupied) = (s = Empty)" "(s \<noteq> Empty) = (s = Occupied)"
  by (cases s; simp)+

lemma pow2_length_bound: "pow2_size b \<Longrightarrow> length (rslots b) < 2 ^ 64"
  using power_strict_increasing [of _ 64 "2 :: nat"] by (auto simp: pow2_size_def simp del: power_numeral)

lemma unat_capacity: "pow2_size b \<Longrightarrow> unat (RingBuffer_capacity b) = length (rslots b)"
  using unat_word_of_nat [of "length (rslots b)", where 'a = 64] pow2_length_bound
  by (auto simp: RingBuffer_capacity_def)

text \<open>The mask is the remainder: the index of a request id is its value modulo \<open>Size\<close>.\<close>

lemma ridx_mod:
  assumes "pow2_size b"
  shows "ridx b r = unat r mod length (rslots b)"
proof -
  from assms obtain k where k: "k < 64" "length (rslots b) = 2 ^ k" by (auto simp: pow2_size_def)
  have "RingBuffer_capacity b - 1 = mask k"
    using k by (simp add: RingBuffer_capacity_def mask_eq_exp_minus_1)
  then have "request_id_to_index (RingBuffer_capacity b) r = take_bit k (ucast r)"
    by (simp add: request_id_to_index_def take_bit_eq_mask)
  moreover have "unat (take_bit k (ucast r :: u64)) = unat r mod 2 ^ k"
  proof -
    have "unat (take_bit k (ucast r :: u64)) = take_bit k (unat (ucast r :: u64))"
      by (rule unsigned_take_bit_eq)
    also have "unat (ucast r :: u64) = unat r"
      using unat_bound [of r] by (simp add: unsigned_ucast_eq take_bit_nat_eq_self)
    finally show ?thesis by (simp add: take_bit_eq_mod)
  qed
  ultimately show ?thesis by (simp add: k)
qed

lemma ridx_bound: "pow2_size b \<Longrightarrow> ridx b r < length (rslots b)"
  using ridx_mod [of b r] by (auto simp: pow2_size_def)

subsection \<open>Specification: a table of entries guarded by their session\<close>

definition table_put :: "bool \<Rightarrow> nat \<Rightarrow> 's \<Rightarrow> 'v \<Rightarrow> (nat \<rightharpoonup> 's \<times> 'v) \<Rightarrow> bool \<times> (nat \<rightharpoonup> 's \<times> 'v)" where
  "table_put refused i s v m =
     (case m i of
        None \<Rightarrow> if refused then (False, m) else (True, m(i \<mapsto> (s, v)))
      | Some (s', _) \<Rightarrow> if s' = s then (True, m(i \<mapsto> (s, v))) else (False, m))"

definition table_find :: "nat \<Rightarrow> 's \<Rightarrow> (nat \<rightharpoonup> 's \<times> 'v) \<Rightarrow> 'v option" where
  "table_find i s m = (case m i of None \<Rightarrow> None | Some (s', v) \<Rightarrow> if s' = s then Some v else None)"

definition table_take :: "nat \<Rightarrow> 's \<Rightarrow> (nat \<rightharpoonup> 's \<times> 'v) \<Rightarrow> nat \<rightharpoonup> 's \<times> 'v" where
  "table_take i s m = (if table_find i s m = None then m else m(i := None))"

subsection \<open>Each operation against the view\<close>

definition RingBuffer_lookup :: "u32 \<Rightarrow> 's \<Rightarrow> ('s, 'v) RingBuffer \<Rightarrow> 'v option res" where
  "RingBuffer_lookup request_id session_id b =
     bind_res (RingBuffer_find request_id session_id b) (\<lambda>i.
       if i = RingBuffer_capacity b then Inr None
       else bind_res (RingBuffer_at i b) (\<lambda>v. Inr (Some v)))"

lemma RingBuffer_new_inv:
  "k < 64 \<Longrightarrow> RingBuffer_inv (RingBuffer_new (2 ^ k) s0 v0)"
  by (auto simp: RingBuffer_inv_def pow2_size_def RingBuffer_new_def occupied_count_def
      intro: list_all_replicate)

lemma RingBuffer_new_view [simp]:
  "RingBuffer_abs (RingBuffer_new n s0 v0) = Map.empty"
  "length (rslots (RingBuffer_new n s0 v0)) = n"
  by (auto simp: RingBuffer_abs_def RingBuffer_new_def fun_eq_iff)

lemma occupied_count_bound: "occupied_count b \<le> length (rslots b)"
  by (simp add: occupied_count_def)

lemma pow2_size_same: "length (rslots b') = length (rslots b) \<Longrightarrow> pow2_size b' = pow2_size b"
  by (simp add: pow2_size_def)

lemma occupied_not_full:
  assumes "i < length (rslots b)" and "rs_state (rslots b ! i) = Empty"
  shows "occupied_count b < length (rslots b)"
  using assms unfolding occupied_count_def by (intro length_filter_less [of "rslots b ! i"]) auto

lemma inv_not_full:
  assumes "RingBuffer_inv b" and "i < length (rslots b)" and "rs_state (rslots b ! i) = Empty"
  shows "rsize b < RingBuffer_capacity b"
  using assms occupied_not_full [OF assms(2,3)] pow2_length_bound [of b]
  by (auto simp: RingBuffer_inv_def word_less_nat_alt unat_capacity unat_word_of_nat)

lemma inv_insert:
  assumes "RingBuffer_inv b" and "i < length (rslots b)" and "rs_state (rslots b ! i) = Empty"
  shows "RingBuffer_inv (b\<lparr>rslots := (rslots b)[i :=
           \<lparr>rs_state = Occupied, rs_session = s, rs_value = v, rs_alive = True\<rparr>], rsize := rsize b + 1\<rparr>)"
  using assms by (auto simp: RingBuffer_inv_def pow2_size_def occupied_count_def
      filter_update_count_up add.commute intro: list_all_update)

lemma inv_modify:
  assumes "RingBuffer_inv b" and "i < length (rslots b)" and "rs_state s = rs_state (rslots b ! i)"
    and "rs_alive s = rs_alive (rslots b ! i)"
  shows "RingBuffer_inv (b\<lparr>rslots := (rslots b)[i := s]\<rparr>)"
proof -
  have "occupied s \<longrightarrow> rs_alive s"
    using assms list_all_nth [of "\<lambda>s. occupied s \<longrightarrow> rs_alive s" "rslots b" i]
    by (simp add: RingBuffer_inv_def)
  then show ?thesis
    using assms by (auto simp: RingBuffer_inv_def pow2_size_def occupied_count_def
        filter_update_count_same intro: list_all_update)
qed

lemma inv_alive:
  "RingBuffer_inv b \<Longrightarrow> i < length (rslots b) \<Longrightarrow> rs_state (rslots b ! i) = Occupied \<Longrightarrow>
   rs_alive (rslots b ! i)"
  using list_all_nth [of "\<lambda>s. occupied s \<longrightarrow> rs_alive s" "rslots b" i]
  by (simp add: RingBuffer_inv_def)

lemma inv_remove:
  assumes "RingBuffer_inv b" and "i < length (rslots b)" and "rs_state (rslots b ! i) = Occupied"
  shows "RingBuffer_inv (b\<lparr>rslots := (rslots b)[i := (rslots b ! i)\<lparr>rs_state := Empty, rs_alive := False\<rparr>],
           rsize := rsize b - 1\<rparr>)"
proof -
  let ?ss = "(rslots b)[i := (rslots b ! i)\<lparr>rs_state := Empty, rs_alive := False\<rparr>]"
  have cnt: "Suc (length (filter occupied ?ss)) = occupied_count b"
    using assms by (simp add: filter_update_count_down occupied_count_def)
  have "rsize b - 1 = word_of_nat (length (filter occupied ?ss))"
    using assms(1) by (simp add: RingBuffer_inv_def cnt [symmetric])
  then show ?thesis
    using assms(1) by (auto simp: RingBuffer_inv_def pow2_size_def occupied_count_def
        intro: list_all_update)
qed

lemma abs_update:
  "i < length (rslots b) \<Longrightarrow> RingBuffer_abs (b\<lparr>rslots := (rslots b)[i := s]\<rparr>) =
     (RingBuffer_abs b)(i := (if occupied s then Some (rs_session s, rs_value s) else None))"
  by (rule ext) (auto simp: RingBuffer_abs_def nth_list_update)

lemma abs_rsize [simp]: "RingBuffer_abs (b\<lparr>rsize := n\<rparr>) = RingBuffer_abs b"
  by (rule ext) (simp add: RingBuffer_abs_def)

lemma ridx_same [simp]:
  "ridx (b\<lparr>rsize := n\<rparr>) r = ridx b r"
  "ridx (b\<lparr>rslots := (rslots b)[i := s]\<rparr>) r = ridx b r"
  by (simp_all add: RingBuffer_capacity_def)

lemma emplace_view:
  assumes "RingBuffer_inv b"
  shows "\<exists>b'. RingBuffer_emplace spurious rid s v b =
      Inr (fst (table_put spurious (ridx b rid) s v (RingBuffer_abs b)), b') \<and>
    RingBuffer_abs b' = snd (table_put spurious (ridx b rid) s v (RingBuffer_abs b)) \<and>
    RingBuffer_inv b' \<and> length (rslots b') = length (rslots b)"
proof -
  let ?i = "ridx b rid"
  have i: "?i < length (rslots b)" using assms ridx_bound by (auto simp: RingBuffer_inv_def)
  show ?thesis
  proof (cases "rs_state (rslots b ! ?i)")
    case Occupied
    show ?thesis
    proof (cases "rs_session (rslots b ! ?i) = s")
      case True
      let ?b = "b\<lparr>rslots := (rslots b)[?i := (rslots b ! ?i)\<lparr>rs_value := v\<rparr>]\<rparr>"
      have "RingBuffer_emplace spurious rid s v b = Inr (True, ?b)"
        using i Occupied True by (simp add: RingBuffer_emplace_def Let_def)
      moreover have "RingBuffer_inv ?b" using assms i by (intro inv_modify) simp_all
      ultimately show ?thesis
        using i Occupied True by (simp add: abs_update RingBuffer_abs_def table_put_def)
    next
      case False
      then show ?thesis
        using i Occupied assms
        by (simp add: RingBuffer_emplace_def Let_def RingBuffer_abs_def table_put_def)
    qed
  next
    case Empty
    then have none: "RingBuffer_abs b ?i = None" by (simp add: RingBuffer_abs_def)
    show ?thesis
    proof (cases spurious)
      case True
      then show ?thesis
        using i Empty assms none by (simp add: RingBuffer_emplace_def Let_def table_put_def)
    next
      case False
      let ?b = "b\<lparr>rslots := (rslots b)[?i := \<lparr>rs_state = Occupied, rs_session = s, rs_value = v, rs_alive = True\<rparr>],
                 rsize := rsize b + 1\<rparr>"
      have "RingBuffer_emplace spurious rid s v b = Inr (True, ?b)"
        using i Empty False inv_not_full [OF assms i Empty]
        by (simp add: RingBuffer_emplace_def Let_def)
      moreover have "RingBuffer_inv ?b" using assms i Empty by (rule inv_insert)
      ultimately show ?thesis
        using i False none by (simp add: abs_update table_put_def)
    qed
  qed
qed

lemma lookup_view [safe_simps]:
  assumes "RingBuffer_inv b"
  shows "RingBuffer_lookup rid s b =
    Inr (table_find (ridx b rid) s (RingBuffer_abs b))"
proof -
  let ?i = "ridx b rid"
  have p: "pow2_size b" using assms by (simp add: RingBuffer_inv_def)
  have i: "?i < length (rslots b)" using ridx_bound [OF p] .
  have "?i < 2 ^ 64" using i pow2_length_bound [OF p] by (rule less_trans)
  then have u: "unat (word_of_nat ?i :: u64) = ?i" by (intro unat_word_of_nat) simp
  have ne: "word_of_nat ?i \<noteq> RingBuffer_capacity b"
    using i u unat_capacity [OF p] by (metis less_irrefl)
  show ?thesis
    using i u ne by (auto simp: RingBuffer_lookup_def RingBuffer_find_def RingBuffer_at_def Let_def
        RingBuffer_abs_def table_find_def)
qed

lemma erase_session_view:
  assumes "RingBuffer_inv b"
  shows "\<exists>b'. RingBuffer_erase_session rid s b =
      Inr (table_find (ridx b rid) s (RingBuffer_abs b) \<noteq> None, b') \<and>
    RingBuffer_abs b' = table_take (ridx b rid) s (RingBuffer_abs b) \<and>
    RingBuffer_inv b' \<and> length (rslots b') = length (rslots b)"
proof -
  let ?i = "ridx b rid"
  let ?b = "b\<lparr>rslots := (rslots b)[?i := (rslots b ! ?i)\<lparr>rs_state := Empty, rs_alive := False\<rparr>], rsize := rsize b - 1\<rparr>"
  have i: "?i < length (rslots b)" using assms ridx_bound by (auto simp: RingBuffer_inv_def)
  show ?thesis
  proof (cases "rs_state (rslots b ! ?i)")
    case Occupied
    show ?thesis
    proof (cases "rs_session (rslots b ! ?i) = s")
      case True
      then have "RingBuffer_erase_session rid s b = Inr (True, ?b)"
        using i Occupied inv_alive [OF assms i Occupied]
        by (simp add: RingBuffer_erase_session_def Let_def)
      moreover have "RingBuffer_inv ?b" using assms i Occupied by (intro inv_remove)
      ultimately show ?thesis
        using i True Occupied
        by (simp add: abs_update RingBuffer_abs_def table_find_def table_take_def)
    next
      case False
      then show ?thesis using i Occupied assms
        by (simp add: RingBuffer_erase_session_def Let_def RingBuffer_abs_def table_find_def table_take_def)
    qed
  next
    case Empty
    then show ?thesis using i assms
      by (simp add: RingBuffer_erase_session_def Let_def RingBuffer_abs_def table_find_def table_take_def)
  qed
qed

lemma erase_view:
  assumes "RingBuffer_inv b"
  shows "\<exists>b'. RingBuffer_erase rid b = Inr (RingBuffer_abs b (ridx b rid) \<noteq> None, b') \<and>
    RingBuffer_inv b' \<and> RingBuffer_abs b' = (RingBuffer_abs b)(ridx b rid := None) \<and>
    length (rslots b') = length (rslots b)"
proof -
  let ?i = "ridx b rid"
  let ?b = "b\<lparr>rslots := (rslots b)[?i := (rslots b ! ?i)\<lparr>rs_state := Empty, rs_alive := False\<rparr>], rsize := rsize b - 1\<rparr>"
  have i: "?i < length (rslots b)" using assms ridx_bound by (auto simp: RingBuffer_inv_def)
  show ?thesis
  proof (cases "rs_state (rslots b ! ?i)")
    case Occupied
    then have "RingBuffer_inv ?b" using assms i by (intro inv_remove)
    with i Occupied inv_alive [OF assms i Occupied] show ?thesis
      by (auto simp: RingBuffer_erase_def Let_def abs_update RingBuffer_abs_def)
  next
    case Empty
    then have none: "RingBuffer_abs b ?i = None" by (simp add: RingBuffer_abs_def)
    then have "(RingBuffer_abs b)(?i := None) = RingBuffer_abs b" by auto
    with i Empty assms none show ?thesis by (auto simp: RingBuffer_erase_def Let_def)
  qed
qed

lemma clear_slots_ok:
  "list_all (\<lambda>s. occupied s \<longrightarrow> rs_alive s) ss \<Longrightarrow> \<exists>ss'. clear_slots ss = Inr ss' \<and>
     length ss' = length ss \<and> (\<forall>i < length ss. rs_state (ss' ! i) = Empty \<and>
       rs_alive (ss' ! i) = (rs_alive (ss ! i) \<and> \<not> occupied (ss ! i)))"
proof (induction ss)
  case Nil
  then show ?case by simp
next
  case (Cons s ss)
  then obtain ss' where ss': "clear_slots ss = Inr ss'" "length ss' = length ss"
    "\<forall>i < length ss. rs_state (ss' ! i) = Empty \<and>
       rs_alive (ss' ! i) = (rs_alive (ss ! i) \<and> \<not> occupied (ss ! i))" by auto
  let ?s = "s\<lparr>rs_state := Empty, rs_alive := rs_alive s \<and> rs_state s \<noteq> Occupied\<rparr>"
  have "clear_slots (s # ss) = Inr (?s # ss')" using Cons.prems ss' by auto
  moreover have "rs_state ((?s # ss') ! i) = Empty \<and>
      rs_alive ((?s # ss') ! i) = (rs_alive ((s # ss) ! i) \<and> \<not> occupied ((s # ss) ! i))"
    if "i < length (s # ss)" for i
    using that ss'(3) by (cases i) auto
  ultimately show ?case using ss'(2) by auto
qed

lemma clear_view:
  assumes "RingBuffer_inv b"
  shows "\<exists>b'. RingBuffer_clear b = Inr b' \<and> RingBuffer_inv b' \<and> RingBuffer_abs b' = Map.empty \<and>
    rsize b' = 0 \<and> length (rslots b') = length (rslots b) \<and>
    (\<forall>i < length (rslots b). rs_state (rslots b' ! i) = Empty \<and>
       rs_alive (rslots b' ! i) = (rs_alive (rslots b ! i) \<and> \<not> occupied (rslots b ! i)))"
proof -
  obtain ss' where ss': "clear_slots (rslots b) = Inr ss'" "length ss' = length (rslots b)"
    "\<forall>i < length (rslots b). rs_state (ss' ! i) = Empty \<and>
       rs_alive (ss' ! i) = (rs_alive (rslots b ! i) \<and> \<not> occupied (rslots b ! i))"
    using clear_slots_ok [of "rslots b"] assms by (auto simp: RingBuffer_inv_def)
  let ?b = "b\<lparr>rslots := ss', rsize := 0\<rparr>"
  have empty: "filter occupied ss' = []" using ss' by (auto simp: filter_empty_conv in_set_conv_nth)
  have "RingBuffer_inv ?b"
    using assms ss'(2,3) empty by (simp add: RingBuffer_inv_def pow2_size_def occupied_count_def
        list_all_length)
  moreover have "RingBuffer_abs ?b = Map.empty"
    using ss'(2,3) by (intro ext) (simp add: RingBuffer_abs_def)
  ultimately show ?thesis using ss' by (auto simp: RingBuffer_clear_def)
qed

subsection \<open>Destruction\<close>

lemma destroy_slots_fault:
  "list_all (\<lambda>s. rs_state s = Empty) ss \<Longrightarrow>
   destroy_slots ss = (if list_all rs_alive ss then Inr () else Inl UseAfterFree)"
  by (induction ss) (auto simp: Slot_destroy_def)

lemma destroy_value:
  assumes "RingBuffer_inv b"
  shows "RingBuffer_destroy b = (if \<forall>i < length (rslots b). rs_alive (rslots b ! i) \<and>
     \<not> occupied (rslots b ! i) then Inr () else Inl UseAfterFree)"
proof -
  obtain b' where b': "RingBuffer_clear b = Inr b'" "length (rslots b') = length (rslots b)"
    "\<forall>i < length (rslots b). rs_state (rslots b' ! i) = Empty \<and>
       rs_alive (rslots b' ! i) = (rs_alive (rslots b ! i) \<and> \<not> occupied (rslots b ! i))"
    using clear_view [OF assms] by auto
  have "list_all (\<lambda>s. rs_state s = Empty) (rslots b')" using b'(2,3) by (simp add: list_all_length)
  then show ?thesis
    using b' destroy_slots_fault [of "rslots b'"] by (auto simp: RingBuffer_destroy_def list_all_length)
qed

subsection \<open>Iteration\<close>

lemma advance_spec:
  assumes "idx \<le> length (rslots b)"
  shows "(\<forall>i. idx \<le> i \<and> i < advance_to_next_occupied b idx \<longrightarrow> \<not> occupied (rslots b ! i)) \<and>
    (advance_to_next_occupied b idx < length (rslots b) \<longrightarrow>
       occupied (rslots b ! advance_to_next_occupied b idx))"
  using assms
proof (induction b idx rule: advance_to_next_occupied.induct)
  case (1 b idx)
  show ?case
  proof (cases "idx < length (rslots b) \<and> \<not> occupied (rslots b ! idx)")
    case True
    then have eq: "advance_to_next_occupied b idx = advance_to_next_occupied b (Suc idx)"
      by (simp add: advance_to_next_occupied.simps [of b idx])
    have "i = idx \<or> Suc idx \<le> i" if "idx \<le> i" for i using that by auto
    then show ?thesis using 1 True unfolding eq by (metis Suc_leI)
  next
    case False
    then show ?thesis using 1(2) by (auto simp: advance_to_next_occupied.simps [of b idx])
  qed
qed

lemma upt_split: "i \<le> k \<Longrightarrow> k < n \<Longrightarrow> [i..<n] = [i..<k] @ k # [Suc k..<n]"
  using upt_add_eq_append [of i k "n - k"] by (simp add: upt_conv_Cons)

lemma iterate_from_filter:
  assumes "idx \<le> length (rslots b)"
  shows "iterate_from b idx =
    map (Iterator_deref b) (filter (\<lambda>i. occupied (rslots b ! i)) [idx..<length (rslots b)])"
  using assms
proof (induction b idx rule: iterate_from.induct)
  case (1 b idx)
  define k where "k = advance_to_next_occupied b idx"
  let ?P = "\<lambda>i. occupied (rslots b ! i)"
  have k: "idx \<le> k" "k \<le> length (rslots b)" using advance_bounds [OF 1(2)] by (simp_all add: k_def)
  have none: "filter ?P [idx..<k] = []"
    using advance_spec [OF 1(2)] by (auto simp: filter_empty_conv k_def)
  show ?case
  proof (cases "k < length (rslots b)")
    case True
    then have "?P k" using advance_spec [OF 1(2)] by (auto simp: k_def)
    then have "filter ?P [idx..<length (rslots b)] = k # filter ?P [Suc k..<length (rslots b)]"
      using none True k by (simp add: upt_split [OF k(1) True])
    moreover have "iterate_from b idx = Iterator_deref b k # iterate_from b (Suc k)"
      using True by (simp add: iterate_from.simps [of b idx] Let_def k_def)
    ultimately show ?thesis using 1(1) [OF k_def True] True by simp
  next
    case False
    then have "k = length (rslots b)" using k by simp
    then show ?thesis using none by (simp add: iterate_from.simps [of b idx] Let_def k_def)
  qed
qed

lemma iterate_from_entries:
  assumes "RingBuffer_inv b" and "length (rslots b) \<le> 2 ^ 32"
  shows "map (\<lambda>e. (unat (entry_request_id e), entry_session_id e, entry_value e)) (iterate_from b 0) =
    [(i, the (RingBuffer_abs b i)). i \<leftarrow> [0..<length (rslots b)], RingBuffer_abs b i \<noteq> None]"
proof -
  have "map (\<lambda>e. (unat (entry_request_id e), entry_session_id e, entry_value e))
      (map (Iterator_deref b) (filter (\<lambda>i. occupied (rslots b ! i)) xs)) =
    [(i, the (RingBuffer_abs b i)). i \<leftarrow> xs, RingBuffer_abs b i \<noteq> None]"
    if "set xs \<subseteq> {..<length (rslots b)}" for xs
    using that
  proof (induction xs)
    case Nil
    then show ?case by simp
  next
    case (Cons i xs)
    then have "i < length (rslots b)" by simp
    moreover from this have "unat (word_of_nat i :: u32) = i"
      using assms(2) by (intro unat_word_of_nat) simp
    ultimately show ?case using Cons by (simp add: Iterator_deref_def RingBuffer_abs_def)
  qed
  then show ?thesis by (simp add: iterate_from_filter [of 0 b] lessThan_atLeast0)
qed

subsection \<open>The interface of a table of pending entries\<close>

datatype ('s, 'v) table_op = Put bool u32 's 'v | Lookup u32 's | Take u32 's

datatype 'v table_ret = Accepted bool | Found "'v option"

fun table_run :: "nat \<Rightarrow> ('s, 'v) table_op list \<Rightarrow> (nat \<rightharpoonup> 's \<times> 'v) \<Rightarrow> 'v table_ret list \<times> (nat \<rightharpoonup> 's \<times> 'v)" where
  "table_run n [] m = ([], m)"
| "table_run n (Put refused r s v # ops) m =
     (let (ok, m1) = table_put refused (unat r mod n) s v m; (rs, m2) = table_run n ops m1
      in (Accepted ok # rs, m2))"
| "table_run n (Lookup r s # ops) m =
     (let (rs, m2) = table_run n ops m in (Found (table_find (unat r mod n) s m) # rs, m2))"
| "table_run n (Take r s # ops) m =
     (let (rs, m2) = table_run n ops (table_take (unat r mod n) s m)
      in (Accepted (table_find (unat r mod n) s m \<noteq> None) # rs, m2))"

fun pending_run ::
  "(bool \<Rightarrow> u32 \<Rightarrow> 's \<Rightarrow> 'v \<Rightarrow> 'b \<Rightarrow> (bool \<times> 'b) res) \<Rightarrow> (u32 \<Rightarrow> 's \<Rightarrow> 'b \<Rightarrow> 'v option res) \<Rightarrow>
   (u32 \<Rightarrow> 's \<Rightarrow> 'b \<Rightarrow> (bool \<times> 'b) res) \<Rightarrow> ('s, 'v) table_op list \<Rightarrow> 'b \<Rightarrow> ('v table_ret list \<times> 'b) res" where
  "pending_run put look tak [] b = Inr ([], b)"
| "pending_run put look tak (Put refused r s v # ops) b =
     bind_res (put refused r s v b) (\<lambda>(ok, b1).
       bind_res (pending_run put look tak ops b1) (\<lambda>(rs, b2). Inr (Accepted ok # rs, b2)))"
| "pending_run put look tak (Lookup r s # ops) b =
     bind_res (look r s b) (\<lambda>x.
       bind_res (pending_run put look tak ops b) (\<lambda>(rs, b2). Inr (Found x # rs, b2)))"
| "pending_run put look tak (Take r s # ops) b =
     bind_res (tak r s b) (\<lambda>(ok, b1).
       bind_res (pending_run put look tak ops b1) (\<lambda>(rs, b2). Inr (Accepted ok # rs, b2)))"

locale pending_table =
  fixes inv :: "'b \<Rightarrow> bool"
    and width :: "'b \<Rightarrow> nat"
    and view :: "'b \<Rightarrow> nat \<rightharpoonup> 's \<times> 'v"
    and put :: "bool \<Rightarrow> u32 \<Rightarrow> 's \<Rightarrow> 'v \<Rightarrow> 'b \<Rightarrow> (bool \<times> 'b) res"
    and look :: "u32 \<Rightarrow> 's \<Rightarrow> 'b \<Rightarrow> 'v option res"
    and tak :: "u32 \<Rightarrow> 's \<Rightarrow> 'b \<Rightarrow> (bool \<times> 'b) res"
  assumes put_law: "inv b \<Longrightarrow>
      \<exists>b'. put f r s v b = Inr (fst (table_put f (unat r mod width b) s v (view b)), b') \<and>
        view b' = snd (table_put f (unat r mod width b) s v (view b)) \<and> inv b' \<and> width b' = width b"
    and look_law: "inv b \<Longrightarrow> look r s b = Inr (table_find (unat r mod width b) s (view b))"
    and tak_law: "inv b \<Longrightarrow>
      \<exists>b'. tak r s b = Inr (table_find (unat r mod width b) s (view b) \<noteq> None, b') \<and>
        view b' = table_take (unat r mod width b) s (view b) \<and> inv b' \<and> width b' = width b"
begin

lemma run_refines:
  assumes "inv b"
  shows "\<exists>b'. pending_run put look tak ops b = Inr (fst (table_run (width b) ops (view b)), b') \<and>
    view b' = snd (table_run (width b) ops (view b)) \<and> inv b' \<and> width b' = width b"
  using assms
proof (induction ops arbitrary: b)
  case Nil
  then show ?case by simp
next
  case (Cons op ops)
  show ?case
  proof (cases op)
    case (Put f r s v)
    obtain b' where b': "put f r s v b = Inr (fst (table_put f (unat r mod width b) s v (view b)), b')"
      "view b' = snd (table_put f (unat r mod width b) s v (view b))" "inv b'" "width b' = width b"
      using put_law [OF Cons.prems] by blast
    show ?thesis using Cons.IH [OF b'(3)] b' Put by (auto simp: split_beta Let_def)
  next
    case (Lookup r s)
    then show ?thesis
      using Cons.IH [OF Cons.prems] look_law [OF Cons.prems] by (auto simp: split_beta Let_def)
  next
    case (Take r s)
    obtain b' where b': "tak r s b = Inr (table_find (unat r mod width b) s (view b) \<noteq> None, b')"
      "view b' = table_take (unat r mod width b) s (view b)" "inv b'" "width b' = width b"
      using tak_law [OF Cons.prems] by blast
    show ?thesis using Cons.IH [OF b'(3)] b' Take by (auto simp: split_beta Let_def)
  qed
qed

lemma put_found:
  assumes "inv b" and "put f r s v b = Inr (True, b')"
  shows "look r s b' = Inr (Some v)"
    and "s' \<noteq> s \<Longrightarrow> look r s' b' = Inr None"
    and "unat r' mod width b \<noteq> unat r mod width b \<Longrightarrow> look r' s' b' = look r' s' b"
  using put_law [OF assms(1), of f r s v] assms
  by (auto simp: look_law table_put_def table_find_def split: option.splits prod.splits if_splits)

lemma taken_once:
  assumes "inv b" and "tak r s b = Inr (ok, b')"
  shows "look r s b' = Inr None" and "\<exists>b2. tak r s b' = Inr (False, b2) \<and> view b2 = view b'"
  using tak_law [OF assms(1), of r s] tak_law [of b' r s] assms
  by (auto simp: look_law table_take_def table_find_def split: option.splits prod.splits if_splits)

end

lemma ridx_width: "RingBuffer_inv b \<Longrightarrow> ridx b r = unat r mod length (rslots b)"
  by (rule ridx_mod) (simp add: RingBuffer_inv_def)

interpretation rb: pending_table RingBuffer_inv "\<lambda>b. length (rslots b)" RingBuffer_abs
  RingBuffer_emplace RingBuffer_lookup RingBuffer_erase_session
proof (unfold_locales, goal_cases)
  case (1 b f r s v)
  then show ?case using emplace_view [OF 1] by (simp add: ridx_width)
next
  case (2 b r s)
  then show ?case by (simp add: lookup_view ridx_width)
next
  case (3 b r s)
  then show ?case using erase_session_view [OF 3] by (simp add: ridx_width)
qed

lemma size_is_card:
  assumes "RingBuffer_inv b"
  shows "RingBuffer_size b = word_of_nat (card (dom (RingBuffer_abs b)))"
    and "card (dom (RingBuffer_abs b)) \<le> length (rslots b)"
proof -
  have "dom (RingBuffer_abs b) = {i. i < length (rslots b) \<and> occupied (rslots b ! i)}"
    by (auto simp: RingBuffer_abs_def split: if_splits)
  then have c: "card (dom (RingBuffer_abs b)) = occupied_count b"
    by (simp add: occupied_count_def length_filter_conv_card)
  show "RingBuffer_size b = word_of_nat (card (dom (RingBuffer_abs b)))"
    using assms c by (simp add: RingBuffer_size_def RingBuffer_inv_def)
  show "card (dom (RingBuffer_abs b)) \<le> length (rslots b)" using c occupied_count_bound by metis
qed

subsection \<open>Concurrent use\<close>

text \<open>
  One thread per index of \<open>pcs\<close>. A program counter names the atomic access or the write a
  thread performs next: \<open>Claimed\<close> after the compare-exchange of \<open>emplace\<close>,
  \<open>Admitted\<close> after the size check, then the two writes and the increment;
  \<open>Updating\<close> after a failed compare-exchange on an occupied slot; \<open>Loaded\<close> and \<open>Validated\<close>
  inside \<open>erase\<close> with a session; \<open>Freed\<close> after the compare-exchange of an erase, before it destroys the two
  objects, and \<open>Destroyed\<close> before its decrement.
\<close>

datatype ('s, 'v) pc =
    Idle
  | Claimed nat 's 'v
  | Admitted nat 's 'v
  | SessionWritten nat 'v
  | ValueWritten nat
  | Updating nat 's 'v
  | Loaded nat 's
  | Validated nat
  | Freed nat
  | Destroyed

record ('s, 'v) conc =
  buf :: "('s, 'v) RingBuffer"
  pcs :: "('s, 'v) pc list"

abbreviation set_slot :: "nat \<Rightarrow> ('s, 'v) RSlot \<Rightarrow> ('s, 'v) conc \<Rightarrow> ('s, 'v) conc" where
  "set_slot i x c \<equiv> c\<lparr>buf := (buf c)\<lparr>rslots := (rslots (buf c))[i := x]\<rparr>\<rparr>"

abbreviation set_count :: "u64 \<Rightarrow> ('s, 'v) conc \<Rightarrow> ('s, 'v) conc" where
  "set_count n c \<equiv> c\<lparr>buf := (buf c)\<lparr>rsize := n\<rparr>\<rparr>"

abbreviation goto :: "nat \<Rightarrow> ('s, 'v) pc \<Rightarrow> ('s, 'v) conc \<Rightarrow> ('s, 'v) conc" where
  "goto t p c \<equiv> c\<lparr>pcs := (pcs c)[t := p]\<rparr>"

abbreviation cslot :: "('s, 'v) conc \<Rightarrow> nat \<Rightarrow> ('s, 'v) RSlot" where
  "cslot c i \<equiv> rslots (buf c) ! i"

inductive rb_step :: "('s, 'v) conc \<Rightarrow> ('s, 'v) conc \<Rightarrow> bool" where
  emplace_claim: "\<lbrakk>t < length (pcs c); pcs c ! t = Idle; i = ridx (buf c) r; rs_state (cslot c i) = Empty\<rbrakk>
    \<Longrightarrow> rb_step c (goto t (Claimed i s v) (set_slot i ((cslot c i)\<lparr>rs_state := Occupied\<rparr>) c))"
| emplace_spurious: "\<lbrakk>t < length (pcs c); pcs c ! t = Idle\<rbrakk> \<Longrightarrow> rb_step c c"
| emplace_busy: "\<lbrakk>t < length (pcs c); pcs c ! t = Idle; i = ridx (buf c) r; rs_state (cslot c i) = Occupied\<rbrakk>
    \<Longrightarrow> rb_step c (goto t (Updating i s v) c)"
| emplace_update: "\<lbrakk>t < length (pcs c); pcs c ! t = Updating i s v; rs_session (cslot c i) = s\<rbrakk>
    \<Longrightarrow> rb_step c (goto t Idle (set_slot i ((cslot c i)\<lparr>rs_value := v\<rparr>) c))"
| emplace_collision: "\<lbrakk>t < length (pcs c); pcs c ! t = Updating i s v; rs_session (cslot c i) \<noteq> s\<rbrakk>
    \<Longrightarrow> rb_step c (goto t Idle c)"
| emplace_full: "\<lbrakk>t < length (pcs c); pcs c ! t = Claimed i s v; RingBuffer_full (buf c)\<rbrakk>
    \<Longrightarrow> rb_step c (goto t Idle (set_slot i ((cslot c i)\<lparr>rs_state := Empty\<rparr>) c))"
| emplace_admit: "\<lbrakk>t < length (pcs c); pcs c ! t = Claimed i s v; \<not> RingBuffer_full (buf c)\<rbrakk>
    \<Longrightarrow> rb_step c (goto t (Admitted i s v) c)"
| emplace_session: "\<lbrakk>t < length (pcs c); pcs c ! t = Admitted i s v\<rbrakk>
    \<Longrightarrow> rb_step c (goto t (SessionWritten i v) (set_slot i ((cslot c i)\<lparr>rs_session := s\<rparr>) c))"
| emplace_value: "\<lbrakk>t < length (pcs c); pcs c ! t = SessionWritten i v\<rbrakk>
    \<Longrightarrow> rb_step c (goto t (ValueWritten i) (set_slot i ((cslot c i)\<lparr>rs_value := v, rs_alive := True\<rparr>) c))"
| emplace_count: "\<lbrakk>t < length (pcs c); pcs c ! t = ValueWritten i\<rbrakk>
    \<Longrightarrow> rb_step c (goto t Idle (set_count (rsize (buf c) + 1) c))"
| erase_cas: "\<lbrakk>t < length (pcs c); pcs c ! t = Idle; i = ridx (buf c) r; rs_state (cslot c i) = Occupied\<rbrakk>
    \<Longrightarrow> rb_step c (goto t (Freed i) (set_slot i ((cslot c i)\<lparr>rs_state := Empty\<rparr>) c))"
| erase_load: "\<lbrakk>t < length (pcs c); pcs c ! t = Idle; i = ridx (buf c) r; rs_state (cslot c i) = Occupied\<rbrakk>
    \<Longrightarrow> rb_step c (goto t (Loaded i s) c)"
| erase_validate: "\<lbrakk>t < length (pcs c); pcs c ! t = Loaded i s; rs_session (cslot c i) = s\<rbrakk>
    \<Longrightarrow> rb_step c (goto t (Validated i) c)"
| erase_mismatch: "\<lbrakk>t < length (pcs c); pcs c ! t = Loaded i s; rs_session (cslot c i) \<noteq> s\<rbrakk>
    \<Longrightarrow> rb_step c (goto t Idle c)"
| erase_session_cas: "\<lbrakk>t < length (pcs c); pcs c ! t = Validated i; rs_state (cslot c i) = Occupied\<rbrakk>
    \<Longrightarrow> rb_step c (goto t (Freed i) (set_slot i ((cslot c i)\<lparr>rs_state := Empty\<rparr>) c))"
| erase_session_lost: "\<lbrakk>t < length (pcs c); pcs c ! t = Validated i; rs_state (cslot c i) = Empty\<rbrakk>
    \<Longrightarrow> rb_step c (goto t Idle c)"
| erase_destroy: "\<lbrakk>t < length (pcs c); pcs c ! t = Freed i\<rbrakk>
    \<Longrightarrow> rb_step c (goto t Destroyed (set_slot i ((cslot c i)\<lparr>rs_alive := False\<rparr>) c))"
| erase_count: "\<lbrakk>t < length (pcs c); pcs c ! t = Destroyed\<rbrakk>
    \<Longrightarrow> rb_step c (goto t Idle (set_count (rsize (buf c) - 1) c))"


inductive_cases rb_stepE: "rb_step c c'"

fun filling :: "('s, 'v) pc \<Rightarrow> nat option" where
  "filling (Claimed i s v) = Some i"
| "filling (Admitted i s v) = Some i"
| "filling (SessionWritten i v) = Some i"
| "filling (ValueWritten i) = Some i"
| "filling _ = None"

fun releasing :: "('s, 'v) pc \<Rightarrow> bool" where
  "releasing (Freed i) = True"
| "releasing Destroyed = True"
| "releasing _ = False"

definition filling_occupied :: "('s, 'v) conc \<Rightarrow> bool" where
  "filling_occupied c \<longleftrightarrow> list_all (\<lambda>p. case filling p of None \<Rightarrow> True
     | Some i \<Rightarrow> rs_state (cslot c i) = Occupied) (pcs c)"

text \<open>
  A run in which no erase takes a slot that an \<open>emplace\<close> is still filling (the client erases a request
  id only after the \<open>emplace\<close> of that id has returned).
\<close>

definition rb_ordered_step :: "('s, 'v) conc \<Rightarrow> ('s, 'v) conc \<Rightarrow> bool" where
  "rb_ordered_step c c' \<longleftrightarrow> rb_step c c' \<and> filling_occupied c'"

definition conc_start :: "nat \<Rightarrow> nat \<Rightarrow> 's \<Rightarrow> 'v \<Rightarrow> ('s, 'v) conc" where
  "conc_start threads k s0 v0 = \<lparr>buf = RingBuffer_new (2 ^ k) s0 v0, pcs = replicate threads Idle\<rparr>"

definition quiescent :: "('s, 'v) conc \<Rightarrow> bool" where
  "quiescent c \<longleftrightarrow> list_all (\<lambda>p. p = Idle) (pcs c)"

fun touched :: "('s, 'v) pc \<Rightarrow> nat option" where
  "touched (Updating i s v) = Some i"
| "touched (Loaded i s) = Some i"
| "touched (Validated i) = Some i"
| "touched (Freed i) = Some i"
| "touched p = filling p"

definition touched_bounds :: "('s, 'v) conc \<Rightarrow> bool" where
  "touched_bounds c \<longleftrightarrow> pow2_size (buf c) \<and> list_all (\<lambda>p. \<forall>i. touched p = Some i \<longrightarrow>
     i < length (rslots (buf c))) (pcs c)"

definition count_balance :: "('s, 'v) conc \<Rightarrow> bool" where
  "count_balance c \<longleftrightarrow>
     rsize (buf c) + word_of_nat (length (filter (\<lambda>p. filling p \<noteq> None) (pcs c))) =
     word_of_nat (occupied_count (buf c)) + word_of_nat (length (filter releasing (pcs c)))"

lemma filling_touched: "filling p = Some i \<Longrightarrow> touched p = Some i"
  by (cases p) auto

lemma touched_bound:
  assumes "touched_bounds c" and "t < length (pcs c)" and "touched (pcs c ! t) = Some i"
  shows "i < length (rslots (buf c))"
  using assms list_all_nth [of _ "pcs c" t] unfolding touched_bounds_def by blast

lemma touched_bounds_goto:
  assumes "touched_bounds c" and "\<And>i. touched p = Some i \<Longrightarrow> i < length (rslots (buf c))"
    and "length (rslots b) = length (rslots (buf c))"
  shows "touched_bounds (c\<lparr>buf := b, pcs := (pcs c)[t := p]\<rparr>)"
  using assms by (auto simp: touched_bounds_def pow2_size_def intro!: list_all_update)

lemma touched_bounds_step:
  assumes "rb_step c c'" and "touched_bounds c"
  shows "touched_bounds c'"
proof -
  have idx: "ridx (buf c) r < length (rslots (buf c))" for r
    using assms(2) ridx_bound by (auto simp: touched_bounds_def)
  have keep: "touched_bounds (goto t p c)" if "\<And>i. touched p = Some i \<Longrightarrow> i < length (rslots (buf c))" for t p
    using touched_bounds_goto [OF assms(2) that, where b = "buf c" and t = t] by simp
  have bnd: "i < length (rslots (buf c))" if "t < length (pcs c)" "touched (pcs c ! t) = Some i" for t i
    using touched_bound [OF assms(2) that] .
  show ?thesis
    using assms(1)
    by (cases rule: rb_step.cases)
       (auto intro!: keep touched_bounds_goto [OF assms(2)] simp: idx assms(2) dest: bnd)
qed

lemma count_balance_step:
  assumes "rb_step c c'" and "count_balance c" and "touched_bounds c" and "filling_occupied c"
  shows "count_balance c'"
proof -
  have occ: "rs_state (cslot c i) = Occupied" if "t < length (pcs c)" "filling (pcs c ! t) = Some i" for t i
    using list_all_nth [OF assms(4) [unfolded filling_occupied_def] that(1)] that(2) by simp
  have bnd: "i < length (rslots (buf c))" if "t < length (pcs c)" "touched (pcs c ! t) = Some i" for t i
    using touched_bound [OF assms(3) that] .
  have idx: "ridx (buf c) r < length (rslots (buf c))" for r
    using assms(3) ridx_bound by (auto simp: touched_bounds_def)
  show ?thesis
    using assms(1)
    by (cases rule: rb_step.cases)
       (insert assms(2) occ bnd idx,
        simp_all add: count_balance_def occupied_count_def filter_update_word algebra_simps)
qed

lemma rb_ordered_invariant:
  assumes "rb_ordered_step\<^sup>*\<^sup>* (conc_start n k s0 v0) c" and "k < 64"
  shows "count_balance c \<and> touched_bounds c \<and> filling_occupied c"
  using assms(1)
proof (induction rule: rtranclp_induct)
  case base
  have "pow2_size (RingBuffer_new (2 ^ k) s0 v0)" using RingBuffer_new_inv [OF assms(2), of s0 v0]
    by (simp add: RingBuffer_inv_def)
  then show ?case
    by (auto simp: conc_start_def count_balance_def touched_bounds_def filling_occupied_def
        RingBuffer_new_def occupied_count_def intro!: list_all_replicate)
next
  case (step c c')
  then show ?case using count_balance_step touched_bounds_step by (auto simp: rb_ordered_step_def)
qed

lemma quiescent_counts:
  assumes "quiescent c"
  shows "filter (\<lambda>p. filling p \<noteq> None) (pcs c) = []" and "filter releasing (pcs c) = []"
  using assms by (auto simp: quiescent_def list_all_iff filter_empty_conv)

subsection \<open>Properties\<close>

text \<open>
  C21. The pending-request buffer refines a table of at most one entry per residue of the request id
  modulo \<open>Size\<close>: for every sequence of \<open>emplace\<close> (with any spurious failures of its weak
  compare-exchange), \<open>find\<close>/\<open>at\<close> and session-checked \<open>erase\<close> calls, no slot is accessed out of
  range or destroyed twice, every call returns what the table returns (an \<open>emplace\<close> on an entry of
  another session is rejected, one on an entry of the same session replaces it, a lookup or an erase
  with the wrong session does nothing), and \<open>size()\<close> is the number of entries.
\<close>
theorem ringbuffer_runs_refine:
  assumes "RingBuffer_inv b"
  shows "\<exists>b'. pending_run RingBuffer_emplace RingBuffer_lookup RingBuffer_erase_session ops b =
      Inr (fst (table_run (length (rslots b)) ops (RingBuffer_abs b)), b') \<and>
    RingBuffer_abs b' = snd (table_run (length (rslots b)) ops (RingBuffer_abs b)) \<and>
    RingBuffer_inv b' \<and> unat (RingBuffer_size b') = card (dom (RingBuffer_abs b'))"
proof -
  obtain b' where b': "pending_run RingBuffer_emplace RingBuffer_lookup RingBuffer_erase_session ops b =
      Inr (fst (table_run (length (rslots b)) ops (RingBuffer_abs b)), b')"
    "RingBuffer_abs b' = snd (table_run (length (rslots b)) ops (RingBuffer_abs b))" "RingBuffer_inv b'"
    using rb.run_refines [OF assms] by blast
  have "card (dom (RingBuffer_abs b')) < 2 ^ 64"
    using size_is_card(2) [OF b'(3)] pow2_length_bound [of b'] b'(3) by (simp add: RingBuffer_inv_def)
  then have "unat (RingBuffer_size b') = card (dom (RingBuffer_abs b'))"
    unfolding size_is_card(1) [OF b'(3)] by (intro unat_word_of_nat) simp
  with b' show ?thesis by blast
qed

theorem ringbuffer_runs_refine_witness:
  "\<exists>b'. pending_run RingBuffer_emplace RingBuffer_lookup RingBuffer_erase_session
      [Put False 5 (1 :: nat) ''a'', Put False 9 2 ''b'', Lookup 5 1, Take 5 2, Put False 6 2 ''c''] (RingBuffer_new (2 ^ 2) 0 []) =
      Inr ([Accepted True, Accepted False, Found (Some ''a''), Accepted False, Accepted True], b') \<and>
    unat (RingBuffer_size b') = 2"
  using ringbuffer_runs_refine [OF RingBuffer_new_inv [of 2 "0 :: nat" "[] :: string"],
    of "[Put False 5 1 ''a'', Put False 9 2 ''b'', Lookup 5 1, Take 5 2, Put False 6 2 ''c'']"]
  by (auto simp: table_put_def table_find_def table_take_def Let_def simp del: pending_run.simps)

text \<open>
  Two requests of one session whose ids are congruent modulo \<open>Size\<close> share a slot: the second
  \<open>emplace\<close> reports success and replaces the first entry, after which a lookup of the first request
  id returns the value of the second, and \<open>size()\<close> still counts one entry.
\<close>
theorem ringbuffer_same_session_alias:
  assumes "RingBuffer_inv b" and "RingBuffer_emplace False r1 s v1 b = Inr (True, b1)"
    and "unat r1 mod length (rslots b) = unat r2 mod length (rslots b)"
  shows "\<exists>b2. RingBuffer_emplace False r2 s v2 b1 = Inr (True, b2) \<and>
    RingBuffer_lookup r1 s b2 = Inr (Some v2) \<and> RingBuffer_size b2 = RingBuffer_size b1"
proof -
  have b1: "RingBuffer_inv b1" "length (rslots b1) = length (rslots b)"
    "RingBuffer_abs b1 (ridx b r1) = Some (s, v1)"
    using emplace_view [OF assms(1), of False r1 s v1] assms(2)
    by (auto simp: table_put_def split: option.splits prod.splits if_splits)
  have ix: "ridx b1 r2 = ridx b r1" "ridx b1 r1 = ridx b r1"
    using ridx_width [OF b1(1)] ridx_width [OF assms(1)] b1(2) assms(3) by simp_all
  obtain b2 where b2: "RingBuffer_emplace False r2 s v2 b1 = Inr (True, b2)"
    "RingBuffer_abs b2 = (RingBuffer_abs b1)(ridx b r1 \<mapsto> (s, v2))" "RingBuffer_inv b2"
    "length (rslots b2) = length (rslots b1)"
    using emplace_view [OF b1(1), of False r2 s v2] b1(3) ix by (auto simp: table_put_def)
  have "dom (RingBuffer_abs b2) = dom (RingBuffer_abs b1)" using b2(2) b1(3) by auto
  then have "RingBuffer_size b2 = RingBuffer_size b1"
    using size_is_card(1) b1(1) b2(3) by metis
  moreover have "RingBuffer_lookup r1 s b2 = Inr (Some v2)"
    using lookup_view [OF b2(3), of r1 s] ridx_width [OF b2(3), of r1] ridx_width [OF b1(1), of r1] b2(2,4) ix
    by (simp add: table_find_def)
  ultimately show ?thesis using b2(1) by blast
qed

theorem ringbuffer_same_session_alias_witness:
  "\<exists>b1 b2. RingBuffer_emplace False 1 (7 :: nat) ''old'' (RingBuffer_new (2 ^ 2) 0 []) = Inr (True, b1) \<and>
    RingBuffer_emplace False 5 7 ''new'' b1 = Inr (True, b2) \<and>
    RingBuffer_lookup 1 7 b2 = Inr (Some ''new'')"
proof -
  have inv: "RingBuffer_inv (RingBuffer_new (2 ^ 2) (0 :: nat) ([] :: string))"
    by (rule RingBuffer_new_inv) simp
  obtain b1 where b1: "RingBuffer_emplace False 1 (7 :: nat) ''old'' (RingBuffer_new (2 ^ 2) 0 []) = Inr (True, b1)"
    using emplace_view [OF inv, of False 1 7 "''old''"] by (auto simp: table_put_def)
  then show ?thesis
    using ringbuffer_same_session_alias [OF inv b1, of 5 "''new''"] by auto
qed

text \<open>
  Iterating the buffer from \<open>begin()\<close> to \<open>end()\<close> visits every entry exactly once, in slot
  order, with its session and value; the request id it reports is the slot index, which addresses
  the same entry (buffers of at most \<open>2^32\<close> slots).
\<close>
theorem ringbuffer_iteration_complete:
  assumes "RingBuffer_inv b" and "length (rslots b) \<le> 2 ^ 32"
  shows "map (\<lambda>e. (unat (entry_request_id e), entry_session_id e, entry_value e)) (iterate_from b 0) =
      [(i, the (RingBuffer_abs b i)). i \<leftarrow> [0..<length (rslots b)], RingBuffer_abs b i \<noteq> None] \<and>
    list_all (\<lambda>e. RingBuffer_lookup (entry_request_id e) (entry_session_id e) b =
      Inr (Some (entry_value e))) (iterate_from b 0)"
proof -
  have "RingBuffer_lookup (entry_request_id e) (entry_session_id e) b = Inr (Some (entry_value e))"
    if "e \<in> set (iterate_from b 0)" for e
  proof -
    obtain i where i: "i < length (rslots b)" "occupied (rslots b ! i)" "e = Iterator_deref b i"
      using \<open>e \<in> set (iterate_from b 0)\<close> by (auto simp: iterate_from_filter)
    have "unat (word_of_nat i :: u32) = i" using i assms(2) by (intro unat_word_of_nat) simp
    then have "ridx b (entry_request_id e) = i"
      using ridx_width [OF assms(1)] i by (simp add: Iterator_deref_def)
    then show ?thesis using lookup_view [OF assms(1)] i
      by (simp add: table_find_def RingBuffer_abs_def Iterator_deref_def)
  qed
  then show ?thesis using iterate_from_entries [OF assms] by (simp add: list_all_iff)
qed

theorem ringbuffer_iteration_complete_witness:
  "\<exists>b. RingBuffer_emplace False 6 (3 :: nat) ''x'' (RingBuffer_new (2 ^ 2) 0 []) = Inr (True, b) \<and>
     map (\<lambda>e. (unat (entry_request_id e), entry_session_id e, entry_value e)) (iterate_from b 0) = [(2, 3, ''x'')]"
proof -
  have inv: "RingBuffer_inv (RingBuffer_new (2 ^ 2) (0 :: nat) ([] :: string))"
    by (rule RingBuffer_new_inv) simp
  obtain b where b: "RingBuffer_emplace False 6 (3 :: nat) ''x'' (RingBuffer_new (2 ^ 2) 0 []) = Inr (True, b)"
    "RingBuffer_inv b" "length (rslots b) = 4" "RingBuffer_abs b = [2 \<mapsto> (3, ''x'')]"
    using emplace_view [OF inv, of False 6 3 "''x''"] ridx_width [OF inv, of 6]
    by (auto simp: table_put_def)
  then show ?thesis using ringbuffer_iteration_complete [OF b(2)] by (auto simp: upt_rec)
qed

text \<open>
  Destroying the buffer destroys each object exactly once only if no entry was ever erased and
  none is left: \<open>erase\<close> and \<open>clear\<close> end the lifetime of the slot's members explicitly, and the
  implicit member destruction of \<open>~Slot\<close> then destroys them a second time. After any accepted
  \<open>emplace\<close>, whether or not the entry is erased before, the destructor is a double destruction.
\<close>
theorem ringbuffer_destroy_after_use:
  assumes "RingBuffer_inv b" and "RingBuffer_emplace False r s v b = Inr (True, b1)"
    and "RingBuffer_erase r b1 = Inr (True, b2)"
  shows "RingBuffer_destroy b1 = Inl UseAfterFree \<and> RingBuffer_destroy b2 = Inl UseAfterFree"
proof -
  have b1: "RingBuffer_inv b1" "RingBuffer_abs b1 (ridx b r) = Some (s, v)"
    "length (rslots b1) = length (rslots b)"
    using emplace_view [OF assms(1), of False r s v] assms(2)
    by (auto simp: table_put_def split: option.splits prod.splits if_splits)
  then have i: "ridx b1 r < length (rslots b1)" "occupied (rslots b1 ! ridx b1 r)"
    using ridx_width [OF b1(1)] ridx_width [OF assms(1)]
    by (auto simp: RingBuffer_abs_def split: if_splits)
  have "RingBuffer_inv b2" using erase_view [OF b1(1), of r] assms(3) by auto
  moreover have "\<not> rs_alive (rslots b2 ! ridx b1 r)" "ridx b1 r < length (rslots b2)"
    using assms(3) i by (auto simp: RingBuffer_erase_def Let_def split: if_splits)
  ultimately show ?thesis using destroy_value [of b1] destroy_value [of b2] b1(1) i by auto
qed

theorem ringbuffer_destroy_after_use_witness:
  "\<exists>b1 b2. RingBuffer_emplace False 1 (7 :: nat) ''old'' (RingBuffer_new (2 ^ 2) 0 []) = Inr (True, b1) \<and>
    RingBuffer_erase 1 b1 = Inr (True, b2) \<and> RingBuffer_destroy b2 = Inl UseAfterFree"
proof -
  have inv: "RingBuffer_inv (RingBuffer_new (2 ^ 2) (0 :: nat) ([] :: string))"
    by (rule RingBuffer_new_inv) simp
  obtain b1 where b1: "RingBuffer_emplace False 1 (7 :: nat) ''old'' (RingBuffer_new (2 ^ 2) 0 []) = Inr (True, b1)"
    "RingBuffer_inv b1" "length (rslots b1) = 4" "RingBuffer_abs b1 = [1 \<mapsto> (7, ''old'')]"
    using emplace_view [OF inv, of False 1 7 "''old''"] ridx_width [OF inv, of 1]
    by (auto simp: table_put_def)
  obtain b2 where "RingBuffer_erase 1 b1 = Inr (True, b2)"
    using erase_view [OF b1(2), of 1] ridx_width [OF b1(2), of 1] b1(3,4) by auto
  then show ?thesis using ringbuffer_destroy_after_use [OF inv b1(1)] b1(1) by blast
qed

text \<open>Concrete runs: a one-slot and a two-slot buffer in which every entry is \<open>(s0, v0)\<close>.\<close>

abbreviation one_slot :: "'s \<Rightarrow> 'v \<Rightarrow> SlotState \<Rightarrow> bool \<Rightarrow> u64 \<Rightarrow> ('s, 'v) pc list \<Rightarrow> ('s, 'v) conc" where
  "one_slot s0 v0 st al n ps \<equiv>
     \<lparr>buf = \<lparr>rslots = [\<lparr>rs_state = st, rs_session = s0, rs_value = v0, rs_alive = al\<rparr>], rsize = n\<rparr>, pcs = ps\<rparr>"

abbreviation two_slots :: "'s \<Rightarrow> 'v \<Rightarrow> SlotState \<Rightarrow> bool \<Rightarrow> u64 \<Rightarrow> ('s, 'v) pc list \<Rightarrow> ('s, 'v) conc" where
  "two_slots s0 v0 st al n ps \<equiv>
     \<lparr>buf = \<lparr>rslots = [\<lparr>rs_state = st, rs_session = s0, rs_value = v0, rs_alive = al\<rparr>,
                      \<lparr>rs_state = Empty, rs_session = s0, rs_value = v0, rs_alive = True\<rparr>], rsize = n\<rparr>, pcs = ps\<rparr>"

lemma concrete_index:
  "ridx (buf (one_slot s0 v0 st al n ps)) r = 0" "ridx (buf (two_slots s0 v0 st al n ps)) 0 = 0"
  by (simp_all add: request_id_to_index_def RingBuffer_capacity_def)

lemma concrete_full:
  "RingBuffer_full (buf (one_slot s0 v0 st al n ps)) = (1 \<le> n)"
  "RingBuffer_full (buf (two_slots s0 v0 st al n ps)) = (2 \<le> n)"
  by (simp_all add: RingBuffer_full_def RingBuffer_size_def RingBuffer_capacity_def)

lemmas concrete_simps = concrete_index [simplified] concrete_full [simplified]

lemma two_slots_emplace:
  fixes s0 :: 's and v0 :: 'v
  assumes "n < 2" and "t < length ps" and "ps ! t = Idle" and "\<forall>p \<in> set ps. filling p = None"
  shows "rb_ordered_step\<^sup>*\<^sup>* (two_slots s0 v0 Empty al n ps) (two_slots s0 v0 Occupied True (n + 1) ps)"
proof -
  let ?C = "two_slots s0 v0 :: _ \<Rightarrow> _ \<Rightarrow> _ \<Rightarrow> _ \<Rightarrow> ('s, 'v) conc"
  let ?P = "\<lambda>p. ps[t := p]"
  have ord: "filling_occupied (?C Occupied al n (?P p))" if "filling p \<in> {None, Some 0}" for p al n
    using assms(4) that by (auto simp: filling_occupied_def list_all_iff split: option.splits
        dest!: set_update_subset_insert [THEN subsetD])
  have "?P Idle = ps" using assms(2,3) by (simp add: list_update_same_conv)
  have "chained rb_ordered_step [?C Empty al n ps, ?C Occupied al n (?P (Claimed 0 s0 v0)),
      ?C Occupied al n (?P (Admitted 0 s0 v0)), ?C Occupied al n (?P (SessionWritten 0 v0)),
      ?C Occupied True n (?P (ValueWritten 0)), ?C Occupied True (n + 1) (?P Idle)]"
    using emplace_claim [of t "?C Empty al n ps" 0 0 s0 v0]
      emplace_admit [of t "?C Occupied al n (?P (Claimed 0 s0 v0))" 0 s0 v0]
      emplace_session [of t "?C Occupied al n (?P (Admitted 0 s0 v0))" 0 s0 v0]
      emplace_value [of t "?C Occupied al n (?P (SessionWritten 0 v0))" 0 v0]
      emplace_count [of t "?C Occupied True n (?P (ValueWritten 0))" 0]
      assms ord
    by (simp add: rb_ordered_step_def concrete_simps)
  from chained_rtranclp [OF this] show ?thesis by (simp add: \<open>?P Idle = ps\<close>)
qed

lemma conc_start_two_slots: "conc_start n 1 s0 v0 = two_slots s0 v0 Empty True 0 (replicate n Idle)"
  by (simp add: conc_start_def RingBuffer_new_def numeral_2_eq_2)

text \<open>
  Any number of threads running \<open>emplace\<close> and both forms of \<open>erase\<close> in any interleaving of their
  atomic accesses: as long as no erase takes a slot an \<open>emplace\<close> is still filling, then whenever all
  threads have returned \<open>size()\<close> is exactly the number of occupied slots, although it is read
  and updated outside the slots' compare-exchanges.
\<close>
theorem ringbuffer_concurrent_size:
  assumes "rb_ordered_step\<^sup>*\<^sup>* (conc_start n k s0 v0) c" and "k < 64" and "quiescent c"
  shows "unat (RingBuffer_size (buf c)) = card {i. i < length (rslots (buf c)) \<and>
    rs_state (rslots (buf c) ! i) = Occupied}"
proof -
  have inv: "count_balance c" "touched_bounds c" using rb_ordered_invariant [OF assms(1,2)] by auto
  have "rsize (buf c) = word_of_nat (occupied_count (buf c))"
    using inv(1) quiescent_counts [OF assms(3)] by (simp add: count_balance_def)
  moreover have "occupied_count (buf c) < 2 ^ 64"
    using inv(2) occupied_count_bound [of "buf c"] pow2_length_bound [of "buf c"]
    by (simp add: touched_bounds_def)
  ultimately show ?thesis
    by (simp add: RingBuffer_size_def unat_word_of_nat occupied_count_def length_filter_conv_card)
qed

theorem ringbuffer_concurrent_size_witness:
  "\<exists>c. rb_ordered_step\<^sup>*\<^sup>* (conc_start 2 1 (0 :: nat) ''v'') c \<and> rs_state (rslots (buf c) ! 0) = Occupied \<and>
    unat (RingBuffer_size (buf c)) = card {i. i < length (rslots (buf c)) \<and>
    rs_state (rslots (buf c) ! i) = Occupied}"
proof -
  let ?c = "two_slots (0 :: nat) ''v'' Occupied True (0 + 1) (replicate 2 Idle)"
  have "rb_ordered_step\<^sup>*\<^sup>* (conc_start 2 1 0 ''v'') ?c"
    unfolding conc_start_two_slots by (rule two_slots_emplace [of _ 0]) simp_all
  moreover have "quiescent ?c" by (simp add: quiescent_def list_all_replicate)
  ultimately show ?thesis using ringbuffer_concurrent_size [of 2 1 0 "''v''" ?c] by auto
qed

text \<open>
  Even in that order an erase can destroy the entry that follows it: \<open>erase\<close> marks the slot
  \<open>Empty\<close> before it runs the destructors of its contents, so a concurrent \<open>emplace\<close> may claim the
  slot and construct its session id and value in between. Two threads on a two-slot buffer reach a
  state in which all calls have returned, \<open>size()\<close> is 1 and the occupied slot, which \<open>find\<close>
  returns, holds a destroyed object.
\<close>
theorem ringbuffer_erase_destroys_successor:
  "\<exists>c. rb_ordered_step\<^sup>*\<^sup>* (conc_start 2 1 s0 v0) c \<and> quiescent c \<and> RingBuffer_size (buf c) = 1 \<and>
     RingBuffer_find 0 s0 (buf c) = Inr 0 \<and> \<not> rs_alive (rslots (buf c) ! 0)"
proof -
  let ?C = "two_slots s0 v0"
  let ?F = "[Freed 0, Idle]"
  have 1: "rb_ordered_step\<^sup>*\<^sup>* (conc_start 2 1 s0 v0) (?C Occupied True 1 [Idle, Idle])"
    using two_slots_emplace [of 0 0 "[Idle, Idle]" s0 v0 True] unfolding conc_start_two_slots
    by (simp add: numeral_2_eq_2)
  have 2: "rb_ordered_step (?C Occupied True 1 [Idle, Idle]) (?C Empty True 1 ?F)"
    using erase_cas [of 0 "?C Occupied True 1 [Idle, Idle]" 0 0]
    by (simp add: rb_ordered_step_def filling_occupied_def concrete_simps)
  have 3: "rb_ordered_step\<^sup>*\<^sup>* (?C Empty True 1 ?F) (?C Occupied True 2 ?F)"
    using two_slots_emplace [of 1 1 ?F s0 v0 True] by simp
  have 4: "chained rb_ordered_step [?C Occupied True 2 ?F, ?C Occupied False 2 [Destroyed, Idle],
      ?C Occupied False 1 [Idle, Idle]]"
    using erase_destroy [of 0 "?C Occupied True 2 ?F" 0]
      erase_count [of 0 "?C Occupied False 2 [Destroyed, Idle]"]
    by (simp add: rb_ordered_step_def filling_occupied_def)
  from rtranclp_trans [OF rtranclp.rtrancl_into_rtrancl [OF 1 2] rtranclp_trans [OF 3 chained_rtranclp [OF 4]]]
  show ?thesis
    by (intro exI [of _ "?C Occupied False 1 [Idle, Idle]"])
       (simp add: quiescent_def RingBuffer_size_def RingBuffer_find_def concrete_simps)
qed

text \<open>
  Without that order the element count can drift for good: three threads on a one-slot buffer
  reach a state in which every call has returned and no slot is occupied, but \<open>size()\<close> is
  \<open>2^64 - 1\<close>, so \<open>full()\<close> holds and every later \<open>emplace\<close> is refused.
\<close>
theorem ringbuffer_size_drift:
  "\<exists>c. rb_step\<^sup>*\<^sup>* (conc_start 3 0 s0 v0) c \<and> quiescent c \<and> RingBuffer_abs (buf c) = Map.empty \<and>
     RingBuffer_size (buf c) = 2 ^ 64 - 1 \<and>
     (\<forall>f r s v. RingBuffer_emplace f r s v (buf c) = Inr (False, buf c))"
proof -
  let ?C = "one_slot s0 v0"
  have "chained rb_step [?C Empty True 0 [Idle, Idle, Idle], ?C Occupied True 0 [Claimed 0 s0 v0, Idle, Idle],
      ?C Occupied True 0 [Admitted 0 s0 v0, Idle, Idle], ?C Occupied True 0 [SessionWritten 0 v0, Idle, Idle],
      ?C Occupied True 0 [ValueWritten 0, Idle, Idle], ?C Occupied True 1 [Idle, Idle, Idle],
      ?C Empty True 1 [Freed 0, Idle, Idle], ?C Occupied True 1 [Freed 0, Claimed 0 s0 v0, Idle],
      ?C Empty True 1 [Freed 0, Claimed 0 s0 v0, Freed 0], ?C Empty True 1 [Freed 0, Idle, Freed 0],
      ?C Empty False 1 [Destroyed, Idle, Freed 0], ?C Empty False 0 [Idle, Idle, Freed 0],
      ?C Empty False 0 [Idle, Idle, Destroyed], ?C Empty False (- 1) [Idle, Idle, Idle]]"
    using emplace_claim [of 0 "?C Empty True 0 [Idle, Idle, Idle]" 0 0 s0 v0]
      emplace_admit [of 0 "?C Occupied True 0 [Claimed 0 s0 v0, Idle, Idle]" 0 s0 v0]
      emplace_session [of 0 "?C Occupied True 0 [Admitted 0 s0 v0, Idle, Idle]" 0 s0 v0]
      emplace_value [of 0 "?C Occupied True 0 [SessionWritten 0 v0, Idle, Idle]" 0 v0]
      emplace_count [of 0 "?C Occupied True 0 [ValueWritten 0, Idle, Idle]" 0]
      erase_cas [of 0 "?C Occupied True 1 [Idle, Idle, Idle]" 0 0]
      emplace_claim [of 1 "?C Empty True 1 [Freed 0, Idle, Idle]" 0 0 s0 v0]
      erase_cas [of 2 "?C Occupied True 1 [Freed 0, Claimed 0 s0 v0, Idle]" 0 0]
      emplace_full [of 1 "?C Empty True 1 [Freed 0, Claimed 0 s0 v0, Freed 0]" 0 s0 v0]
      erase_destroy [of 0 "?C Empty True 1 [Freed 0, Idle, Freed 0]" 0]
      erase_count [of 0 "?C Empty False 1 [Destroyed, Idle, Freed 0]"]
      erase_destroy [of 2 "?C Empty False 0 [Idle, Idle, Freed 0]" 0]
      erase_count [of 2 "?C Empty False 0 [Idle, Idle, Destroyed]"]
    by (simp add: concrete_simps)
  from chained_rtranclp [OF this]
  have run: "rb_step\<^sup>*\<^sup>* (conc_start 3 0 s0 v0) (?C Empty False (- 1) [Idle, Idle, Idle])"
    by (simp add: conc_start_def RingBuffer_new_def numeral_3_eq_3)
  have "RingBuffer_emplace f r s v (buf (?C Empty False (- 1) [Idle, Idle, Idle])) =
      Inr (False, buf (?C Empty False (- 1) [Idle, Idle, Idle]))" for f r s v
    by (simp add: RingBuffer_emplace_def request_id_to_index_def RingBuffer_capacity_def Let_def)
  with run show ?thesis
    by (intro exI [of _ "?C Empty False (- 1) [Idle, Idle, Idle]"])
       (simp add: quiescent_def RingBuffer_size_def RingBuffer_abs_def fun_eq_iff nth_Cons
        split: nat.splits)
qed

end
