(* ===== verification/Lock_Free_Queue.thy ===== *)
theory Lock_Free_Queue
  imports Eux_Prelude
begin

text \<open>
  The linked queue of \<open>ucx_context/lock_free_queue.hpp\<close>: nodes in a heap, the atomic pointers
  \<open>head_\<close> (to a dummy node) and \<open>tail_\<close> (to the last or the last but one node).
  The first part runs each member function alone; the outcomes of its weak compare-exchanges are a
  list of spurious failures, the loops have fuel (\<open>length cas + 3\<close> iterations: one per
  spurious failure, one to advance a lagging tail, one to finish). The second part is the step
  relation of the loops at their atomic accesses. Allocation returns a fresh address.
\<close>

subsection \<open>The class\<close>

record 'a Node =
  ndata :: 'a
  nnext :: "nat option"

record 'a LockFreeQueue =
  nodes :: "nat \<rightharpoonup> 'a Node"
  qhead :: nat
  qtail :: nat
  qfresh :: nat

definition node_at :: "nat \<Rightarrow> 'a LockFreeQueue \<Rightarrow> 'a Node res" where
  "node_at p q = (case nodes q p of None \<Rightarrow> Inl UseAfterFree | Some n \<Rightarrow> Inr n)"

definition new_node :: "'a \<Rightarrow> 'a LockFreeQueue \<Rightarrow> nat \<times> 'a LockFreeQueue" where
  "new_node v q = (qfresh q, q\<lparr>nodes := (nodes q)(qfresh q \<mapsto> \<lparr>ndata = v, nnext = None\<rparr>),
                              qfresh := Suc (qfresh q)\<rparr>)"

definition delete_node :: "nat \<Rightarrow> 'a LockFreeQueue \<Rightarrow> 'a LockFreeQueue res" where
  "delete_node p q = (if nodes q p = None then Inl UseAfterFree
                      else Inr (q\<lparr>nodes := (nodes q)(p := None)\<rparr>))"

definition set_next :: "nat \<Rightarrow> nat \<Rightarrow> 'a LockFreeQueue \<Rightarrow> 'a LockFreeQueue" where
  "set_next p x q = q\<lparr>nodes := (nodes q)(p := map_option (\<lambda>n. n\<lparr>nnext := Some x\<rparr>) (nodes q p))\<rparr>"

definition LockFreeQueue_new :: "'a \<Rightarrow> 'a LockFreeQueue" where
  "LockFreeQueue_new d = \<lparr>nodes = [0 \<mapsto> \<lparr>ndata = d, nnext = None\<rparr>], qhead = 0, qtail = 0, qfresh = 1\<rparr>"

definition spurious :: "bool list \<Rightarrow> bool" where
  "spurious cas \<longleftrightarrow> cas \<noteq> [] \<and> hd cas"

fun push_loop :: "nat \<Rightarrow> bool list \<Rightarrow> nat \<Rightarrow> 'a LockFreeQueue \<Rightarrow> 'a LockFreeQueue res" where
  "push_loop 0 cas new q = Inl OutOfFuel"
| "push_loop (Suc fuel) cas new q =
     (let old_tail = qtail q in
      bind_res (node_at old_tail q) (\<lambda>n.
        case nnext n of
          None \<Rightarrow>
            if spurious cas then push_loop fuel (tl cas) new q
            else let q1 = set_next old_tail new q in
                 Inr (if spurious (tl cas) then q1 else q1\<lparr>qtail := new\<rparr>)
        | Some tail_next \<Rightarrow>
            push_loop fuel (tl cas) new (if spurious cas then q else q\<lparr>qtail := tail_next\<rparr>)))"

definition LockFreeQueue_push :: "bool list \<Rightarrow> 'a \<Rightarrow> 'a LockFreeQueue \<Rightarrow> 'a LockFreeQueue res" where
  "LockFreeQueue_push cas v q =
     (let (new, q1) = new_node v q in push_loop (length cas + 3) cas new q1)"

fun pop_loop :: "nat \<Rightarrow> bool list \<Rightarrow> 'a LockFreeQueue \<Rightarrow> ('a option \<times> 'a LockFreeQueue) res" where
  "pop_loop 0 cas q = Inl OutOfFuel"
| "pop_loop (Suc fuel) cas q =
     (let old_head = qhead q; old_tail = qtail q in
      bind_res (node_at old_head q) (\<lambda>n.
        if old_head = old_tail then
          case nnext n of
            None \<Rightarrow> Inr (None, q)
          | Some head_next \<Rightarrow> pop_loop fuel (tl cas) (if spurious cas then q else q\<lparr>qtail := head_next\<rparr>)
        else if spurious cas then pop_loop fuel (tl cas) q
        else case nnext n of
               None \<Rightarrow> Inl NullDeref
             | Some head_next \<Rightarrow>
                 bind_res (node_at head_next q) (\<lambda>m.
                 bind_res (delete_node old_head (q\<lparr>qhead := head_next\<rparr>)) (\<lambda>q2.
                 Inr (Some (ndata m), q2)))))"

definition LockFreeQueue_pop :: "bool list \<Rightarrow> 'a LockFreeQueue \<Rightarrow> ('a option \<times> 'a LockFreeQueue) res" where
  "LockFreeQueue_pop cas q = pop_loop (length cas + 3) cas q"

definition LockFreeQueue_empty :: "'a LockFreeQueue \<Rightarrow> bool res" where
  "LockFreeQueue_empty q =
     bind_res (node_at (qhead q) q) (\<lambda>n. Inr (qhead q = qtail q \<and> nnext n = None))"

fun count_loop :: "nat \<Rightarrow> nat option \<Rightarrow> nat \<Rightarrow> 'a LockFreeQueue \<Rightarrow> nat res" where
  "count_loop 0 cur count q = Inl OutOfFuel"
| "count_loop (Suc fuel) None count q = Inr count"
| "count_loop (Suc fuel) (Some p) count q =
     bind_res (node_at p q) (\<lambda>n. count_loop fuel (nnext n) (Suc count) q)"

definition LockFreeQueue_size :: "'a LockFreeQueue \<Rightarrow> nat res" where
  "LockFreeQueue_size q = bind_res (node_at (qhead q) q) (\<lambda>n. count_loop (Suc (qfresh q)) (nnext n) 0 q)"

fun destroy_loop :: "nat \<Rightarrow> nat option \<Rightarrow> 'a LockFreeQueue \<Rightarrow> 'a LockFreeQueue res" where
  "destroy_loop 0 p q = Inl OutOfFuel"
| "destroy_loop (Suc fuel) None q = Inr q"
| "destroy_loop (Suc fuel) (Some old_head) q =
     bind_res (node_at old_head q) (\<lambda>n.
     bind_res (delete_node old_head q) (\<lambda>q1. destroy_loop fuel (nnext n) q1))"

definition LockFreeQueue_destroy :: "'a LockFreeQueue \<Rightarrow> 'a LockFreeQueue res" where
  "LockFreeQueue_destroy q = destroy_loop (Suc (Suc (qfresh q))) (Some (qhead q)) q"

subsection \<open>Invariant\<close>

text \<open>\<open>path ns p ps\<close>: following \<open>next\<close> from \<open>p\<close> visits exactly the addresses \<open>ps\<close>.\<close>

fun path :: "(nat \<rightharpoonup> 'a Node) \<Rightarrow> nat \<Rightarrow> nat list \<Rightarrow> bool" where
  "path ns p [] \<longleftrightarrow> (case ns p of None \<Rightarrow> False | Some n \<Rightarrow> nnext n = None)"
| "path ns p (a # as) \<longleftrightarrow> (case ns p of None \<Rightarrow> False | Some n \<Rightarrow> nnext n = Some a \<and> path ns a as)"

definition values_of :: "(nat \<rightharpoonup> 'a Node) \<Rightarrow> nat list \<Rightarrow> 'a list" where
  "values_of ns = map (\<lambda>p. ndata (the (ns p)))"

definition queue_at :: "'a LockFreeQueue \<Rightarrow> nat list \<Rightarrow> bool" where
  "queue_at q as \<longleftrightarrow> path (nodes q) (qhead q) as \<and> distinct (qhead q # as) \<and>
     (qtail q = last (qhead q # as) \<or> as \<noteq> [] \<and> qtail q = last (butlast (qhead q # as))) \<and>
     (\<forall>p \<in> dom (nodes q). p < qfresh q)"

definition LockFreeQueue_inv :: "'a LockFreeQueue \<Rightarrow> bool" where
  "LockFreeQueue_inv q \<longleftrightarrow> (\<exists>as. queue_at q as \<and> dom (nodes q) = set (qhead q # as))"

fun follow :: "nat \<Rightarrow> (nat \<rightharpoonup> 'a Node) \<Rightarrow> nat \<Rightarrow> 'a list" where
  "follow 0 ns p = []"
| "follow (Suc fuel) ns p =
     (case ns p of None \<Rightarrow> []
      | Some n \<Rightarrow> (case nnext n of None \<Rightarrow> []
                   | Some a \<Rightarrow> (case ns a of None \<Rightarrow> [] | Some m \<Rightarrow> ndata m # follow fuel ns a)))"

definition LockFreeQueue_contents :: "'a LockFreeQueue \<Rightarrow> 'a list" where
  "LockFreeQueue_contents q = follow (qfresh q) (nodes q) (qhead q)"

lemma path_dom: "path ns p as \<Longrightarrow> set (p # as) \<subseteq> dom ns"
  by (induction as arbitrary: p) (auto split: option.splits)

lemma path_upd: "x \<notin> set (p # as) \<Longrightarrow> path (ns(x := y)) p as = path ns p as"
  by (induction as arbitrary: p) (auto split: option.splits)

lemma path_last: "path ns p as \<Longrightarrow> \<exists>n. ns (last (p # as)) = Some n \<and> nnext n = None"
  by (induction as arbitrary: p) (auto split: option.splits)

lemma path_before_last:
  "path ns p as \<Longrightarrow> as \<noteq> [] \<Longrightarrow> \<exists>n. ns (last (butlast (p # as))) = Some n \<and> nnext n = Some (last as)"
  by (induction as arbitrary: p) (auto split: option.splits)

lemma path_link:
  assumes "path ns p as" and "distinct (p # as)" and "ns (last (p # as)) = Some n"
    and "a \<notin> set (p # as)" and "ns a = Some m" and "nnext m = None"
  shows "path (ns(last (p # as) \<mapsto> n\<lparr>nnext := Some a\<rparr>)) p (as @ [a])"
  using assms
proof (induction as arbitrary: p)
  case Nil
  then show ?case by auto
next
  case (Cons b bs)
  then have "last (p # b # bs) \<noteq> p" using last_in_set [of "b # bs"] by auto
  with Cons show ?case by (auto split: option.splits)
qed

lemma path_unique: "path ns p as \<Longrightarrow> path ns p bs \<Longrightarrow> as = bs"
proof (induction as arbitrary: p bs)
  case Nil
  then show ?case by (cases bs) (auto split: option.splits)
next
  case (Cons a as)
  then show ?case by (cases bs) (auto split: option.splits)
qed

lemma path_tl_unpopped:
  "path ns p (a # as) \<Longrightarrow> distinct (p # a # as) \<Longrightarrow> path (ns(p := x)) a as"
  using path_upd [of p a as ns x] by (auto split: option.splits)

lemma follow_values: "path ns p as \<Longrightarrow> length as \<le> fuel \<Longrightarrow> follow fuel ns p = values_of ns as"
proof (induction as arbitrary: p fuel)
  case Nil
  then show ?case by (cases fuel) (auto simp: values_of_def split: option.splits)
next
  case (Cons a as)
  from Cons.prems obtain f where f: "fuel = Suc f" by (cases fuel) auto
  from Cons.prems have "path ns a as" by (auto split: option.splits)
  with path_dom [of ns a as] Cons f show ?case
    by (auto simp: values_of_def split: option.splits)
qed

lemma queue_at_short: "queue_at q as \<Longrightarrow> length as < qfresh q"
proof -
  assume q: "queue_at q as"
  have "set (qhead q # as) \<subseteq> {..<qfresh q}"
    using q path_dom by (fastforce simp: queue_at_def)
  then have "card (set (qhead q # as)) \<le> qfresh q"
    using card_mono [of "{..<qfresh q}"] by fastforce
  then show ?thesis using q distinct_card [of "qhead q # as"] by (simp add: queue_at_def)
qed

lemma queue_at_contents: "queue_at q as \<Longrightarrow> LockFreeQueue_contents q = values_of (nodes q) as"
  using queue_at_short [of q as] by (simp add: LockFreeQueue_contents_def queue_at_def follow_values)

lemma values_of_upd: "x \<notin> set as \<Longrightarrow> values_of (ns(x := y)) as = values_of ns as"
  by (auto simp: values_of_def)

subsection \<open>Each operation alone\<close>

lemma LockFreeQueue_new_inv:
  "LockFreeQueue_inv (LockFreeQueue_new d)" "LockFreeQueue_contents (LockFreeQueue_new d) = []"
  by (auto simp: LockFreeQueue_inv_def LockFreeQueue_new_def queue_at_def LockFreeQueue_contents_def
      split: if_splits intro!: exI [of _ "[]"])

text \<open>A heap holding the queue and one unlinked node.\<close>

definition pending_node :: "'a LockFreeQueue \<Rightarrow> nat list \<Rightarrow> nat \<Rightarrow> 'a \<Rightarrow> bool" where
  "pending_node q as new v \<longleftrightarrow> queue_at q as \<and> new \<notin> set (qhead q # as) \<and>
     nodes q new = Some \<lparr>ndata = v, nnext = None\<rparr> \<and> dom (nodes q) = insert new (set (qhead q # as))"

lemma pending_tail:
  assumes "pending_node q as new v"
  obtains (last) n where "qtail q = last (qhead q # as)" "nodes q (qtail q) = Some n" "nnext n = None"
  | (lag) n where "as \<noteq> []" "qtail q = last (butlast (qhead q # as))" "nodes q (qtail q) = Some n"
      "nnext n = Some (last as)"
  using assms path_last [of "nodes q" "qhead q" as] path_before_last [of "nodes q" "qhead q" as] that
  unfolding pending_node_def queue_at_def by metis

lemma queue_at_link:
  assumes "queue_at q as" and "qtail q = last (qhead q # as)" and "new \<notin> set (qhead q # as)"
    and "nodes q new = Some m" and "nnext m = None"
  shows "queue_at (set_next (qtail q) new q) (as @ [new])"
    and "queue_at (set_next (qtail q) new q\<lparr>qtail := new\<rparr>) (as @ [new])"
    and "values_of (nodes (set_next (qtail q) new q)) (as @ [new]) = values_of (nodes q) as @ [ndata m]"
    and "dom (nodes (set_next (qtail q) new q)) = dom (nodes q)"
proof -
  let ?h = "qhead q" and ?q = "set_next (qtail q) new q"
  have q: "path (nodes q) ?h as" "distinct (?h # as)" using assms(1) by (auto simp: queue_at_def)
  obtain n where n: "nodes q (last (?h # as)) = Some n" "nnext n = None" using path_last [OF q(1)] by blast
  have ns: "nodes ?q = (nodes q)(last (?h # as) \<mapsto> n\<lparr>nnext := Some new\<rparr>)"
    using n assms(2) by (simp add: set_next_def)
  have p: "path (nodes ?q) ?h (as @ [new])"
    unfolding ns using path_link [OF q n(1) assms(3-5)] by simp
  show dm: "dom (nodes ?q) = dom (nodes q)" using ns n by auto
  have fr: "\<forall>x \<in> dom (nodes ?q). x < qfresh ?q"
    unfolding dm using assms(1) by (simp add: queue_at_def set_next_def)
  show "queue_at ?q (as @ [new])" "queue_at (?q\<lparr>qtail := new\<rparr>) (as @ [new])"
    using p q(2) fr assms(2,3) by (simp_all add: queue_at_def set_next_def butlast_append)
  show "values_of (nodes ?q) (as @ [new]) = values_of (nodes q) as @ [ndata m]"
    unfolding ns values_of_def using n assms(3,4) by (auto simp del: last.simps)
qed

lemma link_node:
  assumes "pending_node q as new v" and "qtail q = last (qhead q # as)"
  shows "LockFreeQueue_inv (set_next (qtail q) new q)"
    and "LockFreeQueue_inv (set_next (qtail q) new q\<lparr>qtail := new\<rparr>)"
    and "LockFreeQueue_contents (set_next (qtail q) new q) = LockFreeQueue_contents q @ [v]"
    and "LockFreeQueue_contents (set_next (qtail q) new q\<lparr>qtail := new\<rparr>) = LockFreeQueue_contents q @ [v]"
proof -
  let ?q = "set_next (qtail q) new q"
  have q: "queue_at q as" and new: "new \<notin> set (qhead q # as)" "nodes q new = Some \<lparr>ndata = v, nnext = None\<rparr>"
    using assms(1) by (auto simp: pending_node_def)
  note link = queue_at_link [OF q assms(2) new]
  have "dom (nodes ?q) = set (qhead q # as @ [new])"
    using link(4) assms(1) by (auto simp: pending_node_def)
  then show "LockFreeQueue_inv ?q" "LockFreeQueue_inv (?q\<lparr>qtail := new\<rparr>)"
    using link(1,2) by (auto simp: LockFreeQueue_inv_def set_next_def)
  show "LockFreeQueue_contents ?q = LockFreeQueue_contents q @ [v]"
    and "LockFreeQueue_contents (?q\<lparr>qtail := new\<rparr>) = LockFreeQueue_contents q @ [v]"
    using link queue_at_contents [OF q] queue_at_contents [OF link(1)] queue_at_contents [OF link(2)]
    by simp_all
qed

lemma push_loop_ok:
  assumes "pending_node q as new v" and "length cas + (if qtail q = last (qhead q # as) then 1 else 2) \<le> fuel"
  shows "\<exists>q'. push_loop fuel cas new q = Inr q' \<and> LockFreeQueue_inv q' \<and>
    LockFreeQueue_contents q' = LockFreeQueue_contents q @ [v]"
  using assms
proof (induction fuel arbitrary: cas q)
  case 0
  then show ?case by (simp split: if_splits)
next
  case (Suc fuel)
  have short: "length (tl cas) + k \<le> fuel" if "length cas + k \<le> Suc fuel" "spurious cas" for k
    using that by (cases cas) (auto simp: spurious_def)
  from Suc.prems(1) show ?case
  proof (cases rule: pending_tail)
    case (last n)
    show ?thesis
    proof (cases "spurious cas")
      case True
      then show ?thesis
        using Suc.IH [OF Suc.prems(1), of "tl cas"] Suc.prems(2) short [of 1] last
        by (simp add: node_at_def)
    next
      case False
      then show ?thesis
        using link_node [OF Suc.prems(1) last(1)] last by (simp add: node_at_def Let_def del: last.simps)
    qed
  next
    case (lag n)
    have ne: "qtail q \<noteq> last (qhead q # as)"
      using lag Suc.prems(1) path_last [of "nodes q" "qhead q" as]
      by (auto simp: pending_node_def queue_at_def)
    show ?thesis
    proof (cases "spurious cas")
      case True
      then show ?thesis
        using Suc.IH [OF Suc.prems(1), of "tl cas"] Suc.prems(2) short [of 2] lag ne
        by (simp add: node_at_def del: last.simps)
    next
      case False
      let ?q = "q\<lparr>qtail := last as\<rparr>"
      have pn: "pending_node ?q as new v"
        using Suc.prems(1) lag(1) by (auto simp: pending_node_def queue_at_def)
      have "length (tl cas) + 1 \<le> fuel" using Suc.prems(2) ne by (cases cas) auto
      then have "\<exists>q'. push_loop fuel (tl cas) new ?q = Inr q' \<and> LockFreeQueue_inv q' \<and>
          LockFreeQueue_contents q' = LockFreeQueue_contents ?q @ [v]"
        using Suc.IH [OF pn, of "tl cas"] lag(1) by simp
      moreover have "LockFreeQueue_contents ?q = LockFreeQueue_contents q"
        by (simp add: LockFreeQueue_contents_def)
      ultimately show ?thesis using lag False by (simp add: node_at_def)
    qed
  qed
qed

lemma push_ok:
  assumes "LockFreeQueue_inv q"
  shows "\<exists>q'. LockFreeQueue_push cas v q = Inr q' \<and> LockFreeQueue_inv q' \<and>
    LockFreeQueue_contents q' = LockFreeQueue_contents q @ [v]"
proof -
  obtain as where as: "queue_at q as" "dom (nodes q) = set (qhead q # as)"
    using assms by (auto simp: LockFreeQueue_inv_def)
  let ?q = "snd (new_node v q)"
  have fresh: "qfresh q \<notin> dom (nodes q)" using as(1) by (auto simp: queue_at_def)
  then have notin: "qfresh q \<notin> set (qhead q # as)" using as(2) by simp
  have at: "queue_at ?q as"
    using as(1) path_upd [OF notin] by (auto simp: queue_at_def new_node_def less_Suc_eq)
  then have "pending_node ?q as (qfresh q) v"
    using notin as(2) by (auto simp: pending_node_def new_node_def)
  moreover have "LockFreeQueue_contents ?q = LockFreeQueue_contents q"
    using queue_at_contents [OF at] queue_at_contents [OF as(1)] notin
    by (simp add: new_node_def values_of_upd)
  ultimately show ?thesis
    using push_loop_ok [of ?q as "qfresh q" v cas "length cas + 3"]
    by (simp add: LockFreeQueue_push_def new_node_def)
qed

lemma pop_loop_ok:
  assumes "queue_at q as" and "dom (nodes q) = set (qhead q # as)"
    and "length cas + (if as \<noteq> [] \<and> qhead q = qtail q then 2 else 1) \<le> fuel"
  shows "\<exists>q'. pop_loop fuel cas q = Inr (case as of [] \<Rightarrow> None | a # _ \<Rightarrow> Some (ndata (the (nodes q a))), q') \<and>
    LockFreeQueue_inv q' \<and> LockFreeQueue_contents q' = tl (values_of (nodes q) as)"
  using assms
proof (induction fuel arbitrary: cas q)
  case 0
  then show ?case by (simp split: if_splits)
next
  case (Suc fuel)
  note at = Suc.prems(1)
  have short: "length (tl cas) + k \<le> fuel" if "length cas + k \<le> Suc fuel" "spurious cas" for k
    using that by (cases cas) (auto simp: spurious_def)
  show ?case
  proof (cases as)
    case Nil
    with at obtain n where n: "nodes q (qhead q) = Some n" "nnext n = None" "qtail q = qhead q"
      by (auto simp: queue_at_def split: option.splits)
    have "LockFreeQueue_inv q" using Suc.prems by (auto simp: LockFreeQueue_inv_def)
    then show ?thesis using n Nil queue_at_contents [OF at] by (simp add: node_at_def values_of_def)
  next
    case (Cons a bs)
    with at obtain n where n: "nodes q (qhead q) = Some n" "nnext n = Some a" "path (nodes q) a bs"
      "distinct (qhead q # a # bs)"
      by (auto simp: queue_at_def split: option.splits)
    then obtain m where m: "nodes q a = Some m" using path_dom [OF n(3)] by auto
    consider (spur) "spurious cas" | (advance) "\<not> spurious cas" "qhead q = qtail q"
      | (take) "\<not> spurious cas" "qhead q \<noteq> qtail q" by blast
    then show ?thesis
    proof cases
      case spur
      then have "length (tl cas) + (if as \<noteq> [] \<and> qhead q = qtail q then 2 else 1) \<le> fuel"
        using Suc.prems(3) short by blast
      from Suc.IH [OF Suc.prems(1,2) this] show ?thesis
        using spur n by (simp add: node_at_def Let_def)
    next
      case advance
      let ?q = "q\<lparr>qtail := a\<rparr>"
      have bl: "last (butlast bs) \<in> set bs" if "butlast bs \<noteq> []"
        using that last_in_set in_set_butlastD by metis
      have "bs = []"
        using at advance n(4) Cons bl last_in_set [of "a # bs"]
        by (auto simp: queue_at_def split: if_splits dest: in_set_butlastD)
      then have at': "queue_at ?q as" using at Cons by (auto simp: queue_at_def)
      have "length (tl cas) + 1 \<le> fuel" using Suc.prems(3) advance Cons by (cases cas) auto
      then have "length (tl cas) + (if as \<noteq> [] \<and> qhead ?q = qtail ?q then 2 else 1) \<le> fuel"
        using n(4) by simp
      from Suc.IH [OF at' _ this] show ?thesis
        using Suc.prems(2) advance n Cons by (simp add: node_at_def Let_def)
    next
      case take
      let ?q = "q\<lparr>qhead := a, nodes := (nodes q)(qhead q := None)\<rparr>"
      have "qhead q \<notin> set (a # bs)" using n(4) by simp
      then have p: "path (nodes ?q) a bs" using n(3) by (simp add: path_upd)
      have at': "queue_at ?q bs"
        using at take Cons p n(4) by (auto simp: queue_at_def split: if_splits)
      moreover have "dom (nodes ?q) = set (qhead ?q # bs)" using Suc.prems(2) Cons n(4) by auto
      moreover have "values_of (nodes ?q) bs = values_of (nodes q) bs"
        using n(4) by (simp add: values_of_upd)
      ultimately have "LockFreeQueue_inv ?q" "LockFreeQueue_contents ?q = tl (values_of (nodes q) as)"
        using queue_at_contents [OF at'] Cons by (auto simp: LockFreeQueue_inv_def values_of_def)
      then show ?thesis
        using take n(1,2,4) m Cons by (auto simp: node_at_def Let_def delete_node_def)
    qed
  qed
qed

lemma pop_ok:
  assumes "LockFreeQueue_inv q"
  shows "\<exists>q'. LockFreeQueue_pop cas q =
      Inr (case LockFreeQueue_contents q of [] \<Rightarrow> None | v # _ \<Rightarrow> Some v, q') \<and> LockFreeQueue_inv q' \<and>
    LockFreeQueue_contents q' = tl (LockFreeQueue_contents q)"
proof -
  obtain as where as: "queue_at q as" "dom (nodes q) = set (qhead q # as)"
    using assms by (auto simp: LockFreeQueue_inv_def)
  show ?thesis
    using pop_loop_ok [OF as, of cas "length cas + 3"] queue_at_contents [OF as(1)]
    by (cases as) (auto simp: LockFreeQueue_pop_def values_of_def)
qed

lemma count_loop_ok:
  "path (nodes q) p as \<Longrightarrow> length as < fuel \<Longrightarrow>
   count_loop fuel (nnext (the (nodes q p))) k q = Inr (k + length as)"
proof (induction as arbitrary: p k fuel)
  case Nil
  then show ?case by (cases fuel) (auto split: option.splits)
next
  case (Cons a as)
  then obtain f m where f: "fuel = Suc f" "nodes q a = Some m" "path (nodes q) a as"
    using path_dom [of "nodes q" a as] by (cases fuel) (auto split: option.splits)
  then show ?case using Cons.IH [of a f "Suc k"] Cons.prems
    by (auto simp: node_at_def split: option.splits)
qed

lemma size_ok:
  assumes "LockFreeQueue_inv q"
  shows "LockFreeQueue_size q = Inr (length (LockFreeQueue_contents q))"
    and "LockFreeQueue_empty q = Inr (LockFreeQueue_contents q = [])"
proof -
  obtain as where as: "queue_at q as" using assms by (auto simp: LockFreeQueue_inv_def)
  then obtain n where n: "nodes q (qhead q) = Some n" "path (nodes q) (qhead q) as"
    using path_dom [of "nodes q" "qhead q" as] by (auto simp: queue_at_def)
  have "length as < Suc (qfresh q)" using queue_at_short [OF as] by simp
  then show "LockFreeQueue_size q = Inr (length (LockFreeQueue_contents q))"
    using count_loop_ok [OF n(2), of "Suc (qfresh q)" 0] n(1) queue_at_contents [OF as]
    by (simp add: LockFreeQueue_size_def node_at_def values_of_def)
  show "LockFreeQueue_empty q = Inr (LockFreeQueue_contents q = [])"
    using n as queue_at_contents [OF as]
    by (cases as) (auto simp: LockFreeQueue_empty_def node_at_def values_of_def queue_at_def)
qed

lemma destroy_loop_ok:
  "path (nodes q) p as \<Longrightarrow> distinct (p # as) \<Longrightarrow> dom (nodes q) = set (p # as) \<Longrightarrow> Suc (length as) < fuel \<Longrightarrow>
   \<exists>q'. destroy_loop fuel (Some p) q = Inr q' \<and> nodes q' = Map.empty"
proof (induction as arbitrary: p q fuel)
  case Nil
  then obtain f where "fuel = Suc (Suc f)" by (cases fuel; cases "fuel - 1") auto
  with Nil show ?case by (auto simp: node_at_def delete_node_def fun_eq_iff dom_def split: option.splits)
next
  case (Cons a as)
  then obtain f n where f: "fuel = Suc f" "nodes q p = Some n" "nnext n = Some a" "path (nodes q) a as"
    by (cases fuel) (auto split: option.splits)
  let ?q = "q\<lparr>nodes := (nodes q)(p := None)\<rparr>"
  have "path (nodes ?q) a as" "distinct (a # as)" "dom (nodes ?q) = set (a # as)"
    using f(4) Cons.prems(2,3) by (auto simp: path_upd)
  from Cons.IH [OF this, of f] show ?case
    using f Cons.prems(4) by (simp add: node_at_def delete_node_def)
qed

lemma destroy_ok:
  assumes "LockFreeQueue_inv q"
  shows "\<exists>q'. LockFreeQueue_destroy q = Inr q' \<and> nodes q' = Map.empty"
proof -
  obtain as where as: "queue_at q as" "dom (nodes q) = set (qhead q # as)"
    using assms by (auto simp: LockFreeQueue_inv_def)
  then show ?thesis
    using destroy_loop_ok [of q "qhead q" as "Suc (Suc (qfresh q))"] queue_at_short [OF as(1)]
    by (simp add: LockFreeQueue_destroy_def queue_at_def)
qed

subsection \<open>The interface: a first-in first-out queue\<close>

datatype 'a queue_op = Enq "bool list" 'a | Deq "bool list"

fun fifo_run :: "'a queue_op list \<Rightarrow> 'a list \<Rightarrow> 'a option list \<times> 'a list" where
  "fifo_run [] xs = ([], xs)"
| "fifo_run (Enq cas v # ops) xs = fifo_run ops (xs @ [v])"
| "fifo_run (Deq cas # ops) xs =
     (let (rs, ys) = fifo_run ops (tl xs) in ((case xs of [] \<Rightarrow> None | x # _ \<Rightarrow> Some x) # rs, ys))"

fun queue_run ::
  "(bool list \<Rightarrow> 'a \<Rightarrow> 'q \<Rightarrow> 'q res) \<Rightarrow> (bool list \<Rightarrow> 'q \<Rightarrow> ('a option \<times> 'q) res) \<Rightarrow> 'a queue_op list \<Rightarrow> 'q \<Rightarrow>
   ('a option list \<times> 'q) res" where
  "queue_run enq deq [] q = Inr ([], q)"
| "queue_run enq deq (Enq cas v # ops) q = bind_res (enq cas v q) (queue_run enq deq ops)"
| "queue_run enq deq (Deq cas # ops) q =
     bind_res (deq cas q) (\<lambda>(r, q1). bind_res (queue_run enq deq ops q1) (\<lambda>(rs, q2). Inr (r # rs, q2)))"

locale fifo_queue =
  fixes inv :: "'q \<Rightarrow> bool"
    and contents :: "'q \<Rightarrow> 'a list"
    and enq :: "bool list \<Rightarrow> 'a \<Rightarrow> 'q \<Rightarrow> 'q res"
    and deq :: "bool list \<Rightarrow> 'q \<Rightarrow> ('a option \<times> 'q) res"
  assumes enq_law: "inv q \<Longrightarrow> \<exists>q'. enq cas v q = Inr q' \<and> inv q' \<and> contents q' = contents q @ [v]"
    and deq_law: "inv q \<Longrightarrow> \<exists>q'. deq cas q = Inr (case contents q of [] \<Rightarrow> None | v # _ \<Rightarrow> Some v, q') \<and>
      inv q' \<and> contents q' = tl (contents q)"
begin

lemma run_fifo:
  "inv q \<Longrightarrow> \<exists>q'. queue_run enq deq ops q = Inr (fst (fifo_run ops (contents q)), q') \<and> inv q' \<and>
     contents q' = snd (fifo_run ops (contents q))"
proof (induction ops arbitrary: q)
  case Nil
  then show ?case by simp
next
  case (Cons op ops)
  show ?case
  proof (cases op)
    case (Enq cas v)
    then show ?thesis using enq_law [OF Cons.prems, of cas v] Cons.IH by fastforce
  next
    case (Deq cas)
    obtain q' where "deq cas q = Inr (case contents q of [] \<Rightarrow> None | v # _ \<Rightarrow> Some v, q')" "inv q'"
      "contents q' = tl (contents q)" using deq_law [OF Cons.prems] by blast
    then show ?thesis using Cons.IH [of q'] Deq by (auto simp: split_beta Let_def)
  qed
qed

lemma deq_nonempty:
  assumes "inv q" and "contents q = v # vs"
  shows "\<exists>q'. deq cas q = Inr (Some v, q') \<and> inv q' \<and> contents q' = vs"
  using deq_law [OF assms(1), of cas] assms(2) by auto

lemma deq_empty:
  assumes "inv q" and "contents q = []"
  shows "\<exists>q'. deq cas q = Inr (None, q') \<and> inv q' \<and> contents q' = []"
  using deq_law [OF assms(1), of cas] assms(2) by auto

end

interpretation lfq: fifo_queue LockFreeQueue_inv LockFreeQueue_contents LockFreeQueue_push LockFreeQueue_pop
proof (unfold_locales, goal_cases)
  case (1 q cas v)
  then show ?case by (rule push_ok)
next
  case (2 q cas)
  then show ?case by (rule pop_ok)
qed

subsection \<open>Concurrent use\<close>

datatype qpc =
    QIdle
  | PushStart nat
  | PushTail nat nat
  | PushNext nat nat "nat option"
  | PushLink nat nat
  | PushAdvance nat nat nat
  | PushSwing nat nat
  | PopStart
  | PopHead nat
  | PopTail nat nat
  | PopNext nat nat "nat option"
  | PopAdvance nat nat
  | PopSwing nat "nat option"
  | PopTake nat nat
  | PopDelete nat

text \<open>
  One atomic access of a thread: the loads, the re-check of the loaded pointer, the three
  compare-exchanges (\<open>sp\<close>: spurious failure), the read of the result and the \<open>delete\<close>.
\<close>

fun queue_micro :: "bool \<Rightarrow> qpc \<Rightarrow> 'a LockFreeQueue \<Rightarrow> (qpc \<times> 'a LockFreeQueue) res" where
  "queue_micro sp QIdle q = Inr (QIdle, q)"
| "queue_micro sp (PushStart new) q = Inr (PushTail new (qtail q), q)"
| "queue_micro sp (PushTail new ot) q = bind_res (node_at ot q) (\<lambda>n. Inr (PushNext new ot (nnext n), q))"
| "queue_micro sp (PushNext new ot tn) q =
     Inr (if ot = qtail q then (case tn of None \<Rightarrow> PushLink new ot | Some x \<Rightarrow> PushAdvance new ot x)
          else PushStart new, q)"
| "queue_micro sp (PushLink new ot) q =
     bind_res (node_at ot q) (\<lambda>n. Inr (if nnext n = None \<and> \<not> sp then (PushSwing new ot, set_next ot new q)
                                      else (PushStart new, q)))"
| "queue_micro sp (PushAdvance new ot x) q =
     Inr (PushStart new, if qtail q = ot \<and> \<not> sp then q\<lparr>qtail := x\<rparr> else q)"
| "queue_micro sp (PushSwing new ot) q =
     Inr (QIdle, if qtail q = ot \<and> \<not> sp then q\<lparr>qtail := new\<rparr> else q)"
| "queue_micro sp PopStart q = Inr (PopHead (qhead q), q)"
| "queue_micro sp (PopHead oh) q = Inr (PopTail oh (qtail q), q)"
| "queue_micro sp (PopTail oh ot) q = bind_res (node_at oh q) (\<lambda>n. Inr (PopNext oh ot (nnext n), q))"
| "queue_micro sp (PopNext oh ot hn) q =
     Inr (if oh = qhead q then
            if oh = ot then (case hn of None \<Rightarrow> QIdle | Some x \<Rightarrow> PopAdvance ot x) else PopSwing oh hn
          else PopStart, q)"
| "queue_micro sp (PopAdvance ot x) q =
     Inr (PopStart, if qtail q = ot \<and> \<not> sp then q\<lparr>qtail := x\<rparr> else q)"
| "queue_micro sp (PopSwing oh hn) q =
     (if qhead q = oh \<and> \<not> sp then
        (case hn of None \<Rightarrow> Inl NullDeref | Some x \<Rightarrow> Inr (PopTake oh x, q\<lparr>qhead := x\<rparr>))
      else Inr (PopStart, q))"
| "queue_micro sp (PopTake oh x) q = bind_res (node_at x q) (\<lambda>n. Inr (PopDelete oh, q))"
| "queue_micro sp (PopDelete oh) q = bind_res (delete_node oh q) (\<lambda>q1. Inr (QIdle, q1))"

record 'a qsys =
  shared :: "'a LockFreeQueue"
  threads :: "qpc list"

inductive queue_step :: "'a qsys \<Rightarrow> 'a qsys \<Rightarrow> bool" where
  begin_push: "\<lbrakk>t < length (threads s); threads s ! t = QIdle; new_node v (shared s) = (new, q)\<rbrakk>
    \<Longrightarrow> queue_step s \<lparr>shared = q, threads = (threads s)[t := PushStart new]\<rparr>"
| begin_pop: "\<lbrakk>t < length (threads s); threads s ! t = QIdle\<rbrakk>
    \<Longrightarrow> queue_step s \<lparr>shared = shared s, threads = (threads s)[t := PopStart]\<rparr>"
| micro: "\<lbrakk>t < length (threads s); queue_micro sp (threads s ! t) (shared s) = Inr (pc, q)\<rbrakk>
    \<Longrightarrow> queue_step s \<lparr>shared = q, threads = (threads s)[t := pc]\<rparr>"

text \<open>
  One producer and one consumer whose compare-exchanges do not fail spuriously. The values linked and
  the values returned are recorded.
\<close>

record 'a spsc =
  sq :: "'a LockFreeQueue"
  producer :: qpc
  consumer :: qpc
  sent :: "'a list"
  received :: "'a list"

definition linked :: "qpc \<Rightarrow> qpc \<Rightarrow> 'a LockFreeQueue \<Rightarrow> 'a list" where
  "linked pc pc' q = (case (pc, pc') of (PushLink new ot, PushSwing new' ot') \<Rightarrow> [ndata (the (nodes q new))] | _ \<Rightarrow> [])"

definition in_hand :: "qpc \<Rightarrow> 'a LockFreeQueue \<Rightarrow> 'a list" where
  "in_hand pc q = (case pc of PopTake oh x \<Rightarrow> [ndata (the (nodes q x))] | _ \<Rightarrow> [])"

inductive spsc_step :: "'a spsc \<Rightarrow> 'a spsc \<Rightarrow> bool" where
  produce: "\<lbrakk>producer s = QIdle; new_node v (sq s) = (new, q)\<rbrakk>
    \<Longrightarrow> spsc_step s (s\<lparr>sq := q, producer := PushStart new\<rparr>)"
| consume: "consumer s = QIdle \<Longrightarrow> spsc_step s (s\<lparr>consumer := PopStart\<rparr>)"
| produce_step: "queue_micro False (producer s) (sq s) = Inr (pc, q)
    \<Longrightarrow> spsc_step s (s\<lparr>sq := q, producer := pc, sent := sent s @ linked (producer s) pc (sq s)\<rparr>)"
| consume_step: "queue_micro False (consumer s) (sq s) = Inr (pc, q)
    \<Longrightarrow> spsc_step s (s\<lparr>sq := q, consumer := pc, received := received s @ in_hand (consumer s) (sq s)\<rparr>)"

definition spsc_start :: "'a \<Rightarrow> 'a spsc" where
  "spsc_start d = \<lparr>sq = LockFreeQueue_new d, producer = QIdle, consumer = QIdle, sent = [], received = []\<rparr>"

fun unlinked :: "qpc \<Rightarrow> nat set" where
  "unlinked (PushStart new) = {new}"
| "unlinked (PushTail new ot) = {new}"
| "unlinked (PushNext new ot tn) = {new}"
| "unlinked (PushLink new ot) = {new}"
| "unlinked (PushAdvance new ot x) = {new}"
| "unlinked _ = {}"

fun unfreed :: "qpc \<Rightarrow> nat set" where
  "unfreed (PopTake oh x) = {oh}"
| "unfreed (PopDelete oh) = {oh}"
| "unfreed _ = {}"

fun producer_ok :: "qpc \<Rightarrow> nat \<Rightarrow> nat \<Rightarrow> bool" where
  "producer_ok QIdle tail e \<longleftrightarrow> tail = e"
| "producer_ok (PushStart new) tail e \<longleftrightarrow> tail = e"
| "producer_ok (PushTail new ot) tail e \<longleftrightarrow> tail = e \<and> ot = e"
| "producer_ok (PushNext new ot tn) tail e \<longleftrightarrow> tail = e \<and> ot = e \<and> tn = None"
| "producer_ok (PushLink new ot) tail e \<longleftrightarrow> tail = e \<and> ot = e"
| "producer_ok (PushSwing new ot) tail e \<longleftrightarrow> new = e \<and> ot \<noteq> e \<and> (tail = e \<or> tail = ot)"
| "producer_ok _ tail e \<longleftrightarrow> False"

fun consumer_ok :: "qpc \<Rightarrow> nat \<Rightarrow> nat \<Rightarrow> nat list \<Rightarrow> bool" where
  "consumer_ok QIdle head tail as \<longleftrightarrow> True"
| "consumer_ok PopStart head tail as \<longleftrightarrow> True"
| "consumer_ok (PopHead oh) head tail as \<longleftrightarrow> oh = head"
| "consumer_ok (PopTail oh ot) head tail as \<longleftrightarrow> oh = head \<and> (ot \<noteq> oh \<longrightarrow> tail \<noteq> head)"
| "consumer_ok (PopNext oh ot hn) head tail as \<longleftrightarrow> oh = head \<and> (ot \<noteq> oh \<longrightarrow> tail \<noteq> head \<and> hn \<noteq> None) \<and>
     (\<forall>x. hn = Some x \<longrightarrow> as \<noteq> [] \<and> hd as = x)"
| "consumer_ok (PopAdvance ot x) head tail as \<longleftrightarrow> ot = head \<and> as \<noteq> [] \<and> hd as = x"
| "consumer_ok (PopSwing oh hn) head tail as \<longleftrightarrow> oh = head \<and> tail \<noteq> head \<and> as \<noteq> [] \<and> hn = Some (hd as)"
| "consumer_ok (PopTake oh x) head tail as \<longleftrightarrow> x = head"
| "consumer_ok (PopDelete oh) head tail as \<longleftrightarrow> True"
| "consumer_ok _ head tail as \<longleftrightarrow> False"

definition spsc_at :: "'a spsc \<Rightarrow> nat list \<Rightarrow> bool" where
  "spsc_at s as \<longleftrightarrow> queue_at (sq s) as \<and>
     dom (nodes (sq s)) = set (qhead (sq s) # as) \<union> unlinked (producer s) \<union> unfreed (consumer s) \<and>
     unlinked (producer s) \<inter> (set (qhead (sq s) # as) \<union> unfreed (consumer s)) = {} \<and>
     unfreed (consumer s) \<inter> set (qhead (sq s) # as) = {} \<and>
     (\<forall>p \<in> unlinked (producer s). nnext (the (nodes (sq s) p)) = None) \<and>
     producer_ok (producer s) (qtail (sq s)) (last (qhead (sq s) # as)) \<and>
     consumer_ok (consumer s) (qhead (sq s)) (qtail (sq s)) as \<and>
     received s @ in_hand (consumer s) (sq s) @ values_of (nodes (sq s)) as = sent s"

lemma spsc_atD:
  assumes "spsc_at s as"
  shows "queue_at (sq s) as" "path (nodes (sq s)) (qhead (sq s)) as" "distinct (qhead (sq s) # as)"
    "dom (nodes (sq s)) = set (qhead (sq s) # as) \<union> unlinked (producer s) \<union> unfreed (consumer s)"
    "unlinked (producer s) \<inter> (set (qhead (sq s) # as) \<union> unfreed (consumer s)) = {}"
    "unfreed (consumer s) \<inter> set (qhead (sq s) # as) = {}"
    "\<And>p. p \<in> unlinked (producer s) \<Longrightarrow> nnext (the (nodes (sq s) p)) = None"
    "producer_ok (producer s) (qtail (sq s)) (last (qhead (sq s) # as))"
    "consumer_ok (consumer s) (qhead (sq s)) (qtail (sq s)) as"
    "received s @ in_hand (consumer s) (sq s) @ values_of (nodes (sq s)) as = sent s"
  using assms by (auto simp: spsc_at_def queue_at_def)

lemma consumer_ok_append:
  "consumer_ok pc head tail as \<Longrightarrow> consumer_ok pc head tail (as @ [x])"
  by (cases pc) (auto simp: hd_append)

lemma spsc_start_at: "spsc_at (spsc_start d) []"
  by (auto simp: spsc_at_def spsc_start_def LockFreeQueue_new_def queue_at_def in_hand_def values_of_def
      split: if_splits)

lemma in_hand_pointers [simp]: "in_hand pc (q\<lparr>qtail := x\<rparr>) = in_hand pc q"
  by (simp add: in_hand_def split: qpc.split)

lemma set_next_data: "ndata (the (nodes (set_next p x q) y)) = ndata (the (nodes q y))"
  by (cases "nodes q p") (auto simp: set_next_def)

lemma single_tail:
  assumes "queue_at q as" and "as \<noteq> []" and "qtail q = qhead q"
  shows "length as = 1"
proof (cases as)
  case (Cons a bs)
  have "last (butlast bs) \<in> set bs" if "butlast bs \<noteq> []"
    using that last_in_set in_set_butlastD by metis
  then have "bs = []"
    using assms Cons last_in_set [of "a # bs"] by (auto simp: queue_at_def split: if_splits)
  then show ?thesis using Cons by simp
qed (use assms in simp)

lemma spsc_produce:
  assumes "spsc_at s as" and "producer s = QIdle" and "new_node v (sq s) = (new, q)"
  shows "spsc_at (s\<lparr>sq := q, producer := PushStart new\<rparr>) as"
proof -
  note s = spsc_atD [OF assms(1)]
  have q: "q = (sq s)\<lparr>nodes := (nodes (sq s))(new \<mapsto> \<lparr>ndata = v, nnext = None\<rparr>), qfresh := Suc new\<rparr>"
    "new = qfresh (sq s)" using assms(3) by (auto simp: new_node_def)
  have "new \<notin> dom (nodes (sq s))" using s(1) q(2) by (auto simp: queue_at_def)
  then have n: "new \<notin> set (qhead (sq s) # as)" "new \<notin> unfreed (consumer s)" "new \<notin> set as"
    "new \<noteq> qhead (sq s)" using s(4) by auto
  have "queue_at q as"
    using s(1) path_upd [OF n(1)] q by (auto simp: queue_at_def less_Suc_eq)
  moreover have "in_hand (consumer s) q = in_hand (consumer s) (sq s)"
    using n(4) s(9) q by (auto simp: in_hand_def split: qpc.splits)
  ultimately show ?thesis
    using s n q assms(2) by (simp add: spsc_at_def values_of_upd)
qed

lemma spsc_produce_step:
  assumes "spsc_at s as" and "queue_micro False (producer s) (sq s) = Inr (pc, q)"
  shows "\<exists>as'. spsc_at (s\<lparr>sq := q, producer := pc, sent := sent s @ linked (producer s) pc (sq s)\<rparr>) as'"
proof (cases "\<exists>new ot. producer s = PushLink new ot")
  case True
  then obtain new ot where pc: "producer s = PushLink new ot" by blast
  note s = spsc_atD [OF assms(1)]
  have ot: "ot = last (qhead (sq s) # as)" "qtail (sq s) = last (qhead (sq s) # as)" using s(8) pc by auto
  obtain n where n: "nodes (sq s) ot = Some n" "nnext n = None" using path_last [OF s(2)] ot by metis
  have new: "new \<notin> set (qhead (sq s) # as)" "new \<notin> unfreed (consumer s)" using s(5) pc by auto
  obtain m where m: "nodes (sq s) new = Some m" "nnext m = None" using s(4) s(7) [of new] pc by fastforce
  have q: "pc = PushSwing new ot" "q = set_next (qtail (sq s)) new (sq s)"
    using assms(2) pc n ot by (auto simp: node_at_def)
  note link = queue_at_link [OF s(1) ot(2) new(1) m]
  have hand: "in_hand (consumer s) q = in_hand (consumer s) (sq s)"
    by (simp add: in_hand_def q(2) set_next_data split: qpc.split)
  have "spsc_at (s\<lparr>sq := q, producer := pc, sent := sent s @ linked (producer s) pc (sq s)\<rparr>) (as @ [new])"
    using link s new m ot hand pc consumer_ok_append [OF s(9), of new]
    by (auto simp: spsc_at_def q linked_def set_next_def)
  then show ?thesis by blast
next
  case False
  note s = spsc_atD [OF assms(1)]
  obtain n where n: "nodes (sq s) (last (qhead (sq s) # as)) = Some n" "nnext n = None"
    using path_last [OF s(2)] by blast
  have "spsc_at (s\<lparr>sq := q, producer := pc, sent := sent s @ linked (producer s) pc (sq s)\<rparr>) as"
  proof (cases "producer s")
    case (PushSwing new ot)
    then have q: "pc = QIdle" "q = (sq s)\<lparr>qtail := last (qhead (sq s) # as)\<rparr>"
      using assms(2) s(8) by (auto split: if_splits)
    have "as = [] \<or> last as \<noteq> qhead (sq s)" using s(3) last_in_set by fastforce
    then have "consumer_ok (consumer s) (qhead q) (qtail q) as"
      using s(3,9) s(1) PushSwing
      by (cases "consumer s") (auto simp: q queue_at_def)
    then show ?thesis
      using s PushSwing by (auto simp: spsc_at_def q linked_def queue_at_def)
  qed (use assms s n False in \<open>auto simp: spsc_at_def linked_def node_at_def\<close>)
  then show ?thesis by blast
qed

lemma spsc_consume_step:
  assumes "spsc_at s as" and "queue_micro False (consumer s) (sq s) = Inr (pc, q)"
  shows "\<exists>as'. spsc_at (s\<lparr>sq := q, consumer := pc, received := received s @ in_hand (consumer s) (sq s)\<rparr>) as'"
proof -
  note s = spsc_atD [OF assms(1)]
  let ?h = "qhead (sq s)"
  have nonempty: "as \<noteq> []" if "qtail (sq s) \<noteq> ?h" using s(1) that by (auto simp: queue_at_def)
  show ?thesis
  proof (cases "consumer s")
    case (PopTail oh ot)
    obtain n where n: "nodes (sq s) ?h = Some n" "nnext n = (case as of [] \<Rightarrow> None | a # _ \<Rightarrow> Some a)"
      using s(2) by (cases as) (auto split: option.splits)
    then have "pc = PopNext oh ot (nnext n)" "q = sq s"
      using assms(2) PopTail s(9) by (auto simp: node_at_def)
    then have "spsc_at (s\<lparr>sq := q, consumer := pc, received := received s @ in_hand (consumer s) (sq s)\<rparr>) as"
      using s n nonempty PopTail by (auto simp: spsc_at_def in_hand_def split: list.splits)
    then show ?thesis by blast
  next
    case (PopNext oh ot hn)
    then have "oh = ?h" using s(9) by simp
    then have q: "q = sq s"
      and pc: "pc = (if oh = ot then case hn of None \<Rightarrow> QIdle | Some x \<Rightarrow> PopAdvance ot x else PopSwing oh hn)"
      using assms(2) PopNext by auto
    have ok: "consumer_ok pc ?h (qtail (sq s)) as"
    proof (cases "oh = ot")
      case True
      then show ?thesis using s(9) PopNext pc by (cases hn) simp_all
    next
      case False
      then show ?thesis using s(9) PopNext pc nonempty by auto
    qed
    have "unfreed pc = {}" "in_hand pc q = []" by (simp_all add: pc in_hand_def split: option.split)
    then have "spsc_at (s\<lparr>sq := q, consumer := pc, received := received s @ in_hand (consumer s) (sq s)\<rparr>) as"
      using assms(1) q ok PopNext by (simp add: spsc_at_def in_hand_def)
    then show ?thesis by blast
  next
    case (PopAdvance ot x)
    then have pc: "pc = PopStart" "ot = ?h" "as \<noteq> []" "hd as = x" using assms(2) s(9) by auto
    show ?thesis
    proof (cases "qtail (sq s) = ?h")
      case True
      then obtain "as = [x]" using single_tail [OF s(1) pc(3)] pc(4) by (cases as) auto
      moreover have "q = (sq s)\<lparr>qtail := x\<rparr>" using assms(2) PopAdvance pc(2) True by simp
      moreover have "producer_ok (producer s) x x"
        using s(8) s(3) True \<open>as = [x]\<close> by (cases "producer s") auto
      ultimately have "spsc_at (s\<lparr>sq := q, consumer := pc, received := received s @ in_hand (consumer s) (sq s)\<rparr>) as"
        using s pc PopAdvance by (auto simp: spsc_at_def in_hand_def queue_at_def)
      then show ?thesis by blast
    next
      case False
      then have "q = sq s" using assms(2) PopAdvance pc(2) by simp
      then have "spsc_at (s\<lparr>sq := q, consumer := pc, received := received s @ in_hand (consumer s) (sq s)\<rparr>) as"
        using s pc PopAdvance by (auto simp: spsc_at_def in_hand_def)
      then show ?thesis by blast
    qed
  next
    case (PopSwing oh hn)
    then obtain a bs where as: "as = a # bs" using s(9) by (cases as) auto
    then have pc: "pc = PopTake oh a" "oh = ?h" "qtail (sq s) \<noteq> ?h" "q = (sq s)\<lparr>qhead := a\<rparr>"
      using assms(2) s(9) PopSwing by auto
    have "queue_at q bs" using s(1) as pc(3,4) by (auto simp: queue_at_def split: if_splits option.splits)
    then have "spsc_at (s\<lparr>sq := q, consumer := pc, received := received s @ in_hand (consumer s) (sq s)\<rparr>) bs"
      using s as pc PopSwing by (auto simp: spsc_at_def in_hand_def values_of_def)
    then show ?thesis by blast
  next
    case (PopDelete oh)
    then have oh: "oh \<in> dom (nodes (sq s))" "oh \<notin> set (?h # as)" "oh \<notin> unlinked (producer s)"
      using s(4-6) by auto
    then have pc: "pc = QIdle" "q = (sq s)\<lparr>nodes := (nodes (sq s))(oh := None)\<rparr>"
      using assms(2) PopDelete by (auto simp: delete_node_def)
    have "queue_at q as" using s(1) path_upd [OF oh(2)] pc by (auto simp: queue_at_def)
    then have "spsc_at (s\<lparr>sq := q, consumer := pc, received := received s @ in_hand (consumer s) (sq s)\<rparr>) as"
      using s oh pc PopDelete by (auto simp: spsc_at_def in_hand_def values_of_upd)
    then show ?thesis by blast
  qed (use assms s nonempty in \<open>auto simp: spsc_at_def in_hand_def node_at_def intro!: exI [of _ as] split: option.splits\<close>)
qed

lemma spsc_reachable:
  "spsc_step\<^sup>*\<^sup>* (spsc_start d) s \<Longrightarrow> \<exists>as. spsc_at s as"
proof (induction rule: rtranclp_induct)
  case base
  show ?case by (rule exI [where x = "[]"], rule spsc_start_at)
next
  case (step s s')
  then obtain as where as: "spsc_at s as" by blast
  from step(2) show ?case
  proof cases
    case (produce v new q)
    then show ?thesis using spsc_produce [OF as] by blast
  next
    case consume
    then have "spsc_at s' as" using as by (auto simp: spsc_at_def in_hand_def)
    then show ?thesis by blast
  next
    case (produce_step pc q)
    then show ?thesis using spsc_produce_step [OF as] by blast
  next
    case (consume_step pc q)
    then show ?thesis using spsc_consume_step [OF as] by blast
  qed
qed

lemma spsc_at_no_fault:
  assumes "spsc_at s as"
  shows "\<exists>r. queue_micro False (producer s) (sq s) = Inr r" "\<exists>r. queue_micro False (consumer s) (sq s) = Inr r"
proof -
  note s = spsc_atD [OF assms]
  obtain n h where nh: "nodes (sq s) (last (qhead (sq s) # as)) = Some n" "nodes (sq s) (qhead (sq s)) = Some h"
    using path_last [OF s(2)] path_dom [OF s(2)] by auto
  then show "\<exists>r. queue_micro False (producer s) (sq s) = Inr r"
    using s(8) by (cases "producer s") (auto simp: node_at_def simp del: last.simps)
  show "\<exists>r. queue_micro False (consumer s) (sq s) = Inr r"
    using s(4,9) nh(2)
    by (cases "consumer s") (auto simp: node_at_def delete_node_def simp del: last.simps)
qed

text \<open>A schedule: which thread starts which call and which thread moves next.\<close>

datatype 'a sched = StartPush nat 'a | StartPop nat | Move nat

fun queue_exec :: "'a sched list \<Rightarrow> 'a qsys \<Rightarrow> 'a qsys res" where
  "queue_exec [] s = Inr s"
| "queue_exec (StartPush t v # acts) s =
     (if t < length (threads s) \<and> threads s ! t = QIdle
      then queue_exec acts \<lparr>shared = snd (new_node v (shared s)),
                            threads = (threads s)[t := PushStart (fst (new_node v (shared s)))]\<rparr>
      else Inl AssertFailed)"
| "queue_exec (StartPop t # acts) s =
     (if t < length (threads s) \<and> threads s ! t = QIdle
      then queue_exec acts \<lparr>shared = shared s, threads = (threads s)[t := PopStart]\<rparr>
      else Inl AssertFailed)"
| "queue_exec (Move t # acts) s =
     (if t < length (threads s)
      then bind_res (queue_micro False (threads s ! t) (shared s))
             (\<lambda>(pc, q). queue_exec acts \<lparr>shared = q, threads = (threads s)[t := pc]\<rparr>)
      else Inl AssertFailed)"

lemma queue_exec_sound: "queue_exec acts s = Inr s' \<Longrightarrow> queue_step\<^sup>*\<^sup>* s s'"
proof (induction acts s rule: queue_exec.induct)
  case (1 s)
  then show ?case by simp
next
  case (2 t v acts s)
  then show ?case
    by (auto split: if_splits intro: converse_rtranclp_into_rtranclp begin_push [OF _ _ prod.collapse [symmetric]])
next
  case (3 t acts s)
  then show ?case by (auto split: if_splits intro: converse_rtranclp_into_rtranclp begin_pop)
next
  case (4 t acts s)
  then show ?case
    by (auto simp: bind_res_Inr_iff split: if_splits intro: converse_rtranclp_into_rtranclp micro)
qed

subsection \<open>Properties\<close>

text \<open>
  For every sequence of \<open>push\<close> and \<open>pop\<close> calls and every pattern of spurious
  compare-exchange failures, each loop terminates, no freed node is touched, the values returned are
  those of a first-in first-out queue, \<open>size()\<close> and \<open>empty()\<close> describe its contents, and
  the destructor frees every node that is left exactly once.
\<close>
theorem lfq_sequential_fifo:
  assumes "LockFreeQueue_inv q"
  shows "\<exists>q'. queue_run LockFreeQueue_push LockFreeQueue_pop ops q =
      Inr (fst (fifo_run ops (LockFreeQueue_contents q)), q') \<and>
    LockFreeQueue_contents q' = snd (fifo_run ops (LockFreeQueue_contents q)) \<and>
    LockFreeQueue_size q' = Inr (length (LockFreeQueue_contents q')) \<and>
    LockFreeQueue_empty q' = Inr (LockFreeQueue_contents q' = []) \<and>
    (\<exists>q''. LockFreeQueue_destroy q' = Inr q'' \<and> nodes q'' = Map.empty)"
proof -
  obtain q' where "queue_run LockFreeQueue_push LockFreeQueue_pop ops q =
      Inr (fst (fifo_run ops (LockFreeQueue_contents q)), q')" "LockFreeQueue_inv q'"
    "LockFreeQueue_contents q' = snd (fifo_run ops (LockFreeQueue_contents q))"
    using lfq.run_fifo [OF assms] by blast
  then show ?thesis using size_ok [of q'] destroy_ok [of q'] by auto
qed

theorem lfq_sequential_fifo_witness:
  "\<exists>q'. queue_run LockFreeQueue_push LockFreeQueue_pop
      [Enq [False, True] (7 :: nat), Enq [True] 8, Deq [True, True], Deq [], Deq []] (LockFreeQueue_new 0) =
      Inr ([Some 7, Some 8, None], q') \<and> LockFreeQueue_size q' = Inr 0"
  using lfq_sequential_fifo [OF LockFreeQueue_new_inv(1),
    of "[Enq [False, True] (7 :: nat), Enq [True] 8, Deq [True, True], Deq [], Deq []]" 0]
  by (auto simp: LockFreeQueue_new_inv(2) simp del: queue_run.simps)

text \<open>
  C26. One producer and one consumer, any interleaving of their atomic accesses, on hardware whose
  weak compare-exchange does not fail spuriously: neither thread ever touches a freed node, what the
  consumer has received is a prefix of what the producer has linked, in order, and whenever both are
  between calls what was received followed by the queue's contents is exactly what was sent and
  every allocated node is reachable from \<open>head_\<close>.
\<close>
theorem lfq_spsc_fifo:
  assumes "spsc_step\<^sup>*\<^sup>* (spsc_start d) s"
  shows "(\<exists>r. queue_micro False (producer s) (sq s) = Inr r) \<and>
    (\<exists>r. queue_micro False (consumer s) (sq s) = Inr r) \<and>
    (\<exists>rest. sent s = received s @ rest) \<and>
    (producer s = QIdle \<longrightarrow> consumer s = QIdle \<longrightarrow> LockFreeQueue_inv (sq s) \<and>
       sent s = received s @ LockFreeQueue_contents (sq s))"
proof -
  obtain as where as: "spsc_at s as" using spsc_reachable [OF assms] by blast
  note s = spsc_atD [OF as]
  have "LockFreeQueue_inv (sq s) \<and> sent s = received s @ LockFreeQueue_contents (sq s)"
    if "producer s = QIdle" "consumer s = QIdle"
    using s(1,4,10) that queue_at_contents [OF s(1)] by (auto simp: LockFreeQueue_inv_def in_hand_def)
  moreover have "\<exists>rest. sent s = received s @ rest" using s(10) by metis
  ultimately show ?thesis using spsc_at_no_fault [OF as] by blast
qed

theorem lfq_spsc_fifo_witness:
  "\<exists>s. spsc_step\<^sup>*\<^sup>* (spsc_start (0 :: nat)) s \<and> consumer s = PopStart \<and>
     (\<exists>rest. sent s = received s @ rest)"
proof -
  let ?s = "(spsc_start (0 :: nat))\<lparr>consumer := PopStart\<rparr>"
  have run: "spsc_step\<^sup>*\<^sup>* (spsc_start 0) ?s"
    by (rule r_into_rtranclp, rule consume) (simp add: spsc_start_def)
  show ?thesis by (rule exI [of _ ?s]) (use run lfq_spsc_fifo [OF run] in auto)
qed

text \<open>
  With two threads that both push the queue is not memory safe: one thread loads \<open>tail_\<close>, the
  other pushes and pops, which frees the node the first holds, and the first thread's next access
  reads freed memory. No compare-exchange has to fail.
\<close>
theorem lfq_use_after_free:
  "\<exists>s. queue_step\<^sup>*\<^sup>* \<lparr>shared = LockFreeQueue_new d, threads = [QIdle, QIdle]\<rparr> s \<and>
     queue_micro False (threads s ! 0) (shared s) = Inl UseAfterFree"
proof -
  let ?acts = "StartPush 0 d # Move 0 # StartPush 1 d # replicate 5 (Move 1) @ StartPop 1 # replicate 7 (Move 1)"
  have "\<exists>s. queue_exec ?acts \<lparr>shared = LockFreeQueue_new d, threads = [QIdle, QIdle]\<rparr> = Inr s \<and>
     queue_micro False (threads s ! 0) (shared s) = Inl UseAfterFree"
    by (simp add: numeral_nat LockFreeQueue_new_def new_node_def node_at_def delete_node_def set_next_def)
  then show ?thesis using queue_exec_sound by blast
qed

end
