(* ===== verification/Rpc_Status.thy ===== *)
theory Rpc_Status
  imports Eux_Prelude
begin

text \<open>
  Status codes: \<open>rpc_core/rpc_status.hpp\<close> (the \<open>RPC\<close> category, the category registry and
  the serialisable \<open>RpcStatus\<close>), \<open>ucx_context/ucx_status.hpp\<close> and \<open>axon/errors\<close>.
  An \<open>std::error_category\<close> is identified by its address: one constructor per category object of
  the program. The texts of the standard and UCX categories (\<open>strerror\<close>,
  \<open>ucs_status_string\<close>) are arguments.
\<close>

subsection \<open>Codes and categories\<close>

datatype RpcErrc =
    OK | CANCELLED | UNKNOWN | INVALID_ARGUMENT | DEADLINE_EXCEEDED | NOT_FOUND | ALREADY_EXISTS
  | PERMISSION_DENIED | RESOURCE_EXHAUSTED | FAILED_PRECONDITION | ABORTED | OUT_OF_RANGE
  | UNIMPLEMENTED | INTERNAL | UNAVAILABLE | DATA_LOSS | UNAUTHENTICATED

definition RpcErrc_codes :: "RpcErrc list" where
  "RpcErrc_codes = [OK, CANCELLED, UNKNOWN, INVALID_ARGUMENT, DEADLINE_EXCEEDED, NOT_FOUND,
     ALREADY_EXISTS, PERMISSION_DENIED, RESOURCE_EXHAUSTED, FAILED_PRECONDITION, ABORTED,
     OUT_OF_RANGE, UNIMPLEMENTED, INTERNAL, UNAVAILABLE, DATA_LOSS, UNAUTHENTICATED]"

fun errc_index :: "RpcErrc \<Rightarrow> RpcErrc list \<Rightarrow> int" where
  "errc_index e [] = 0"
| "errc_index e (c # cs) = (if c = e then 0 else 1 + errc_index e cs)"

definition errc_value :: "RpcErrc \<Rightarrow> int" where
  "errc_value e = errc_index e RpcErrc_codes"

fun rpc_message :: "RpcErrc \<Rightarrow> string" where
  "rpc_message OK = ''OK''"
| "rpc_message CANCELLED = ''Cancelled''"
| "rpc_message UNKNOWN = ''Unknown''"
| "rpc_message INVALID_ARGUMENT = ''Invalid argument''"
| "rpc_message DEADLINE_EXCEEDED = ''Deadline exceeded''"
| "rpc_message NOT_FOUND = ''Not found''"
| "rpc_message ALREADY_EXISTS = ''Already exists''"
| "rpc_message PERMISSION_DENIED = ''Permission denied''"
| "rpc_message UNAUTHENTICATED = ''Unauthenticated''"
| "rpc_message RESOURCE_EXHAUSTED = ''Resource exhausted''"
| "rpc_message FAILED_PRECONDITION = ''Failed precondition''"
| "rpc_message ABORTED = ''Aborted''"
| "rpc_message OUT_OF_RANGE = ''Out of range''"
| "rpc_message UNIMPLEMENTED = ''Unimplemented''"
| "rpc_message INTERNAL = ''Internal''"
| "rpc_message UNAVAILABLE = ''Unavailable''"
| "rpc_message DATA_LOSS = ''Data loss''"

definition RpcErrorCategory_message :: "int \<Rightarrow> string" where
  "RpcErrorCategory_message ev =
     (if 0 \<le> ev \<and> nat ev < length RpcErrc_codes then rpc_message (RpcErrc_codes ! nat ev)
      else ''Unknown RPC error'')"

datatype AxonErrc =
    AxonOk | WorkerNotFound | WorkerStartFailed | CoordinatorError | ConnectError | SerializeError
  | StorageBackpressure | DeserializeError | RemoteRespondError

fun axon_value :: "AxonErrc \<Rightarrow> int" where
  "axon_value AxonOk = 0"
| "axon_value WorkerNotFound = 1"
| "axon_value WorkerStartFailed = 2"
| "axon_value CoordinatorError = 3"
| "axon_value ConnectError = 4"
| "axon_value SerializeError = 5"
| "axon_value StorageBackpressure = 6"
| "axon_value DeserializeError = 7"
| "axon_value RemoteRespondError = 8"

definition AxonErrorCategory_message :: "int \<Rightarrow> string" where
  "AxonErrorCategory_message ev =
     (if ev = axon_value AxonOk then ''OK''
      else if ev = axon_value CoordinatorError then ''Coordinator error''
      else if ev = axon_value ConnectError then ''Connect error''
      else if ev = axon_value SerializeError then ''Serialize error''
      else if ev = axon_value StorageBackpressure then ''Storage backpressure''
      else if ev = axon_value DeserializeError then ''Deserialize error''
      else ''Unknown error'')"

datatype error_category =
    GenericCategory
  | SystemCategory
  | RpcErrorCategory
  | UcxErrorCategory
  | AxonErrcCategory

fun category_name_of :: "error_category \<Rightarrow> string" where
  "category_name_of GenericCategory = ''generic''"
| "category_name_of SystemCategory = ''system''"
| "category_name_of RpcErrorCategory = ''RPC''"
| "category_name_of UcxErrorCategory = ''UCX''"
| "category_name_of AxonErrcCategory = ''AxonErrc''"

record status_texts =
  strerror :: "int \<Rightarrow> string"
  ucs_status_string :: "int \<Rightarrow> string option"

definition UcxErrorCategory_message :: "status_texts \<Rightarrow> int \<Rightarrow> string" where
  "UcxErrorCategory_message tx ev =
     (case ucs_status_string tx ev of Some s \<Rightarrow> s | None \<Rightarrow> ''Unknown UCX error: '' @ int_to_string ev)"

fun category_message :: "status_texts \<Rightarrow> error_category \<Rightarrow> int \<Rightarrow> string" where
  "category_message tx GenericCategory ev = strerror tx ev"
| "category_message tx SystemCategory ev = strerror tx ev"
| "category_message tx RpcErrorCategory ev = RpcErrorCategory_message ev"
| "category_message tx UcxErrorCategory ev = UcxErrorCategory_message tx ev"
| "category_message tx AxonErrcCategory ev = AxonErrorCategory_message ev"

record error_code =
  ec_value :: int
  ec_category :: error_category

definition make_error_code :: "RpcErrc \<Rightarrow> error_code" where
  "make_error_code e = \<lparr>ec_value = errc_value e, ec_category = RpcErrorCategory\<rparr>"

definition make_axon_error_code :: "AxonErrc \<Rightarrow> error_code" where
  "make_axon_error_code e = \<lparr>ec_value = axon_value e, ec_category = AxonErrcCategory\<rparr>"

definition make_ucx_error_code :: "int \<Rightarrow> error_code" where
  "make_ucx_error_code status = \<lparr>ec_value = status, ec_category = UcxErrorCategory\<rparr>"

text \<open>\<open>std::error_code{}\<close> is value 0 of the system category; a code is true when it is non-zero.\<close>

definition default_error_code :: error_code where
  "default_error_code = \<lparr>ec_value = 0, ec_category = SystemCategory\<rparr>"

definition error_code_bool :: "error_code \<Rightarrow> bool" where
  "error_code_bool ec \<longleftrightarrow> ec_value ec \<noteq> 0"

text \<open>\<open>UcxErrorCategory::default_error_condition\<close>; \<open>UCS_OK\<close> is 0 and \<open>UCS_INPROGRESS\<close> is 1.\<close>

definition ucx_default_error_condition :: "int \<Rightarrow> error_code" where
  "ucx_default_error_condition ev =
     (if ev = 0 then \<lparr>ec_value = 0, ec_category = GenericCategory\<rparr>
      else if ev = 1 then \<lparr>ec_value = 0, ec_category = GenericCategory\<rparr>
      else \<lparr>ec_value = ev, ec_category = UcxErrorCategory\<rparr>)"

subsection \<open>The registry\<close>

type_synonym registry = "string \<rightharpoonup> error_category"

definition RegisterCategory :: "error_category \<Rightarrow> registry \<Rightarrow> registry" where
  "RegisterCategory c reg = reg(category_name_of c \<mapsto> c)"

definition FindCategory :: "string \<Rightarrow> registry \<Rightarrow> error_category option" where
  "FindCategory name reg = reg name"

definition RpcCategoryRegistry_init :: registry where
  "RpcCategoryRegistry_init = RegisterCategory RpcErrorCategory (RegisterCategory GenericCategory Map.empty)"

text \<open>The static registrars of the worker library.\<close>

definition axon_registry :: registry where
  "axon_registry = RegisterCategory GenericCategory (RegisterCategory UcxErrorCategory
     (RegisterCategory AxonErrcCategory RpcCategoryRegistry_init))"

subsection \<open>Serialisable status\<close>

record RpcStatus =
  st_value :: int
  st_category_name :: string

definition RpcStatus_default :: RpcStatus where
  "RpcStatus_default = \<lparr>st_value = 0, st_category_name = ''generic''\<rparr>"

definition RpcStatus_of :: "error_code \<Rightarrow> RpcStatus" where
  "RpcStatus_of ec = \<lparr>st_value = ec_value ec, st_category_name = category_name_of (ec_category ec)\<rparr>"

definition RpcStatus_to_error_code :: "registry \<Rightarrow> RpcStatus \<Rightarrow> error_code" where
  "RpcStatus_to_error_code reg s =
     (case FindCategory (st_category_name s) reg of
        Some c \<Rightarrow> \<lparr>ec_value = st_value s, ec_category = c\<rparr>
      | None \<Rightarrow> \<lparr>ec_value = st_value s, ec_category = GenericCategory\<rparr>)"

definition RpcStatus_GetErrorMessage :: "status_texts \<Rightarrow> registry \<Rightarrow> RpcStatus \<Rightarrow> string" where
  "RpcStatus_GetErrorMessage tx reg s =
     (case FindCategory (st_category_name s) reg of
        Some c \<Rightarrow> category_message tx c (st_value s)
      | None \<Rightarrow> ''Unknown RPC error code: '' @ int_to_string (st_value s))"

definition RpcStatus_eq :: "RpcStatus \<Rightarrow> error_code \<Rightarrow> bool" where
  "RpcStatus_eq s ec \<longleftrightarrow> st_value s = ec_value ec \<and> st_category_name s = category_name_of (ec_category ec)"

text \<open>\<open>RpcException\<close>: \<open>FormatMsg\<close> prints into a buffer of 256 bytes, so the text is cut to 255.\<close>

record RpcException =
  ex_code :: error_code
  ex_what :: string

definition FormatMsg :: "status_texts \<Rightarrow> error_code \<Rightarrow> string" where
  "FormatMsg tx ec = take 255 (category_name_of (ec_category ec) @ '': '' @ int_to_string (ec_value ec) @ '' ('' @
     category_message tx (ec_category ec) (ec_value ec) @ '')'')"

definition RpcException_of :: "status_texts \<Rightarrow> error_code \<Rightarrow> RpcException" where
  "RpcException_of tx ec = \<lparr>ex_code = ec, ex_what = FormatMsg tx ec\<rparr>"

definition MakeRpcExceptionPtr_status :: "status_texts \<Rightarrow> registry \<Rightarrow> RpcStatus \<Rightarrow> RpcException" where
  "MakeRpcExceptionPtr_status tx reg s =
     \<lparr>ex_code = RpcStatus_to_error_code reg s, ex_what = RpcStatus_GetErrorMessage tx reg s\<rparr>"

subsection \<open>Lemmas\<close>

lemma category_names_distinct [simp]: "category_name_of a = category_name_of b \<longleftrightarrow> a = b"
  by (cases a; cases b) auto

text \<open>\<open>GetInstance().RegisterCategory(c)\<close> makes exactly \<open>c\<close> findable under its name.\<close>

lemma FindCategory_Register [simp]:
  "FindCategory (category_name_of c) (RegisterCategory d reg) =
     (if c = d then Some d else FindCategory (category_name_of c) reg)"
  by (simp add: FindCategory_def RegisterCategory_def)

lemma FindCategory_axon: "FindCategory (category_name_of c) axon_registry =
    (if c = SystemCategory then None else Some c)"
  by (cases c) (simp_all add: axon_registry_def RpcCategoryRegistry_init_def FindCategory_def RegisterCategory_def)

lemma roundtrip_registered:
  "RpcStatus_to_error_code reg (RpcStatus_of ec) = ec \<longleftrightarrow>
     FindCategory (category_name_of (ec_category ec)) reg = Some (ec_category ec) \<or>
     FindCategory (category_name_of (ec_category ec)) reg = None \<and> ec_category ec = GenericCategory"
  by (cases ec) (auto simp: RpcStatus_to_error_code_def RpcStatus_of_def split: option.splits)

lemma rpc_codes_complete: "RpcErrc_codes ! nat (errc_value e) = e" "0 \<le> errc_value e" "nat (errc_value e) < 17"
  by (cases e; simp add: errc_value_def RpcErrc_codes_def)+

lemma rpc_message_inject: "rpc_message a = rpc_message b \<Longrightarrow> a = b"
  by (cases a; cases b) simp_all

text \<open>
  The texts of the RPC codes identify them: the message a client reads for a status made from an
  \<open>RpcErrc\<close> determines the code.
\<close>
lemma rpc_messages_identify:
  assumes "RpcStatus_GetErrorMessage tx axon_registry (RpcStatus_of (make_error_code a)) =
    RpcStatus_GetErrorMessage tx axon_registry (RpcStatus_of (make_error_code b))"
  shows "a = b"
proof -
  have "RpcStatus_GetErrorMessage tx axon_registry (RpcStatus_of (make_error_code e)) = rpc_message e" for e
    using FindCategory_axon [of RpcErrorCategory] rpc_codes_complete [of e]
    by (simp add: RpcStatus_GetErrorMessage_def RpcStatus_of_def make_error_code_def RpcErrorCategory_message_def
        RpcErrc_codes_def)
  then show ?thesis using assms rpc_message_inject by metis
qed

subsection \<open>Properties\<close>

text \<open>
  A status that crosses the wire keeps its code: in the worker's registry every
  \<open>std::error_code\<close> of the RPC, UCX, Axon or generic category is the same code after the conversion
  to \<open>RpcStatus\<close> and back; only the system category, which is never registered, comes back as
  the generic one. Whether the code is an error is kept in every case.
\<close>
theorem status_roundtrip:
  "RpcStatus_to_error_code axon_registry (RpcStatus_of ec) =
     (if ec_category ec = SystemCategory then ec\<lparr>ec_category := GenericCategory\<rparr> else ec) \<and>
   error_code_bool (RpcStatus_to_error_code axon_registry (RpcStatus_of ec)) = error_code_bool ec"
  using FindCategory_axon [of "ec_category ec"]
  by (cases ec) (auto simp: RpcStatus_to_error_code_def RpcStatus_of_def error_code_bool_def)

text \<open>
  The status a success response carries, \<open>RpcStatus(std::error_code{})\<close>, converts to no error,
  but is not equal to \<open>RpcErrc::OK\<close>, and its message reads as an unknown error, since
  \<open>std::error_code{}\<close> belongs to the unregistered system category.
\<close>
theorem success_status_reads_unknown:
  "\<not> error_code_bool (RpcStatus_to_error_code axon_registry (RpcStatus_of default_error_code)) \<and>
   \<not> RpcStatus_eq (RpcStatus_of default_error_code) (make_error_code OK) \<and>
   RpcStatus_GetErrorMessage tx axon_registry (RpcStatus_of default_error_code) = ''Unknown RPC error code: 0''"
proof -
  have "FindCategory ''system'' axon_registry = None" using FindCategory_axon [of SystemCategory] by simp
  moreover have "int_to_string 0 = ''0''" by code_simp
  ultimately show ?thesis
    by (simp add: RpcStatus_GetErrorMessage_def RpcStatus_of_def default_error_code_def error_code_bool_def
        RpcStatus_to_error_code_def RpcStatus_eq_def make_error_code_def)
qed

end
