(* ===== verification/Rpc_Types.thy ===== *)
theory Rpc_Types
  imports Hybrid_Clock Rpc_Status
begin

text \<open>
  The data model of RPC messages: \<open>rpc_core/rpc_types.hpp\<close>, \<open>rpc_core/rpc_payload_types.hpp\<close>
  and \<open>rpc_core/utils/tensor_meta.hpp\<close>. Integers of a parameter keep their width (signed and unsigned
  types differ in their tag only), floating-point values are their bit patterns. An exception is a
  value; reading an alternative a \<open>cista::variant\<close> does not hold is a fault.
\<close>

subsection \<open>Exceptions\<close>

datatype exn =
    out_of_range string
  | runtime_error string
  | invalid_argument string
  | length_error string
  | logic_error string
  | bad_variant_access
  | user_exception string

fun exn_what :: "exn \<Rightarrow> string" where
  "exn_what (out_of_range s) = s"
| "exn_what (runtime_error s) = s"
| "exn_what (invalid_argument s) = s"
| "exn_what (length_error s) = s"
| "exn_what (logic_error s) = s"
| "exn_what bad_variant_access = ''bad_variant_access''"
| "exn_what (user_exception s) = s"

datatype 'a outcome = Ok 'a | Throw exn | Fault fault

fun bind_outcome :: "'a outcome \<Rightarrow> ('a \<Rightarrow> 'b outcome) \<Rightarrow> 'b outcome" where
  "bind_outcome (Ok a) f = f a"
| "bind_outcome (Throw e) f = Throw e"
| "bind_outcome (Fault x) f = Fault x"

lemma bind_outcome_Ok_iff: "bind_outcome m f = Ok b \<longleftrightarrow> (\<exists>a. m = Ok a \<and> f a = Ok b)"
  by (cases m) auto

subsection \<open>Tensor metadata\<close>

record DLDevice =
  device_type :: int
  device_id :: int

record DLDataType =
  dt_code :: u8
  dt_bits :: u8
  dt_lanes :: u16

record DLTensor =
  dl_device :: DLDevice
  dl_ndim :: int
  dl_dtype :: DLDataType
  dl_byte_offset :: u64
  dl_shape :: "int list option"
  dl_strides :: "int list option"

record TensorMeta =
  tm_device :: DLDevice
  tm_ndim :: int
  tm_dtype :: DLDataType
  tm_byte_offset :: u64
  tm_shape :: "int list"
  tm_strides :: "int list"

text \<open>The copy loop over an array of at least \<open>n\<close> elements.\<close>

definition copy_dims :: "int \<Rightarrow> int list \<Rightarrow> int list outcome" where
  "copy_dims n src = (if int (length src) < n then Fault OutOfBounds else Ok (take (nat n) src))"

definition TensorMeta_of :: "DLTensor \<Rightarrow> TensorMeta outcome" where
  "TensorMeta_of source =
     (let m = \<lparr>tm_device = dl_device source, tm_ndim = dl_ndim source, tm_dtype = dl_dtype source,
               tm_byte_offset = dl_byte_offset source, tm_shape = [], tm_strides = []\<rparr> in
      if dl_ndim source > 0 then
        (case dl_shape source of
           None \<Rightarrow> Throw (runtime_error ''Cannot construct TensorMeta: source DLTensor shape is null for non-zero dimensions.'')
         | Some sh \<Rightarrow> bind_outcome (copy_dims (dl_ndim source) sh) (\<lambda>shape.
             case dl_strides source of
               Some st \<Rightarrow> bind_outcome (copy_dims (dl_ndim source) st) (\<lambda>strides.
                 Ok (m\<lparr>tm_shape := shape, tm_strides := strides\<rparr>))
             | None \<Rightarrow>
                 if dl_ndim source = 1 then Ok (m\<lparr>tm_shape := shape, tm_strides := [1]\<rparr>)
                 else Throw (runtime_error ''Cannot construct TensorMeta: source DLTensor strides is null for dimensions > 1.'')))
      else Ok m)"

fun total_elements :: "int \<Rightarrow> int list \<Rightarrow> int outcome" where
  "total_elements acc [] = Ok acc"
| "total_elements acc (d # ds) =
     (if acc * d < - (2 ^ 63) \<or> 2 ^ 63 \<le> acc * d then Fault SignedOverflow else total_elements (acc * d) ds)"

definition CalculateTensorSize :: "TensorMeta \<Rightarrow> u64 outcome" where
  "CalculateTensorSize meta =
     (if tm_ndim meta = 0 then Ok 0
      else if int (length (tm_shape meta)) < tm_ndim meta then Fault OutOfBounds
      else bind_outcome (total_elements 1 (take (nat (tm_ndim meta)) (tm_shape meta))) (\<lambda>n.
        Ok (word_of_int n * word_of_nat ((unat (dt_bits (tm_dtype meta)) + 7) div 8))))"

subsection \<open>Parameters\<close>

datatype ParamType =
    PRIMITIVE_BOOL | PRIMITIVE_INT8 | PRIMITIVE_INT16 | PRIMITIVE_INT32 | PRIMITIVE_INT64
  | PRIMITIVE_UINT8 | PRIMITIVE_UINT16 | PRIMITIVE_UINT32 | PRIMITIVE_UINT64
  | PRIMITIVE_FLOAT32 | PRIMITIVE_FLOAT64
  | VECTOR_BOOL | VECTOR_INT8 | VECTOR_INT16 | VECTOR_INT32 | VECTOR_INT64
  | VECTOR_UINT8 | VECTOR_UINT16 | VECTOR_UINT32 | VECTOR_UINT64
  | VECTOR_FLOAT32 | VECTOR_FLOAT64
  | STRING | VOID | TENSOR_META | TENSOR_META_VEC | UNKNOWN_PARAM

datatype prim_type =
    T_bool | T_int8 | T_int16 | T_int32 | T_int64 | T_uint8 | T_uint16 | T_uint32 | T_uint64 | T_float | T_double

datatype PrimitiveValue =
    P_bool bool | P_int8 u8 | P_int16 u16 | P_int32 u32 | P_int64 u64
  | P_uint8 u8 | P_uint16 u16 | P_uint32 u32 | P_uint64 u64 | P_float u32 | P_double u64

datatype VectorValue =
    V_bool "bool list" | V_int8 "u8 list" | V_int16 "u16 list" | V_int32 "u32 list" | V_int64 "u64 list"
  | V_uint8 "u8 list" | V_uint16 "u16 list" | V_uint32 "u32 list" | V_uint64 "u64 list"
  | V_float "u32 list" | V_double "u64 list"

datatype ParamValue =
    PrimitiveV PrimitiveValue
  | VectorV VectorValue
  | StringV string
  | NullV
  | TensorV TensorMeta
  | TensorVecV "TensorMeta list"

record ParamMeta =
  pm_type :: ParamType
  pm_value :: ParamValue
  pm_name :: string

fun get_primitive_param_info :: "prim_type \<Rightarrow> ParamType \<times> string" where
  "get_primitive_param_info T_bool = (PRIMITIVE_BOOL, ''bool'')"
| "get_primitive_param_info T_int8 = (PRIMITIVE_INT8, ''int8_t'')"
| "get_primitive_param_info T_int16 = (PRIMITIVE_INT16, ''int16_t'')"
| "get_primitive_param_info T_int32 = (PRIMITIVE_INT32, ''int32_t'')"
| "get_primitive_param_info T_int64 = (PRIMITIVE_INT64, ''int64_t'')"
| "get_primitive_param_info T_uint8 = (PRIMITIVE_UINT8, ''uint8_t'')"
| "get_primitive_param_info T_uint16 = (PRIMITIVE_UINT16, ''uint16_t'')"
| "get_primitive_param_info T_uint32 = (PRIMITIVE_UINT32, ''uint32_t'')"
| "get_primitive_param_info T_uint64 = (PRIMITIVE_UINT64, ''uint64_t'')"
| "get_primitive_param_info T_float = (PRIMITIVE_FLOAT32, ''float'')"
| "get_primitive_param_info T_double = (PRIMITIVE_FLOAT64, ''double'')"

fun get_vector_param_info :: "prim_type \<Rightarrow> ParamType \<times> string" where
  "get_vector_param_info T_bool = (VECTOR_BOOL, ''vector<bool>'')"
| "get_vector_param_info T_int8 = (VECTOR_INT8, ''vector<int8_t>'')"
| "get_vector_param_info T_int16 = (VECTOR_INT16, ''vector<int16_t>'')"
| "get_vector_param_info T_int32 = (VECTOR_INT32, ''vector<int32_t>'')"
| "get_vector_param_info T_int64 = (VECTOR_INT64, ''vector<int64_t>'')"
| "get_vector_param_info T_uint8 = (VECTOR_UINT8, ''vector<uint8_t>'')"
| "get_vector_param_info T_uint16 = (VECTOR_UINT16, ''vector<uint16_t>'')"
| "get_vector_param_info T_uint32 = (VECTOR_UINT32, ''vector<uint32_t>'')"
| "get_vector_param_info T_uint64 = (VECTOR_UINT64, ''vector<uint64_t>'')"
| "get_vector_param_info T_float = (VECTOR_FLOAT32, ''vector<float>'')"
| "get_vector_param_info T_double = (VECTOR_FLOAT64, ''vector<double>'')"

fun prim_type_of :: "PrimitiveValue \<Rightarrow> prim_type" where
  "prim_type_of (P_bool _) = T_bool"
| "prim_type_of (P_int8 _) = T_int8"
| "prim_type_of (P_int16 _) = T_int16"
| "prim_type_of (P_int32 _) = T_int32"
| "prim_type_of (P_int64 _) = T_int64"
| "prim_type_of (P_uint8 _) = T_uint8"
| "prim_type_of (P_uint16 _) = T_uint16"
| "prim_type_of (P_uint32 _) = T_uint32"
| "prim_type_of (P_uint64 _) = T_uint64"
| "prim_type_of (P_float _) = T_float"
| "prim_type_of (P_double _) = T_double"

fun vec_type_of :: "VectorValue \<Rightarrow> prim_type" where
  "vec_type_of (V_bool _) = T_bool"
| "vec_type_of (V_int8 _) = T_int8"
| "vec_type_of (V_int16 _) = T_int16"
| "vec_type_of (V_int32 _) = T_int32"
| "vec_type_of (V_int64 _) = T_int64"
| "vec_type_of (V_uint8 _) = T_uint8"
| "vec_type_of (V_uint16 _) = T_uint16"
| "vec_type_of (V_uint32 _) = T_uint32"
| "vec_type_of (V_uint64 _) = T_uint64"
| "vec_type_of (V_float _) = T_float"
| "vec_type_of (V_double _) = T_double"

subsection \<open>Payloads, signatures and headers\<close>

datatype PayloadType = UCX_BUFFER | UCX_BUFFER_VEC | NO_PAYLOAD

text \<open>The buffer type \<open>'b\<close> is \<open>UcxBuffer\<close>, \<open>'v\<close> is \<open>UcxBufferVec\<close>.\<close>

datatype ('b, 'v) PayloadVariant = Monostate | UcxBuffer 'b | UcxBufferVec 'v

record RpcFunctionSignature =
  sig_instance_name :: string
  sig_id :: u32
  sig_function_name :: string
  sig_param_types :: "ParamType list"
  sig_return_types :: "ParamType list"
  sig_input_payload_type :: PayloadType
  sig_return_payload_type :: PayloadType

record RpcRequestHeader =
  rq_session_id :: u32
  rq_request_id :: u32
  rq_function_id :: u32
  rq_hlc :: HybridLogicalClock
  rq_workflow_id :: u32
  rq_params :: "ParamMeta list"

record RpcResponseHeader =
  rs_session_id :: u32
  rs_request_id :: u32
  rs_hlc :: HybridLogicalClock
  rs_workflow_id :: u32
  rs_status :: RpcStatus
  rs_results :: "ParamMeta list"

definition RpcRequestHeader_new :: RpcRequestHeader where
  "RpcRequestHeader_new = \<lparr>rq_session_id = 0, rq_request_id = 0, rq_function_id = 0,
     rq_hlc = hlc_make 0 0, rq_workflow_id = 0, rq_params = []\<rparr>"

definition RpcResponseHeader_new :: RpcResponseHeader where
  "RpcResponseHeader_new = \<lparr>rs_session_id = 0, rs_request_id = 0, rs_hlc = hlc_make 0 0,
     rs_workflow_id = 0, rs_status = RpcStatus_default, rs_results = []\<rparr>"

definition AddParam :: "ParamMeta \<Rightarrow> RpcRequestHeader \<Rightarrow> RpcRequestHeader" where
  "AddParam p h = h\<lparr>rq_params := rq_params h @ [p]\<rparr>"

definition AddResult :: "ParamMeta \<Rightarrow> RpcResponseHeader \<Rightarrow> RpcResponseHeader" where
  "AddResult p h = h\<lparr>rs_results := rs_results h @ [p]\<rparr>"

subsection \<open>Accessors\<close>

definition GetPrimitive :: "prim_type \<Rightarrow> nat \<Rightarrow> ParamMeta list \<Rightarrow> PrimitiveValue outcome" where
  "GetPrimitive t index container =
     (if length container \<le> index then Throw (out_of_range ''Item index out of bounds'')
      else
        let item = container ! index; expected_info = get_primitive_param_info t in
        if pm_type item \<noteq> fst expected_info
        then Throw (runtime_error (''Item type mismatch for '' @ snd expected_info))
        else case pm_value item of
               PrimitiveV p \<Rightarrow> if prim_type_of p = t then Ok p else Fault BadVariant
             | _ \<Rightarrow> Fault BadVariant)"

definition GetString :: "nat \<Rightarrow> ParamMeta list \<Rightarrow> string outcome" where
  "GetString index container =
     (if length container \<le> index \<or> pm_type (container ! index) \<noteq> STRING
      then Throw (runtime_error ''Invalid item access for string'')
      else case pm_value (container ! index) of StringV s \<Rightarrow> Ok s | _ \<Rightarrow> Fault BadVariant)"

definition GetVector :: "prim_type \<Rightarrow> nat \<Rightarrow> ParamMeta list \<Rightarrow> VectorValue outcome" where
  "GetVector t index container =
     (if length container \<le> index then Throw (out_of_range ''Item index out of bounds'')
      else
        let item = container ! index; expected_info = get_vector_param_info t in
        if pm_type item \<noteq> fst expected_info
        then Throw (runtime_error (''Item type mismatch for '' @ snd expected_info))
        else case pm_value item of
               VectorV v \<Rightarrow> if vec_type_of v = t then Ok v else Fault BadVariant
             | _ \<Rightarrow> Fault BadVariant)"

definition GetTensor :: "nat \<Rightarrow> ParamMeta list \<Rightarrow> TensorMeta outcome" where
  "GetTensor index container =
     (if length container \<le> index \<or> pm_type (container ! index) \<noteq> TENSOR_META
      then Throw (runtime_error ''Invalid item access for tensor metadata'')
      else case pm_value (container ! index) of TensorV m \<Rightarrow> Ok m | _ \<Rightarrow> Fault BadVariant)"

definition GetTensorVec :: "nat \<Rightarrow> ParamMeta list \<Rightarrow> TensorMeta list outcome" where
  "GetTensorVec index container =
     (if length container \<le> index \<or> pm_type (container ! index) \<noteq> TENSOR_META_VEC
      then Throw (runtime_error ''Invalid item access for tensor metadata vector'')
      else case pm_value (container ! index) of TensorVecV m \<Rightarrow> Ok m | _ \<Rightarrow> Fault BadVariant)"

definition MoveVector :: "prim_type \<Rightarrow> nat \<Rightarrow> ParamMeta list \<Rightarrow> VectorValue outcome" where
  "MoveVector t index container =
     (if length container \<le> index \<or> pm_type (container ! index) \<noteq> fst (get_vector_param_info t)
      then Throw (runtime_error (''Item type mismatch for '' @ snd (get_vector_param_info t)))
      else case pm_value (container ! index) of
             VectorV v \<Rightarrow> if vec_type_of v = t then Ok v else Fault BadVariant
           | _ \<Rightarrow> Fault BadVariant)"

definition MoveTensor :: "nat \<Rightarrow> ParamMeta list \<Rightarrow> TensorMeta outcome" where
  "MoveTensor index container =
     (if length container \<le> index \<or> pm_type (container ! index) \<noteq> TENSOR_META
      then Throw (runtime_error ''Invalid item access for tensor metadata'')
      else case pm_value (container ! index) of TensorV m \<Rightarrow> Ok m | _ \<Rightarrow> Fault BadVariant)"

definition MoveTensorVec :: "nat \<Rightarrow> ParamMeta list \<Rightarrow> TensorMeta list outcome" where
  "MoveTensorVec index container =
     (if length container \<le> index \<or> pm_type (container ! index) \<noteq> TENSOR_META_VEC
      then Throw (runtime_error ''Invalid item access for tensor metadata vector'')
      else case pm_value (container ! index) of TensorVecV m \<Rightarrow> Ok m | _ \<Rightarrow> Fault BadVariant)"

text \<open>Temporal metadata; the wall clock is an argument.\<close>

definition TickLocalHlc :: "u64 \<Rightarrow> RpcRequestHeader \<Rightarrow> RpcRequestHeader" where
  "TickLocalHlc now h = h\<lparr>rq_hlc := TickLocal now (rq_hlc h)\<rparr>"

definition MergeRemoteHlc :: "u64 \<Rightarrow> u64 \<Rightarrow> RpcRequestHeader \<Rightarrow> RpcRequestHeader" where
  "MergeRemoteHlc remote_raw now h = h\<lparr>rq_hlc := Merge remote_raw now (rq_hlc h)\<rparr>"

definition AssignWorkflowId :: "u32 \<Rightarrow> RpcRequestHeader \<Rightarrow> RpcRequestHeader" where
  "AssignWorkflowId w h = h\<lparr>rq_workflow_id := w\<rparr>"

definition ClearWorkflowId :: "RpcRequestHeader \<Rightarrow> RpcRequestHeader" where
  "ClearWorkflowId h = h\<lparr>rq_workflow_id := 0\<rparr>"

subsection \<open>Well-formed parameters\<close>

text \<open>The type tag of a parameter names the alternative its value holds.\<close>

fun value_type :: "ParamValue \<Rightarrow> ParamType" where
  "value_type (PrimitiveV p) = fst (get_primitive_param_info (prim_type_of p))"
| "value_type (VectorV v) = fst (get_vector_param_info (vec_type_of v))"
| "value_type (StringV s) = STRING"
| "value_type NullV = VOID"
| "value_type (TensorV m) = TENSOR_META"
| "value_type (TensorVecV ms) = TENSOR_META_VEC"

definition param_wf :: "ParamMeta \<Rightarrow> bool" where
  "param_wf p \<longleftrightarrow> pm_type p = value_type (pm_value p)"

lemma prim_info_inject [simp]:
  "fst (get_primitive_param_info a) = fst (get_primitive_param_info b) \<longleftrightarrow> a = b"
  by (cases a; cases b) simp_all

lemma vec_info_inject [simp]:
  "fst (get_vector_param_info a) = fst (get_vector_param_info b) \<longleftrightarrow> a = b"
  by (cases a; cases b) simp_all

lemma info_disjoint [simp]:
  "fst (get_primitive_param_info a) \<noteq> fst (get_vector_param_info b)"
  "fst (get_vector_param_info b) \<noteq> fst (get_primitive_param_info a)"
  by (cases a; cases b; simp)+

lemma info_not_special [simp]:
  "fst (get_primitive_param_info a) \<noteq> STRING"
  "fst (get_primitive_param_info a) \<noteq> VOID"
  "fst (get_primitive_param_info a) \<noteq> TENSOR_META"
  "fst (get_primitive_param_info a) \<noteq> TENSOR_META_VEC"
  "fst (get_primitive_param_info a) \<noteq> UNKNOWN_PARAM"
  "fst (get_vector_param_info a) \<noteq> STRING"
  "fst (get_vector_param_info a) \<noteq> VOID"
  "fst (get_vector_param_info a) \<noteq> TENSOR_META"
  "fst (get_vector_param_info a) \<noteq> TENSOR_META_VEC"
  "fst (get_vector_param_info a) \<noteq> UNKNOWN_PARAM"
  by (cases a; simp)+

lemmas info_not_special_sym [simp] = info_not_special [symmetric]

lemma value_type_cases:
  "value_type v = fst (get_primitive_param_info t) \<longleftrightarrow> (\<exists>p. v = PrimitiveV p \<and> prim_type_of p = t)"
  "value_type v = fst (get_vector_param_info t) \<longleftrightarrow> (\<exists>p. v = VectorV p \<and> vec_type_of p = t)"
  "value_type v = STRING \<longleftrightarrow> (\<exists>s. v = StringV s)"
  "value_type v = TENSOR_META \<longleftrightarrow> (\<exists>m. v = TensorV m)"
  "value_type v = TENSOR_META_VEC \<longleftrightarrow> (\<exists>ms. v = TensorVecV ms)"
  "value_type v \<noteq> UNKNOWN_PARAM"
  by (cases v; auto; fail)+

text \<open>
  On well-formed parameters an accessor returns the value when the index and the type fit and throws
  otherwise; it never reads an alternative the value does not hold.
\<close>

lemma GetPrimitive_wf:
  assumes "list_all param_wf ps"
  shows "GetPrimitive t i ps =
    (if i < length ps \<and> pm_type (ps ! i) = fst (get_primitive_param_info t)
     then Ok (case pm_value (ps ! i) of PrimitiveV p \<Rightarrow> p)
     else Throw (if i < length ps then runtime_error (''Item type mismatch for '' @ snd (get_primitive_param_info t))
                 else out_of_range ''Item index out of bounds''))"
  using list_all_nth [OF assms, of i] value_type_cases(1) [of "pm_value (ps ! i)" t]
  by (auto simp: GetPrimitive_def param_wf_def Let_def)

lemma GetVector_wf:
  assumes "list_all param_wf ps"
  shows "GetVector t i ps =
    (if i < length ps \<and> pm_type (ps ! i) = fst (get_vector_param_info t)
     then Ok (case pm_value (ps ! i) of VectorV p \<Rightarrow> p)
     else Throw (if i < length ps then runtime_error (''Item type mismatch for '' @ snd (get_vector_param_info t))
                 else out_of_range ''Item index out of bounds''))"
  using list_all_nth [OF assms, of i] value_type_cases(2) [of "pm_value (ps ! i)" t]
  by (auto simp: GetVector_def param_wf_def Let_def)

lemma GetString_wf:
  assumes "list_all param_wf ps"
  shows "GetString i ps =
    (if i < length ps \<and> pm_type (ps ! i) = STRING then Ok (case pm_value (ps ! i) of StringV s \<Rightarrow> s)
     else Throw (runtime_error ''Invalid item access for string''))"
  using list_all_nth [OF assms, of i] value_type_cases(3) [of "pm_value (ps ! i)"]
  by (auto simp: GetString_def param_wf_def)

lemma GetTensor_wf:
  assumes "list_all param_wf ps"
  shows "GetTensor i ps =
    (if i < length ps \<and> pm_type (ps ! i) = TENSOR_META then Ok (case pm_value (ps ! i) of TensorV s \<Rightarrow> s)
     else Throw (runtime_error ''Invalid item access for tensor metadata''))"
  using list_all_nth [OF assms, of i] value_type_cases(4) [of "pm_value (ps ! i)"]
  by (auto simp: GetTensor_def param_wf_def)

lemma GetTensorVec_wf:
  assumes "list_all param_wf ps"
  shows "GetTensorVec i ps =
    (if i < length ps \<and> pm_type (ps ! i) = TENSOR_META_VEC then Ok (case pm_value (ps ! i) of TensorVecV s \<Rightarrow> s)
     else Throw (runtime_error ''Invalid item access for tensor metadata vector''))"
  using list_all_nth [OF assms, of i] value_type_cases(5) [of "pm_value (ps ! i)"]
  by (auto simp: GetTensorVec_def param_wf_def)

lemma move_accessors:
  "MoveTensor = GetTensor" "MoveTensorVec = GetTensorVec"
  "i < length ps \<Longrightarrow> MoveVector t i ps = GetVector t i ps"
  by (auto simp: fun_eq_iff MoveTensor_def GetTensor_def MoveTensorVec_def GetTensorVec_def MoveVector_def
      GetVector_def Let_def)

lemmas accessors_wf = GetPrimitive_wf GetVector_wf GetString_wf GetTensor_wf GetTensorVec_wf

subsection \<open>Tensor sizes\<close>

lemma total_elements_prod:
  assumes "0 \<le> acc" and "list_all (\<lambda>d. 0 < d) ds" and "acc * prod_list ds < 2 ^ 63"
  shows "total_elements acc ds = Ok (acc * prod_list ds)"
  using assms
proof (induction ds arbitrary: acc)
  case Nil
  then show ?case by simp
next
  case (Cons d ds)
  have pos: "1 \<le> prod_list ds" using Cons.prems(2) by (induction ds) (auto simp: int_one_le_iff_zero_less)
  have "acc * d * 1 \<le> acc * d * prod_list ds"
    using pos Cons.prems(1,2) by (intro mult_left_mono) auto
  moreover have "acc * d * prod_list ds < 2 ^ 63" using Cons.prems(3) by (simp add: mult.assoc)
  moreover have "0 \<le> acc * d" using Cons.prems(1,2) by simp
  ultimately show ?case using Cons.IH [of "acc * d"] Cons.prems(2) by (simp add: mult.assoc)
qed

lemma copy_dims_Ok: "copy_dims n src = Ok xs \<Longrightarrow> 0 < n \<Longrightarrow> xs = take (nat n) src \<and> int (length xs) = n"
  by (auto simp: copy_dims_def split: if_splits)

lemma TensorMeta_of_shape:
  assumes "TensorMeta_of source = Ok m"
  shows "tm_ndim m = dl_ndim source" "tm_dtype m = dl_dtype source"
    "0 < dl_ndim source \<Longrightarrow> \<exists>sh. dl_shape source = Some sh \<and> tm_shape m = take (nat (dl_ndim source)) sh \<and>
       int (length (tm_shape m)) = dl_ndim source \<and> int (length (tm_strides m)) = dl_ndim source"
  using assms by (auto simp: TensorMeta_of_def Let_def bind_outcome_Ok_iff
      dest!: copy_dims_Ok split: if_splits option.splits)

lemma CalculateTensorSize_value:
  assumes "tm_ndim m = int (length (tm_shape m))" and "list_all (\<lambda>d. 0 < d) (tm_shape m)"
    and "prod_list (tm_shape m) < 2 ^ 63" and "tm_shape m \<noteq> []"
  shows "CalculateTensorSize m =
    Ok (word_of_int (prod_list (tm_shape m) * int ((unat (dt_bits (tm_dtype m)) + 7) div 8)))"
  using assms total_elements_prod [of 1 "tm_shape m"] by (simp add: CalculateTensorSize_def)

end
