(* ===== verification/Rpc_Builder.thy ===== *)
theory Rpc_Builder
  imports Rpc_Types
begin

text \<open>
  Building RPC messages: the compile-time classification of C++ types in \<open>rpc_core/rpc_traits.hpp\<close>,
  \<open>rpc_core/rpc_request_builder.hpp\<close> and \<open>rpc_core/rpc_response_builder.hpp\<close>.
  A decayed C++ argument type is a value of \<open>cpp_type\<close>, an argument a value of
  \<open>cpp_value\<close>; \<open>if constexpr\<close> chains become case distinctions on them. An instantiation the
  compiler rejects is \<open>None\<close>.
\<close>

subsection \<open>C++ types and values of arguments\<close>

datatype string_kind = data_string | std_string | string_view | c_string

datatype vector_kind = data_vector | std_vector

datatype cpp_type =
    CT_prim prim_type
  | CT_strong prim_type
  | CT_string string_kind
  | CT_tensor
  | CT_vec vector_kind prim_type
  | CT_tensor_vec vector_kind
  | CT_buffer
  | CT_buffer_vec
  | CT_request_header
  | CT_response_builder

datatype ('b, 'v) cpp_value =
    A_prim PrimitiveValue
  | A_strong PrimitiveValue
  | A_string string_kind string
  | A_tensor TensorMeta
  | A_vec vector_kind VectorValue
  | A_tensor_vec vector_kind "TensorMeta list"
  | A_buffer 'b
  | A_buffer_vec 'v
  | A_request_header RpcRequestHeader
  | A_response_builder

fun cpp_type_of :: "('b, 'v) cpp_value \<Rightarrow> cpp_type" where
  "cpp_type_of (A_prim p) = CT_prim (prim_type_of p)"
| "cpp_type_of (A_strong p) = CT_strong (prim_type_of p)"
| "cpp_type_of (A_string k s) = CT_string k"
| "cpp_type_of (A_tensor m) = CT_tensor"
| "cpp_type_of (A_vec k v) = CT_vec k (vec_type_of v)"
| "cpp_type_of (A_tensor_vec k ms) = CT_tensor_vec k"
| "cpp_type_of (A_buffer b) = CT_buffer"
| "cpp_type_of (A_buffer_vec v) = CT_buffer_vec"
| "cpp_type_of (A_request_header h) = CT_request_header"
| "cpp_type_of A_response_builder = CT_response_builder"

subsection \<open>Traits\<close>

fun is_payload :: "cpp_type \<Rightarrow> bool" where
  "is_payload CT_buffer = True"
| "is_payload CT_buffer_vec = True"
| "is_payload _ = False"

fun get_payload_type :: "cpp_type \<Rightarrow> PayloadType" where
  "get_payload_type CT_buffer = UCX_BUFFER"
| "get_payload_type CT_buffer_vec = UCX_BUFFER_VEC"
| "get_payload_type _ = NO_PAYLOAD"

fun get_param_type :: "cpp_type \<Rightarrow> ParamType" where
  "get_param_type CT_buffer = UNKNOWN_PARAM"
| "get_param_type CT_buffer_vec = UNKNOWN_PARAM"
| "get_param_type (CT_prim t) = fst (get_primitive_param_info t)"
| "get_param_type (CT_strong t) = fst (get_primitive_param_info t)"
| "get_param_type (CT_string k) = STRING"
| "get_param_type CT_tensor = TENSOR_META"
| "get_param_type (CT_tensor_vec k) = TENSOR_META_VEC"
| "get_param_type (CT_vec k t) = fst (get_vector_param_info t)"
| "get_param_type CT_request_header = UNKNOWN_PARAM"
| "get_param_type CT_response_builder = UNKNOWN_PARAM"

definition is_serializable :: "cpp_type \<Rightarrow> bool" where
  "is_serializable t \<longleftrightarrow> get_param_type t \<noteq> UNKNOWN_PARAM"

text \<open>\<open>payload_finder\<close>: the first payload type of an argument list, if any.\<close>

fun payload_finder :: "cpp_type list \<Rightarrow> cpp_type option" where
  "payload_finder [] = None"
| "payload_finder (t # ts) = (if is_payload t then Some t else payload_finder ts)"

text \<open>\<open>payload_finder_impl\<close> and \<open>PayloadExtractor\<close>; the index of an empty pack is \<open>size_t(-1)\<close>, here \<open>None\<close>.\<close>

fun payload_count :: "cpp_type list \<Rightarrow> nat" where
  "payload_count [] = 0"
| "payload_count (t # ts) = (if is_payload t then 1 else 0) + payload_count ts"

fun payload_index :: "nat \<Rightarrow> cpp_type list \<Rightarrow> nat option" where
  "payload_index i [] = None"
| "payload_index i (t # ts) = (if is_payload t then Some i else payload_index (Suc i) ts)"

subsection \<open>Requests\<close>

text \<open>The value \<open>PackArg\<close> stores for a serialisable argument.\<close>

fun param_value :: "('b, 'v) cpp_value \<Rightarrow> ParamValue" where
  "param_value (A_prim p) = PrimitiveV p"
| "param_value (A_strong p) = PrimitiveV p"
| "param_value (A_string k s) = StringV s"
| "param_value (A_tensor m) = TensorV m"
| "param_value (A_vec k v) = VectorV v"
| "param_value (A_tensor_vec k ms) = TensorVecV ms"
| "param_value _ = NullV"

definition PackArg :: "('b, 'v) cpp_value \<Rightarrow> RpcRequestHeader \<Rightarrow> RpcRequestHeader option" where
  "PackArg v h =
     (if \<not> (is_serializable (cpp_type_of v) \<or> is_payload (cpp_type_of v) \<or> cpp_type_of v = CT_request_header)
      then None
      else if is_payload (cpp_type_of v) \<or> cpp_type_of v = CT_request_header then Some h
      else Some (AddParam \<lparr>pm_type = get_param_type (cpp_type_of v), pm_value = param_value v, pm_name = []\<rparr> h))"

fun PackArgs :: "('b, 'v) cpp_value list \<Rightarrow> RpcRequestHeader \<Rightarrow> RpcRequestHeader option" where
  "PackArgs [] h = Some h"
| "PackArgs (v # vs) h = (case PackArg v h of None \<Rightarrow> None | Some h1 \<Rightarrow> PackArgs vs h1)"

record RpcRequestBuilderOptions =
  opt_session_id :: u32
  opt_request_id :: u32
  opt_function_id :: u32
  opt_hlc :: HybridLogicalClock
  opt_workflow_id :: u32

definition options_header :: "RpcRequestBuilderOptions \<Rightarrow> RpcRequestHeader" where
  "options_header opt = \<lparr>rq_session_id = opt_session_id opt, rq_request_id = opt_request_id opt,
     rq_function_id = opt_function_id opt, rq_hlc = opt_hlc opt, rq_workflow_id = opt_workflow_id opt,
     rq_params = []\<rparr>"

fun payload_of :: "('b, 'v) cpp_value \<Rightarrow> ('b, 'v) PayloadVariant" where
  "payload_of (A_buffer b) = UcxBuffer b"
| "payload_of (A_buffer_vec v) = UcxBufferVec v"
| "payload_of _ = Monostate"

definition PrepareRequest ::
  "RpcRequestBuilderOptions \<Rightarrow> ('b, 'v) cpp_value list \<Rightarrow> (RpcRequestHeader \<times> ('b, 'v) PayloadVariant) option" where
  "PrepareRequest opt args =
     (let ts = map cpp_type_of args in
      if payload_count ts > 1 then None
      else case PackArgs args (options_header opt) of
             None \<Rightarrow> None
           | Some h \<Rightarrow> Some (h, case payload_index 0 ts of None \<Rightarrow> Monostate | Some i \<Rightarrow> payload_of (args ! i)))"

fun validate_from :: "nat \<Rightarrow> ParamMeta list \<Rightarrow> ParamType list \<Rightarrow> unit outcome" where
  "validate_from i (p # ps) (t # ts) =
     (if pm_type p \<noteq> t then Throw (invalid_argument (''Parameter type mismatch at index '' @ to_string i))
      else validate_from (Suc i) ps ts)"
| "validate_from i _ _ = Ok ()"

definition Validate :: "ParamMeta list \<Rightarrow> RpcFunctionSignature \<Rightarrow> unit outcome" where
  "Validate params sig =
     (if length params \<noteq> length (sig_param_types sig)
      then Throw (invalid_argument (''Parameter count mismatch: expected '' @ to_string (length (sig_param_types sig)) @
             '', got '' @ to_string (length params)))
      else validate_from 0 params (sig_param_types sig))"

definition PrepareRequest_checked ::
  "RpcRequestBuilderOptions \<Rightarrow> RpcFunctionSignature \<Rightarrow> ('b, 'v) cpp_value list \<Rightarrow>
   (RpcRequestHeader \<times> ('b, 'v) PayloadVariant) outcome option" where
  "PrepareRequest_checked opt sig args =
     (case PrepareRequest opt args of
        None \<Rightarrow> None
      | Some (h, p) \<Rightarrow> Some (bind_outcome (Validate (rq_params h) sig) (\<lambda>_. Ok (h, p))))"

definition PrepareRequest_dynamic ::
  "RpcRequestBuilderOptions \<Rightarrow> ParamMeta list \<Rightarrow> ('b, 'v) PayloadVariant \<Rightarrow> RpcRequestHeader \<times> ('b, 'v) PayloadVariant" where
  "PrepareRequest_dynamic opt params payload = ((options_header opt)\<lparr>rq_params := params\<rparr>, payload)"

definition PrepareRequest_dynamic_checked ::
  "RpcRequestBuilderOptions \<Rightarrow> RpcFunctionSignature \<Rightarrow> ParamMeta list \<Rightarrow> ('b, 'v) PayloadVariant \<Rightarrow>
   (RpcRequestHeader \<times> ('b, 'v) PayloadVariant) outcome" where
  "PrepareRequest_dynamic_checked opt sig params payload =
     bind_outcome (Validate params sig) (\<lambda>_. Ok (PrepareRequest_dynamic opt params payload))"

subsection \<open>Responses\<close>

text \<open>
  A \<open>std::vector<TensorMeta>\<close> result does not compile: it is emplaced as a \<open>VectorValue\<close>, which has no
  such alternative.
\<close>

definition PackResult :: "('b, 'v) cpp_value \<Rightarrow> RpcResponseHeader \<Rightarrow> RpcResponseHeader option" where
  "PackResult v h =
     (if \<not> (is_serializable (cpp_type_of v) \<or> is_payload (cpp_type_of v)) then None
      else if is_payload (cpp_type_of v) then Some h
      else if cpp_type_of v = CT_tensor_vec std_vector then None
      else Some (AddResult \<lparr>pm_type = get_param_type (cpp_type_of v), pm_value = param_value v, pm_name = []\<rparr> h))"

fun PackResults :: "('b, 'v) cpp_value list \<Rightarrow> RpcResponseHeader \<Rightarrow> RpcResponseHeader option" where
  "PackResults [] h = Some h"
| "PackResults (v # vs) h = (case PackResult v h of None \<Rightarrow> None | Some h1 \<Rightarrow> PackResults vs h1)"

definition PrepareResponse ::
  "u32 \<Rightarrow> u32 \<Rightarrow> ('b, 'v) cpp_value list \<Rightarrow> (RpcResponseHeader \<times> ('b, 'v) PayloadVariant) option" where
  "PrepareResponse session_id request_id args =
     (let ts = map cpp_type_of args in
      if payload_count ts > 1 then None
      else case PackResults args (RpcResponseHeader_new\<lparr>rs_session_id := session_id, rs_request_id := request_id,
                                    rs_status := RpcStatus_of default_error_code\<rparr>) of
             None \<Rightarrow> None
           | Some h \<Rightarrow> Some (h, case payload_index 0 ts of None \<Rightarrow> Monostate | Some i \<Rightarrow> payload_of (args ! i)))"

subsection \<open>Lemmas\<close>

text \<open>The parameters a list of arguments produces.\<close>

definition packed :: "('b, 'v) cpp_value \<Rightarrow> ParamMeta" where
  "packed v = \<lparr>pm_type = get_param_type (cpp_type_of v), pm_value = param_value v, pm_name = []\<rparr>"

abbreviation serializable_args :: "('b, 'v) cpp_value list \<Rightarrow> ('b, 'v) cpp_value list" where
  "serializable_args vs \<equiv> filter (\<lambda>v. is_serializable (cpp_type_of v)) vs"

lemma serializable_payload: "is_payload t \<Longrightarrow> \<not> is_serializable t"
  by (cases t) (auto simp: is_serializable_def)

lemma serializable_cases:
  "is_serializable t \<longleftrightarrow> \<not> is_payload t \<and> t \<noteq> CT_request_header \<and> t \<noteq> CT_response_builder"
  by (cases t) (auto simp: is_serializable_def)

lemma packed_wf: "is_serializable (cpp_type_of v) \<Longrightarrow> param_wf (packed v)"
  by (cases v) (auto simp: packed_def param_wf_def is_serializable_def)

lemma PackArgs_params:
  "A_response_builder \<notin> set vs \<Longrightarrow>
   PackArgs vs h = Some (h\<lparr>rq_params := rq_params h @ map packed (serializable_args vs)\<rparr>)"
proof (induction vs arbitrary: h)
  case Nil
  then show ?case by simp
next
  case (Cons v vs)
  have "cpp_type_of v \<noteq> CT_response_builder" using Cons.prems by (cases v) auto
  then have "PackArg v h = Some (if is_serializable (cpp_type_of v) then AddParam (packed v) h else h)"
    by (auto simp: PackArg_def packed_def serializable_cases)
  then show ?case using Cons by (simp add: AddParam_def)
qed

lemma PackResults_params:
  "list_all (\<lambda>v. (is_serializable (cpp_type_of v) \<or> is_payload (cpp_type_of v)) \<and>
       cpp_type_of v \<noteq> CT_tensor_vec std_vector) vs \<Longrightarrow>
   PackResults vs h = Some (h\<lparr>rs_results := rs_results h @ map packed (serializable_args vs)\<rparr>)"
proof (induction vs arbitrary: h)
  case Nil
  then show ?case by simp
next
  case (Cons v vs)
  then have "PackResult v h = Some (if is_serializable (cpp_type_of v) then AddResult (packed v) h else h)"
    using serializable_payload by (auto simp: PackResult_def packed_def)
  then show ?case using Cons by (simp add: AddResult_def)
qed

lemma payload_index_ge: "payload_index i ts = Some j \<Longrightarrow> i \<le> j \<and> j < i + length ts \<and> is_payload (ts ! (j - i))"
proof (induction ts arbitrary: i)
  case Nil
  then show ?case by simp
next
  case (Cons t ts)
  show ?case
  proof (cases "is_payload t")
    case True
    then show ?thesis using Cons.prems by simp
  next
    case False
    with Cons.prems have "payload_index (Suc i) ts = Some j" by simp
    then have j: "Suc i \<le> j \<and> j < Suc i + length ts \<and> is_payload (ts ! (j - Suc i))" by (rule Cons.IH)
    then have "(t # ts) ! (j - i) = ts ! (j - Suc i)" by (simp add: nth_Cons')
    with j show ?thesis by simp
  qed
qed

lemma payload_index_None: "payload_index i ts = None \<longleftrightarrow> payload_count ts = 0"
  by (induction ts arbitrary: i) auto

lemma validate_from_ok:
  "length ps = length ts \<Longrightarrow> validate_from i ps ts = Ok () \<longleftrightarrow> map pm_type ps = ts"
  by (induction i ps ts rule: validate_from.induct) auto

lemma Validate_iff: "Validate ps sig = Ok () \<longleftrightarrow> map pm_type ps = sig_param_types sig"
proof (cases "length ps = length (sig_param_types sig)")
  case True
  then show ?thesis using validate_from_ok [OF True] by (simp add: Validate_def)
next
  case False
  then have "map pm_type ps \<noteq> sig_param_types sig" by (metis length_map)
  with False show ?thesis by (simp add: Validate_def)
qed

end
