(* ===== verification/Rpc_Dispatcher.thy ===== *)
theory Rpc_Dispatcher
  imports Rpc_Builder
begin

text \<open>
  The server side of a call, \<open>rpc_core/rpc_dispatcher.hpp\<close>: extracting arguments from a
  request, the wrappers of registered functions, the function and signature tables, dispatch and
  the typed result. The body of a registered function is an argument (a function from argument
  values to a result or an exception). The erased context pointer is the object it points to: a
  cast to a type the object does not have is a fault. Deserialisation by cista is an argument.
\<close>

subsection \<open>Argument extraction\<close>

text \<open>\<open>extract_arg\<close>; types that fail its static assertions are not \<open>extractable\<close>.\<close>

fun extractable :: "cpp_type \<Rightarrow> bool" where
  "extractable (CT_string k) = (k = data_string)"
| "extractable (CT_vec k t) = (k = data_vector)"
| "extractable _ = True"

fun extract_arg ::
  "cpp_type \<Rightarrow> RpcRequestHeader \<Rightarrow> ('b, 'v) PayloadVariant \<Rightarrow> nat \<Rightarrow> (('b, 'v) cpp_value \<times> nat) outcome" where
  "extract_arg CT_request_header req ctx i = Ok (A_request_header req, i)"
| "extract_arg CT_response_builder req ctx i = Ok (A_response_builder, i)"
| "extract_arg (CT_prim t) req ctx i =
     bind_outcome (GetPrimitive t i (rq_params req)) (\<lambda>p. Ok (A_prim p, Suc i))"
| "extract_arg (CT_strong t) req ctx i =
     bind_outcome (GetPrimitive t i (rq_params req)) (\<lambda>p. Ok (A_strong p, Suc i))"
| "extract_arg (CT_string k) req ctx i =
     bind_outcome (GetString i (rq_params req)) (\<lambda>s. Ok (A_string k s, Suc i))"
| "extract_arg CT_tensor req ctx i =
     bind_outcome (GetTensor i (rq_params req)) (\<lambda>m. Ok (A_tensor m, Suc i))"
| "extract_arg (CT_tensor_vec k) req ctx i =
     bind_outcome (GetTensorVec i (rq_params req)) (\<lambda>ms. Ok (A_tensor_vec k ms, Suc i))"
| "extract_arg (CT_vec k t) req ctx i =
     bind_outcome (GetVector t i (rq_params req)) (\<lambda>v. Ok (A_vec k v, Suc i))"
| "extract_arg CT_buffer req ctx i =
     (case ctx of UcxBuffer b \<Rightarrow> Ok (A_buffer b, i) | _ \<Rightarrow> Fault BadVariant)"
| "extract_arg CT_buffer_vec req ctx i =
     (case ctx of UcxBufferVec v \<Rightarrow> Ok (A_buffer_vec v, i) | _ \<Rightarrow> Fault BadVariant)"

fun extract_args ::
  "cpp_type list \<Rightarrow> RpcRequestHeader \<Rightarrow> ('b, 'v) PayloadVariant \<Rightarrow> nat \<Rightarrow> ('b, 'v) cpp_value list outcome" where
  "extract_args [] req ctx i = Ok []"
| "extract_args (t # ts) req ctx i =
     bind_outcome (extract_arg t req ctx i) (\<lambda>(v, j).
       bind_outcome (extract_args ts req ctx j) (\<lambda>vs. Ok (v # vs)))"

subsection \<open>Registered functions\<close>

datatype ('b, 'v) ret_value =
    R_void
  | R_header RpcResponseHeader
  | R_header_pair RpcResponseHeader "('b, 'v) PayloadVariant"
  | R_tuple "('b, 'v) cpp_value list"
  | R_value "('b, 'v) cpp_value"

datatype ret_type =
    RT_void
  | RT_header
  | RT_header_pair PayloadType
  | RT_tuple "cpp_type list"
  | RT_value cpp_type

record ('b, 'v) static_func =
  sf_args :: "cpp_type list"
  sf_ret :: ret_type
  sf_body :: "('b, 'v) cpp_value list \<Rightarrow> exn + ('b, 'v) ret_value"

record ('b, 'v) dynamic_func =
  df_input :: PayloadType
  df_body :: "ParamMeta list \<Rightarrow> ('b, 'v) PayloadVariant option \<Rightarrow> exn + (ParamMeta list \<times> ('b, 'v) PayloadVariant)"

datatype ('b, 'v) ErasedRpcFunction = StaticFunc "('b, 'v) static_func" | DynamicFunc "('b, 'v) dynamic_func"

definition error_response :: "u32 \<Rightarrow> u32 \<Rightarrow> RpcErrc \<Rightarrow> string \<Rightarrow> RpcResponseHeader" where
  "error_response session request e what =
     RpcResponseHeader_new\<lparr>rs_session_id := session, rs_request_id := request,
       rs_status := RpcStatus_of (make_error_code e),
       rs_results := [\<lparr>pm_type = STRING, pm_value = StringV what, pm_name = []\<rparr>]\<rparr>"

text \<open>Packaging of the result: manual mode returns the header, automatic mode uses the builder.\<close>

fun package_result ::
  "RpcRequestHeader \<Rightarrow> ('b, 'v) ret_value \<Rightarrow> (RpcResponseHeader \<times> ('b, 'v) PayloadVariant) option" where
  "package_result req R_void = PrepareResponse (rq_session_id req) (rq_request_id req) []"
| "package_result req (R_header h) = Some (h, Monostate)"
| "package_result req (R_header_pair h p) = Some (h, p)"
| "package_result req (R_tuple vs) = PrepareResponse (rq_session_id req) (rq_request_id req) vs"
| "package_result req (R_value v) = PrepareResponse (rq_session_id req) (rq_request_id req) [v]"

definition invoke_and_package ::
  "('b, 'v) static_func \<Rightarrow> RpcRequestHeader \<Rightarrow> ('b, 'v) PayloadVariant option \<Rightarrow>
   (RpcResponseHeader \<times> ('b, 'v) PayloadVariant) outcome" where
  "invoke_and_package f req ctx =
     bind_outcome
       (case payload_finder (sf_args f) of
          None \<Rightarrow> extract_args (sf_args f) req Monostate 0
        | Some _ \<Rightarrow> (case ctx of
            None \<Rightarrow> Throw (runtime_error ''Context required but not provided.'')
          | Some c \<Rightarrow> extract_args (sf_args f) req c 0))
       (\<lambda>args. case sf_body f args of
          Inl e \<Rightarrow> Throw e
        | Inr r \<Rightarrow> (case package_result req r of Some x \<Rightarrow> Ok x | None \<Rightarrow> Fault AssertFailed))"

definition call_dynamic ::
  "('b, 'v) dynamic_func \<Rightarrow> RpcRequestHeader \<Rightarrow> ('b, 'v) PayloadVariant option \<Rightarrow>
   (RpcResponseHeader \<times> ('b, 'v) PayloadVariant) outcome" where
  "call_dynamic f req ctx =
     bind_outcome
       (case (ctx, df_input f) of
          (Some (UcxBuffer b), UCX_BUFFER) \<Rightarrow> Ok (Some (UcxBuffer b))
        | (Some (UcxBufferVec v), UCX_BUFFER_VEC) \<Rightarrow> Ok (Some (UcxBufferVec v))
        | (Some _, NO_PAYLOAD) \<Rightarrow> Ok None
        | (None, _) \<Rightarrow> Ok None
        | _ \<Rightarrow> Fault BadVariant)
       (\<lambda>payload. case df_body f (rq_params req) payload of
          Inl e \<Rightarrow> Throw e
        | Inr (results, p) \<Rightarrow>
            Ok (RpcResponseHeader_new\<lparr>rs_session_id := rq_session_id req, rs_request_id := rq_request_id req,
                  rs_status := RpcStatus_of (make_error_code OK), rs_results := results\<rparr>, p))"

text \<open>Both wrappers catch every exception and answer \<open>INTERNAL\<close> with its text.\<close>

definition catch_internal ::
  "RpcRequestHeader \<Rightarrow> (RpcResponseHeader \<times> ('b, 'v) PayloadVariant) outcome \<Rightarrow>
   (RpcResponseHeader \<times> ('b, 'v) PayloadVariant) outcome" where
  "catch_internal req r =
     (case r of Throw e \<Rightarrow> Ok (error_response (rq_session_id req) (rq_request_id req) INTERNAL (exn_what e), Monostate)
      | _ \<Rightarrow> r)"

fun run_function ::
  "('b, 'v) ErasedRpcFunction \<Rightarrow> RpcRequestHeader \<Rightarrow> ('b, 'v) PayloadVariant option \<Rightarrow>
   (RpcResponseHeader \<times> ('b, 'v) PayloadVariant) outcome" where
  "run_function (StaticFunc f) req ctx = catch_internal req (invoke_and_package f req ctx)"
| "run_function (DynamicFunc f) req ctx = catch_internal req (call_dynamic f req ctx)"

subsection \<open>Signatures\<close>

definition FillParamTypes :: "cpp_type list \<Rightarrow> ParamType list" where
  "FillParamTypes ts = map get_param_type (filter is_serializable ts)"

fun return_types_of :: "ret_type \<Rightarrow> ParamType list" where
  "return_types_of (RT_tuple ts) = FillParamTypes ts"
| "return_types_of (RT_value t) = (if is_payload t then [] else FillParamTypes [t])"
| "return_types_of _ = []"

fun return_payload_of :: "ret_type \<Rightarrow> PayloadType" where
  "return_payload_of (RT_header_pair p) = p"
| "return_payload_of (RT_tuple ts) = (case payload_finder ts of None \<Rightarrow> NO_PAYLOAD | Some t \<Rightarrow> get_payload_type t)"
| "return_payload_of (RT_value t) = (if is_payload t then get_payload_type t else NO_PAYLOAD)"
| "return_payload_of _ = NO_PAYLOAD"

definition ValidateTensorPayloadConstraints :: "RpcFunctionSignature \<Rightarrow> unit outcome" where
  "ValidateTensorPayloadConstraints sig =
     (let tensor_meta_count = count_list (sig_param_types sig) TENSOR_META;
          tensor_meta_vec_count = count_list (sig_param_types sig) TENSOR_META_VEC;
          return_tensor_meta_count = count_list (sig_return_types sig) TENSOR_META;
          return_tensor_meta_vec_count = count_list (sig_return_types sig) TENSOR_META_VEC in
      if 0 < tensor_meta_count \<and> 0 < tensor_meta_vec_count
      then Throw (invalid_argument ''RPC signature cannot have both TensorMeta and TensorMetaVec. Only one TensorMeta with UcxBuffer OR one TensorMetaVec with UcxBufferVec is allowed.'')
      else if 1 < tensor_meta_vec_count
      then Throw (invalid_argument (''RPC signature can have at most one TensorMetaVec parameter. Found '' @
             to_string tensor_meta_vec_count @ '' TensorMetaVec parameters.''))
      else if sig_input_payload_type sig = UCX_BUFFER \<and> 1 < tensor_meta_count
      then Throw (invalid_argument (''RPC signature with UcxBuffer input payload can have at most one TensorMeta parameter. Found '' @
             to_string tensor_meta_count @ '' TensorMeta parameters.''))
      else if sig_input_payload_type sig = UCX_BUFFER \<and> tensor_meta_count = 1 \<and> 0 < tensor_meta_vec_count
      then Throw (invalid_argument ''RPC signature cannot have both TensorMeta and TensorMetaVec.'')
      else if sig_input_payload_type sig = UCX_BUFFER_VEC \<and> 1 < tensor_meta_vec_count
      then Throw (invalid_argument (''RPC signature with UcxBufferVec input payload can have at most one TensorMetaVec parameter. Found '' @
             to_string tensor_meta_vec_count @ '' TensorMetaVec parameters.''))
      else if sig_input_payload_type sig = UCX_BUFFER_VEC \<and> tensor_meta_vec_count = 1 \<and> 0 < tensor_meta_count
      then Throw (invalid_argument ''RPC signature cannot have both TensorMeta and TensorMetaVec.'')
      else if 0 < return_tensor_meta_count \<and> 0 < return_tensor_meta_vec_count
      then Throw (invalid_argument ''RPC signature cannot have both TensorMeta and TensorMetaVec in return types. Only one TensorMeta OR one TensorMetaVec is allowed.'')
      else if 1 < return_tensor_meta_vec_count
      then Throw (invalid_argument (''RPC signature can have at most one TensorMetaVec return value. Found '' @
             to_string return_tensor_meta_vec_count @ '' TensorMetaVec return values.''))
      else Ok ())"

definition MakeRpcSignature ::
  "u32 \<Rightarrow> string \<Rightarrow> string \<Rightarrow> ('b, 'v) static_func \<Rightarrow> RpcFunctionSignature outcome" where
  "MakeRpcSignature fid function_name instance_name f =
     (let sig = \<lparr>sig_instance_name = instance_name, sig_id = fid, sig_function_name = function_name,
                 sig_param_types = FillParamTypes (sf_args f), sig_return_types = return_types_of (sf_ret f),
                 sig_input_payload_type = (case payload_finder (sf_args f) of None \<Rightarrow> NO_PAYLOAD
                                           | Some t \<Rightarrow> get_payload_type t),
                 sig_return_payload_type = return_payload_of (sf_ret f)\<rparr> in
      bind_outcome (ValidateTensorPayloadConstraints sig) (\<lambda>_. Ok sig))"

subsection \<open>The dispatcher\<close>

record ('b, 'v) RpcDispatcher =
  fn_table :: "u32 \<rightharpoonup> ('b, 'v) ErasedRpcFunction"
  sig_table :: "u32 \<rightharpoonup> RpcFunctionSignature"
  instance_name :: string

definition RpcDispatcher_new :: "string \<Rightarrow> ('b, 'v) RpcDispatcher" where
  "RpcDispatcher_new name = \<lparr>fn_table = Map.empty, sig_table = Map.empty, instance_name = name\<rparr>"

definition map_emplace :: "'k \<Rightarrow> 'a \<Rightarrow> ('k \<rightharpoonup> 'a) \<Rightarrow> 'k \<rightharpoonup> 'a" where
  "map_emplace k v m = (case m k of None \<Rightarrow> m(k \<mapsto> v) | Some _ \<Rightarrow> m)"

text \<open>Both registrations return the exception they leave with, if any, and the state they leave.\<close>

definition RegisterFunction ::
  "u32 \<Rightarrow> ('b, 'v) static_func \<Rightarrow> string \<Rightarrow> ('b, 'v) RpcDispatcher \<Rightarrow> exn option \<times> ('b, 'v) RpcDispatcher" where
  "RegisterFunction fid f name d =
     (let d1 = d\<lparr>fn_table := map_emplace fid (StaticFunc f) (fn_table d)\<rparr> in
      case MakeRpcSignature fid name (instance_name d) f of
        Ok sig \<Rightarrow> (None, d1\<lparr>sig_table := (sig_table d1)(fid \<mapsto> sig)\<rparr>)
      | Throw e \<Rightarrow> (Some e, d1)
      | Fault _ \<Rightarrow> (None, d1))"

definition RegisterFunction_dynamic ::
  "u32 \<Rightarrow> string \<Rightarrow> ParamType list \<Rightarrow> ParamType list \<Rightarrow> PayloadType \<Rightarrow> PayloadType \<Rightarrow>
   (ParamMeta list \<Rightarrow> ('b, 'v) PayloadVariant option \<Rightarrow> exn + (ParamMeta list \<times> ('b, 'v) PayloadVariant)) \<Rightarrow>
   ('b, 'v) RpcDispatcher \<Rightarrow> exn option \<times> ('b, 'v) RpcDispatcher" where
  "RegisterFunction_dynamic fid name param_types return_types input_payload_type return_payload_type body d =
     (let sig = \<lparr>sig_instance_name = instance_name d, sig_id = fid, sig_function_name = name,
                 sig_param_types = param_types, sig_return_types = return_types,
                 sig_input_payload_type = input_payload_type, sig_return_payload_type = return_payload_type\<rparr> in
      case ValidateTensorPayloadConstraints sig of
        Ok _ \<Rightarrow> (None, d\<lparr>fn_table := map_emplace fid (DynamicFunc \<lparr>df_input = input_payload_type, df_body = body\<rparr>)
                                     (fn_table d),
                        sig_table := map_emplace fid sig (sig_table d)\<rparr>)
      | Throw e \<Rightarrow> (Some e, d)
      | Fault _ \<Rightarrow> (None, d))"

definition InvokeFunction ::
  "RpcRequestHeader \<Rightarrow> ('b, 'v) PayloadVariant option \<Rightarrow> ('b, 'v) RpcDispatcher \<Rightarrow>
   (RpcResponseHeader \<times> ('b, 'v) PayloadVariant) outcome" where
  "InvokeFunction req ctx d =
     (case fn_table d (rq_function_id req) of
        None \<Rightarrow> Ok (error_response (rq_session_id req) (rq_request_id req) INVALID_ARGUMENT ''Function not found'', Monostate)
      | Some f \<Rightarrow>
          (case run_function f req ctx of
             Throw e \<Rightarrow> Ok (error_response (rq_session_id req) (rq_request_id req) INVALID_ARGUMENT (exn_what e), Monostate)
           | r \<Rightarrow> r))"

definition DispatchImpl ::
  "('buf \<Rightarrow> exn + RpcRequestHeader option) \<Rightarrow> 'buf \<Rightarrow> ('b, 'v) PayloadVariant option \<Rightarrow> ('b, 'v) RpcDispatcher \<Rightarrow>
   (RpcResponseHeader \<times> ('b, 'v) PayloadVariant) outcome" where
  "DispatchImpl deserialize buf ctx d =
     (case deserialize buf of
        Inl e \<Rightarrow> Ok (error_response 0 0 INVALID_ARGUMENT (exn_what e), Monostate)
      | Inr None \<Rightarrow> Ok (error_response 0 0 INVALID_ARGUMENT ''Failed to deserialize request'', Monostate)
      | Inr (Some req) \<Rightarrow> InvokeFunction req ctx d)"

fun payload_tag :: "('b, 'v) PayloadVariant \<Rightarrow> PayloadType" where
  "payload_tag Monostate = NO_PAYLOAD"
| "payload_tag (UcxBuffer b) = UCX_BUFFER"
| "payload_tag (UcxBufferVec v) = UCX_BUFFER_VEC"

text \<open>\<open>BuildRpcResult<ReturnContextT>\<close>: \<open>std::get\<close> of the requested alternative.\<close>

definition BuildRpcResult ::
  "PayloadType \<Rightarrow> RpcResponseHeader \<times> ('b, 'v) PayloadVariant \<Rightarrow> (RpcResponseHeader \<times> ('b, 'v) PayloadVariant) outcome" where
  "BuildRpcResult return_context r = (if payload_tag (snd r) = return_context then Ok r else Throw bad_variant_access)"

definition Dispatch ::
  "PayloadType \<Rightarrow> RpcRequestHeader \<Rightarrow> ('b, 'v) PayloadVariant option \<Rightarrow> ('b, 'v) RpcDispatcher \<Rightarrow>
   (RpcResponseHeader \<times> ('b, 'v) PayloadVariant) outcome" where
  "Dispatch return_context req ctx d = bind_outcome (InvokeFunction req ctx d) (BuildRpcResult return_context)"

text \<open>
  The overloads over a serialised request; \<open>DispatchMove\<close> differs in the ownership of the payload only,
  and the overloads without a type argument return the variant as it is.
\<close>

definition Dispatch_serialized ::
  "('buf \<Rightarrow> exn + RpcRequestHeader option) \<Rightarrow> PayloadType \<Rightarrow> 'buf \<Rightarrow> ('b, 'v) PayloadVariant option \<Rightarrow>
   ('b, 'v) RpcDispatcher \<Rightarrow> (RpcResponseHeader \<times> ('b, 'v) PayloadVariant) outcome" where
  "Dispatch_serialized deserialize return_context buf ctx d =
     bind_outcome (DispatchImpl deserialize buf ctx d) (BuildRpcResult return_context)"

definition Dispatch_variant ::
  "RpcRequestHeader \<Rightarrow> ('b, 'v) PayloadVariant option \<Rightarrow> ('b, 'v) RpcDispatcher \<Rightarrow>
   (RpcResponseHeader \<times> ('b, 'v) PayloadVariant) outcome" where
  "Dispatch_variant req ctx d = InvokeFunction req ctx d"

definition DispatchAdhoc ::
  "('b, 'v) ErasedRpcFunction \<Rightarrow> RpcRequestHeader \<Rightarrow> ('b, 'v) PayloadVariant option \<Rightarrow>
   (RpcResponseHeader \<times> ('b, 'v) PayloadVariant) outcome" where
  "DispatchAdhoc f req ctx = run_function f req ctx"

definition IsRegistered :: "u32 \<Rightarrow> ('b, 'v) RpcDispatcher \<Rightarrow> bool" where
  "IsRegistered fid d \<longleftrightarrow> fn_table d fid \<noteq> None"

definition GetSignature :: "u32 \<Rightarrow> ('b, 'v) RpcDispatcher \<Rightarrow> RpcFunctionSignature option" where
  "GetSignature fid d = sig_table d fid"

subsection \<open>Arguments survive the trip\<close>

text \<open>How the server declares an argument the client passes: strings as \<open>data::string\<close>, vectors as \<open>data::vector\<close>.\<close>

fun recv_type :: "cpp_type \<Rightarrow> cpp_type" where
  "recv_type (CT_string k) = CT_string data_string"
| "recv_type (CT_vec k t) = CT_vec data_vector t"
| "recv_type t = t"

fun recv_view :: "('b, 'v) cpp_value \<Rightarrow> ('b, 'v) cpp_value" where
  "recv_view (A_string k s) = A_string data_string s"
| "recv_view (A_vec k v) = A_vec data_vector v"
| "recv_view v = v"

fun transferable :: "('b, 'v) cpp_value \<Rightarrow> bool" where
  "transferable (A_request_header h) = False"
| "transferable A_response_builder = False"
| "transferable v = True"

lemma recv_type_extractable: "extractable (recv_type t)"
  by (cases t) auto

lemma recv_type_traits [simp]:
  "is_payload (recv_type t) = is_payload t" "is_serializable (recv_type t) = is_serializable t"
  "get_param_type (recv_type t) = get_param_type t" "get_payload_type (recv_type t) = get_payload_type t"
  by (cases t; simp add: is_serializable_def)+

lemma extract_packed:
  assumes "i < length (rq_params req)" and "rq_params req ! i = packed v" and "is_serializable (cpp_type_of v)"
  shows "extract_arg (recv_type (cpp_type_of v)) req ctx i = Ok (recv_view v, Suc i)"
  using assms
  by (cases v) (auto simp: GetPrimitive_def GetString_def GetVector_def GetTensor_def GetTensorVec_def
      packed_def is_serializable_def)

lemma extract_payload:
  "is_payload (cpp_type_of v) \<Longrightarrow> extract_arg (recv_type (cpp_type_of v)) req (payload_of v) i = Ok (recv_view v, i)"
  by (cases v) auto

lemma transferable_cases: "transferable v \<Longrightarrow> \<not> is_serializable (cpp_type_of v) \<Longrightarrow> is_payload (cpp_type_of v)"
  by (cases v) (auto simp: is_serializable_def)

lemma extract_args_packed:
  assumes "rq_params req = pre @ map packed (serializable_args vs)" and "list_all transferable vs"
    and "\<forall>v \<in> set vs. is_payload (cpp_type_of v) \<longrightarrow> ctx = payload_of v"
  shows "extract_args (map (recv_type \<circ> cpp_type_of) vs) req ctx (length pre) = Ok (map recv_view vs)"
  using assms
proof (induction vs arbitrary: pre)
  case Nil
  then show ?case by simp
next
  case (Cons v vs)
  show ?case
  proof (cases "is_serializable (cpp_type_of v)")
    case True
    then have "extract_arg (recv_type (cpp_type_of v)) req ctx (length pre) = Ok (recv_view v, Suc (length pre))"
      using Cons.prems(1) by (intro extract_packed) (simp_all add: nth_append)
    moreover have "extract_args (map (recv_type \<circ> cpp_type_of) vs) req ctx (length (pre @ [packed v])) = Ok (map recv_view vs)"
      using Cons.prems True by (intro Cons.IH) auto
    ultimately show ?thesis by (simp add: comp_def)
  next
    case False
    then have p: "is_payload (cpp_type_of v)" using Cons.prems(2) transferable_cases by auto
    then have "extract_arg (recv_type (cpp_type_of v)) req ctx (length pre) = Ok (recv_view v, length pre)"
      using Cons.prems(3) extract_payload by auto
    moreover have "extract_args (map (recv_type \<circ> cpp_type_of) vs) req ctx (length pre) = Ok (map recv_view vs)"
      using Cons.prems False by (intro Cons.IH) auto
    ultimately show ?thesis by (simp add: comp_def)
  qed
qed

lemma payload_index_unique:
  "payload_count ts \<le> 1 \<Longrightarrow> k < length ts \<Longrightarrow> is_payload (ts ! k) \<Longrightarrow> payload_index i ts = Some (i + k)"
proof (induction ts arbitrary: i k)
  case Nil
  then show ?case by simp
next
  case (Cons t ts)
  show ?case
  proof (cases k)
    case 0
    then show ?thesis using Cons.prems by simp
  next
    case (Suc l)
    have "payload_count ts \<noteq> 0"
      using payload_index_None [of 0 ts] Cons.IH [of l 0] Cons.prems Suc by (auto split: if_splits)
    then have "\<not> is_payload t" "payload_count ts \<le> 1" using Cons.prems(1) by (auto split: if_splits)
    then show ?thesis using Cons.IH [of l "Suc i"] Cons.prems(2,3) Suc by simp
  qed
qed

lemma payload_finder_count: "payload_finder ts = None \<longleftrightarrow> payload_count ts = 0"
  by (induction ts) auto

lemma payload_count_recv: "payload_count (map (recv_type \<circ> f) vs) = payload_count (map f vs)"
  by (induction vs) auto

lemma request_payload:
  assumes "PrepareRequest opt args = Some (h, p)" and "v \<in> set args" and "is_payload (cpp_type_of v)"
  shows "p = payload_of v"
proof -
  obtain k where k: "k < length args" "args ! k = v" using assms(2) by (auto simp: in_set_conv_nth)
  have "payload_count (map cpp_type_of args) \<le> 1"
    using assms(1) by (auto simp: PrepareRequest_def Let_def split: if_splits)
  then have "payload_index 0 (map cpp_type_of args) = Some k"
    using payload_index_unique [of "map cpp_type_of args" k 0] k assms(3) by simp
  then show ?thesis
    using assms(1) k by (auto simp: PrepareRequest_def Let_def split: if_splits option.splits)
qed

lemma request_params:
  assumes "PrepareRequest opt args = Some (h, p)" and "list_all transferable args"
  shows "h = (options_header opt)\<lparr>rq_params := map packed (serializable_args args)\<rparr>"
proof -
  have "A_response_builder \<notin> set args" using assms(2) by (auto simp: list_all_iff)
  then show ?thesis
    using assms(1) PackArgs_params [of args "options_header opt"]
    by (auto simp: PrepareRequest_def Let_def options_header_def split: if_splits)
qed

lemma request_no_payload:
  assumes "PrepareRequest opt args = Some (h, p)" and "payload_count (map cpp_type_of args) = 0"
  shows "p = Monostate"
proof -
  have "payload_index 0 (map cpp_type_of args) = None" using assms(2) payload_index_None by blast
  then show ?thesis using assms(1) by (auto simp: PrepareRequest_def Let_def split: if_splits option.splits)
qed

lemma args_roundtrip:
  assumes "PrepareRequest opt args = Some (h, p)" and "list_all transferable args"
  shows "extract_args (map (recv_type \<circ> cpp_type_of) args) h p 0 = Ok (map recv_view args)"
proof -
  have "rq_params h = [] @ map packed (serializable_args args)" using request_params [OF assms] by simp
  from extract_args_packed [OF this assms(2), of p] show ?thesis using request_payload [OF assms(1)] by auto
qed

lemma invoke_args:
  assumes "PrepareRequest opt args = Some (h, p)" and "list_all transferable args"
    and "sf_args f = map (recv_type \<circ> cpp_type_of) args"
  shows "invoke_and_package f h (Some p) =
    (case sf_body f (map recv_view args) of Inl e \<Rightarrow> Throw e
     | Inr r \<Rightarrow> (case package_result h r of Some x \<Rightarrow> Ok x | None \<Rightarrow> Fault AssertFailed))"
proof (cases "payload_finder (sf_args f)")
  case None
  then have "payload_count (map cpp_type_of args) = 0"
    using assms(3) payload_finder_count payload_count_recv by metis
  then have "p = Monostate" using request_no_payload [OF assms(1)] by simp
  then show ?thesis
    using None args_roundtrip [OF assms(1,2)] assms(3) by (simp add: invoke_and_package_def)
next
  case (Some t)
  then show ?thesis using args_roundtrip [OF assms(1,2)] assms(3) by (simp add: invoke_and_package_def)
qed

subsection \<open>Results survive the trip\<close>

fun result_values :: "('b, 'v) ret_value \<Rightarrow> ('b, 'v) cpp_value list" where
  "result_values (R_tuple vs) = vs"
| "result_values (R_value v) = [v]"
| "result_values _ = []"

definition packable_results :: "('b, 'v) cpp_value list \<Rightarrow> bool" where
  "packable_results vs \<longleftrightarrow> payload_count (map cpp_type_of vs) \<le> 1 \<and>
     list_all (\<lambda>v. (is_serializable (cpp_type_of v) \<or> is_payload (cpp_type_of v)) \<and>
       cpp_type_of v \<noteq> CT_tensor_vec std_vector) vs"

lemma PrepareResponse_value:
  assumes "packable_results vs"
  shows "PrepareResponse s r vs =
    Some (RpcResponseHeader_new\<lparr>rs_session_id := s, rs_request_id := r, rs_status := RpcStatus_of default_error_code,
            rs_results := map packed (serializable_args vs)\<rparr>,
          case payload_index 0 (map cpp_type_of vs) of None \<Rightarrow> Monostate | Some i \<Rightarrow> payload_of (vs ! i))"
  using assms PackResults_params [of vs]
  by (simp add: PrepareResponse_def packable_results_def RpcResponseHeader_new_def)

lemma package_result_value:
  assumes "\<forall>h p. r \<noteq> R_header h \<and> r \<noteq> R_header_pair h p"
  shows "package_result req r = PrepareResponse (rq_session_id req) (rq_request_id req) (result_values r)"
  using assms by (cases r) auto

text \<open>The client reads result \<open>i\<close> with the accessor of its type.\<close>

definition read_result :: "cpp_type \<Rightarrow> nat \<Rightarrow> RpcResponseHeader \<Rightarrow> ('b, 'v) cpp_value outcome" where
  "read_result t i h = bind_outcome (extract_arg t (RpcRequestHeader_new\<lparr>rq_params := rs_results h\<rparr>) Monostate i) (\<lambda>(v, _). Ok v)"

lemma read_result_packed:
  assumes "rs_results h = map packed vs" and "i < length vs" and "is_serializable (cpp_type_of (vs ! i))"
  shows "read_result (recv_type (cpp_type_of (vs ! i))) i h = Ok (recv_view (vs ! i))"
  using assms extract_packed [of i "RpcRequestHeader_new\<lparr>rq_params := rs_results h\<rparr>" "vs ! i" Monostate]
  by (simp add: read_result_def)

subsection \<open>Requests that match a signature\<close>

lemma extract_serializable:
  assumes "list_all param_wf (rq_params req)" and "i < length (rq_params req)"
    and "pm_type (rq_params req ! i) = get_param_type t" and "is_serializable t"
  shows "\<exists>v. extract_arg t req ctx i = Ok (v, Suc i) \<and> cpp_type_of v = t"
proof -
  note wf = list_all_nth [OF assms(1,2), unfolded param_wf_def]
  show ?thesis
    using assms(2-4) wf value_type_cases [of "pm_value (rq_params req ! i)"]
    by (cases t) (auto simp: accessors_wf [OF assms(1)] is_serializable_def)
qed

lemma extract_args_typed:
  assumes "list_all param_wf (rq_params req)" and "map pm_type (drop i (rq_params req)) = FillParamTypes ts"
    and "\<forall>t \<in> set ts. is_payload t \<longrightarrow> payload_tag ctx = get_payload_type t"
  shows "\<exists>vs. extract_args ts req ctx i = Ok vs \<and> map cpp_type_of vs = ts"
  using assms(2,3)
proof (induction ts arbitrary: i)
  case Nil
  then show ?case by simp
next
  case (Cons t ts)
  have "\<exists>v j. extract_arg t req ctx i = Ok (v, j) \<and> cpp_type_of v = t \<and>
      map pm_type (drop j (rq_params req)) = FillParamTypes ts"
  proof (cases "is_serializable t")
    case True
    then have m: "map pm_type (drop i (rq_params req)) = get_param_type t # FillParamTypes ts"
      using Cons.prems(1) by (simp add: FillParamTypes_def)
    then obtain p ps where d: "drop i (rq_params req) = p # ps" by (cases "drop i (rq_params req)") auto
    then have i: "i < length (rq_params req)" by (metis drop_all list.distinct(1) not_le)
    then have "pm_type (rq_params req ! i) = get_param_type t" "drop (Suc i) (rq_params req) = ps"
      using d m Cons_nth_drop_Suc [OF i] by auto
    then show ?thesis using extract_serializable [OF assms(1) i _ True] d m by fastforce
  next
    case False
    then have m: "map pm_type (drop i (rq_params req)) = FillParamTypes ts"
      using Cons.prems(1) by (simp add: FillParamTypes_def)
    show ?thesis
    proof (cases "is_payload t")
      case True
      then show ?thesis
        using m Cons.prems(2) by (cases t; cases ctx) auto
    next
      case np: False
      then have "t = CT_request_header \<or> t = CT_response_builder" using False serializable_cases by blast
      then show ?thesis using m by auto
    qed
  qed
  then obtain v j where v: "extract_arg t req ctx i = Ok (v, j)" "cpp_type_of v = t"
    "map pm_type (drop j (rq_params req)) = FillParamTypes ts" by blast
  obtain vs where "extract_args ts req ctx j = Ok vs" "map cpp_type_of vs = ts"
    using Cons.IH [OF v(3)] Cons.prems(2) by auto
  then show ?case using v by auto
qed

lemma payload_finder_unique:
  "payload_count ts \<le> 1 \<Longrightarrow> t \<in> set ts \<Longrightarrow> is_payload t \<Longrightarrow> payload_finder ts = Some t"
proof (induction ts)
  case Nil
  then show ?case by simp
next
  case (Cons u ts)
  have "payload_count ts \<noteq> 0" if "t \<in> set ts"
    using that Cons.prems(3) payload_finder_count [of ts] by (induction ts) auto
  then show ?case using Cons by (auto split: if_splits)
qed

lemma ValidateTensorPayloadConstraints_iff:
  "ValidateTensorPayloadConstraints sig = Ok () \<longleftrightarrow>
     \<not> (0 < count_list (sig_param_types sig) TENSOR_META \<and> 0 < count_list (sig_param_types sig) TENSOR_META_VEC) \<and>
     count_list (sig_param_types sig) TENSOR_META_VEC \<le> 1 \<and>
     (sig_input_payload_type sig = UCX_BUFFER \<longrightarrow> count_list (sig_param_types sig) TENSOR_META \<le> 1) \<and>
     \<not> (0 < count_list (sig_return_types sig) TENSOR_META \<and> 0 < count_list (sig_return_types sig) TENSOR_META_VEC) \<and>
     count_list (sig_return_types sig) TENSOR_META_VEC \<le> 1"
  by (auto simp: ValidateTensorPayloadConstraints_def Let_def)

subsection \<open>Properties\<close>





text \<open>
  \<open>InvokeFunction\<close> turns every failure into a response (an unknown function into
  \<open>INVALID_ARGUMENT\<close>, an exception of argument extraction or of the body into \<open>INTERNAL\<close>), but
  the typed \<open>Dispatch<ReturnContextT>\<close> loses it: for a buffer return type every such error response
  becomes \<open>std::bad_variant_access\<close>, which escapes to the caller.
\<close>
theorem typed_dispatch_loses_errors:
  assumes "fn_table d (rq_function_id req) = None \<or>
      (\<exists>f e. fn_table d (rq_function_id req) = Some (StaticFunc f) \<and> invoke_and_package f req ctx = Throw e)"
  shows "(\<exists>e what. InvokeFunction req ctx d =
      Ok (error_response (rq_session_id req) (rq_request_id req) e what, Monostate) \<and> e \<in> {INVALID_ARGUMENT, INTERNAL}) \<and>
    Dispatch UCX_BUFFER req ctx d = Throw bad_variant_access \<and>
    Dispatch UCX_BUFFER_VEC req ctx d = Throw bad_variant_access"
  using assms
proof (elim disjE exE conjE)
  assume "fn_table d (rq_function_id req) = None"
  then show ?thesis by (simp add: InvokeFunction_def Dispatch_def BuildRpcResult_def) blast
next
  fix f e
  assume "fn_table d (rq_function_id req) = Some (StaticFunc f)" "invoke_and_package f req ctx = Throw e"
  then show ?thesis by (simp add: InvokeFunction_def Dispatch_def BuildRpcResult_def catch_internal_def) blast
qed

theorem typed_dispatch_loses_errors_witness:
  "Dispatch UCX_BUFFER RpcRequestHeader_new None (RpcDispatcher_new ''w'' :: (nat, nat) RpcDispatcher) = Throw bad_variant_access"
  using typed_dispatch_loses_errors [of "RpcDispatcher_new ''w'' :: (nat, nat) RpcDispatcher" RpcRequestHeader_new None]
  by (simp add: RpcDispatcher_new_def)

text \<open>
  Registering a function under an id that is taken keeps the old function but publishes the
  signature of the new one, and a registration whose signature is rejected with an exception has
  already made the function callable without publishing any signature.
\<close>
theorem register_not_atomic:
  assumes "RegisterFunction fid g name d = (res, d')"
  shows "(\<forall>f0 sig. fn_table d fid = Some f0 \<longrightarrow> MakeRpcSignature fid name (instance_name d) g = Ok sig \<longrightarrow>
      res = None \<and> fn_table d' fid = Some f0 \<and> GetSignature fid d' = Some sig) \<and>
    (\<forall>e. fn_table d fid = None \<longrightarrow> MakeRpcSignature fid name (instance_name d) g = Throw e \<longrightarrow>
      res = Some e \<and> fn_table d' fid = Some (StaticFunc g) \<and> GetSignature fid d' = GetSignature fid d)"
  using assms by (auto simp: RegisterFunction_def map_emplace_def Let_def GetSignature_def)

theorem register_not_atomic_witness:
  "\<exists>e d'. RegisterFunction 1 (\<lparr>sf_args = [CT_tensor, CT_tensor, CT_buffer], sf_ret = RT_void, sf_body = (\<lambda>_. Inr R_void)\<rparr> :: (nat, nat) static_func) ''f''
      (RpcDispatcher_new ''w'') = (Some e, d') \<and> IsRegistered 1 d' \<and> GetSignature 1 d' = None"
proof -
  let ?g = "\<lparr>sf_args = [CT_tensor, CT_tensor, CT_buffer], sf_ret = RT_void, sf_body = (\<lambda>_. Inr R_void)\<rparr> :: (nat, nat) static_func"
  obtain e where e: "MakeRpcSignature 1 ''f'' ''w'' ?g = Throw e"
    by (simp add: MakeRpcSignature_def ValidateTensorPayloadConstraints_def FillParamTypes_def is_serializable_def)
  obtain res d' where r: "RegisterFunction 1 ?g ''f'' (RpcDispatcher_new ''w'') = (res, d')" by fastforce
  show ?thesis
    using register_not_atomic [OF r] e r by (auto simp: RpcDispatcher_new_def IsRegistered_def GetSignature_def)
qed

end
