(* ===== verification/Ucx_Connection.thy ===== *)
theory Ucx_Connection
  imports Eux_Prelude "HOL-Library.Sublist"
begin

text \<open>
  One UCX endpoint, \<open>ucx_context/ucx_connection.hpp\<close> and \<open>ucx_connection.cpp\<close>: its
  outstanding requests, their completion callbacks, error handling, disconnecting and destruction.
  What UCX itself decides is an argument of the operation that asks it: the outcome of a posted
  send or receive, whether a cancellation completes the request at once, the outcome and the
  progress of closing the endpoint. Requests live in a heap indexed by their address.
  User callbacks are numbers; every invocation is an event, so that completions can be counted.
\<close>

subsection \<open>Data\<close>

datatype ucs_status =
    UCS_OK
  | UCS_INPROGRESS
  | UCS_ERR_CANCELED
  | UCS_ERR_NOT_CONNECTED
  | UCS_ERR nat

fun is_err :: "ucs_status \<Rightarrow> bool" where
  "is_err UCS_OK = False"
| "is_err UCS_INPROGRESS = False"
| "is_err _ = True"

datatype UcxRequestType = SendReq | RecvReq | UnknownReq

record UcxRequest =
  r_callback :: "nat option"
  r_conn :: bool
  r_status :: ucs_status
  r_type :: UcxRequestType

text \<open>The parameters of a posted operation, \<open>ucp_request_param_t\<close>.\<close>

datatype op_attr =
    UCP_OP_ATTR_FIELD_CALLBACK
  | UCP_OP_ATTR_FIELD_FLAGS
  | UCP_OP_ATTR_FIELD_MEMORY_TYPE
  | UCP_OP_ATTR_FIELD_MEMH
  | UCP_OP_ATTR_FIELD_DATATYPE
  | UCP_OP_ATTR_FLAG_NO_IMM_CMPL

datatype am_flag = UCP_AM_SEND_FLAG_REPLY | UCP_AM_SEND_FLAG_RNDV

datatype ucp_datatype = DtContig | DtIov

record ucp_request_param =
  op_attr_mask :: "op_attr list"
  am_flags :: "am_flag list"
  param_datatype :: ucp_datatype
  memory_type :: nat
  param_memh :: "nat option"

datatype event =
    Called nat ucs_status
  | PostedSend nat ucp_request_param
  | PostedRecv ucp_request_param
  | ErrorHandled ucs_status nat
  | MarkInactive nat
  | MarkDisconnecting nat
  | CancelRequested nat
  | EpClosed nat

datatype close_ptr = CloseNull | CloseErr | ClosePtr

record UcxConnection =
  has_err_cb :: bool
  establish_cb :: "nat option"
  disconnect_cb :: "nat option"
  ep :: "nat option"
  close_request :: close_ptr
  all_requests :: "nat list"
  ucx_status :: ucs_status
  zcopy_thresh :: nat
  rdma_available :: bool
  reqs :: "nat \<rightharpoonup> UcxRequest"
  events :: "event list"

text \<open>What posting an operation returns: no request, an error, or a request (completed or not before the call returns).\<close>

datatype post_outcome =
    PostDone
  | PostError ucs_status
  | PostRequest nat
  | PostCompleted nat ucs_status

subsection \<open>Transport selection\<close>

definition DEFAULT_ZCOPY_THRESH :: nat where
  "DEFAULT_ZCOPY_THRESH = 4096"

text \<open>The argument is the number \<open>UCX_ZCOPY_THRESH\<close> starts with, if it is set and starts with one.\<close>

definition get_zcopy_thresh :: "int option \<Rightarrow> nat" where
  "get_zcopy_thresh env =
     (case env of None \<Rightarrow> DEFAULT_ZCOPY_THRESH
      | Some thresh \<Rightarrow> if thresh \<le> 0 then DEFAULT_ZCOPY_THRESH else nat thresh)"

definition rdma_transports :: "string list" where
  "rdma_transports = [''rc'', ''ud'', ''dc'', ''ib'', ''mlx'', ''roce'']"

text \<open>\<open>ucp_ep_query\<close> answers with the transport names, or fails.\<close>

definition is_rdma_transport_available :: "nat option \<Rightarrow> string list option \<Rightarrow> bool" where
  "is_rdma_transport_available e names =
     (e \<noteq> None \<and> (case names of None \<Rightarrow> False
        | Some ns \<Rightarrow> list_ex (\<lambda>n. list_ex (\<lambda>t. sublist t n) rdma_transports) ns))"

definition should_use_zcopy :: "nat \<Rightarrow> UcxConnection \<Rightarrow> bool" where
  "should_use_zcopy msg_len c \<longleftrightarrow> zcopy_thresh c \<le> msg_len \<or> rdma_available c"

definition is_zcopy_query :: "int option \<Rightarrow> string list option \<Rightarrow> UcxConnection \<Rightarrow> UcxConnection" where
  "is_zcopy_query env names c =
     c\<lparr>zcopy_thresh := get_zcopy_thresh env, rdma_available := is_rdma_transport_available (ep c) names\<rparr>"

datatype sa_family = AF_INET | AF_INET6 | AF_OTHER

text \<open>\<open>addr\<close> is the text \<open>inet_ntop\<close> writes for the address; it fits the buffer with the port.\<close>

definition sockaddr_str :: "sa_family \<Rightarrow> string \<Rightarrow> nat \<Rightarrow> string" where
  "sockaddr_str family addr port =
     (if family \<noteq> AF_INET then ''<unknown address family>''
      else case family of
        AF_INET \<Rightarrow> addr @ '':'' @ to_string port
      | AF_INET6 \<Rightarrow> addr @ '':'' @ to_string port
      | AF_OTHER \<Rightarrow> ''<invalid address>'')"

subsection \<open>Callbacks and requests\<close>

definition emit :: "event \<Rightarrow> UcxConnection \<Rightarrow> UcxConnection" where
  "emit e c = c\<lparr>events := events c @ [e]\<rparr>"

definition is_established :: "UcxConnection \<Rightarrow> bool" where
  "is_established c \<longleftrightarrow> establish_cb c = None"

definition is_disconnecting :: "UcxConnection \<Rightarrow> bool" where
  "is_disconnecting c \<longleftrightarrow> disconnect_cb c \<noteq> None"

definition invoke_establish_cb :: "ucs_status \<Rightarrow> UcxConnection \<Rightarrow> UcxConnection" where
  "invoke_establish_cb status c =
     (case establish_cb c of None \<Rightarrow> c | Some cb \<Rightarrow> emit (Called cb status) (c\<lparr>establish_cb := None\<rparr>))"

definition invoke_disconnect_cb :: "ucs_status \<Rightarrow> UcxConnection \<Rightarrow> UcxConnection" where
  "invoke_disconnect_cb status c =
     (case disconnect_cb c of None \<Rightarrow> c | Some cb \<Rightarrow> emit (Called cb status) (c\<lparr>disconnect_cb := None\<rparr>))"

definition conn_id :: "UcxConnection \<Rightarrow> nat" where
  "conn_id c = (case ep c of None \<Rightarrow> 0 | Some e \<Rightarrow> e)"

definition fresh_request :: UcxRequest where
  "fresh_request = \<lparr>r_callback = None, r_conn = False, r_status = UCS_INPROGRESS, r_type = UnknownReq\<rparr>"

text \<open>\<open>request_release\<close> resets the request and returns it to UCX.\<close>

definition request_release :: "nat \<Rightarrow> UcxConnection \<Rightarrow> UcxConnection" where
  "request_release r c = c\<lparr>reqs := (reqs c)(r := None)\<rparr>"

definition request_completed :: "nat \<Rightarrow> UcxConnection \<Rightarrow> UcxConnection" where
  "request_completed r c = c\<lparr>all_requests := remove1 r (all_requests c)\<rparr>"

definition request_started :: "nat \<Rightarrow> UcxConnection \<Rightarrow> UcxConnection" where
  "request_started r c = c\<lparr>all_requests := all_requests c @ [r]\<rparr>"

definition common_request_callback :: "nat \<Rightarrow> ucs_status \<Rightarrow> UcxConnection \<Rightarrow> UcxConnection res" where
  "common_request_callback r status c =
     (if status = UCS_INPROGRESS then Inl AssertFailed
      else case reqs c r of
        None \<Rightarrow> Inl UseAfterFree
      | Some q \<Rightarrow>
          if r_status q \<noteq> UCS_INPROGRESS then Inl AssertFailed
          else
            let c1 = c\<lparr>reqs := (reqs c)(r \<mapsto> q\<lparr>r_status := status\<rparr>)\<rparr>;
                c2 = (case r_callback q of None \<Rightarrow> c1 | Some cb \<Rightarrow> emit (Called cb status) c1);
                c3 = (if r_conn q then request_completed r c2 else c2)
            in Inr (request_release r c3))"

text \<open>
  \<open>process_request\<close>. A posted request has been initialised by \<open>request_init\<close>; when it completes
  before the posting call returns, its completion callback has run before the request is looked at.
\<close>

definition adopt_request ::
  "nat \<Rightarrow> nat \<Rightarrow> UcxRequestType \<Rightarrow> UcxConnection \<Rightarrow> ((ucs_status \<times> nat option) \<times> UcxConnection) res" where
  "adopt_request r cb type c =
     (case reqs c r of
        None \<Rightarrow> Inl UseAfterFree
      | Some q \<Rightarrow>
          if r_status q \<noteq> UCS_INPROGRESS
          then Inr ((r_status q, None), request_release r (emit (Called cb (r_status q)) c))
          else Inr ((UCS_OK, Some r), request_started r
                 (c\<lparr>reqs := (reqs c)(r \<mapsto> q\<lparr>r_callback := Some cb, r_conn := True, r_type := type\<rparr>)\<rparr>)))"

definition process_request ::
  "post_outcome \<Rightarrow> nat \<Rightarrow> UcxRequestType \<Rightarrow> UcxConnection \<Rightarrow> ((ucs_status \<times> nat option) \<times> UcxConnection) res" where
  "process_request out cb type c =
     (case out of
        PostDone \<Rightarrow> Inr ((UCS_OK, None), emit (Called cb UCS_OK) c)
      | PostError status \<Rightarrow> Inr ((status, None), emit (Called cb status) c)
      | PostRequest r \<Rightarrow> adopt_request r cb type (c\<lparr>reqs := (reqs c)(r \<mapsto> fresh_request)\<rparr>)
      | PostCompleted r status \<Rightarrow>
          bind_res (common_request_callback r status (c\<lparr>reqs := (reqs c)(r \<mapsto> fresh_request)\<rparr>))
            (adopt_request r cb type))"

definition init_am_send_params :: "nat \<Rightarrow> nat option \<Rightarrow> ucp_request_param" where
  "init_am_send_params mtype memh =
     \<lparr>op_attr_mask = [UCP_OP_ATTR_FIELD_CALLBACK, UCP_OP_ATTR_FIELD_FLAGS, UCP_OP_ATTR_FIELD_MEMORY_TYPE] @
        (if memh \<noteq> None then [UCP_OP_ATTR_FIELD_MEMH] else []),
      am_flags = [UCP_AM_SEND_FLAG_REPLY], param_datatype = DtContig, memory_type = mtype, param_memh = memh\<rparr>"

definition init_am_recv_params :: "nat \<Rightarrow> nat option \<Rightarrow> ucp_request_param" where
  "init_am_recv_params mtype memh =
     \<lparr>op_attr_mask = [UCP_OP_ATTR_FIELD_CALLBACK, UCP_OP_ATTR_FLAG_NO_IMM_CMPL, UCP_OP_ATTR_FIELD_MEMORY_TYPE] @
        (if memh \<noteq> None then [UCP_OP_ATTR_FIELD_MEMH] else []),
      am_flags = [], param_datatype = DtContig, memory_type = mtype, param_memh = memh\<rparr>"

definition set_datatype :: "ucp_datatype \<Rightarrow> ucp_request_param \<Rightarrow> ucp_request_param" where
  "set_datatype d param = param\<lparr>op_attr_mask := op_attr_mask param @ [UCP_OP_ATTR_FIELD_DATATYPE], param_datatype := d\<rparr>"

definition send_am_data ::
  "nat option \<Rightarrow> nat \<Rightarrow> post_outcome \<Rightarrow> nat \<Rightarrow> UcxConnection \<Rightarrow> ((ucs_status \<times> nat option) \<times> UcxConnection) res" where
  "send_am_data memh mtype out cb c =
     (case ep c of
        None \<Rightarrow> Inr ((UCS_ERR_CANCELED, None), emit (Called cb UCS_ERR_CANCELED) c)
      | Some e \<Rightarrow>
          let param = set_datatype DtContig (init_am_send_params mtype memh)
          in process_request out cb SendReq (emit (PostedSend e param) c))"

definition send_am_iov_data ::
  "nat option \<Rightarrow> nat \<Rightarrow> post_outcome \<Rightarrow> nat \<Rightarrow> UcxConnection \<Rightarrow> ((ucs_status \<times> nat option) \<times> UcxConnection) res" where
  "send_am_iov_data memh mtype out cb c =
     (case ep c of
        None \<Rightarrow> Inr ((UCS_ERR_CANCELED, None), emit (Called cb UCS_ERR_CANCELED) c)
      | Some e \<Rightarrow>
          let param = set_datatype DtIov (init_am_send_params mtype memh);
              param' = param\<lparr>am_flags := am_flags param @ [UCP_AM_SEND_FLAG_RNDV]\<rparr>
          in process_request out cb SendReq (emit (PostedSend e param') c))"

definition recv_am_data ::
  "bool \<Rightarrow> nat option \<Rightarrow> nat \<Rightarrow> post_outcome \<Rightarrow> nat \<Rightarrow> UcxConnection \<Rightarrow>
   ((ucs_status \<times> nat option) \<times> UcxConnection) res" where
  "recv_am_data rndv memh mtype out cb c =
     (if ep c = None then Inl AssertFailed
      else if \<not> rndv then Inr ((UCS_OK, None), emit (Called cb UCS_OK) c)
      else
        let param = set_datatype DtContig (init_am_recv_params mtype memh)
        in process_request out cb RecvReq (emit (PostedRecv param) c))"

definition recv_am_iov_data ::
  "bool \<Rightarrow> nat option \<Rightarrow> nat \<Rightarrow> post_outcome \<Rightarrow> nat \<Rightarrow> UcxConnection \<Rightarrow>
   ((ucs_status \<times> nat option) \<times> UcxConnection) res" where
  "recv_am_iov_data rndv memh mtype out cb c =
     (if ep c = None then Inl AssertFailed
      else if \<not> rndv then Inr ((UCS_OK, None), emit (Called cb UCS_OK) c)
      else
        let param = set_datatype DtIov (init_am_recv_params mtype memh)
        in process_request out cb RecvReq (emit (PostedRecv param) c))"

subsection \<open>Cancellation\<close>

text \<open>
  \<open>ucp_request_cancel\<close> may complete the request before it returns; \<open>sync r\<close> is the status then.
  The loops fix the next element before they cancel one.
\<close>

definition cancel_one :: "(nat \<Rightarrow> ucs_status option) \<Rightarrow> nat \<Rightarrow> UcxConnection \<Rightarrow> UcxConnection res" where
  "cancel_one sync r c =
     (case sync r of None \<Rightarrow> Inr (emit (CancelRequested r) c)
      | Some status \<Rightarrow> common_request_callback r status (emit (CancelRequested r) c))"

fun cancel_each :: "(nat \<Rightarrow> ucs_status option) \<Rightarrow> nat list \<Rightarrow> UcxConnection \<Rightarrow> UcxConnection res" where
  "cancel_each sync [] c = Inr c"
| "cancel_each sync (r # rs) c = bind_res (cancel_one sync r c) (cancel_each sync rs)"

definition has_type :: "UcxRequestType \<Rightarrow> UcxConnection \<Rightarrow> nat \<Rightarrow> bool" where
  "has_type t c r \<longleftrightarrow> (case reqs c r of None \<Rightarrow> False | Some q \<Rightarrow> r_type q = t)"

definition cancel_all :: "(nat \<Rightarrow> ucs_status option) \<Rightarrow> UcxConnection \<Rightarrow> UcxConnection res" where
  "cancel_all sync c = cancel_each sync (all_requests c) c"

definition cancel_send :: "(nat \<Rightarrow> ucs_status option) \<Rightarrow> UcxConnection \<Rightarrow> UcxConnection res" where
  "cancel_send sync c = cancel_each sync (filter (has_type SendReq c) (all_requests c)) c"

definition cancel_recv :: "(nat \<Rightarrow> ucs_status option) \<Rightarrow> UcxConnection \<Rightarrow> UcxConnection res" where
  "cancel_recv sync c = cancel_each sync (filter (has_type RecvReq c) (all_requests c)) c"

definition cancel_request :: "(nat \<Rightarrow> ucs_status option) \<Rightarrow> nat \<Rightarrow> UcxConnection \<Rightarrow> UcxConnection res" where
  "cancel_request sync r c = (if r \<in> set (all_requests c) then cancel_one sync r c else Inr c)"

subsection \<open>Establishing, errors, closing\<close>

definition established :: "int option \<Rightarrow> string list option \<Rightarrow> ucs_status \<Rightarrow> UcxConnection \<Rightarrow> UcxConnection" where
  "established env names status c =
     is_zcopy_query env names (invoke_establish_cb status (c\<lparr>ucx_status := status\<rparr>))"

definition handle_connection_error :: "ucs_status \<Rightarrow> UcxConnection \<Rightarrow> UcxConnection res" where
  "handle_connection_error status c =
     (if is_err (ucx_status c) \<or> is_disconnecting c then Inr c
      else
        let c1 = c\<lparr>ucx_status := status\<rparr> in
        if is_established c1 then
          if has_err_cb c1 then Inr (emit (ErrorHandled status (conn_id c1)) c1) else Inl NullDeref
        else Inr (invoke_establish_cb status c1))"

text \<open>\<open>UcxConnection(worker, handle_err_cb, ep)\<close>; \<open>modify\<close> is the status of \<open>ucp_ep_modify_nb\<close>.\<close>

definition UcxConnection_new :: "bool \<Rightarrow> nat option \<Rightarrow> ucs_status \<Rightarrow> UcxConnection" where
  "UcxConnection_new err_cb e modify =
     \<lparr>has_err_cb = err_cb, establish_cb = None, disconnect_cb = None, ep = e, close_request = CloseNull,
      all_requests = [], ucx_status = (if err_cb \<and> e \<noteq> None then modify else UCS_OK),
      zcopy_thresh = 0, rdma_available = False, reqs = Map.empty, events = []\<rparr>"

text \<open>\<open>connect\<close> and \<open>accept\<close>: \<open>created\<close> is what \<open>ucp_ep_create\<close> returns, the endpoint or an error.\<close>

definition connect_common ::
  "int option \<Rightarrow> string list option \<Rightarrow> ucs_status + nat \<Rightarrow> nat \<Rightarrow> UcxConnection \<Rightarrow> UcxConnection res" where
  "connect_common env names created cb c =
     (let c1 = c\<lparr>establish_cb := Some cb\<rparr> in
      case created of
        Inl status \<Rightarrow> if ep c1 \<noteq> None then Inl AssertFailed else handle_connection_error status c1
      | Inr e \<Rightarrow> Inr (established env names UCS_OK (c1\<lparr>ep := Some e\<rparr>)))"

text \<open>\<open>ep_close\<close>: \<open>closed\<close> is the pointer \<open>ucp_ep_close_nb\<close> returns, \<open>pending\<close> whether that request is in progress.\<close>

definition ep_close :: "close_ptr \<Rightarrow> bool \<Rightarrow> UcxConnection \<Rightarrow> UcxConnection res" where
  "ep_close closed pending c =
     (case ep c of
        None \<Rightarrow> Inr c
      | Some e \<Rightarrow>
          if close_request c \<noteq> CloseNull then Inl AssertFailed
          else Inr (emit (EpClosed e) (c\<lparr>ep := None,
                 close_request := (if closed = ClosePtr \<and> \<not> pending then CloseNull else closed)\<rparr>)))"

definition disconnect ::
  "int option \<Rightarrow> string list option \<Rightarrow> (nat \<Rightarrow> ucs_status option) \<Rightarrow> close_ptr \<Rightarrow> bool \<Rightarrow> nat \<Rightarrow>
   UcxConnection \<Rightarrow> UcxConnection res" where
  "disconnect env names sync closed pending cb c =
     (if ep c = None then Inr c
      else if disconnect_cb c \<noteq> None then Inl AssertFailed
      else
        let c1 = emit (MarkInactive (conn_id c)) (c\<lparr>disconnect_cb := Some cb\<rparr>) in
        bind_res
          (if \<not> is_established c1 then
             if ucx_status c1 \<noteq> UCS_INPROGRESS then Inl AssertFailed
             else Inr (established env names UCS_ERR_CANCELED c1)
           else if ucx_status c1 = UCS_OK then Inr (c1\<lparr>ucx_status := UCS_ERR_NOT_CONNECTED\<rparr>)
           else Inr c1) (\<lambda>c2.
        if \<not> is_err (ucx_status c2) then Inl AssertFailed
        else bind_res (cancel_all sync (emit (MarkDisconnecting (conn_id c2)) c2)) (\<lambda>c3.
          bind_res (ep_close closed pending c3) (\<lambda>c4. Inr (c4\<lparr>ep := None\<rparr>)))))"

text \<open>
  \<open>disconnect_direct\<close>: the requests that complete while the worker is progressed are the list
  \<open>prog\<close>; the rest is cancelled by hand and left to UCX without a callback.
\<close>

fun complete_each :: "(nat \<times> ucs_status) list \<Rightarrow> UcxConnection \<Rightarrow> UcxConnection res" where
  "complete_each [] c = Inr c"
| "complete_each ((r, s) # rs) c = bind_res (common_request_callback r s c) (complete_each rs)"

definition abandon_request :: "nat \<Rightarrow> UcxConnection \<Rightarrow> UcxConnection res" where
  "abandon_request r c =
     (case reqs c r of
        None \<Rightarrow> Inl UseAfterFree
      | Some q \<Rightarrow>
          let c1 = request_completed r c;
              c2 = (case r_callback q of None \<Rightarrow> c1 | Some cb \<Rightarrow> emit (Called cb UCS_ERR_CANCELED) c1)
          in Inr (c2\<lparr>reqs := (reqs c2)(r \<mapsto> q\<lparr>r_callback := None, r_conn := False\<rparr>)\<rparr>))"

fun abandon_each :: "nat list \<Rightarrow> UcxConnection \<Rightarrow> UcxConnection res" where
  "abandon_each [] c = Inr c"
| "abandon_each (r # rs) c = bind_res (abandon_request r c) (abandon_each rs)"

definition disconnect_direct ::
  "(nat \<Rightarrow> ucs_status option) \<Rightarrow> (nat \<times> ucs_status) list \<Rightarrow> close_ptr \<Rightarrow> bool \<Rightarrow> UcxConnection \<Rightarrow> UcxConnection res" where
  "disconnect_direct sync prog closed pending c =
     bind_res (cancel_all sync c) (\<lambda>c1.
     bind_res (complete_each prog c1) (\<lambda>c2.
     bind_res (abandon_each (all_requests c2) c2) (\<lambda>c3.
     bind_res (ep_close closed pending c3) (\<lambda>c4. Inr (c4\<lparr>ep := None\<rparr>)))))"

text \<open>\<open>disconnect_progress\<close>: \<open>pending\<close> tells whether the close request is still in progress.\<close>

definition disconnect_progress :: "bool \<Rightarrow> nat \<Rightarrow> UcxConnection \<Rightarrow> bool \<times> UcxConnection" where
  "disconnect_progress pending cb c =
     (let c1 = c\<lparr>disconnect_cb := Some cb\<rparr> in
      if all_requests c1 \<noteq> [] then (False, c1)
      else if close_request c1 = ClosePtr \<and> pending then (False, c1)
      else
        let c2 = (if close_request c1 = ClosePtr then c1\<lparr>close_request := CloseNull\<rparr> else c1)
        in (True, invoke_disconnect_cb UCS_OK c2))"

text \<open>The destructor asks a second time whether the close request is in progress: \<open>pending'\<close>.\<close>

definition UcxConnection_destroy ::
  "(nat \<Rightarrow> ucs_status option) \<Rightarrow> (nat \<times> ucs_status) list \<Rightarrow> close_ptr \<Rightarrow> bool \<Rightarrow> bool \<Rightarrow> UcxConnection \<Rightarrow> UcxConnection res" where
  "UcxConnection_destroy sync prog closed pending pending' c =
     bind_res (disconnect_direct sync prog closed pending c) (\<lambda>c1.
       let c2 = (if close_request c1 = ClosePtr \<and> \<not> pending' then c1\<lparr>close_request := CloseNull\<rparr> else c1) in
       if ep c2 \<noteq> None \<or> all_requests c2 \<noteq> [] \<or> close_request c2 = ClosePtr then Inl AssertFailed else Inr c2)"

subsection \<open>Exactly one completion per operation\<close>

definition conn_inv :: "UcxConnection \<Rightarrow> bool" where
  "conn_inv c \<longleftrightarrow> distinct (all_requests c) \<and>
     (\<forall>r \<in> set (all_requests c). \<exists>q. reqs c r = Some q \<and> r_conn q) \<and>
     (\<forall>r q. reqs c r = Some q \<longrightarrow> r_status q = UCS_INPROGRESS \<and> (r_conn q \<longrightarrow> r \<in> set (all_requests c)) \<and>
        (\<not> r_conn q \<longrightarrow> r_callback q = None))"

definition calls :: "nat \<Rightarrow> event list \<Rightarrow> nat" where
  "calls t es = length (filter (\<lambda>e. case e of Called cb s \<Rightarrow> cb = t | _ \<Rightarrow> False) es)"

definition awaited :: "nat \<Rightarrow> UcxConnection \<Rightarrow> nat" where
  "awaited t c = count_list (map (\<lambda>r. r_callback (the (reqs c r))) (all_requests c)) (Some t)"

definition account :: "nat \<Rightarrow> UcxConnection \<Rightarrow> nat" where
  "account t c = calls t (events c) + awaited t c"

lemma calls_append [simp]: "calls t (es @ fs) = calls t es + calls t fs"
  by (simp add: calls_def)

lemma calls_single [simp]: "calls t [e] = (case e of Called cb s \<Rightarrow> if cb = t then 1 else 0 | _ \<Rightarrow> 0)"
  by (simp add: calls_def split: event.split)

lemma awaited_simps [simp]:
  "awaited t (emit e c) = awaited t c"
  "awaited t (c\<lparr>ucx_status := s\<rparr>) = awaited t c"
  "awaited t (c\<lparr>disconnect_cb := d\<rparr>) = awaited t c"
  "awaited t (c\<lparr>establish_cb := d\<rparr>) = awaited t c"
  "awaited t (c\<lparr>ep := e'\<rparr>) = awaited t c"
  "awaited t (c\<lparr>close_request := x\<rparr>) = awaited t c"
  by (simp_all add: awaited_def emit_def)

lemma emit_simps [simp]:
  "all_requests (emit e c) = all_requests c" "reqs (emit e c) = reqs c" "events (emit e c) = events c @ [e]"
  "ep (emit e c) = ep c" "close_request (emit e c) = close_request c" "disconnect_cb (emit e c) = disconnect_cb c"
  "ucx_status (emit e c) = ucx_status c" "establish_cb (emit e c) = establish_cb c"
  by (simp_all add: emit_def)

lemma conn_inv_emit [simp]: "conn_inv (emit e c) = conn_inv c"
  by (simp add: conn_inv_def)

lemma conn_inv_cong:
  "all_requests c' = all_requests c \<Longrightarrow> reqs c' = reqs c \<Longrightarrow> conn_inv c' = conn_inv c"
  by (simp add: conn_inv_def)

text \<open>What completing or abandoning requests leaves alone.\<close>

definition same_state :: "UcxConnection \<Rightarrow> UcxConnection \<Rightarrow> bool" where
  "same_state c c' \<longleftrightarrow> ep c' = ep c \<and> close_request c' = close_request c \<and> disconnect_cb c' = disconnect_cb c \<and>
     ucx_status c' = ucx_status c \<and> establish_cb c' = establish_cb c"

lemma same_state_trans: "same_state a b \<Longrightarrow> same_state b c \<Longrightarrow> same_state a c"
  by (simp add: same_state_def)

lemma callbacks_other:
  "r \<notin> set zs \<Longrightarrow> map (\<lambda>x. r_callback (the ((m(r := q)) x))) zs = map (\<lambda>x. r_callback (the (m x))) zs"
  by (induction zs) auto

lemma awaited_split:
  assumes "all_requests c = xs @ r # ys" and "distinct (all_requests c)"
  shows "awaited t (c\<lparr>all_requests := xs @ ys, reqs := (reqs c)(r := q)\<rparr>) =
    awaited t c - (if r_callback (the (reqs c r)) = Some t then 1 else 0)"
proof -
  have n: "r \<notin> set xs" "r \<notin> set ys" using assms by auto
  then show ?thesis using assms(1) by (simp add: awaited_def callbacks_other del: fun_upd_apply)
qed

lemma awaited_member:
  assumes "r \<in> set (all_requests c)" and "r_callback (the (reqs c r)) = Some t"
  shows "0 < awaited t c"
  using assms by (auto simp: awaited_def count_list_0_iff neq0_conv [symmetric] simp del: neq0_conv
      intro: rev_image_eqI)

lemma awaited_unlisted:
  "r \<notin> set (all_requests c) \<Longrightarrow> awaited t (c\<lparr>reqs := (reqs c)(r := q)\<rparr>) = awaited t c"
  by (simp add: awaited_def callbacks_other del: fun_upd_apply)

lemma request_gone:
  assumes "conn_inv c" and "reqs c r = Some q"
    and "c' = c\<lparr>all_requests := remove1 r (all_requests c), reqs := (reqs c)(r := x),
               events := events c @ (case r_callback q of None \<Rightarrow> [] | Some cb \<Rightarrow> [Called cb s])\<rparr>"
    and "x = None \<or> x = Some (q\<lparr>r_callback := None, r_conn := False\<rparr>)"
  shows "conn_inv c' \<and> account t c' = account t c \<and> same_state c c'"
proof (cases "r \<in> set (all_requests c)")
  case True
  have d: "distinct (all_requests c)" using assms(1) by (simp add: conn_inv_def)
  obtain xs ys where xs: "all_requests c = xs @ r # ys" "r \<notin> set xs"
    using split_list_first [OF True] by blast
  then have rm: "remove1 r (all_requests c) = xs @ ys" by (simp add: remove1_append)
  have "awaited t c' = awaited t c - (if r_callback q = Some t then 1 else 0)"
    using awaited_split [OF xs(1) d, of t x] assms(2,3) rm by (simp add: awaited_def)
  moreover have "calls t (events c') = calls t (events c) + (if r_callback q = Some t then 1 else 0)"
    using assms(3) by (auto simp: calls_def split: option.splits)
  moreover have "r_callback q = Some t \<longrightarrow> 0 < awaited t c" using awaited_member [OF True] assms(2) by simp
  ultimately have "account t c' = account t c" by (auto simp: account_def)
  moreover have "conn_inv c'"
    using assms d by (auto simp: conn_inv_def split: if_splits)
  moreover have "same_state c c'" using assms(3) by (simp add: same_state_def)
  ultimately show ?thesis by blast
next
  case False
  have cb: "r_callback q = None" using assms(1,2) False by (auto simp: conn_inv_def)
  then have c': "c' = c\<lparr>reqs := (reqs c)(r := x)\<rparr>" using assms(3) False by (simp add: remove1_idem)
  have "account t c' = account t c" using awaited_unlisted [OF False] c' by (simp add: account_def)
  moreover have "conn_inv c'" using assms False c' by (auto simp: conn_inv_def)
  moreover have "same_state c c'" using c' by (simp add: same_state_def)
  ultimately show ?thesis by blast
qed

lemma complete_ok:
  assumes "conn_inv c" and "r \<in> dom (reqs c)" and "s \<noteq> UCS_INPROGRESS"
  obtains c' where "common_request_callback r s c = Inr c'" "conn_inv c'" "\<And>t. account t c' = account t c"
    "same_state c c'" "all_requests c' = remove1 r (all_requests c)" "dom (reqs c') = dom (reqs c) - {r}"
proof -
  obtain q where q: "reqs c r = Some q" using assms(2) by blast
  then have st: "r_status q = UCS_INPROGRESS" using assms(1) by (auto simp: conn_inv_def)
  let ?c = "c\<lparr>all_requests := remove1 r (all_requests c), reqs := (reqs c)(r := None),
               events := events c @ (case r_callback q of None \<Rightarrow> [] | Some cb \<Rightarrow> [Called cb s])\<rparr>"
  have un: "\<not> r_conn q \<Longrightarrow> remove1 r (all_requests c) = all_requests c"
    using assms(1) q by (intro remove1_idem) (auto simp: conn_inv_def)
  have "common_request_callback r s c = Inr ?c"
    using q st assms(3) un by (auto simp: common_request_callback_def Let_def request_completed_def
        request_release_def emit_def split: option.split)
  moreover have "conn_inv ?c \<and> account t ?c = account t c \<and> same_state c ?c" for t
    using request_gone [OF assms(1) q refl] by blast
  ultimately show ?thesis using that by auto
qed

lemma cancel_each_ok:
  assumes "conn_inv c" and "distinct rs" and "\<forall>r \<in> set rs. r \<in> dom (reqs c)"
    and "\<forall>r \<in> set rs. sync r \<noteq> Some UCS_INPROGRESS"
  shows "\<exists>c'. cancel_each sync rs c = Inr c' \<and> conn_inv c' \<and> (\<forall>t. account t c' = account t c) \<and> same_state c c' \<and>
    set (all_requests c') = set (all_requests c) - {r \<in> set rs. sync r \<noteq> None} \<and>
    dom (reqs c') = dom (reqs c) - {r \<in> set rs. sync r \<noteq> None}"
  using assms
proof (induction rs arbitrary: c)
  case Nil
  then show ?case by (simp add: same_state_def)
next
  case (Cons r rs)
  let ?e = "emit (CancelRequested r) c"
  have e: "conn_inv ?e" "\<And>t. account t ?e = account t c" "same_state c ?e" "dom (reqs ?e) = dom (reqs c)"
    using Cons.prems(1) by (simp_all add: account_def same_state_def)
  show ?case
  proof (cases "sync r")
    case None
    then have "cancel_one sync r c = Inr ?e" by (simp add: cancel_one_def)
    moreover obtain c' where c': "cancel_each sync rs ?e = Inr c'" "conn_inv c'" "\<forall>t. account t c' = account t ?e"
      "same_state ?e c'" "set (all_requests c') = set (all_requests ?e) - {r \<in> set rs. sync r \<noteq> None}"
      "dom (reqs c') = dom (reqs ?e) - {r \<in> set rs. sync r \<noteq> None}"
      using Cons.IH [OF e(1)] Cons.prems by auto
    moreover have "{x \<in> set (r # rs). sync x \<noteq> None} = {x \<in> set rs. sync x \<noteq> None}" using None by auto
    ultimately show ?thesis using e same_state_trans by auto
  next
    case (Some s)
    then have "s \<noteq> UCS_INPROGRESS" "r \<in> dom (reqs ?e)" using Cons.prems(3,4) e(4) by auto
    then obtain c1 where c1: "common_request_callback r s ?e = Inr c1" "conn_inv c1" "\<And>t. account t c1 = account t ?e"
      "same_state ?e c1" "all_requests c1 = remove1 r (all_requests ?e)" "dom (reqs c1) = dom (reqs ?e) - {r}"
      using complete_ok [OF e(1)] by metis
    have "\<forall>x \<in> set rs. x \<in> dom (reqs c1)" using Cons.prems(2,3) c1(6) e(4) by auto
    then obtain c' where c': "cancel_each sync rs c1 = Inr c'" "conn_inv c'" "\<forall>t. account t c' = account t c1"
      "same_state c1 c'" "set (all_requests c') = set (all_requests c1) - {r \<in> set rs. sync r \<noteq> None}"
      "dom (reqs c') = dom (reqs c1) - {r \<in> set rs. sync r \<noteq> None}"
      using Cons.IH [OF c1(2)] Cons.prems(2,4) by auto
    have one: "cancel_each sync (r # rs) c = Inr c'" using Some c1(1) c'(1) by (simp add: cancel_one_def)
    have set: "{x \<in> set (r # rs). sync x \<noteq> None} = insert r {x \<in> set rs. sync x \<noteq> None}" using Some by auto
    have "set (all_requests c1) = set (all_requests c) - {r}"
      using c1(5) Cons.prems(1) by (simp add: conn_inv_def)
    then have "set (all_requests c') = set (all_requests c) - {x \<in> set (r # rs). sync x \<noteq> None}"
      by (simp only: c'(5) set Diff_insert2 [symmetric])
    moreover have "dom (reqs c') = dom (reqs c) - {x \<in> set (r # rs). sync x \<noteq> None}"
      by (simp only: c'(6) c1(6) e(4) set Diff_insert2 [symmetric])
    moreover have "\<forall>t. account t c' = account t c" using c'(3) c1(3) e(2) by simp
    moreover have "same_state c c'" by (rule same_state_trans [OF same_state_trans [OF e(3) c1(4)] c'(4)])
    ultimately show ?thesis using one c'(2) by blast
  qed
qed

lemma complete_each_ok:
  assumes "conn_inv c" and "distinct (map fst prog)" and "\<forall>(r, s) \<in> set prog. r \<in> dom (reqs c) \<and> s \<noteq> UCS_INPROGRESS"
  shows "\<exists>c'. complete_each prog c = Inr c' \<and> conn_inv c' \<and> (\<forall>t. account t c' = account t c) \<and> same_state c c'"
  using assms
proof (induction prog arbitrary: c)
  case Nil
  then show ?case by (simp add: same_state_def)
next
  case (Cons p prog)
  obtain r s where p: "p = (r, s)" by (cases p)
  then have "r \<in> dom (reqs c)" "s \<noteq> UCS_INPROGRESS" using Cons.prems(3) by auto
  then obtain c1 where c1: "common_request_callback r s c = Inr c1" "conn_inv c1" "\<And>t. account t c1 = account t c"
    "same_state c c1" "dom (reqs c1) = dom (reqs c) - {r}"
    using complete_ok [OF Cons.prems(1)] by metis
  have "\<forall>(x, y) \<in> set prog. x \<in> dom (reqs c1) \<and> y \<noteq> UCS_INPROGRESS"
  proof (clarify)
    fix x y
    assume "(x, y) \<in> set prog"
    moreover from this have "x \<noteq> r" using Cons.prems(2) p by force
    ultimately show "x \<in> dom (reqs c1) \<and> y \<noteq> UCS_INPROGRESS" using Cons.prems(3) c1(5) by auto
  qed
  then obtain c' where "complete_each prog c1 = Inr c'" "conn_inv c'" "\<forall>t. account t c' = account t c1" "same_state c1 c'"
    using Cons.IH [OF c1(2)] Cons.prems(2) by auto
  then show ?case using c1 p same_state_trans by auto
qed

lemma abandon_each_ok:
  assumes "conn_inv c" and "all_requests c = rs"
  shows "\<exists>c'. abandon_each rs c = Inr c' \<and> conn_inv c' \<and> (\<forall>t. account t c' = account t c) \<and> same_state c c' \<and>
    all_requests c' = []"
  using assms
proof (induction rs arbitrary: c)
  case Nil
  then show ?case by (simp add: same_state_def)
next
  case (Cons r rs)
  obtain q where q: "reqs c r = Some q" using Cons.prems by (auto simp: conn_inv_def)
  let ?c = "c\<lparr>all_requests := remove1 r (all_requests c), reqs := (reqs c)(r := Some (q\<lparr>r_callback := None, r_conn := False\<rparr>)),
               events := events c @ (case r_callback q of None \<Rightarrow> [] | Some cb \<Rightarrow> [Called cb UCS_ERR_CANCELED])\<rparr>"
  have step: "abandon_request r c = Inr ?c"
    using q by (simp add: abandon_request_def Let_def request_completed_def emit_def split: option.split)
  have c1: "conn_inv ?c \<and> account t ?c = account t c \<and> same_state c ?c" for t
    using request_gone [OF Cons.prems(1) q refl] by blast
  have "all_requests ?c = rs" using Cons.prems(2) by simp
  then obtain c' where c': "abandon_each rs ?c = Inr c'" "conn_inv c'" "\<forall>t. account t c' = account t ?c" "same_state ?c c'"
    "all_requests c' = []" using Cons.IH [of ?c] c1 by blast
  have "same_state c c'" using same_state_trans [of c ?c c'] c1 c'(4) by blast
  moreover have "abandon_each (r # rs) c = Inr c'" using step c'(1) by simp
  moreover have "\<forall>t. account t c' = account t c" using c'(3) c1 by metis
  ultimately show ?case using c'(2,5) by blast
qed

subsection \<open>Runs of a connection\<close>

datatype conn_op =
    OpSend "nat option" nat post_outcome nat
  | OpSendIov "nat option" nat post_outcome nat
  | OpRecv bool "nat option" nat post_outcome nat
  | OpRecvIov bool "nat option" nat post_outcome nat
  | OpComplete nat ucs_status
  | OpCancelAll "nat \<Rightarrow> ucs_status option"
  | OpCancelSend "nat \<Rightarrow> ucs_status option"
  | OpCancelRecv "nat \<Rightarrow> ucs_status option"
  | OpCancel "nat \<Rightarrow> ucs_status option" nat
  | OpError ucs_status
  | OpDisconnect "nat \<Rightarrow> ucs_status option" close_ptr bool nat
  | OpProgress bool nat

fun conn_do :: "conn_op \<Rightarrow> UcxConnection \<Rightarrow> UcxConnection res" where
  "conn_do (OpSend memh mtype out cb) c = bind_res (send_am_data memh mtype out cb c) (\<lambda>(_, c'). Inr c')"
| "conn_do (OpSendIov memh mtype out cb) c = bind_res (send_am_iov_data memh mtype out cb c) (\<lambda>(_, c'). Inr c')"
| "conn_do (OpRecv rndv memh mtype out cb) c = bind_res (recv_am_data rndv memh mtype out cb c) (\<lambda>(_, c'). Inr c')"
| "conn_do (OpRecvIov rndv memh mtype out cb) c =
     bind_res (recv_am_iov_data rndv memh mtype out cb c) (\<lambda>(_, c'). Inr c')"
| "conn_do (OpComplete r s) c = common_request_callback r s c"
| "conn_do (OpCancelAll sync) c = cancel_all sync c"
| "conn_do (OpCancelSend sync) c = cancel_send sync c"
| "conn_do (OpCancelRecv sync) c = cancel_recv sync c"
| "conn_do (OpCancel sync r) c = cancel_request sync r c"
| "conn_do (OpError s) c = handle_connection_error s c"
| "conn_do (OpDisconnect sync closed pending cb) c = disconnect None None sync closed pending cb c"
| "conn_do (OpProgress pending cb) c = Inr (snd (disconnect_progress pending cb c))"

fun conn_run :: "conn_op list \<Rightarrow> UcxConnection \<Rightarrow> UcxConnection res" where
  "conn_run [] c = Inr c"
| "conn_run (op # ops) c = bind_res (conn_do op c) (conn_run ops)"

text \<open>
  What is relied on: UCX hands out addresses that are not in use, does not complete a request before
  the posting call returns, completes only requests it holds and with a final status, and reports
  errors only with a handler installed; the client receives on an open endpoint and polls
  \<open>disconnect_progress\<close> after \<open>disconnect\<close>.
\<close>

fun post_ok :: "post_outcome \<Rightarrow> UcxConnection \<Rightarrow> bool" where
  "post_ok (PostRequest r) c = (reqs c r = None)"
| "post_ok (PostCompleted r s) c = False"
| "post_ok _ c = True"

definition sync_ok :: "(nat \<Rightarrow> ucs_status option) \<Rightarrow> UcxConnection \<Rightarrow> bool" where
  "sync_ok sync c \<longleftrightarrow> list_all (\<lambda>r. sync r \<noteq> Some UCS_INPROGRESS) (all_requests c)"

fun env_ok :: "conn_op \<Rightarrow> UcxConnection \<Rightarrow> bool" where
  "env_ok (OpSend memh mtype out cb) c = post_ok out c"
| "env_ok (OpSendIov memh mtype out cb) c = post_ok out c"
| "env_ok (OpRecv rndv memh mtype out cb) c = (ep c \<noteq> None \<and> post_ok out c)"
| "env_ok (OpRecvIov rndv memh mtype out cb) c = (ep c \<noteq> None \<and> post_ok out c)"
| "env_ok (OpComplete r s) c = (reqs c r \<noteq> None \<and> s \<noteq> UCS_INPROGRESS)"
| "env_ok (OpCancelAll sync) c = sync_ok sync c"
| "env_ok (OpCancelSend sync) c = sync_ok sync c"
| "env_ok (OpCancelRecv sync) c = sync_ok sync c"
| "env_ok (OpCancel sync r) c = sync_ok sync c"
| "env_ok (OpError s) c = (is_err s \<and> has_err_cb c)"
| "env_ok (OpDisconnect sync closed pending cb) c = sync_ok sync c"
| "env_ok (OpProgress pending cb) c = (ep c = None)"

fun env_run :: "conn_op list \<Rightarrow> UcxConnection \<Rightarrow> bool" where
  "env_run [] c = True"
| "env_run (op # ops) c = (env_ok op c \<and> (case conn_do op c of Inl f \<Rightarrow> True | Inr c' \<Rightarrow> env_run ops c'))"

fun submits :: "nat \<Rightarrow> conn_op \<Rightarrow> nat" where
  "submits t (OpSend memh mtype out cb) = of_bool (cb = t)"
| "submits t (OpSendIov memh mtype out cb) = of_bool (cb = t)"
| "submits t (OpRecv rndv memh mtype out cb) = of_bool (cb = t)"
| "submits t (OpRecvIov rndv memh mtype out cb) = of_bool (cb = t)"
| "submits t _ = 0"

fun closing_token :: "conn_op \<Rightarrow> nat option" where
  "closing_token (OpDisconnect sync closed pending cb) = Some cb"
| "closing_token (OpProgress pending cb) = Some cb"
| "closing_token _ = None"

definition conn_ok :: "UcxConnection \<Rightarrow> bool" where
  "conn_ok c \<longleftrightarrow> conn_inv c \<and> establish_cb c = None \<and> ucx_status c \<noteq> UCS_INPROGRESS \<and>
     (ep c \<noteq> None \<longrightarrow> disconnect_cb c = None \<and> close_request c = CloseNull)"


lemma same_state_ok: "conn_ok c \<Longrightarrow> same_state c c' \<Longrightarrow> conn_inv c' \<Longrightarrow> conn_ok c'"
  by (simp add: conn_ok_def same_state_def)

lemma conn_ok_emit [simp]: "conn_ok (emit e c) = conn_ok c"
  by (simp add: conn_ok_def)

lemma account_emit [simp]:
  "account t (emit e c) = account t c + (case e of Called cb s \<Rightarrow> of_bool (cb = t) | _ \<Rightarrow> 0)"
  by (simp add: account_def split: event.split)

lemma awaited_started:
  assumes "r \<notin> set (all_requests c)"
  shows "awaited t (c\<lparr>all_requests := all_requests c @ [r], reqs := (reqs c)(r \<mapsto> q)\<rparr>) =
    awaited t c + of_bool (r_callback q = Some t)"
  using assms by (simp add: awaited_def callbacks_other fun_upd_same del: fun_upd_apply)

lemma post_ok_emit [simp]: "post_ok out (emit e c) = post_ok out c"
  by (cases out) simp_all

definition counted :: "nat \<Rightarrow> UcxConnection \<Rightarrow> ((ucs_status \<times> nat option) \<times> UcxConnection) res \<Rightarrow> bool" where
  "counted cb c r \<longleftrightarrow> (\<exists>a c'. r = Inr (a, c') \<and> conn_ok c' \<and> (\<forall>t. account t c' = account t c + of_bool (cb = t)))"

lemma process_request_ok:
  assumes "conn_ok c" and "post_ok out c"
  shows "counted cb c (process_request out cb type c)"
proof (cases out)
  case (PostRequest r)
  have inv: "conn_inv c" using assms(1) by (simp add: conn_ok_def)
  have new: "reqs c r = None" using assms(2) PostRequest by simp
  then have r: "r \<notin> set (all_requests c)" using inv by (auto simp: conn_inv_def)
  let ?q = "fresh_request\<lparr>r_callback := Some cb, r_conn := True, r_type := type\<rparr>"
  let ?c = "c\<lparr>all_requests := all_requests c @ [r], reqs := (reqs c)(r \<mapsto> ?q)\<rparr>"
  have "process_request out cb type c = Inr ((UCS_OK, Some r), ?c)"
    by (simp add: PostRequest process_request_def adopt_request_def fresh_request_def request_started_def)
  moreover have "conn_inv ?c" using inv r new by (auto simp: conn_inv_def fresh_request_def)
  then have "conn_ok ?c" using assms(1) by (simp add: conn_ok_def)
  moreover have "account t ?c = account t c + of_bool (cb = t)" for t
    using awaited_started [OF r, of t ?q] by (simp add: account_def)
  ultimately show ?thesis by (auto simp: counted_def)
qed (use assms in \<open>simp_all add: process_request_def counted_def\<close>)

lemma posted_ok:
  assumes "conn_ok c" and "post_ok out c" and "\<And>cb s. e \<noteq> Called cb s"
  shows "counted cb c (process_request out cb type (emit e c))"
proof -
  have "account t (emit e c) = account t c" for t using assms(3) by (simp split: event.split)
  then show ?thesis using process_request_ok [of "emit e c" out cb type] assms(1,2) by (simp add: counted_def)
qed

lemma send_ok:
  assumes "conn_ok c" and "post_ok out c"
  shows "counted cb c (send_am_data memh mtype out cb c)" and "counted cb c (send_am_iov_data memh mtype out cb c)"
  using posted_ok [OF assms] assms(1)
  by (auto simp: send_am_data_def send_am_iov_data_def counted_def [of cb c "Inr r" for r] Let_def split: option.split)

lemma recv_ok:
  assumes "conn_ok c" and "post_ok out c" and "ep c \<noteq> None"
  shows "counted cb c (recv_am_data rndv memh mtype out cb c)" and "counted cb c (recv_am_iov_data rndv memh mtype out cb c)"
  using posted_ok [OF assms(1,2)] assms
  by (auto simp: recv_am_data_def recv_am_iov_data_def counted_def [of cb c "Inr r" for r] Let_def)

lemma counted_bind:
  "counted cb c r \<Longrightarrow> \<exists>c'. bind_res r (\<lambda>(_, c'). Inr c') = Inr c' \<and> conn_ok c' \<and>
     (\<forall>t. account t c' = account t c + of_bool (cb = t))"
  by (auto simp: counted_def)

lemma cancel_all_inv:
  assumes "conn_inv c" and "sync_ok sync c"
  shows "\<exists>c'. cancel_all sync c = Inr c' \<and> conn_inv c' \<and> (\<forall>t. account t c' = account t c) \<and> same_state c c' \<and>
    dom (reqs c') = dom (reqs c) - {r \<in> set (all_requests c). sync r \<noteq> None}"
proof -
  have "distinct (all_requests c)" "\<forall>r \<in> set (all_requests c). r \<in> dom (reqs c)"
    "\<forall>r \<in> set (all_requests c). sync r \<noteq> Some UCS_INPROGRESS"
    using assms by (auto simp: conn_inv_def sync_ok_def list_all_iff)
  then show ?thesis using cancel_each_ok [OF assms(1)] unfolding cancel_all_def by blast
qed

lemma cancel_ok:
  assumes "conn_ok c" and "sync_ok sync c"
  shows "\<exists>c'. cancel_each sync (filter P (all_requests c)) c = Inr c' \<and> conn_ok c' \<and>
    (\<forall>t. account t c' = account t c) \<and> same_state c c'"
proof -
  have inv: "conn_inv c" using assms(1) by (simp add: conn_ok_def)
  have "distinct (filter P (all_requests c))" using inv by (simp add: conn_inv_def)
  moreover have "\<forall>r \<in> set (filter P (all_requests c)). r \<in> dom (reqs c)" using inv by (auto simp: conn_inv_def)
  moreover have "\<forall>r \<in> set (filter P (all_requests c)). sync r \<noteq> Some UCS_INPROGRESS"
    using assms(2) by (auto simp: sync_ok_def list_all_iff)
  ultimately show ?thesis using cancel_each_ok [OF inv] same_state_ok [OF assms(1)] by blast
qed

lemma cancel_all_ok:
  assumes "conn_ok c" and "sync_ok sync c"
  shows "\<exists>c'. cancel_all sync c = Inr c' \<and> conn_ok c' \<and> (\<forall>t. account t c' = account t c) \<and> same_state c c'"
  using cancel_ok [OF assms, of "\<lambda>_. True"] by (simp add: cancel_all_def)

lemma cancel_request_ok:
  assumes "conn_ok c" and "sync_ok sync c"
  shows "\<exists>c'. cancel_request sync r c = Inr c' \<and> conn_ok c' \<and> (\<forall>t. account t c' = account t c)"
proof (cases "r \<in> set (all_requests c)")
  case True
  have inv: "conn_inv c" using assms(1) by (simp add: conn_ok_def)
  have "\<forall>x \<in> set [r]. x \<in> dom (reqs c)" using inv True by (auto simp: conn_inv_def)
  moreover have "\<forall>x \<in> set [r]. sync x \<noteq> Some UCS_INPROGRESS" using assms(2) True by (auto simp: sync_ok_def list_all_iff)
  ultimately obtain c' where "cancel_each sync [r] c = Inr c'" "conn_inv c'" "\<forall>t. account t c' = account t c" "same_state c c'"
    using cancel_each_ok [OF inv, of "[r]" sync] by auto
  moreover have "cancel_each sync [r] c = cancel_one sync r c" by (cases "cancel_one sync r c") simp_all
  ultimately have "cancel_request sync r c = Inr c'" "conn_ok c'" "\<forall>t. account t c' = account t c"
    using True same_state_ok [OF assms(1)] by (simp_all add: cancel_request_def)
  then show ?thesis by blast
qed (use assms in \<open>simp add: cancel_request_def\<close>)

text \<open>Closing an established connection: every request is cancelled and the endpoint is gone.\<close>

lemma disconnect_ok:
  assumes "conn_ok c" and "sync_ok sync c"
  shows "\<exists>c'. disconnect env names sync closed pending cb c = Inr c' \<and> conn_ok c' \<and> ep c' = None \<and>
    (\<forall>t. account t c' = account t c)"
proof (cases "ep c")
  case (Some e)
  have c: "establish_cb c = None" "ucx_status c \<noteq> UCS_INPROGRESS" "disconnect_cb c = None" "close_request c = CloseNull"
    using assms(1) Some by (simp_all add: conn_ok_def)
  let ?s = "if ucx_status c = UCS_OK then UCS_ERR_NOT_CONNECTED else ucx_status c"
  let ?c = "emit (MarkDisconnecting e) ((emit (MarkInactive e) (c\<lparr>disconnect_cb := Some cb\<rparr>))\<lparr>ucx_status := ?s\<rparr>)"
  have err: "is_err ?s" using c(2) by (cases "ucx_status c") auto
  have acc: "account t ?c = account t c" for t by (simp add: account_def calls_def)
  have inv: "conn_inv ?c" using assms(1) by (simp add: conn_ok_def conn_inv_def)
  have "sync_ok sync ?c" using assms(2) by (simp add: sync_ok_def)
  then obtain c' where c': "cancel_all sync ?c = Inr c'" "conn_inv c'" "\<forall>t. account t c' = account t ?c" "same_state ?c c'"
    using cancel_all_inv [OF inv] by blast
  have st: "ep c' = Some e" "close_request c' = CloseNull" "ucx_status c' = ?s" "establish_cb c' = None"
    using c'(4) Some c by (simp_all add: same_state_def)
  let ?d = "emit (EpClosed e) (c'\<lparr>ep := None, close_request := (if closed = ClosePtr \<and> \<not> pending then CloseNull else closed)\<rparr>)"
  have "(if ucx_status c = UCS_OK then Inr ((emit (MarkInactive e) (c\<lparr>disconnect_cb := Some cb\<rparr>))\<lparr>ucx_status := UCS_ERR_NOT_CONNECTED\<rparr>)
         else Inr (emit (MarkInactive e) (c\<lparr>disconnect_cb := Some cb\<rparr>))) =
        (Inr ((emit (MarkInactive e) (c\<lparr>disconnect_cb := Some cb\<rparr>))\<lparr>ucx_status := ?s\<rparr>) :: UcxConnection res)"
    by (simp add: emit_def)
  then have "disconnect env names sync closed pending cb c = Inr (?d\<lparr>ep := None\<rparr>)"
    using Some c err c'(1) st by (simp add: disconnect_def Let_def is_established_def conn_id_def ep_close_def)
  moreover have "conn_ok (?d\<lparr>ep := None\<rparr>)"
    using c'(2) st err c(2) by (auto simp: conn_ok_def conn_inv_def)
  moreover have "account t (?d\<lparr>ep := None\<rparr>) = account t c" for t
    using c'(3) acc by (simp add: account_def emit_def awaited_def)
  ultimately show ?thesis by fastforce
qed (use assms in \<open>simp add: disconnect_def\<close>)

lemma progress_ok:
  assumes "conn_ok c" and "ep c = None"
  shows "conn_ok (snd (disconnect_progress pending cb c)) \<and>
    (t \<noteq> cb \<longrightarrow> account t (snd (disconnect_progress pending cb c)) = account t c)"
  using assms by (auto simp: disconnect_progress_def Let_def invoke_disconnect_cb_def conn_ok_def account_def
      conn_inv_def emit_def awaited_def)

lemma handle_error_ok:
  assumes "conn_ok c" and "is_err s" and "has_err_cb c"
  shows "\<exists>c'. handle_connection_error s c = Inr c' \<and> conn_ok c' \<and> (\<forall>t. account t c' = account t c)"
proof -
  have "conn_ok (c\<lparr>ucx_status := s\<rparr>)" using assms(1,2) by (auto simp: conn_ok_def conn_inv_def)
  moreover have "account t (c\<lparr>ucx_status := s\<rparr>) = account t c" for t by (simp add: account_def)
  ultimately show ?thesis
    using assms(1,3) by (auto simp: handle_connection_error_def Let_def is_established_def conn_ok_def)
qed

lemma conn_do_ok:
  assumes "conn_ok c" and "env_ok op c"
  shows "\<exists>c'. conn_do op c = Inr c' \<and> conn_ok c' \<and>
    (\<forall>t. closing_token op \<noteq> Some t \<longrightarrow> account t c' = account t c + submits t op)"
proof (cases op)
  case (OpSend memh mtype out cb)
  then show ?thesis using counted_bind [OF send_ok(1) [OF assms(1)]] assms(2) by simp
next
  case (OpSendIov memh mtype out cb)
  then show ?thesis using counted_bind [OF send_ok(2) [OF assms(1)]] assms(2) by simp
next
  case (OpRecv rndv memh mtype out cb)
  then show ?thesis using counted_bind [OF recv_ok(1) [OF assms(1)]] assms(2) by simp
next
  case (OpRecvIov rndv memh mtype out cb)
  then show ?thesis using counted_bind [OF recv_ok(2) [OF assms(1)]] assms(2) by simp
next
  case (OpComplete r s)
  then have "conn_inv c" "r \<in> dom (reqs c)" "s \<noteq> UCS_INPROGRESS" using assms by (auto simp: conn_ok_def)
  then obtain c' where "common_request_callback r s c = Inr c'" "conn_inv c'" "\<And>t. account t c' = account t c" "same_state c c'"
    using complete_ok by metis
  then show ?thesis using OpComplete same_state_ok [OF assms(1)] by simp
next
  case (OpCancelAll sync)
  then show ?thesis using cancel_all_ok [OF assms(1)] assms(2) by force
next
  case (OpCancelSend sync)
  then show ?thesis using cancel_ok [OF assms(1)] assms(2) by (force simp: cancel_send_def)
next
  case (OpCancelRecv sync)
  then show ?thesis using cancel_ok [OF assms(1)] assms(2) by (force simp: cancel_recv_def)
next
  case (OpCancel sync r)
  then show ?thesis using cancel_request_ok [OF assms(1)] assms(2) by force
next
  case (OpError s)
  then show ?thesis using handle_error_ok [OF assms(1)] assms(2) by force
next
  case (OpDisconnect sync closed pending cb)
  then show ?thesis using disconnect_ok [OF assms(1)] assms(2) by force
next
  case (OpProgress pending cb)
  then show ?thesis using progress_ok [OF assms(1)] assms(2) by auto
qed

lemma conn_run_ok:
  assumes "conn_ok c" and "env_run ops c"
  shows "\<exists>c'. conn_run ops c = Inr c' \<and> conn_ok c' \<and>
    (\<forall>t. Some t \<notin> closing_token ` set ops \<longrightarrow> account t c' = account t c + sum_list (map (submits t) ops))"
  using assms
proof (induction ops arbitrary: c)
  case (Cons op ops)
  obtain c1 where c1: "conn_do op c = Inr c1" "conn_ok c1"
    "\<forall>t. closing_token op \<noteq> Some t \<longrightarrow> account t c1 = account t c + submits t op"
    using conn_do_ok [OF Cons.prems(1)] Cons.prems(2) by auto
  then obtain c' where "conn_run ops c1 = Inr c'" "conn_ok c'"
    "\<forall>t. Some t \<notin> closing_token ` set ops \<longrightarrow> account t c' = account t c1 + sum_list (map (submits t) ops)"
    using Cons.IH [OF c1(2)] Cons.prems(2) by auto
  then show ?case using c1 by auto
qed simp

subsection \<open>Destruction\<close>

definition destroy_env :: "(nat \<Rightarrow> ucs_status option) \<Rightarrow> (nat \<times> ucs_status) list \<Rightarrow> UcxConnection \<Rightarrow> bool" where
  "destroy_env sync prog c \<longleftrightarrow> sync_ok sync c \<and> distinct (map fst prog) \<and>
     list_all (\<lambda>(r, s). r \<in> set (all_requests c) \<and> sync r = None \<and> s \<noteq> UCS_INPROGRESS) prog"

lemma disconnect_direct_ok:
  assumes "conn_ok c" and "destroy_env sync prog c"
  shows "\<exists>c'. disconnect_direct sync prog closed pending c = Inr c' \<and> ep c' = None \<and> all_requests c' = [] \<and>
    (\<forall>t. calls t (events c') = account t c) \<and>
    close_request c' = (if ep c = None then close_request c
                        else if closed = ClosePtr \<and> \<not> pending then CloseNull else closed)"
proof -
  have inv: "conn_inv c" using assms(1) by (simp add: conn_ok_def)
  have sync: "sync_ok sync c" "distinct (map fst prog)" using assms(2) by (simp_all add: destroy_env_def)
  have rs: "\<forall>r \<in> set (all_requests c). r \<in> dom (reqs c)" using inv by (auto simp: conn_inv_def)
  obtain c1 where c1: "cancel_all sync c = Inr c1" "conn_inv c1" "\<forall>t. account t c1 = account t c" "same_state c c1"
    "dom (reqs c1) = dom (reqs c) - {r \<in> set (all_requests c). sync r \<noteq> None}"
    using cancel_all_inv [OF inv sync(1)] by blast
  have "\<forall>(r, s) \<in> set prog. r \<in> dom (reqs c1) \<and> s \<noteq> UCS_INPROGRESS"
    using assms(2) rs unfolding c1(5) by (fastforce simp: destroy_env_def list_all_iff)
  then obtain c2 where c2: "complete_each prog c1 = Inr c2" "conn_inv c2" "\<forall>t. account t c2 = account t c1" "same_state c1 c2"
    using complete_each_ok [OF c1(2) sync(2)] by blast
  obtain c3 where c3: "abandon_each (all_requests c2) c2 = Inr c3" "\<forall>t. account t c3 = account t c2" "same_state c2 c3"
    "all_requests c3 = []" using abandon_each_ok [OF c2(2) refl] by blast
  have st: "same_state c c3" by (rule same_state_trans [OF same_state_trans [OF c1(4) c2(4)] c3(3)])
  have acc: "calls t (events c3) = account t c" for t
  proof -
    have "awaited t c3 = 0" using c3(4) by (simp add: awaited_def)
    moreover have "account t c3 = account t c" using c3(2) c2(3) c1(3) by simp
    ultimately show ?thesis by (simp add: account_def)
  qed
  have ini: "ep c3 = ep c" "close_request c3 = close_request c" "ep c \<noteq> None \<longrightarrow> close_request c = CloseNull"
    using st assms(1) by (auto simp: same_state_def conn_ok_def)
  show ?thesis
    using c1(1) c2(1) c3(1,4) ini acc by (auto simp: disconnect_direct_def ep_close_def split: option.split)
qed

lemma conn_destroy_ok:
  assumes "conn_ok c" and "destroy_env sync prog c"
  shows "UcxConnection_destroy sync prog closed pending pending' c =
      (if pending' \<and> (if ep c = None then close_request c = ClosePtr else closed = ClosePtr \<and> pending)
       then Inl AssertFailed
       else UcxConnection_destroy sync prog closed pending False c) \<and>
    (\<exists>c'. UcxConnection_destroy sync prog closed pending False c = Inr c' \<and> ep c' = None \<and> all_requests c' = [] \<and>
      (\<forall>t. calls t (events c') = account t c))"
proof -
  obtain c' where "disconnect_direct sync prog closed pending c = Inr c'" "ep c' = None" "all_requests c' = []"
    "\<forall>t. calls t (events c') = account t c"
    "close_request c' = (if ep c = None then close_request c
                        else if closed = ClosePtr \<and> \<not> pending then CloseNull else closed)"
    using disconnect_direct_ok [OF assms] by blast
  then show ?thesis by (simp add: UcxConnection_destroy_def Let_def)
qed

text \<open>A connection as \<open>connect\<close> leaves it when UCX creates the endpoint.\<close>

definition connected :: "int option \<Rightarrow> string list option \<Rightarrow> nat \<Rightarrow> nat \<Rightarrow> UcxConnection" where
  "connected env names e cb =
     (UcxConnection_new True None UCS_OK)\<lparr>ep := Some e, zcopy_thresh := get_zcopy_thresh env,
        rdma_available := is_rdma_transport_available (Some e) names, events := [Called cb UCS_OK]\<rparr>"

lemma connect_common_connected:
  "connect_common env names (Inr e) cb (UcxConnection_new True None m) = Inr (connected env names e cb)"
  by (simp add: connect_common_def connected_def established_def invoke_establish_cb_def is_zcopy_query_def
      UcxConnection_new_def emit_def)

lemma connected_ok: "conn_ok (connected env names e cb)" "account t (connected env names e cb) = of_bool (cb = t)"
  by (simp_all add: connected_def conn_ok_def conn_inv_def UcxConnection_new_def account_def awaited_def)



lemma complete_all_empties:
  assumes "conn_inv c" and "distinct (map fst prog)" and "set (map fst prog) = set (all_requests c)"
    and "\<forall>(r, s) \<in> set prog. s \<noteq> UCS_INPROGRESS"
  shows "\<exists>c'. complete_each prog c = Inr c' \<and> all_requests c' = [] \<and> same_state c c' \<and> (\<forall>t. account t c' = account t c)"
  using assms
proof (induction prog arbitrary: c)
  case Nil
  then show ?case by (simp add: same_state_def)
next
  case (Cons p prog)
  obtain r s where p: "p = (r, s)" by (cases p)
  have r: "r \<in> dom (reqs c)" "s \<noteq> UCS_INPROGRESS" using Cons.prems(1,3,4) p by (auto simp: conn_inv_def)
  then obtain c1 where c1: "common_request_callback r s c = Inr c1" "conn_inv c1" "\<And>t. account t c1 = account t c"
    "same_state c c1" "all_requests c1 = remove1 r (all_requests c)"
    using complete_ok [OF Cons.prems(1)] by metis
  have "set (all_requests c1) = set (all_requests c) - {r}"
    using c1(5) Cons.prems(1) by (simp add: conn_inv_def)
  then have "set (map fst prog) = set (all_requests c1)" using Cons.prems(2,3) p by auto
  then obtain c' where c': "complete_each prog c1 = Inr c'" "all_requests c' = []" "same_state c1 c'"
    "\<forall>t. account t c' = account t c1" using Cons.IH [OF c1(2)] Cons.prems(2,4) by auto
  have "same_state c c'" by (rule same_state_trans [OF c1(4) c'(3)])
  then show ?case using c1(1,3) c' p by simp
qed


text \<open>
  C30. A disconnect finishes. After \<open>disconnect\<close> on an established connection, once UCX has completed
  every request that was still outstanding (with any status, in any order) and the close request, the next
  poll of \<open>disconnect_progress\<close> returns true: its callback has been invoked, every callback that was
  awaited has been invoked, and no endpoint, request or close request is left.
\<close>

theorem disconnect_finishes:
  assumes "conn_ok c" and "sync_ok sync c"
    and "disconnect env names sync closed pending d c = Inr c1"
    and "distinct (map fst prog)" and "set (map fst prog) = set (all_requests c1)"
    and "\<forall>(r, s) \<in> set prog. s \<noteq> UCS_INPROGRESS"
  shows "\<exists>c2 c3. complete_each prog c1 = Inr c2 \<and> disconnect_progress False cb c2 = (True, c3) \<and>
    ep c3 = None \<and> all_requests c3 = [] \<and> close_request c3 \<noteq> ClosePtr \<and> \<not> is_disconnecting c3 \<and>
    (\<forall>t. calls t (events c3) = account t c + of_bool (t = cb))"
proof -
  have c1: "conn_ok c1" "ep c1 = None" "\<forall>t. account t c1 = account t c"
    using disconnect_ok [OF assms(1,2), of env names closed pending d] assms(3) by auto
  then have "conn_inv c1" by (simp add: conn_ok_def)
  from complete_all_empties [OF this assms(4,5,6)]
  obtain c2 where c2: "complete_each prog c1 = Inr c2" "all_requests c2 = []" "same_state c1 c2"
    "\<forall>t. account t c2 = account t c1" by blast
  have "ep c2 = None" using c1(2) c2(3) by (simp add: same_state_def)
  moreover have "calls t (events c2) = account t c" for t
    using c2(2,4) c1(3) by (simp add: account_def awaited_def)
  ultimately show ?thesis using c2(1,2)
    by (auto simp: disconnect_progress_def Let_def invoke_disconnect_cb_def is_disconnecting_def emit_def)
qed

theorem disconnect_finishes_witness:
  "\<exists>c1 c2 c3. disconnect None None (\<lambda>r. None) ClosePtr True 5 (connected None None 100 0) = Inr c1 \<and>
    complete_each [] c1 = Inr c2 \<and> disconnect_progress False 6 c2 = (True, c3) \<and> calls 6 (events c3) = 1"
proof -
  obtain c1 where c1: "disconnect None None (\<lambda>r. None) ClosePtr True 5 (connected None None 100 0) = Inr c1" "all_requests c1 = []"
    by (simp add: disconnect_def connected_def UcxConnection_new_def Let_def is_established_def cancel_all_def ep_close_def emit_def)
  have "sync_ok (\<lambda>r. None) (connected None None 100 0)" by (simp add: sync_ok_def list_all_iff)
  from disconnect_finishes [OF connected_ok(1) this c1(1), of "[]" 6] c1 show ?thesis
    using connected_ok(2) [of 6 None None 100 0] by auto
qed

text \<open>
  The callback given to \<open>disconnect\<close> is never invoked: \<open>disconnect_progress\<close>, the only operation that
  completes a disconnect, overwrites it with its own callback first. Whatever runs on the connection
  afterwards (completions, polls, cancellations, sends), the callback has not been called, unless it is
  also given to another operation.
\<close>

theorem disconnect_callback_never_invoked:
  assumes "conn_ok c" and "sync_ok sync c" and "account d c = 0"
    and "disconnect env names sync closed pending d c = Inr c1"
    and "env_run ops c1" and "Some d \<notin> closing_token ` set ops" and "sum_list (map (submits d) ops) = 0"
  shows "\<exists>c2. conn_run ops c1 = Inr c2 \<and> calls d (events c2) = 0"
proof -
  have "conn_ok c1" "account d c1 = 0"
    using disconnect_ok [OF assms(1,2), of env names closed pending d] assms(3,4) by auto
  then obtain c2 where "conn_run ops c1 = Inr c2" "account d c2 = 0"
    using conn_run_ok [OF _ assms(5)] assms(6,7) by auto
  then show ?thesis by (simp add: account_def)
qed

theorem disconnect_callback_never_invoked_witness:
  "\<exists>c1 c2. disconnect None None (\<lambda>r. None) CloseNull True 5 (connected None None 100 0) = Inr c1 \<and>
    conn_run [OpProgress False 6, OpProgress False 6] c1 = Inr c2 \<and> calls 5 (events c2) = 0"
proof -
  obtain c1 where c1: "disconnect None None (\<lambda>r. None) CloseNull True 5 (connected None None 100 0) = Inr c1"
      "env_run [OpProgress False 6, OpProgress False 6] c1"
    by (simp add: disconnect_def connected_def UcxConnection_new_def Let_def is_established_def cancel_all_def ep_close_def
        emit_def disconnect_progress_def invoke_disconnect_cb_def)
  have "sync_ok (\<lambda>r. None) (connected None None 100 0)" by (simp add: sync_ok_def list_all_iff)
  from disconnect_callback_never_invoked [OF connected_ok(1) this _ c1] c1(1) show ?thesis
    using connected_ok(2) [of 5 None None 100 0] by auto
qed

text \<open>
  A receive whose completion runs before the posting call returns: \<open>recv_am_data\<close> sets
  \<open>UCP_OP_ATTR_FLAG_NO_IMM_CMPL\<close>, so UCX returns the request even when it has already completed and has
  called the completion callback, which releases it; \<open>process_request\<close> then reads the released request.
\<close>

theorem early_completion_reads_released_request:
  assumes "ep c \<noteq> None" and "s \<noteq> UCS_INPROGRESS"
  shows "UCP_OP_ATTR_FLAG_NO_IMM_CMPL \<in> set (op_attr_mask (set_datatype DtContig (init_am_recv_params mtype memh))) \<and>
    recv_am_data True memh mtype (PostCompleted r s) cb c = Inl UseAfterFree"
  using assms
  by (simp add: recv_am_data_def Let_def process_request_def common_request_callback_def fresh_request_def
      request_release_def adopt_request_def set_datatype_def init_am_recv_params_def emit_def)

theorem early_completion_reads_released_request_witness:
  "recv_am_data True None 0 (PostCompleted 7 UCS_OK) 1 (connected None None 100 0) = Inl UseAfterFree"
  using early_completion_reads_released_request [of "connected None None 100 0" UCS_OK 0 None 7 1]
  by (simp add: connected_def)

text \<open>
  Destroying a connection. The destructor succeeds, leaving no endpoint and no request, exactly unless a
  close request is still in progress when it asks for it; then its own assertion fails.
\<close>

theorem destroy_fails_on_pending_close:
  assumes "conn_ok c" and "destroy_env sync prog c"
  shows "UcxConnection_destroy sync prog closed pending pending' c = Inl AssertFailed \<longleftrightarrow>
    pending' \<and> (if ep c = None then close_request c = ClosePtr else closed = ClosePtr \<and> pending)"
  using conn_destroy_ok [OF assms, of closed pending pending'] by auto

theorem destroy_fails_on_pending_close_witness:
  "UcxConnection_destroy (\<lambda>r. None) [] ClosePtr True True (connected None None 100 0) = Inl AssertFailed"
  using destroy_fails_on_pending_close [OF connected_ok(1), of "\<lambda>r. None" "[]" None None 100 0 ClosePtr True True]
  by (simp add: destroy_env_def sync_ok_def list_all_iff connected_def)

subsection \<open>Errors and transport selection\<close>

text \<open>An endpoint error is reported once; a second error and an error during a disconnect change nothing.\<close>

lemma handle_connection_error_once:
  assumes "is_err s" and "handle_connection_error s c = Inr c1"
  shows "handle_connection_error s' c1 = Inr c1"
  using assms by (auto simp: handle_connection_error_def Let_def invoke_establish_cb_def split: if_splits option.splits)

text \<open>Connecting: the establish callback is invoked exactly once, with the status of \<open>ucp_ep_create\<close>.\<close>

lemma connect_common_establishes_once:
  assumes "created = Inl s \<longrightarrow> is_err s"
  shows "\<exists>c. connect_common env names created cb (UcxConnection_new True None m) = Inr c \<and> is_established c \<and>
    events c = [Called cb (case created of Inl s \<Rightarrow> s | Inr e \<Rightarrow> UCS_OK)] \<and>
    ucx_status c = (case created of Inl s \<Rightarrow> s | Inr e \<Rightarrow> UCS_OK)"
  using assms
  by (auto simp: connect_common_def established_def invoke_establish_cb_def is_zcopy_query_def UcxConnection_new_def
      emit_def handle_connection_error_def is_established_def is_disconnecting_def Let_def split: sum.split)

lemma get_zcopy_thresh_pos: "0 < get_zcopy_thresh env"
  by (simp add: get_zcopy_thresh_def DEFAULT_ZCOPY_THRESH_def split: option.split)

text \<open>The search is by substring: the CUDA copy transport contains the name of the unreliable-datagram transport.\<close>

lemma rdma_substring_match: "is_rdma_transport_available (Some e) (Some [''cuda_copy''])"
  by (simp add: is_rdma_transport_available_def rdma_transports_def) (code_simp)

lemma sockaddr_str_ipv6: "sockaddr_str AF_INET6 addr port = ''<unknown address family>''"
  by (simp add: sockaddr_str_def)

end
