(* ===== verification/Connection_Manager.thy ===== *)
theory Connection_Manager
  imports Lock_Free_Queue Ucx_Connection "HOL-Library.Multiset"
begin

text \<open>
  \<open>ucx_context/ucx_connection_manager.cpp\<close>: the table of connections. Connections are owned by the
  vector \<open>connections_\<close> (by slot), by the failed and disconnecting lists, or they have been destroyed; two
  ordered maps give the slot of an active or inactive connection id, and free slots are recycled through
  a \<open>LockFreeQueue\<close>. The manager is generic in the connection type \<open>'c\<close>: it looks at a connection
  only through \<open>id\<close>, \<open>disconnect_progress\<close> and the destructor, which is recorded in \<open>released\<close>.
\<close>

subsection \<open>Data\<close>

record 'c ConnectionManager =
  connections :: "'c option list"
  failedConns :: "'c option list"
  disconnectingConns :: "'c option list"
  active_map :: "(nat \<times> nat) list"
  inactive_map :: "(nat \<times> nat) list"
  freeSlots :: "nat LockFreeQueue"
  released :: "'c list"

definition ConnectionManager_new :: "'c ConnectionManager" where
  "ConnectionManager_new =
     \<lparr>connections = [], failedConns = [], disconnectingConns = [], active_map = [], inactive_map = [],
      freeSlots = LockFreeQueue_new 0, released = []\<rparr>"

text \<open>\<open>std::map\<close> as an association list in key order: \<open>m[k] = v\<close> and \<open>erase\<close>.\<close>

fun map_assign :: "nat \<Rightarrow> nat \<Rightarrow> (nat \<times> nat) list \<Rightarrow> (nat \<times> nat) list" where
  "map_assign k v [] = [(k, v)]"
| "map_assign k v ((k', v') # m) =
     (if k < k' then (k, v) # (k', v') # m else if k = k' then (k, v) # m else (k', v') # map_assign k v m)"

definition map_erase :: "nat \<Rightarrow> (nat \<times> nat) list \<Rightarrow> (nat \<times> nat) list" where
  "map_erase k m = filter (\<lambda>e. fst e \<noteq> k) m"

datatype conn_source = ActiveMap | InactiveMap
datatype conn_target = FailedQueue | DisconnectingQueue

fun source_map :: "conn_source \<Rightarrow> 'c ConnectionManager \<Rightarrow> (nat \<times> nat) list" where
  "source_map ActiveMap cm = active_map cm"
| "source_map InactiveMap cm = inactive_map cm"

fun erase_source :: "conn_source \<Rightarrow> nat \<Rightarrow> 'c ConnectionManager \<Rightarrow> 'c ConnectionManager" where
  "erase_source ActiveMap k cm = cm\<lparr>active_map := map_erase k (active_map cm)\<rparr>"
| "erase_source InactiveMap k cm = cm\<lparr>inactive_map := map_erase k (inactive_map cm)\<rparr>"

fun push_target :: "conn_target \<Rightarrow> 'c option \<Rightarrow> 'c ConnectionManager \<Rightarrow> 'c ConnectionManager" where
  "push_target FailedQueue p cm = cm\<lparr>failedConns := failedConns cm @ [p]\<rparr>"
| "push_target DisconnectingQueue p cm = cm\<lparr>disconnectingConns := disconnectingConns cm @ [p]\<rparr>"

subsection \<open>Operations\<close>

definition find_connection_in_map :: "nat \<Rightarrow> (nat \<times> nat) list \<Rightarrow> nat option" where
  "find_connection_in_map cid m = map_of m cid"

text \<open>\<open>*connections_[slot]\<close>.\<close>

definition deref_slot :: "nat \<Rightarrow> 'c ConnectionManager \<Rightarrow> 'c res" where
  "deref_slot slot cm =
     (if slot < length (connections cm)
      then case connections cm ! slot of None \<Rightarrow> Inl NullDeref | Some c \<Rightarrow> Inr c
      else Inl OutOfBounds)"

text \<open>\<open>freeSlots_.push(slot)\<close>; a failed attempt inside the queue is retried there and changes nothing.\<close>

definition free_slot :: "nat \<Rightarrow> 'c ConnectionManager \<Rightarrow> 'c ConnectionManager res" where
  "free_slot slot cm = bind_res (LockFreeQueue_push [] slot (freeSlots cm)) (\<lambda>q. Inr (cm\<lparr>freeSlots := q\<rparr>))"

definition remove_connection_to_container ::
  "nat \<Rightarrow> conn_target \<Rightarrow> conn_source \<Rightarrow> 'c ConnectionManager \<Rightarrow> 'c ConnectionManager res" where
  "remove_connection_to_container cid target source cm =
     (case find_connection_in_map cid (source_map source cm) of
        None \<Rightarrow> Inr cm
      | Some slot \<Rightarrow>
          bind_res (deref_slot slot cm) (\<lambda>c.
            let cm1 = push_target target (Some c) (cm\<lparr>connections := (connections cm)[slot := None]\<rparr>)
            in free_slot slot (erase_source source cid cm1)))"

definition olist :: "'c option \<Rightarrow> 'c list" where
  "olist p = (case p of None \<Rightarrow> [] | Some c \<Rightarrow> [c])"

definition add_connection :: "nat \<Rightarrow> 'c \<Rightarrow> 'c ConnectionManager \<Rightarrow> (nat \<times> 'c ConnectionManager) res" where
  "add_connection cid conn cm =
     bind_res (LockFreeQueue_pop [] (freeSlots cm)) (\<lambda>(free, q).
       let cm1 = cm\<lparr>freeSlots := q\<rparr> in
       bind_res
         (case free of
            None \<Rightarrow> Inr (length (connections cm1), cm1\<lparr>connections := connections cm1 @ [Some conn]\<rparr>)
          | Some slot \<Rightarrow>
              if slot < length (connections cm1)
              then Inr (slot, cm1\<lparr>connections := (connections cm1)[slot := Some conn],
                                  released := released cm1 @ olist (connections cm1 ! slot)\<rparr>)
              else Inl OutOfBounds)
         (\<lambda>(slot, cm2). Inr (cid, cm2\<lparr>active_map := map_assign cid slot (active_map cm2)\<rparr>)))"

definition remove_connection :: "nat \<Rightarrow> 'c ConnectionManager \<Rightarrow> 'c ConnectionManager res" where
  "remove_connection cid cm =
     (case find_connection_in_map cid (active_map cm) of
        None \<Rightarrow> Inr cm
      | Some slot \<Rightarrow>
          bind_res (deref_slot slot cm) (\<lambda>c.
            let cm1 = cm\<lparr>active_map := map_erase cid (active_map cm)\<rparr>;
                cm2 = cm1\<lparr>connections := (connections cm1)[slot := None], released := released cm1 @ [c]\<rparr>
            in free_slot slot cm2))"

definition remove_connection_to_inactive_map :: "nat \<Rightarrow> 'c ConnectionManager \<Rightarrow> 'c ConnectionManager res" where
  "remove_connection_to_inactive_map cid cm =
     (case find_connection_in_map cid (active_map cm) of
        None \<Rightarrow> Inr cm
      | Some slot \<Rightarrow>
          bind_res (deref_slot slot cm) (\<lambda>c.
            Inr (cm\<lparr>active_map := map_erase cid (active_map cm),
                    inactive_map := map_assign cid slot (inactive_map cm)\<rparr>)))"

definition move_connection_from_inactive_to_failed_queue :: "nat \<Rightarrow> 'c ConnectionManager \<Rightarrow> 'c ConnectionManager res" where
  "move_connection_from_inactive_to_failed_queue cid =
     remove_connection_to_container cid FailedQueue InactiveMap"

definition move_connection_from_inactive_to_disconnecting_queue ::
  "nat \<Rightarrow> 'c ConnectionManager \<Rightarrow> 'c ConnectionManager res" where
  "move_connection_from_inactive_to_disconnecting_queue cid =
     remove_connection_to_container cid DisconnectingQueue InactiveMap"

definition remove_connection_to_failed_queue :: "nat \<Rightarrow> 'c ConnectionManager \<Rightarrow> 'c ConnectionManager res" where
  "remove_connection_to_failed_queue cid = remove_connection_to_container cid FailedQueue ActiveMap"

definition remove_connection_to_disconnecting_queue :: "nat \<Rightarrow> 'c ConnectionManager \<Rightarrow> 'c ConnectionManager res" where
  "remove_connection_to_disconnecting_queue cid = remove_connection_to_container cid DisconnectingQueue ActiveMap"

definition is_connection_valid :: "nat \<Rightarrow> 'c ConnectionManager \<Rightarrow> bool" where
  "is_connection_valid cid cm \<longleftrightarrow> map_of (active_map cm) cid \<noteq> None"

fun find_id :: "('c \<Rightarrow> nat) \<Rightarrow> nat \<Rightarrow> 'c option list \<Rightarrow> bool res" where
  "find_id ident cid [] = Inr False"
| "find_id ident cid (None # ps) = Inl NullDeref"
| "find_id ident cid (Some c # ps) = (if ident c = cid then Inr True else find_id ident cid ps)"

definition is_in_disconnecting :: "('c \<Rightarrow> nat) \<Rightarrow> nat \<Rightarrow> 'c ConnectionManager \<Rightarrow> bool res" where
  "is_in_disconnecting ident cid cm = find_id ident cid (disconnectingConns cm)"

definition get_connection :: "nat \<Rightarrow> 'c ConnectionManager \<Rightarrow> 'c option res" where
  "get_connection cid cm =
     (case map_of (active_map cm) cid of
        None \<Rightarrow> Inr None
      | Some slot \<Rightarrow> bind_res (deref_slot slot cm) (\<lambda>c. Inr (Some c)))"

definition get_connection_by_slot :: "nat \<Rightarrow> 'c ConnectionManager \<Rightarrow> 'c option res" where
  "get_connection_by_slot slot cm =
     (if length (connections cm) \<le> slot then Inr None
      else bind_res (deref_slot slot cm) (\<lambda>c. Inr (Some c)))"

text \<open>The loop erases the entries of the active map in order; the entry at hand is the head of the list.\<close>

fun move_active :: "(nat \<times> nat) list \<Rightarrow> 'c ConnectionManager \<Rightarrow> 'c ConnectionManager res" where
  "move_active [] cm = Inr cm"
| "move_active ((k, slot) # es) cm =
     bind_res (deref_slot slot cm) (\<lambda>c.
       move_active es
         (cm\<lparr>disconnectingConns := disconnectingConns cm @ [Some c], connections := (connections cm)[slot := None],
             active_map := map_erase k (active_map cm)\<rparr>))"

definition remove_active_connections_to_disconnecting_queue :: "'c ConnectionManager \<Rightarrow> 'c ConnectionManager res" where
  "remove_active_connections_to_disconnecting_queue cm = move_active (active_map cm) cm"

text \<open>\<open>disconnect_progress\<close> on each element, by its position: the finished ones are erased and destroyed.\<close>

fun reap :: "(nat \<Rightarrow> 'c \<Rightarrow> bool \<times> 'c) \<Rightarrow> nat \<Rightarrow> 'c option list \<Rightarrow> ('c option list \<times> 'c list) res" where
  "reap poll i [] = Inr ([], [])"
| "reap poll i (None # ps) = Inl NullDeref"
| "reap poll i (Some c # ps) =
     (case poll i c of (finished, c') \<Rightarrow>
        bind_res (reap poll (Suc i) ps) (\<lambda>(keep, gone).
          Inr (if finished then (keep, c' # gone) else (Some c' # keep, gone))))"

definition remove_failed_connections ::
  "(nat \<Rightarrow> 'c \<Rightarrow> bool \<times> 'c) \<Rightarrow> 'c ConnectionManager \<Rightarrow> 'c ConnectionManager res" where
  "remove_failed_connections poll cm =
     bind_res (reap poll 0 (failedConns cm)) (\<lambda>(keep, gone).
       Inr (cm\<lparr>failedConns := keep, released := released cm @ gone\<rparr>))"

definition add_connection_to_disconnecting_queue :: "'c \<Rightarrow> 'c ConnectionManager \<Rightarrow> 'c ConnectionManager" where
  "add_connection_to_disconnecting_queue conn cm = cm\<lparr>disconnectingConns := disconnectingConns cm @ [Some conn]\<rparr>"

definition remove_disconnected_connections ::
  "(nat \<Rightarrow> 'c \<Rightarrow> bool \<times> 'c) \<Rightarrow> 'c ConnectionManager \<Rightarrow> 'c ConnectionManager res" where
  "remove_disconnected_connections poll cm =
     bind_res (reap poll 0 (disconnectingConns cm)) (\<lambda>(keep, gone).
       Inr (cm\<lparr>disconnectingConns := keep, released := released cm @ gone\<rparr>))"

primrec somes :: "'c option list \<Rightarrow> 'c list" where
  "somes [] = []"
| "somes (p # ps) = olist p @ somes ps"

definition ConnectionManager_clear :: "'c ConnectionManager \<Rightarrow> 'c ConnectionManager" where
  "ConnectionManager_clear cm =
     cm\<lparr>active_map := [], inactive_map := [], failedConns := [], disconnectingConns := [], connections := [],
        released := released cm @ somes (failedConns cm) @ somes (disconnectingConns cm) @ somes (connections cm)\<rparr>"


subsection \<open>Runs\<close>

datatype 'c cm_op =
    CmAdd nat 'c
  | CmRemove nat
  | CmToInactive nat
  | CmInactiveToFailed nat
  | CmInactiveToDisconnecting nat
  | CmToFailed nat
  | CmToDisconnecting nat
  | CmAllToDisconnecting
  | CmReapFailed
  | CmReapDisconnected
  | CmAddDisconnecting 'c

fun cm_do :: "(nat \<Rightarrow> 'c \<Rightarrow> bool \<times> 'c) \<Rightarrow> 'c cm_op \<Rightarrow> 'c ConnectionManager \<Rightarrow> 'c ConnectionManager res" where
  "cm_do poll (CmAdd k c) cm = bind_res (add_connection k c cm) (\<lambda>(_, cm'). Inr cm')"
| "cm_do poll (CmRemove k) cm = remove_connection k cm"
| "cm_do poll (CmToInactive k) cm = remove_connection_to_inactive_map k cm"
| "cm_do poll (CmInactiveToFailed k) cm = move_connection_from_inactive_to_failed_queue k cm"
| "cm_do poll (CmInactiveToDisconnecting k) cm = move_connection_from_inactive_to_disconnecting_queue k cm"
| "cm_do poll (CmToFailed k) cm = remove_connection_to_failed_queue k cm"
| "cm_do poll (CmToDisconnecting k) cm = remove_connection_to_disconnecting_queue k cm"
| "cm_do poll CmAllToDisconnecting cm = remove_active_connections_to_disconnecting_queue cm"
| "cm_do poll CmReapFailed cm = remove_failed_connections poll cm"
| "cm_do poll CmReapDisconnected cm = remove_disconnected_connections poll cm"
| "cm_do poll (CmAddDisconnecting c) cm = Inr (add_connection_to_disconnecting_queue c cm)"

fun cm_run :: "(nat \<Rightarrow> 'c \<Rightarrow> bool \<times> 'c) \<Rightarrow> 'c cm_op list \<Rightarrow> 'c ConnectionManager \<Rightarrow> 'c ConnectionManager res" where
  "cm_run poll [] cm = Inr cm"
| "cm_run poll (op # ops) cm = bind_res (cm_do poll op cm) (cm_run poll ops)"

text \<open>Connection ids are endpoint addresses: an id that is added is not in use.\<close>

fun cm_env :: "'c cm_op \<Rightarrow> 'c ConnectionManager \<Rightarrow> bool" where
  "cm_env (CmAdd k c) cm = (map_of (active_map cm @ inactive_map cm) k = None)"
| "cm_env _ cm = True"

fun cm_env_run :: "(nat \<Rightarrow> 'c \<Rightarrow> bool \<times> 'c) \<Rightarrow> 'c cm_op list \<Rightarrow> 'c ConnectionManager \<Rightarrow> bool" where
  "cm_env_run poll [] cm = True"
| "cm_env_run poll (op # ops) cm =
     (cm_env op cm \<and> (case cm_do poll op cm of Inl f \<Rightarrow> True | Inr cm' \<Rightarrow> cm_env_run poll ops cm'))"

fun added :: "'c cm_op \<Rightarrow> 'c list" where
  "added (CmAdd k c) = [c]"
| "added (CmAddDisconnecting c) = [c]"
| "added _ = []"

subsection \<open>Invariant\<close>

definition entries :: "'c ConnectionManager \<Rightarrow> (nat \<times> nat) list" where
  "entries cm = active_map cm @ inactive_map cm"

definition slots_ok :: "'c option list \<Rightarrow> (nat \<times> nat) list \<Rightarrow> nat list \<Rightarrow> bool" where
  "slots_ok conns es free \<longleftrightarrow> distinct (map fst es) \<and> distinct (map snd es @ free) \<and>
     set (map snd es @ free) \<subseteq> {..<length conns} \<and>
     (\<forall>i < length conns. conns ! i \<noteq> None \<longleftrightarrow> i \<in> snd ` set es)"

definition cm_inv :: "'c ConnectionManager \<Rightarrow> bool" where
  "cm_inv cm \<longleftrightarrow> LockFreeQueue_inv (freeSlots cm) \<and>
     slots_ok (connections cm) (entries cm) (LockFreeQueue_contents (freeSlots cm)) \<and>
     None \<notin> set (failedConns cm) \<and> None \<notin> set (disconnectingConns cm)"

text \<open>All connections the manager has, wherever they are, with the destroyed ones.\<close>

definition holdings :: "'c ConnectionManager \<Rightarrow> 'c list" where
  "holdings cm = somes (connections cm) @ somes (failedConns cm) @ somes (disconnectingConns cm) @ released cm"

lemma somes_append [simp]: "somes (ps @ qs) = somes ps @ somes qs"
  by (induction ps) simp_all

lemma olist_simps [simp]: "olist None = []" "olist (Some c) = [c]"
  by (simp_all add: olist_def)

lemma somes_update:
  "i < length ps \<Longrightarrow> mset (somes (ps[i := p])) + mset (olist (ps ! i)) = mset (somes ps) + mset (olist p)"
  by (induction ps arbitrary: i) (auto split: nat.split simp: ac_simps)

lemma map_assign_mset: "k \<notin> fst ` set m \<Longrightarrow> mset (map_assign k v m) = add_mset (k, v) (mset m)"
  by (induction k v m rule: map_assign.induct) auto

lemma map_of_map_assign [simp]: "map_of (map_assign k v m) = (map_of m)(k \<mapsto> v)"
  by (induction k v m rule: map_assign.induct) (auto simp: fun_eq_iff)

lemma map_of_map_erase [simp]: "map_of (map_erase k m) = (map_of m)(k := None)"
  by (induction m) (auto simp: map_erase_def fun_eq_iff)

lemma map_erase_fresh: "k \<notin> fst ` set m \<Longrightarrow> map_erase k m = m"
  by (auto simp: map_erase_def filter_id_conv)

lemma map_erase_mset:
  assumes "distinct (map fst m)" and "map_of m k = Some v"
  shows "mset m = add_mset (k, v) (mset (map_erase k m))"
  using assms
proof (induction m)
  case (Cons e m)
  show ?case
  proof (cases "fst e = k")
    case True
    then show ?thesis using Cons.prems map_erase_fresh [of k m] by (cases e) (auto simp: map_erase_def)
  next
    case False
    then show ?thesis using Cons by (cases e) (auto simp: map_erase_def)
  qed
qed simp

lemma slots_ok_perm: "mset es = mset es' \<Longrightarrow> slots_ok conns es free = slots_ok conns es' free"
proof -
  assume m: "mset es = mset es'"
  have "mset (map fst es) = mset (map fst es')" "mset (map snd es @ free) = mset (map snd es' @ free)"
    using m by (metis mset_map, metis mset_append mset_map)
  then show ?thesis
    using mset_eq_imp_distinct_iff mset_eq_setD [OF m] mset_eq_setD unfolding slots_ok_def by (smt (verit))
qed

lemma slots_ok_take:
  assumes "slots_ok conns es free" and "mset es = add_mset (k, s) (mset es')"
  shows "s < length conns" and "conns ! s \<noteq> None" and "slots_ok (conns[s := None]) es' free"
    and "slots_ok (conns[s := None]) es' (free @ [s])"
proof -
  have ok: "slots_ok conns ((k, s) # es') free" using assms slots_ok_perm [of es "(k, s) # es'" conns free] by simp
  then show "s < length conns" "conns ! s \<noteq> None" by (auto simp: slots_ok_def)
  show "slots_ok (conns[s := None]) es' free" "slots_ok (conns[s := None]) es' (free @ [s])"
    using ok by (auto simp: slots_ok_def nth_list_update)
qed

lemma slots_ok_reuse:
  assumes "slots_ok conns es (s # free)" and "k \<notin> fst ` set es"
  shows "s < length conns" and "conns ! s = None" and "slots_ok (conns[s := Some c]) ((k, s) # es) free"
  using assms by (auto simp: slots_ok_def nth_list_update)

lemma slots_ok_append:
  assumes "slots_ok conns es free" and "k \<notin> fst ` set es"
  shows "slots_ok (conns @ [Some c]) ((k, length conns) # es) free"
  using assms by (auto simp: slots_ok_def nth_append less_Suc_eq)


lemma slots_ok_entry: "slots_ok conns es free \<Longrightarrow> map_of es k = Some s \<Longrightarrow> s < length conns \<and> conns ! s \<noteq> None"
  by (force simp: slots_ok_def dest: map_of_SomeD)

subsection \<open>Each operation keeps the invariant and every connection\<close>

definition keeps :: "'c list \<Rightarrow> 'c ConnectionManager \<Rightarrow> 'c ConnectionManager res \<Rightarrow> bool" where
  "keeps new cm r \<longleftrightarrow> (\<exists>cm'. r = Inr cm' \<and> cm_inv cm' \<and> mset (holdings cm') = mset (holdings cm) + mset new)"

lemma free_slot_ok:
  assumes "LockFreeQueue_inv (freeSlots cm)"
  shows "\<exists>q. free_slot s cm = Inr (cm\<lparr>freeSlots := q\<rparr>) \<and> LockFreeQueue_inv q \<and>
    LockFreeQueue_contents q = LockFreeQueue_contents (freeSlots cm) @ [s]"
  using lfq.enq_law [OF assms, of "[]" s] by (auto simp: free_slot_def)

lemma source_entries:
  assumes "cm_inv cm" and "map_of (source_map source cm) k = Some s"
  shows "mset (entries cm) = add_mset (k, s) (mset (entries (erase_source source k cm)))"
proof -
  have d: "distinct (map fst (active_map cm))" "distinct (map fst (inactive_map cm))"
    using assms(1) by (simp_all add: cm_inv_def slots_ok_def entries_def)
  show ?thesis
    using assms(2) map_erase_mset [OF d(1), of k s] map_erase_mset [OF d(2), of k s]
    by (cases source) (simp_all add: entries_def)
qed

lemma container_ok:
  assumes "cm_inv cm"
  shows "keeps [] cm (remove_connection_to_container k target source cm)"
proof (cases "map_of (source_map source cm) k")
  case None
  then show ?thesis using assms by (simp add: remove_connection_to_container_def find_connection_in_map_def keeps_def)
next
  case (Some s)
  let ?f = "LockFreeQueue_contents (freeSlots cm)"
  have es: "mset (entries cm) = add_mset (k, s) (mset (entries (erase_source source k cm)))"
    by (rule source_entries [OF assms Some])
  have ok: "slots_ok (connections cm) (entries cm) ?f" using assms by (simp add: cm_inv_def)
  note take = slots_ok_take [OF ok es]
  obtain c where c: "connections cm ! s = Some c" using take(2) by auto
  let ?m = "erase_source source k (push_target target (Some c) (cm\<lparr>connections := (connections cm)[s := None]\<rparr>))"
  have "LockFreeQueue_inv (freeSlots ?m)" "LockFreeQueue_contents (freeSlots ?m) = ?f"
    using assms by (cases source; cases target; simp add: cm_inv_def)+
  then obtain q where q: "free_slot s ?m = Inr (?m\<lparr>freeSlots := q\<rparr>)" "LockFreeQueue_inv q"
    "LockFreeQueue_contents q = ?f @ [s]" using free_slot_ok [of ?m s] by auto
  have "remove_connection_to_container k target source cm = Inr (?m\<lparr>freeSlots := q\<rparr>)"
    using Some take(1) c q(1) by (simp add: remove_connection_to_container_def find_connection_in_map_def deref_slot_def Let_def)
  moreover have "entries (?m\<lparr>freeSlots := q\<rparr>) = entries (erase_source source k cm)"
    "connections (?m\<lparr>freeSlots := q\<rparr>) = (connections cm)[s := None]"
    by (cases source; cases target; simp add: entries_def)+
  then have "cm_inv (?m\<lparr>freeSlots := q\<rparr>)"
    using assms take(4) q(2,3) by (cases source; cases target; simp add: cm_inv_def)
  moreover have "mset (holdings (?m\<lparr>freeSlots := q\<rparr>)) = mset (holdings cm)"
    using somes_update [OF take(1), of None] c by (cases source; cases target; simp add: holdings_def)
  ultimately show ?thesis by (simp add: keeps_def)
qed

lemma remove_ok:
  assumes "cm_inv cm"
  shows "keeps [] cm (remove_connection k cm)"
proof (cases "map_of (active_map cm) k")
  case None
  then show ?thesis using assms by (simp add: remove_connection_def find_connection_in_map_def keeps_def)
next
  case (Some s)
  let ?f = "LockFreeQueue_contents (freeSlots cm)"
  have es: "mset (entries cm) = add_mset (k, s) (mset (entries (erase_source ActiveMap k cm)))"
    using source_entries [OF assms, of ActiveMap] Some by simp
  have ok: "slots_ok (connections cm) (entries cm) ?f" using assms by (simp add: cm_inv_def)
  note take = slots_ok_take [OF ok es]
  obtain c where c: "connections cm ! s = Some c" using take(2) by auto
  let ?m = "cm\<lparr>active_map := map_erase k (active_map cm), connections := (connections cm)[s := None],
               released := released cm @ [c]\<rparr>"
  have "LockFreeQueue_inv (freeSlots ?m)" using assms by (simp add: cm_inv_def)
  then obtain q where q: "free_slot s ?m = Inr (?m\<lparr>freeSlots := q\<rparr>)" "LockFreeQueue_inv q"
    "LockFreeQueue_contents q = ?f @ [s]" using free_slot_ok [of ?m s] by auto
  have "remove_connection k cm = Inr (?m\<lparr>freeSlots := q\<rparr>)"
    using Some take(1) c q(1) by (simp add: remove_connection_def find_connection_in_map_def deref_slot_def Let_def)
  moreover have "cm_inv (?m\<lparr>freeSlots := q\<rparr>)"
    using assms take(4) q(2,3) by (simp add: cm_inv_def entries_def)
  moreover have "mset (holdings (?m\<lparr>freeSlots := q\<rparr>)) = mset (holdings cm)"
    using somes_update [OF take(1), of None] c by (simp add: holdings_def)
  ultimately show ?thesis by (simp add: keeps_def)
qed

lemma add_ok:
  assumes "cm_inv cm" and "map_of (entries cm) k = None"
  shows "\<exists>cm'. add_connection k c cm = Inr (k, cm') \<and> cm_inv cm' \<and> mset (holdings cm') = mset (holdings cm) + {#c#}"
proof -
  let ?f = "LockFreeQueue_contents (freeSlots cm)"
  have new: "k \<notin> fst ` set (entries cm)" using assms(2) by (simp add: map_of_eq_None_iff)
  have ok: "slots_ok (connections cm) (entries cm) ?f" and inv: "LockFreeQueue_inv (freeSlots cm)"
    using assms(1) by (simp_all add: cm_inv_def)
  have act: "mset (entries (cm\<lparr>active_map := map_assign k s (active_map cm)\<rparr>)) = add_mset (k, s) (mset (entries cm))" for s
    using new map_assign_mset [of k "active_map cm" s] by (simp add: entries_def image_Un)
  have perm: "slots_ok cs ((k, s) # entries cm) f \<Longrightarrow>
      slots_ok cs (entries (cm\<lparr>active_map := map_assign k s (active_map cm)\<rparr>)) f" for cs f s
    using slots_ok_perm [of "(k, s) # entries cm" "entries (cm\<lparr>active_map := map_assign k s (active_map cm)\<rparr>)" cs f]
      act by simp
  show ?thesis
  proof (cases ?f)
    case Nil
    then obtain q where q: "LockFreeQueue_pop [] (freeSlots cm) = Inr (None, q)" "LockFreeQueue_inv q"
      "LockFreeQueue_contents q = []" using lfq.deq_empty [OF inv] by blast
    let ?m = "cm\<lparr>freeSlots := q, connections := connections cm @ [Some c],
                 active_map := map_assign k (length (connections cm)) (active_map cm)\<rparr>"
    have "add_connection k c cm = Inr (k, ?m)" using q(1) by (simp add: add_connection_def Let_def)
    moreover have "cm_inv ?m"
      using assms(1) q(2,3) Nil perm [OF slots_ok_append [OF ok new, of c]] by (simp add: cm_inv_def entries_def)
    ultimately show ?thesis by (simp add: holdings_def)
  next
    case (Cons s f)
    then obtain q where q: "LockFreeQueue_pop [] (freeSlots cm) = Inr (Some s, q)" "LockFreeQueue_inv q"
      "LockFreeQueue_contents q = f" using lfq.deq_nonempty [OF inv] by blast
    note re = slots_ok_reuse [OF ok [unfolded Cons] new]
    let ?m = "cm\<lparr>freeSlots := q, connections := (connections cm)[s := Some c],
                 active_map := map_assign k s (active_map cm)\<rparr>"
    have "add_connection k c cm = Inr (k, ?m)" using q(1) re(1,2) by (simp add: add_connection_def Let_def)
    moreover have "cm_inv ?m"
      using assms(1) q(2,3) perm [OF re(3) [of c]] by (simp add: cm_inv_def entries_def)
    moreover have "mset (holdings ?m) = mset (holdings cm) + {#c#}"
      using somes_update [OF re(1), of "Some c"] re(2) by (simp add: holdings_def)
    ultimately show ?thesis by blast
  qed
qed

lemma inactive_ok:
  assumes "cm_inv cm"
  shows "keeps [] cm (remove_connection_to_inactive_map k cm)"
proof (cases "map_of (active_map cm) k")
  case None
  then show ?thesis using assms by (simp add: remove_connection_to_inactive_map_def find_connection_in_map_def keeps_def)
next
  case (Some s)
  let ?m = "cm\<lparr>active_map := map_erase k (active_map cm), inactive_map := map_assign k s (inactive_map cm)\<rparr>"
  have d: "distinct (map fst (active_map cm))" and ok: "slots_ok (connections cm) (entries cm) (LockFreeQueue_contents (freeSlots cm))"
    using assms by (simp_all add: cm_inv_def slots_ok_def entries_def)
  have "k \<in> fst ` set (active_map cm)" using map_of_SomeD [OF Some] by force
  then have "k \<notin> fst ` set (inactive_map cm)" using ok by (auto simp: slots_ok_def entries_def)
  then have "mset (entries ?m) = mset (entries cm)"
    using map_assign_mset [of k "inactive_map cm" s] map_erase_mset [OF d Some] by (simp add: entries_def)
  then have "slots_ok (connections cm) (entries ?m) (LockFreeQueue_contents (freeSlots cm))"
    using ok slots_ok_perm [of "entries ?m" "entries cm" "connections cm"] by blast
  then have "cm_inv ?m" using assms by (simp add: cm_inv_def)
  moreover have "s < length (connections cm)" "connections cm ! s \<noteq> None"
    using slots_ok_entry [OF ok, of k s] Some by (simp_all add: entries_def map_add_def)
  then have "remove_connection_to_inactive_map k cm = Inr ?m"
    using Some by (auto simp: remove_connection_to_inactive_map_def find_connection_in_map_def deref_slot_def)
  ultimately show ?thesis by (simp add: keeps_def holdings_def)
qed

lemma move_active_ok:
  assumes "cm_inv cm" and "active_map cm = es"
  shows "\<exists>cm'. move_active es cm = Inr cm' \<and> cm_inv cm' \<and> mset (holdings cm') = mset (holdings cm) \<and>
    active_map cm' = [] \<and> inactive_map cm' = inactive_map cm \<and> freeSlots cm' = freeSlots cm \<and>
    length (connections cm') = length (connections cm)"
  using assms
proof (induction es arbitrary: cm)
  case (Cons e es)
  obtain k s where e: "e = (k, s)" by (cases e)
  let ?f = "LockFreeQueue_contents (freeSlots cm)"
  have ok: "slots_ok (connections cm) (entries cm) ?f" using Cons.prems(1) by (simp add: cm_inv_def)
  then have k: "k \<notin> fst ` set es" using Cons.prems(2) e by (auto simp: slots_ok_def entries_def)
  have "mset (entries cm) = add_mset (k, s) (mset (es @ inactive_map cm))"
    using Cons.prems(2) e by (simp add: entries_def)
  note take = slots_ok_take [OF ok this]
  obtain c where c: "connections cm ! s = Some c" using take(2) by auto
  let ?m = "cm\<lparr>disconnectingConns := disconnectingConns cm @ [Some c], connections := (connections cm)[s := None],
               active_map := es\<rparr>"
  have "map_erase k (active_map cm) = es"
    using Cons.prems(2) e map_erase_fresh [OF k] by (simp add: map_erase_def)
  then have step: "move_active (e # es) cm = move_active es ?m"
    using e c take(1) by (simp add: deref_slot_def)
  have "cm_inv ?m" using Cons.prems(1) take(3) by (simp add: cm_inv_def entries_def)
  moreover have "mset (holdings ?m) = mset (holdings cm)"
    using somes_update [OF take(1), of None] c by (simp add: holdings_def)
  ultimately show ?case using Cons.IH [of ?m] step by auto
qed simp

definition kept :: "('c \<Rightarrow> 'k) \<Rightarrow> 'c list \<Rightarrow> 'c ConnectionManager \<Rightarrow> 'c ConnectionManager res \<Rightarrow> bool" where
  "kept key new cm r \<longleftrightarrow> (\<exists>cm'. r = Inr cm' \<and> cm_inv cm' \<and>
     image_mset key (mset (holdings cm')) = image_mset key (mset (holdings cm) + mset new))"

lemma keeps_kept: "keeps new cm r \<Longrightarrow> kept key new cm r"
  by (auto simp: keeps_def kept_def)

text \<open>What the manager relies on when it polls a connection: the object stays the same object.\<close>

locale polled_connection =
  fixes poll :: "nat \<Rightarrow> 'c \<Rightarrow> bool \<times> 'c"
    and key :: "'c \<Rightarrow> 'k"
  assumes poll_key: "key (snd (poll i c)) = key c"
begin

lemma reap_ok:
  "None \<notin> set ps \<Longrightarrow> \<exists>keep gone. reap poll i ps = Inr (keep, gone) \<and> None \<notin> set keep \<and>
     image_mset key (mset (somes ps)) = image_mset key (mset (somes keep) + mset gone)"
proof (induction ps arbitrary: i)
  case (Cons p ps)
  then obtain c where c: "p = Some c" by (cases p) auto
  obtain b c' where b: "poll i c = (b, c')" by (cases "poll i c")
  have key: "key c' = key c" using poll_key [of i c] b by simp
  obtain keep gone where "reap poll (Suc i) ps = Inr (keep, gone)" "None \<notin> set keep"
    "image_mset key (mset (somes ps)) = image_mset key (mset (somes keep) + mset gone)"
    using Cons.IH [of "Suc i"] Cons.prems by auto
  then show ?case using b c key by (cases b) simp_all
qed simp

lemma reap_kept:
  assumes "cm_inv cm"
  shows "kept key [] cm (remove_failed_connections poll cm)" and "kept key [] cm (remove_disconnected_connections poll cm)"
proof -
  have n: "None \<notin> set (failedConns cm)" "None \<notin> set (disconnectingConns cm)" using assms by (simp_all add: cm_inv_def)
  show "kept key [] cm (remove_failed_connections poll cm)"
    using reap_ok [OF n(1), of 0] assms
    by (auto simp: kept_def remove_failed_connections_def cm_inv_def entries_def holdings_def)
  show "kept key [] cm (remove_disconnected_connections poll cm)"
    using reap_ok [OF n(2), of 0] assms
    by (auto simp: kept_def remove_disconnected_connections_def cm_inv_def entries_def holdings_def)
qed

lemma cm_do_kept:
  assumes "cm_inv cm" and "cm_env op cm"
  shows "kept key (added op) cm (cm_do poll op cm)"
proof (cases op)
  case (CmAdd k c)
  then obtain cm' where "add_connection k c cm = Inr (k, cm')" "cm_inv cm'" "mset (holdings cm') = mset (holdings cm) + {#c#}"
    using add_ok [OF assms(1), of k c] assms(2) by (auto simp: entries_def)
  then show ?thesis using CmAdd by (simp add: kept_def)
next
  case CmAllToDisconnecting
  then show ?thesis using move_active_ok [OF assms(1) refl]
    by (auto simp: kept_def remove_active_connections_to_disconnecting_queue_def)
next
  case (CmAddDisconnecting c)
  then show ?thesis using assms(1)
    by (auto simp: kept_def add_connection_to_disconnecting_queue_def cm_inv_def entries_def holdings_def)
qed (use assms(1) reap_kept keeps_kept [OF container_ok] keeps_kept [OF remove_ok] keeps_kept [OF inactive_ok] in
      \<open>simp_all add: move_connection_from_inactive_to_failed_queue_def move_connection_from_inactive_to_disconnecting_queue_def
        remove_connection_to_failed_queue_def remove_connection_to_disconnecting_queue_def\<close>)

lemma cm_run_kept:
  "cm_inv cm \<Longrightarrow> cm_env_run poll ops cm \<Longrightarrow> kept key (concat (map added ops)) cm (cm_run poll ops cm)"
proof (induction ops arbitrary: cm)
  case (Cons op ops)
  obtain cm1 where cm1: "cm_do poll op cm = Inr cm1" "cm_inv cm1"
    "image_mset key (mset (holdings cm1)) = image_mset key (mset (holdings cm) + mset (added op))"
    using cm_do_kept [OF Cons.prems(1)] Cons.prems(2) by (auto simp: kept_def)
  then have "kept key (concat (map added ops)) cm1 (cm_run poll ops cm1)" using Cons.IH [of cm1] Cons.prems(2) by simp
  then show ?case using cm1 by (auto simp: kept_def ac_simps)
qed (simp add: kept_def)

end

text \<open>A connection as the manager owns it: its address and the object there.\<close>

definition ucx_poll :: "(nat \<Rightarrow> bool) \<Rightarrow> nat \<Rightarrow> nat \<Rightarrow> nat \<times> UcxConnection \<Rightarrow> bool \<times> nat \<times> UcxConnection" where
  "ucx_poll pending cb i p =
     (case disconnect_progress (pending i) cb (snd p) of (finished, c) \<Rightarrow> (finished, fst p, c))"

interpretation ucx: polled_connection "ucx_poll pending cb" fst for pending cb
  by unfold_locales (simp add: ucx_poll_def split: prod.split)

lemma ConnectionManager_new_inv: "cm_inv ConnectionManager_new" "holdings ConnectionManager_new = []"
  by (simp_all add: ConnectionManager_new_def cm_inv_def LockFreeQueue_new_inv slots_ok_def entries_def holdings_def)



subsection \<open>Lookup by connection id\<close>

text \<open>The specification: a partial map from the ids of active connections to connections.\<close>

definition active_conns :: "'c ConnectionManager \<Rightarrow> nat \<rightharpoonup> 'c" where
  "active_conns cm k =
     (case map_of (active_map cm) k of None \<Rightarrow> None
      | Some s \<Rightarrow> if s < length (connections cm) then connections cm ! s else None)"

lemma slot_unique:
  assumes "cm_inv cm" and "map_of (source_map a cm) k = Some s" and "map_of (source_map b cm) k' = Some s"
  shows "k = k' \<and> a = b"
proof -
  have m: "(k, s) \<in> set (source_map a cm)" "(k', s) \<in> set (source_map b cm)"
    using map_of_SomeD assms(2,3) by metis+
  have d: "distinct (map snd (entries cm))"
    and n: "snd ` set (active_map cm) \<inter> snd ` set (inactive_map cm) = {}"
    using assms(1) by (auto simp: cm_inv_def slots_ok_def entries_def)
  have "set (source_map x cm) \<subseteq> set (entries cm)" for x by (cases x) (simp_all add: entries_def)
  then have "(k, s) \<in> set (entries cm)" "(k', s) \<in> set (entries cm)" using m by blast+
  then have "k = k'" using d inj_onD [of snd "set (entries cm)" "(k, s)" "(k', s)"] by (simp add: distinct_map)
  moreover have "s \<in> snd ` set (source_map a cm)" "s \<in> snd ` set (source_map b cm)" using m by force+
  then have "a = b" using n by (cases a; cases b) auto
  ultimately show ?thesis by blast
qed

lemma active_entry:
  assumes "cm_inv cm" and "map_of (active_map cm) k = Some s"
  shows "s < length (connections cm) \<and> connections cm ! s \<noteq> None"
proof -
  have e: "(k, s) \<in> set (entries cm)" using map_of_SomeD [OF assms(2)] by (simp add: entries_def)
  have used: "s \<in> snd ` set (entries cm)" using image_eqI [OF _ e, of s snd] by simp
  have "snd ` set (entries cm) \<subseteq> {..<length (connections cm)}"
    and live: "\<forall>i < length (connections cm). connections cm ! i \<noteq> None \<longleftrightarrow> i \<in> snd ` set (entries cm)"
    using assms(1) by (simp_all add: cm_inv_def slots_ok_def)
  then have "s < length (connections cm)" using used by blast
  then show ?thesis using used live by blast
qed

lemma active_conns_clear_slot:
  assumes "cm_inv cm" and "map_of (source_map source cm) k = Some s"
    and "active_map cm' = active_map (erase_source source k cm)" and "connections cm' = (connections cm)[s := None]"
  shows "active_conns cm' = (if source = ActiveMap then (active_conns cm)(k := None) else active_conns cm)"
proof (rule ext)
  fix x
  show "active_conns cm' x = (if source = ActiveMap then (active_conns cm)(k := None) else active_conns cm) x"
    using slot_unique [OF assms(1,2), of ActiveMap x] assms(3,4)
    by (cases source) (auto simp: active_conns_def split: option.splits, (metis nth_list_update_neq)+)
qed

lemma active_conns_absent:
  "map_of (source_map source cm) k = None \<Longrightarrow>
     active_conns cm = (if source = ActiveMap then (active_conns cm)(k := None) else active_conns cm)"
  by (cases source) (auto simp: active_conns_def fun_eq_iff)

lemma get_connection_active: "cm_inv cm \<Longrightarrow> get_connection k cm = Inr (active_conns cm k)"
  using active_entry [of cm k]
  by (cases "map_of (active_map cm) k") (auto simp: get_connection_def active_conns_def deref_slot_def)

lemma container_lookup:
  assumes "cm_inv cm" and "remove_connection_to_container k target source cm = Inr cm'"
  shows "active_conns cm' = (if source = ActiveMap then (active_conns cm)(k := None) else active_conns cm)"
proof (cases "map_of (source_map source cm) k")
  case None
  then show ?thesis using assms(2) active_conns_absent [OF None]
    by (simp add: remove_connection_to_container_def find_connection_in_map_def)
next
  case (Some s)
  obtain c q where "cm' = (erase_source source k (push_target target (Some c) (cm\<lparr>connections := (connections cm)[s := None]\<rparr>)))\<lparr>freeSlots := q\<rparr>"
    using assms(2) Some
    by (auto simp: remove_connection_to_container_def find_connection_in_map_def bind_res_Inr_iff free_slot_def Let_def)
  then show ?thesis using active_conns_clear_slot [OF assms(1) Some, of cm'] by (cases source; cases target; simp)
qed

lemma remove_lookup:
  assumes "cm_inv cm" and "remove_connection k cm = Inr cm'"
  shows "active_conns cm' = (active_conns cm)(k := None)"
proof (cases "map_of (active_map cm) k")
  case None
  then show ?thesis using assms(2) active_conns_absent [of ActiveMap cm k]
    by (simp add: remove_connection_def find_connection_in_map_def)
next
  case (Some s)
  then obtain c q where "cm' = cm\<lparr>active_map := map_erase k (active_map cm), connections := (connections cm)[s := None],
      released := released cm @ [c], freeSlots := q\<rparr>"
    using assms(2) by (auto simp: remove_connection_def find_connection_in_map_def bind_res_Inr_iff free_slot_def Let_def)
  then show ?thesis using active_conns_clear_slot [OF assms(1), of ActiveMap k s cm'] Some by simp
qed

lemma inactive_lookup:
  assumes "cm_inv cm" and "remove_connection_to_inactive_map k cm = Inr cm'"
  shows "active_conns cm' = (active_conns cm)(k := None)"
  using assms(2)
  by (cases "map_of (active_map cm) k")
    (auto simp: remove_connection_to_inactive_map_def find_connection_in_map_def bind_res_Inr_iff active_conns_def
      fun_eq_iff split: option.splits)

lemma add_lookup:
  assumes "cm_inv cm" and "map_of (entries cm) k = None" and "add_connection k c cm = Inr (i, cm')"
  shows "active_conns cm' = (active_conns cm)(k \<mapsto> c)"
proof -
  let ?f = "LockFreeQueue_contents (freeSlots cm)"
  have ok: "slots_ok (connections cm) (entries cm) ?f" and inv: "LockFreeQueue_inv (freeSlots cm)"
    using assms(1) by (simp_all add: cm_inv_def)
  have used: "map_of (active_map cm) x = Some y \<Longrightarrow> y \<in> snd ` set (entries cm)" for x y
    using map_of_SomeD [of "active_map cm" x y] by (force simp: entries_def)
  show ?thesis
  proof (cases ?f)
    case Nil
    then obtain q where "LockFreeQueue_pop [] (freeSlots cm) = Inr (None, q)" using lfq.deq_empty [OF inv] by blast
    then have cm': "active_map cm' = map_assign k (length (connections cm)) (active_map cm)"
      "connections cm' = connections cm @ [Some c]"
      using assms(3) by (auto simp: add_connection_def Let_def)
    show ?thesis using ok used
      by (fastforce simp: active_conns_def cm' slots_ok_def nth_append fun_eq_iff split: option.splits)
  next
    case (Cons s f)
    then obtain q where "LockFreeQueue_pop [] (freeSlots cm) = Inr (Some s, q)" using lfq.deq_nonempty [OF inv] by blast
    moreover have s: "s < length (connections cm)" "s \<notin> snd ` set (entries cm)"
      using ok Cons by (auto simp: slots_ok_def)
    ultimately have cm': "active_map cm' = map_assign k s (active_map cm)" "connections cm' = (connections cm)[s := Some c]"
      using assms(3) by (auto simp: add_connection_def Let_def)
    show ?thesis using s used
      by (fastforce simp: active_conns_def cm' nth_list_update fun_eq_iff split: option.splits)
  qed
qed

text \<open>
  C36. The table refines a partial map. \<open>get_connection\<close> reads the map; \<open>add_connection\<close> of a free id extends
  it, \<open>remove_connection\<close>, the moves to a queue from the active map and the move to the inactive map delete
  the id from it, and a move out of the inactive map does not touch it; none of them faults, and no other id
  is affected although slots are recycled.
\<close>

theorem connection_table_refines_map:
  assumes "cm_inv cm"
  shows "get_connection k cm = Inr (active_conns cm k) \<and>
    is_connection_valid k cm = (active_conns cm k \<noteq> None) \<and>
    (map_of (entries cm) k = None \<longrightarrow>
      (\<exists>cm'. add_connection k c cm = Inr (k, cm') \<and> active_conns cm' = (active_conns cm)(k \<mapsto> c))) \<and>
    (\<exists>cm'. remove_connection k cm = Inr cm' \<and> active_conns cm' = (active_conns cm)(k := None)) \<and>
    (\<exists>cm'. remove_connection_to_inactive_map k cm = Inr cm' \<and> active_conns cm' = (active_conns cm)(k := None)) \<and>
    (\<forall>target. \<exists>cm'. remove_connection_to_container k target ActiveMap cm = Inr cm' \<and>
      active_conns cm' = (active_conns cm)(k := None)) \<and>
    (\<forall>target. \<exists>cm'. remove_connection_to_container k target InactiveMap cm = Inr cm' \<and>
      active_conns cm' = active_conns cm)"
proof -
  have valid: "is_connection_valid k cm = (active_conns cm k \<noteq> None)"
    using active_entry [OF assms, of k]
    by (cases "map_of (active_map cm) k") (auto simp: is_connection_valid_def active_conns_def)
  have add: "map_of (entries cm) k = None \<longrightarrow>
      (\<exists>cm'. add_connection k c cm = Inr (k, cm') \<and> active_conns cm' = (active_conns cm)(k \<mapsto> c))"
    using add_ok [OF assms, of k c] add_lookup [OF assms] by blast
  have rem: "\<exists>cm'. remove_connection k cm = Inr cm' \<and> active_conns cm' = (active_conns cm)(k := None)"
    using remove_ok [OF assms, of k] remove_lookup [OF assms] unfolding keeps_def by blast
  have ina: "\<exists>cm'. remove_connection_to_inactive_map k cm = Inr cm' \<and> active_conns cm' = (active_conns cm)(k := None)"
    using inactive_ok [OF assms, of k] inactive_lookup [OF assms] unfolding keeps_def by blast
  have con: "\<exists>cm'. remove_connection_to_container k target source cm = Inr cm' \<and>
      active_conns cm' = (if source = ActiveMap then (active_conns cm)(k := None) else active_conns cm)" for target source
    using container_ok [OF assms, of k target source] container_lookup [OF assms] unfolding keeps_def by blast
  show ?thesis
    using get_connection_active [OF assms] valid add rem ina con [of _ ActiveMap] con [of _ InactiveMap] by simp
qed

theorem connection_table_refines_map_witness:
  "\<exists>cm cm'. add_connection 100 (7 :: nat) ConnectionManager_new = Inr (100, cm) \<and>
    remove_connection 100 cm = Inr cm' \<and> active_conns cm 100 = Some 7 \<and> active_conns cm' 100 = None"
proof -
  have free: "map_of (entries (ConnectionManager_new :: nat ConnectionManager)) 100 = None"
    by (simp add: entries_def ConnectionManager_new_def)
  from connection_table_refines_map [OF ConnectionManager_new_inv(1), of 100 "7 :: nat"] free
  obtain cm where cm: "add_connection 100 (7 :: nat) ConnectionManager_new = Inr (100, cm)"
    "active_conns cm = (active_conns ConnectionManager_new)(100 \<mapsto> 7)" by auto
  have "cm_inv cm" using add_ok [OF ConnectionManager_new_inv(1) free, of 7] cm(1) by auto
  then obtain cm' where "remove_connection 100 cm = Inr cm'" "active_conns cm' = (active_conns cm)(100 := None)"
    using connection_table_refines_map [of cm 100] by blast
  then show ?thesis using cm by simp
qed

subsection \<open>Shutting down\<close>

text \<open>
  \<open>clear\<close> empties the vector but keeps the queue of free slots. When a slot had been freed before, the
  next \<open>add_connection\<close> takes it and writes outside the (now empty) vector.
\<close>

theorem clear_then_add_out_of_bounds:
  assumes "cm_inv cm" and "LockFreeQueue_contents (freeSlots cm) \<noteq> []"
  shows "add_connection k c (ConnectionManager_clear cm) = Inl OutOfBounds"
proof -
  obtain s f where "LockFreeQueue_contents (freeSlots cm) = s # f" using assms(2) by (cases "LockFreeQueue_contents (freeSlots cm)") auto
  then obtain q where "LockFreeQueue_pop [] (freeSlots cm) = Inr (Some s, q)"
    using lfq.deq_nonempty [of "freeSlots cm" s f "[]"] assms(1) by (auto simp: cm_inv_def)
  then show ?thesis by (simp add: add_connection_def ConnectionManager_clear_def Let_def)
qed

theorem clear_then_add_out_of_bounds_witness:
  "\<exists>cm. cm_run (ucx_poll (\<lambda>i. False) 0) [CmAdd 100 (1, connected None None 100 9), CmRemove 100] ConnectionManager_new = Inr cm \<and>
    add_connection 200 (2, connected None None 200 9) (ConnectionManager_clear cm) = Inl OutOfBounds"
proof -
  let ?ops = "[CmAdd 100 (1, connected None None 100 9), CmRemove 100]"
  have "cm_env_run (ucx_poll (\<lambda>i. False) 0) ?ops ConnectionManager_new" by code_simp
  then obtain cm where cm: "cm_run (ucx_poll (\<lambda>i. False) 0) ?ops ConnectionManager_new = Inr cm" "cm_inv cm"
    using ucx.cm_run_kept [OF ConnectionManager_new_inv(1)] unfolding kept_def by blast
  have "case cm_run (ucx_poll (\<lambda>i. False) 0) ?ops ConnectionManager_new of
      Inl f \<Rightarrow> False | Inr cm \<Rightarrow> LockFreeQueue_contents (freeSlots cm) = [0]" by code_simp
  then have "LockFreeQueue_contents (freeSlots cm) \<noteq> []" using cm(1) by simp
  then show ?thesis using clear_then_add_out_of_bounds [OF cm(2)] cm(1) by blast
qed

text \<open>Moving all active connections to the disconnecting queue loses their slots: they are neither used nor free.\<close>

definition lost_slots :: "'c ConnectionManager \<Rightarrow> int" where
  "lost_slots cm = int (length (connections cm)) - int (length (entries cm)) - int (length (LockFreeQueue_contents (freeSlots cm)))"

lemma move_all_loses_slots:
  assumes "cm_inv cm" and "remove_active_connections_to_disconnecting_queue cm = Inr cm'"
  shows "lost_slots cm' = lost_slots cm + int (length (active_map cm))"
  using move_active_ok [OF assms(1) refl] assms(2)
  by (auto simp: lost_slots_def entries_def remove_active_connections_to_disconnecting_queue_def)

text \<open>A connection in the disconnecting queue after \<open>disconnect\<close> has no endpoint, and so no longer its id.\<close>

lemma disconnected_not_found:
  assumes "conn_ok c" and "sync_ok sync c" and "disconnect env names sync closed pending d c = Inr c'" and "k \<noteq> 0"
  shows "is_in_disconnecting conn_id k (add_connection_to_disconnecting_queue c' ConnectionManager_new) = Inr False"
  using disconnect_ok [OF assms(1,2), of env names closed pending d] assms(3,4)
  by (auto simp: is_in_disconnecting_def add_connection_to_disconnecting_queue_def ConnectionManager_new_def conn_id_def)

end
