(* ===== verification/Event_Loop.thy ===== *)
theory Event_Loop
  imports Eux_Prelude
begin

text \<open>
  The event loop of \<open>ucx_am_context\<close> (\<open>ucx_am_context.cpp\<close> and \<open>ucx_am_context.hpp\<close>): the queues of
  operations that are ready or wait for space, the ring of completions with its counters, the wake-up by
  remote threads, and the timers. Operations are numbers; what other code decides is an argument: the
  items the remote queue hands out (\<open>unifex::atomic_intrusive_queue\<close>), the order of equal timers in the
  heap (\<open>unifex::intrusive_heap\<close>), the clock, and whether the operating system armed a timer.
\<close>

subsection \<open>Data\<close>

text \<open>
  The \<open>user_data\<close> of a completion is 0, the address of \<open>timers_\<close>, the address of \<open>currentDueTime_\<close> or
  the address of an operation; these are pairwise different.
\<close>

datatype user_data =
    remote_queue_event_user_data
  | timer_user_data
  | remove_timer_user_data
  | operation_user_data nat

record ucx_am_cqe =
  user_data :: user_data
  cqe_res :: int

definition kCompletionQueueEntryCount :: int where
  "kCompletionQueueEntryCount = 256"

definition cqMask :: u32 where
  "cqMask = 255"

definition ECANCELED :: int where
  "ECANCELED = 125"

record schedule_at_operation =
  t_op :: nat
  dueTime :: int
  canBeCancelled :: bool
  cancel_pending :: bool

record ucx_am_context =
  localQueue :: "nat list"
  pendingIoQueue :: "nat list"
  timers :: "schedule_at_operation list"
  currentDueTime :: "int option"
  sqUnflushedCount :: int
  cqPendingCount :: int
  remoteQueueEventEntry :: bool
  remoteQueueReadSubmitted :: bool
  timersAreDirty :: bool
  activeTimerCount :: nat
  timerDeleted :: bool
  lastTimerOp :: "nat option"
  cq_entry_ref :: "nat \<rightharpoonup> nat"
  cqEntries :: "ucx_am_cqe list"
  cqHead :: u32
  cqTail :: u32
  op_result :: "nat \<rightharpoonup> int"
  elapsed_ops :: "nat list"
  destroyed_ops :: "nat list"

definition ucx_am_context_new :: ucx_am_context where
  "ucx_am_context_new =
     \<lparr>localQueue = [], pendingIoQueue = [], timers = [], currentDueTime = None, sqUnflushedCount = 0,
      cqPendingCount = 0, remoteQueueEventEntry = False, remoteQueueReadSubmitted = False,
      timersAreDirty = False, activeTimerCount = 0, timerDeleted = False, lastTimerOp = None,
      cq_entry_ref = Map.empty,
      cqEntries = replicate (nat kCompletionQueueEntryCount) \<lparr>user_data = remote_queue_event_user_data, cqe_res = 0\<rparr>,
      cqHead = 0, cqTail = 0, op_result = Map.empty, elapsed_ops = [], destroyed_ops = []\<rparr>"

subsection \<open>Queues\<close>

definition schedule_local :: "nat \<Rightarrow> ucx_am_context \<Rightarrow> ucx_am_context" where
  "schedule_local op s = s\<lparr>localQueue := localQueue s @ [op]\<rparr>"

definition schedule_local_all :: "nat list \<Rightarrow> ucx_am_context \<Rightarrow> ucx_am_context" where
  "schedule_local_all ops s = s\<lparr>localQueue := localQueue s @ ops\<rparr>"

definition schedule_pending_io :: "nat \<Rightarrow> ucx_am_context \<Rightarrow> ucx_am_context" where
  "schedule_pending_io op s = s\<lparr>pendingIoQueue := pendingIoQueue s @ [op]\<rparr>"

definition reschedule_pending_io :: "nat \<Rightarrow> ucx_am_context \<Rightarrow> ucx_am_context" where
  "reschedule_pending_io op s = s\<lparr>pendingIoQueue := op # pendingIoQueue s\<rparr>"

text \<open>Executing an operation is an argument; \<open>execute_pending_local\<close> takes the queue first.\<close>

fun execute_each :: "(nat \<Rightarrow> ucx_am_context \<Rightarrow> ucx_am_context res) \<Rightarrow> nat list \<Rightarrow> ucx_am_context \<Rightarrow> ucx_am_context res" where
  "execute_each exec [] s = Inr s"
| "execute_each exec (op # ops) s = bind_res (exec op s) (execute_each exec ops)"

definition execute_pending_local ::
  "(nat \<Rightarrow> ucx_am_context \<Rightarrow> ucx_am_context res) \<Rightarrow> ucx_am_context \<Rightarrow> ucx_am_context res" where
  "execute_pending_local exec s = execute_each exec (localQueue s) (s\<lparr>localQueue := []\<rparr>)"

subsection \<open>Submission and completion\<close>

definition pending_operation_count :: "ucx_am_context \<Rightarrow> int" where
  "pending_operation_count s = cqPendingCount s + sqUnflushedCount s"

definition can_submit_io :: "ucx_am_context \<Rightarrow> bool" where
  "can_submit_io s \<longleftrightarrow> sqUnflushedCount s < kCompletionQueueEntryCount \<and>
     pending_operation_count s < kCompletionQueueEntryCount"

definition try_submit_io ::
  "(ucx_am_context \<Rightarrow> (bool \<times> ucx_am_context) res) \<Rightarrow> ucx_am_context \<Rightarrow> (bool \<times> ucx_am_context) res" where
  "try_submit_io populateSqe s =
     (if pending_operation_count s < kCompletionQueueEntryCount \<and> sqUnflushedCount s < kCompletionQueueEntryCount
      then bind_res (populateSqe s) (\<lambda>(ok, s1).
        if ok then Inr (True, s1\<lparr>sqUnflushedCount := sqUnflushedCount s1 + 1\<rparr>) else Inr (False, s1))
      else Inr (False, s))"

definition cq_index :: "u32 \<Rightarrow> nat" where
  "cq_index i = unat (i AND cqMask)"

text \<open>\<open>get_and_update_cq_entry\<close> with the assignment of the entry that its caller makes.\<close>

definition put_cqe :: "user_data \<Rightarrow> int \<Rightarrow> ucx_am_context \<Rightarrow> ucx_am_context res" where
  "put_cqe u r s =
     (if cq_index (cqTail s) < length (cqEntries s)
      then Inr (s\<lparr>cqEntries := (cqEntries s)[cq_index (cqTail s) := \<lparr>user_data = u, cqe_res = r\<rparr>], cqTail := cqTail s + 1\<rparr>)
      else Inl OutOfBounds)"

definition get_completion_queue_entry :: "user_data \<Rightarrow> int \<Rightarrow> ucx_am_context \<Rightarrow> ucx_am_context res" where
  "get_completion_queue_entry u r s =
     put_cqe u r (s\<lparr>sqUnflushedCount := sqUnflushedCount s - 1, cqPendingCount := cqPendingCount s + 1\<rparr>)"

fun take_cqe :: "ucx_am_cqe \<Rightarrow> nat list \<times> ucx_am_context \<Rightarrow> (nat list \<times> ucx_am_context) res" where
  "take_cqe cqe (done, s) =
     (case user_data cqe of
        remote_queue_event_user_data \<Rightarrow>
          Inr (done, s\<lparr>remoteQueueReadSubmitted := False, sqUnflushedCount := sqUnflushedCount s - 1,
                       cqPendingCount := cqPendingCount s + 1\<rparr>)
      | timer_user_data \<Rightarrow>
          if activeTimerCount s = 0 then Inl AssertFailed
          else
            let s1 = s\<lparr>activeTimerCount := activeTimerCount s - 1\<rparr>;
                s2 = (if cqe_res cqe \<noteq> ECANCELED then s1\<lparr>timersAreDirty := True\<rparr> else s1)
            in Inr (done, if activeTimerCount s2 = 0 then s2\<lparr>currentDueTime := None\<rparr> else s2)
      | remove_timer_user_data \<Rightarrow> Inr (done, s)
      | operation_user_data op \<Rightarrow> Inr (done @ [op], s\<lparr>op_result := (op_result s)(op \<mapsto> cqe_res cqe)\<rparr>))"

fun take_cqes :: "ucx_am_cqe list \<Rightarrow> nat list \<times> ucx_am_context \<Rightarrow> (nat list \<times> ucx_am_context) res" where
  "take_cqes [] p = Inr p"
| "take_cqes (cqe # cqes) p = bind_res (take_cqe cqe p) (take_cqes cqes)"

text \<open>The entries between head and tail, in the order the loop reads them.\<close>

definition cq_ring :: "ucx_am_context \<Rightarrow> ucx_am_cqe list" where
  "cq_ring s = map (\<lambda>i. cqEntries s ! cq_index (cqHead s + word_of_nat i)) [0..<unat (cqTail s - cqHead s)]"

definition acquire_completion_queue_items :: "ucx_am_context \<Rightarrow> ucx_am_context res" where
  "acquire_completion_queue_items s =
     (if cqHead s = cqTail s then Inr s
      else
        let count = unat (cqTail s - cqHead s) in
        if kCompletionQueueEntryCount < int count then Inl AssertFailed
        else bind_res (take_cqes (cq_ring s) ([], s)) (\<lambda>(completionQueue, s1).
          let s2 = schedule_local_all completionQueue s1
          in Inr (s2\<lparr>cqHead := cqTail s, cqPendingCount := cqPendingCount s2 - int count\<rparr>)))"

subsection \<open>Remote threads\<close>

definition acquire_remote_queued_items :: "nat list \<Rightarrow> ucx_am_context \<Rightarrow> ucx_am_context res" where
  "acquire_remote_queued_items items s =
     (if remoteQueueReadSubmitted s then Inl AssertFailed else Inr (schedule_local_all items s))"

text \<open>\<open>queued\<close>: what \<open>try_mark_inactive_or_dequeue_all\<close> returns, nothing if the queue was marked inactive.\<close>

definition try_register_remote_queue_notification :: "nat list \<Rightarrow> ucx_am_context \<Rightarrow> (bool \<times> ucx_am_context) res" where
  "try_register_remote_queue_notification queued s =
     try_submit_io (\<lambda>s.
       let s1 = s\<lparr>remoteQueueEventEntry := True\<rparr> in
       if queued \<noteq> [] then Inr (False, schedule_local_all queued (s1\<lparr>remoteQueueEventEntry := False\<rparr>))
       else Inr (True, s1)) s"

definition submit_remote_queue_event :: "ucx_am_context \<Rightarrow> ucx_am_context res" where
  "submit_remote_queue_event s = put_cqe remote_queue_event_user_data 0 s"

definition signal_remote_queue :: "ucx_am_context \<Rightarrow> ucx_am_context res" where
  "signal_remote_queue s =
     (if remoteQueueEventEntry s
      then bind_res (submit_remote_queue_event s) (\<lambda>s1. Inr (s1\<lparr>remoteQueueEventEntry := False\<rparr>))
      else Inr s)"

text \<open>\<open>schedule_remote\<close>; \<open>was_inactive\<close> is what \<open>remoteQueue_.enqueue\<close> returns.\<close>

definition schedule_remote :: "bool \<Rightarrow> ucx_am_context \<Rightarrow> ucx_am_context res" where
  "schedule_remote was_inactive s = (if was_inactive then signal_remote_queue s else Inr s)"

subsection \<open>Timers\<close>

text \<open>Which of the earliest timers the heap has at its top is the argument \<open>first\<close>.\<close>

definition schedule_at_impl ::
  "(schedule_at_operation list \<Rightarrow> schedule_at_operation) \<Rightarrow> schedule_at_operation \<Rightarrow> ucx_am_context \<Rightarrow> ucx_am_context" where
  "schedule_at_impl first t s =
     (let s1 = s\<lparr>timers := timers s @ [t]\<rparr>
      in if t_op (first (timers s1)) = t_op t then s1\<lparr>timersAreDirty := True\<rparr> else s1)"

definition remove_timer ::
  "(schedule_at_operation list \<Rightarrow> schedule_at_operation) \<Rightarrow> nat \<Rightarrow> ucx_am_context \<Rightarrow> ucx_am_context res" where
  "remove_timer first op s =
     (if timers s = [] then Inl AssertFailed
      else
        let s1 = (if t_op (first (timers s)) = op then s\<lparr>timersAreDirty := True\<rparr> else s)
        in Inr (s1\<lparr>timers := filter (\<lambda>t. t_op t \<noteq> op) (timers s1)\<rparr>))"

definition submit_timer_completion_queue_entry :: "ucx_am_context \<Rightarrow> ucx_am_context res" where
  "submit_timer_completion_queue_entry s = get_completion_queue_entry timer_user_data 0 s"

text \<open>The operation that was armed last may have completed, and then the client has destroyed it.\<close>

definition timer_op_access :: "nat \<Rightarrow> ucx_am_context \<Rightarrow> ucx_am_context res" where
  "timer_op_access op s = (if op \<in> set (destroyed_ops s) then Inl UseAfterFree else Inr s)"

text \<open>The remaining time in whole seconds, rounded towards zero, and nanoseconds.\<close>

definition no_time_left :: "int \<Rightarrow> int \<Rightarrow> bool" where
  "no_time_left now due =
     (let dur = due - now;
          sec = (if dur < 0 then - (- dur div 1000000000) else dur div 1000000000);
          nsec = dur - sec * 1000000000
      in sec < 0 \<or> nsec \<le> 0)"

definition try_submit_timer_io ::
  "(schedule_at_operation list \<Rightarrow> schedule_at_operation) \<Rightarrow> int \<Rightarrow> bool \<Rightarrow> int \<Rightarrow> ucx_am_context \<Rightarrow>
   (bool \<times> ucx_am_context) res" where
  "try_submit_timer_io first now armed due s =
     bind_res (try_submit_io (\<lambda>s.
         let op = t_op (first (timers s));
             s1 = s\<lparr>lastTimerOp := Some op\<rparr>
         in if no_time_left now due then
              bind_res (timer_op_access op s1) (\<lambda>s2.
              bind_res (get_completion_queue_entry timer_user_data 0
                  (s2\<lparr>cq_entry_ref := (cq_entry_ref s2)(op \<mapsto> cq_index (cqTail s2))\<rparr>)) (\<lambda>s3. Inr (True, s3)))
            else if \<not> armed then bind_res (submit_timer_completion_queue_entry s1) (\<lambda>s2. Inr (True, s2))
            else Inr (True, s1)) s) (\<lambda>(ok, s1).
       Inr (ok, if ok then s1\<lparr>activeTimerCount := activeTimerCount s1 + 1\<rparr> else s1))"

definition try_submit_timer_io_cancel :: "ucx_am_context \<Rightarrow> (bool \<times> ucx_am_context) res" where
  "try_submit_timer_io_cancel s =
     try_submit_io (\<lambda>s.
       bind_res (submit_timer_completion_queue_entry s) (\<lambda>s1.
         let s2 = s1\<lparr>timerDeleted := True\<rparr> in
         case lastTimerOp s2 of
           None \<Rightarrow> Inr (True, s2)
         | Some op \<Rightarrow>
             bind_res (timer_op_access op s2) (\<lambda>s3.
               case cq_entry_ref s3 op of
                 None \<Rightarrow> Inr (True, s3\<lparr>lastTimerOp := None\<rparr>)
               | Some i \<Rightarrow>
                   if i < length (cqEntries s3)
                   then Inr (True, s3\<lparr>cqEntries := (cqEntries s3)[i := (cqEntries s3 ! i)\<lparr>cqe_res := ECANCELED\<rparr>],
                                      lastTimerOp := None\<rparr>)
                   else Inl OutOfBounds))) s"

text \<open>Reaping the elapsed timers; each round removes one, so the number of timers bounds the rounds.\<close>

fun reap_timers ::
  "(schedule_at_operation list \<Rightarrow> schedule_at_operation) \<Rightarrow> int \<Rightarrow> nat \<Rightarrow> ucx_am_context \<Rightarrow> ucx_am_context" where
  "reap_timers first now 0 s = s"
| "reap_timers first now (Suc n) s =
     (if timers s = [] then s
      else
        let item = first (timers s) in
        if now < dueTime item then s
        else
          let s1 = s\<lparr>timers := filter (\<lambda>t. t_op t \<noteq> t_op item) (timers s),
                      elapsed_ops := (if canBeCancelled item then elapsed_ops s @ [t_op item] else elapsed_ops s)\<rparr> in
          if canBeCancelled item \<and> cancel_pending item then reap_timers first now n s1
          else reap_timers first now n (schedule_local (t_op item) s1))"

definition update_timers ::
  "(schedule_at_operation list \<Rightarrow> schedule_at_operation) \<Rightarrow> int \<Rightarrow> int \<Rightarrow> bool \<Rightarrow> ucx_am_context \<Rightarrow> ucx_am_context res" where
  "update_timers first now now' armed s =
     (let s1 = reap_timers first now (length (timers s)) s in
      if timers s1 = [] then
        case currentDueTime s1 of
          None \<Rightarrow> Inr s1
        | Some _ \<Rightarrow>
            bind_res (try_submit_timer_io_cancel s1) (\<lambda>(ok, s2).
              Inr (if ok then s2\<lparr>currentDueTime := None, timersAreDirty := False\<rparr> else s2))
      else
        let earliestDueTime = dueTime (first (timers s1)) in
        case currentDueTime s1 of
          Some current \<Rightarrow>
            if earliestDueTime < current - 1000 then
              bind_res (try_submit_timer_io_cancel s1) (\<lambda>(ok, s2).
                if ok then
                  bind_res (try_submit_timer_io first now' armed earliestDueTime (s2\<lparr>currentDueTime := None\<rparr>)) (\<lambda>(ok', s3).
                    Inr (if ok' then s3\<lparr>currentDueTime := Some earliestDueTime, timersAreDirty := False\<rparr> else s3))
                else Inr s2)
            else Inr (s1\<lparr>timersAreDirty := False\<rparr>)
        | None \<Rightarrow>
            bind_res (try_submit_timer_io first now' armed earliestDueTime s1) (\<lambda>(ok, s2).
              Inr (if ok then s2\<lparr>currentDueTime := Some earliestDueTime, timersAreDirty := False\<rparr> else s2)))"


text \<open>
  Cancelling a timer: from the I/O thread, or from another thread, which then leaves the removal to the I/O
  thread. When a timer operation has delivered its result the receiver destroys it.
\<close>

definition complete_timer_op :: "nat \<Rightarrow> ucx_am_context \<Rightarrow> ucx_am_context" where
  "complete_timer_op op s = s\<lparr>destroyed_ops := destroyed_ops s @ [op]\<rparr>"

definition request_stop_local ::
  "(schedule_at_operation list \<Rightarrow> schedule_at_operation) \<Rightarrow> nat \<Rightarrow> ucx_am_context \<Rightarrow> ucx_am_context res" where
  "request_stop_local first op s =
     (if op \<in> set (elapsed_ops s) then Inr s
      else bind_res (remove_timer first op s) (\<lambda>s1. Inr (schedule_local op s1)))"

definition request_stop_remote :: "bool \<Rightarrow> nat \<Rightarrow> ucx_am_context \<Rightarrow> ucx_am_context res" where
  "request_stop_remote was_inactive op s =
     (let s1 = s\<lparr>timers := map (\<lambda>t. if t_op t = op then t\<lparr>cancel_pending := True\<rparr> else t) (timers s)\<rparr> in
      if op \<in> set (elapsed_ops s1) then Inr s1 else schedule_remote was_inactive s1)"

definition remove_timer_from_queue_and_complete_with_done ::
  "(schedule_at_operation list \<Rightarrow> schedule_at_operation) \<Rightarrow> nat \<Rightarrow> ucx_am_context \<Rightarrow> ucx_am_context res" where
  "remove_timer_from_queue_and_complete_with_done first op s =
     bind_res (if op \<in> set (elapsed_ops s) then Inr s else remove_timer first op s) (\<lambda>s1.
       Inr (complete_timer_op op s1))"


subsection \<open>One round of the loop\<close>

text \<open>
  Executing what waited for room, while there is room; the fuel bounds the number of operations executed.
\<close>

fun drain_pending_io ::
  "(nat \<Rightarrow> ucx_am_context \<Rightarrow> ucx_am_context res) \<Rightarrow> nat \<Rightarrow> ucx_am_context \<Rightarrow> ucx_am_context res" where
  "drain_pending_io exec 0 s = (if pendingIoQueue s \<noteq> [] \<and> can_submit_io s then Inl OutOfFuel else Inr s)"
| "drain_pending_io exec (Suc n) s =
     (case pendingIoQueue s of
        [] \<Rightarrow> Inr s
      | op # ops \<Rightarrow>
          if can_submit_io s then bind_res (exec op (s\<lparr>pendingIoQueue := ops\<rparr>)) (drain_pending_io exec n)
          else Inr s)"

text \<open>What the round meets outside: the stop flag after the ready queue, the clock, the remote queue, UCX.\<close>

record loop_env =
  env_stop :: bool
  env_now :: int
  env_now' :: int
  env_armed :: bool
  env_remote :: "nat list"
  env_late_remote :: "nat list"
  env_fuel :: nat
  env_progress :: "ucx_am_context \<Rightarrow> ucx_am_context res"

definition run_round ::
  "(nat \<Rightarrow> ucx_am_context \<Rightarrow> ucx_am_context res) \<Rightarrow> (schedule_at_operation list \<Rightarrow> schedule_at_operation) \<Rightarrow> loop_env \<Rightarrow>
   ucx_am_context \<Rightarrow> (bool \<times> ucx_am_context) res" where
  "run_round exec first env s =
     bind_res (execute_pending_local exec s) (\<lambda>s1.
     if env_stop env then Inr (True, s1)
     else
       bind_res (acquire_completion_queue_items s1) (\<lambda>s2.
       bind_res (if timersAreDirty s2 then update_timers first (env_now env) (env_now' env) (env_armed env) s2 else Inr s2) (\<lambda>s3.
       bind_res (if \<not> remoteQueueReadSubmitted s3 then acquire_remote_queued_items (env_remote env) s3 else Inr s3) (\<lambda>s4.
       bind_res (drain_pending_io exec (env_fuel env) s4) (\<lambda>s5.
       bind_res (if sqUnflushedCount s5 = 0 \<and> localQueue s5 = [] \<and> \<not> remoteQueueReadSubmitted s5
                 then bind_res (try_register_remote_queue_notification (env_late_remote env) s5) (\<lambda>(ok, s6).
                   Inr (s6\<lparr>remoteQueueReadSubmitted := ok\<rparr>))
                 else Inr s5) (\<lambda>s6.
       bind_res (env_progress env s6) (\<lambda>s7. Inr (False, s7))))))))"

text \<open>\<open>run_impl\<close>: rounds until the stop operation has been executed; \<open>None\<close> when the given rounds end first.\<close>

fun run_impl ::
  "(nat \<Rightarrow> ucx_am_context \<Rightarrow> ucx_am_context res) \<Rightarrow> (schedule_at_operation list \<Rightarrow> schedule_at_operation) \<Rightarrow>
   loop_env list \<Rightarrow> ucx_am_context \<Rightarrow> ucx_am_context option res" where
  "run_impl exec first [] s = Inr None"
| "run_impl exec first (env # envs) s =
     bind_res (run_round exec first env s) (\<lambda>(stop, s1). if stop then Inr (Some s1) else run_impl exec first envs s1)"

subsection \<open>Draining\<close>



end
