(* ===== verification/Completion_Ring.thy ===== *)
theory Completion_Ring
  imports Event_Loop
begin

text \<open>
  The completion ring of the event loop: runs of submissions, completions, remote wake-ups, timers and
  acquisitions keep the counters exact, never overrun the ring and deliver every completion exactly once.
\<close>

subsection \<open>The ring as a list\<close>

lemma cq_index_mod: "cq_index x = unat x mod 256"
proof -
  have "cqMask = mask 8" by (simp add: cqMask_def mask_eq_exp_minus_1)
  then have "x AND cqMask = take_bit 8 x" by (simp add: take_bit_eq_mask)
  then show ?thesis by (simp add: cq_index_def take_bit_eq_mod unat_mod)
qed

lemma cq_index_add: "cq_index (x + word_of_nat i) = (unat x + i) mod 256"
proof -
  have "unat (x + word_of_nat i) = (unat x + i) mod 2 ^ 32"
    by (simp add: unat_word_ariths unsigned_of_nat take_bit_eq_mod mod_simps)
  then show ?thesis by (simp add: cq_index_mod mod_mod_cancel)
qed

lemma cq_index_bound: "cq_index x < 256"
  by (simp add: cq_index_mod)

lemma cq_index_tail: "cq_index t = (unat h + unat (t - h)) mod 256"
  using cq_index_add [of h "unat (t - h)"] by simp

lemma length_cq_ring [simp]: "length (cq_ring s) = unat (cqTail s - cqHead s)"
  by (simp add: cq_ring_def)

lemma cq_ring_empty: "cq_ring s = [] \<longleftrightarrow> cqHead s = cqTail s"
  by (auto simp: cq_ring_def unat_eq_0)

lemma cq_ring_cong:
  "cqEntries s' = cqEntries s \<Longrightarrow> cqHead s' = cqHead s \<Longrightarrow> cqTail s' = cqTail s \<Longrightarrow> cq_ring s' = cq_ring s"
  by (simp add: cq_ring_def)

lemma other_index:
  fixes h i n :: nat
  assumes "i < n" and "n < 256"
  shows "(h + n) mod 256 \<noteq> (h + i) mod 256"
proof
  assume "(h + n) mod 256 = (h + i) mod 256"
  then have "(h + n - (h + i)) mod 256 = 0" by (metis mod_eq_dvd_iff_nat dvd_imp_mod_0 add_le_cancel_left assms(1) less_imp_le)
  then show False using assms by simp
qed

lemma cq_ring_put:
  assumes "length (cqEntries s) = 256" and "length (cq_ring s) < 256"
    and "s' = s\<lparr>cqEntries := (cqEntries s)[cq_index (cqTail s) := e], cqTail := cqTail s + 1\<rparr>"
  shows "cq_ring s' = cq_ring s @ [e]"
proof -
  let ?n = "unat (cqTail s - cqHead s)"
  have n: "?n < 256" using assms(2) by simp
  have tail: "cq_index (cqTail s) = (unat (cqHead s) + ?n) mod 256" by (rule cq_index_tail)
  have diff: "cqTail s' - cqHead s' = (cqTail s - cqHead s) + 1" using assms(3) by (simp add: algebra_simps)
  have "unat ((cqTail s - cqHead s) + 1) = ?n + 1" using n by (intro unat_add1) simp
  then have "unat (cqTail s' - cqHead s') = Suc ?n" unfolding diff by simp
  moreover have "cqEntries s' ! cq_index (cqHead s + word_of_nat i) = cqEntries s ! cq_index (cqHead s + word_of_nat i)"
    if "i < ?n" for i
    using other_index [OF that n, of "unat (cqHead s)"] assms(3) by (simp add: tail cq_index_add)
  moreover have "cqEntries s' ! cq_index (cqHead s + word_of_nat ?n) = e"
    using assms(1,3) cq_index_bound by (simp add: tail cq_index_add)
  ultimately show ?thesis using assms(3) by (simp add: cq_ring_def)
qed

lemma put_cqe_ok:
  assumes "length (cqEntries s) = 256"
  shows "put_cqe u r s = Inr (s\<lparr>cqEntries := (cqEntries s)[cq_index (cqTail s) := \<lparr>user_data = u, cqe_res = r\<rparr>],
                               cqTail := cqTail s + 1\<rparr>)"
  using assms cq_index_bound by (simp add: put_cqe_def)

subsection \<open>Counting\<close>

definition remote_events :: "ucx_am_cqe list \<Rightarrow> nat" where
  "remote_events es = length (filter (\<lambda>e. user_data e = remote_queue_event_user_data) es)"

definition timer_events :: "ucx_am_cqe list \<Rightarrow> nat" where
  "timer_events es = length (filter (\<lambda>e. user_data e = timer_user_data) es)"

text \<open>The operations completed by a list of completion entries, and their results.\<close>

fun completed_ops :: "ucx_am_cqe list \<Rightarrow> nat list" where
  "completed_ops [] = []"
| "completed_ops (e # es) = (case user_data e of operation_user_data op \<Rightarrow> [op] | _ \<Rightarrow> []) @ completed_ops es"

lemma event_count_simps [simp]:
  "remote_events [] = 0" "timer_events [] = 0"
  "remote_events (es @ fs) = remote_events es + remote_events fs"
  "timer_events (es @ fs) = timer_events es + timer_events fs"
  "remote_events (e # es) = of_bool (user_data e = remote_queue_event_user_data) + remote_events es"
  "timer_events (e # es) = of_bool (user_data e = timer_user_data) + timer_events es"
  by (simp_all add: remote_events_def timer_events_def)

lemma remote_events_le: "remote_events es \<le> length es"
  by (simp add: remote_events_def)

definition ring_frame :: "ucx_am_context \<Rightarrow> ucx_am_context \<Rightarrow> bool" where
  "ring_frame s s' \<longleftrightarrow> localQueue s' = localQueue s \<and> pendingIoQueue s' = pendingIoQueue s \<and> timers s' = timers s \<and>
     cqEntries s' = cqEntries s \<and> cqHead s' = cqHead s \<and> cqTail s' = cqTail s \<and>
     remoteQueueEventEntry s' = remoteQueueEventEntry s \<and> destroyed_ops s' = destroyed_ops s"

lemma take_cqe_ok:
  assumes "of_bool (user_data e = timer_user_data) \<le> activeTimerCount s"
  shows "\<exists>s'. take_cqe e (d, s) = Inr (d @ completed_ops [e], s') \<and> ring_frame s s' \<and>
    sqUnflushedCount s' = sqUnflushedCount s - int (remote_events [e]) \<and>
    cqPendingCount s' = cqPendingCount s + int (remote_events [e]) \<and>
    activeTimerCount s' = activeTimerCount s - timer_events [e] \<and>
    remoteQueueReadSubmitted s' = (remoteQueueReadSubmitted s \<and> remote_events [e] = 0)"
  using assms by (cases "user_data e") (auto simp: ring_frame_def Let_def)

lemma take_cqes_ok:
  assumes "timer_events es \<le> activeTimerCount s"
  shows "\<exists>s'. take_cqes es (d, s) = Inr (d @ completed_ops es, s') \<and> ring_frame s s' \<and>
    sqUnflushedCount s' = sqUnflushedCount s - int (remote_events es) \<and>
    cqPendingCount s' = cqPendingCount s + int (remote_events es) \<and>
    activeTimerCount s' = activeTimerCount s - timer_events es \<and>
    remoteQueueReadSubmitted s' = (remoteQueueReadSubmitted s \<and> remote_events es = 0)"
  using assms
proof (induction es arbitrary: d s)
  case Nil
  then show ?case by (simp add: ring_frame_def)
next
  case (Cons e es)
  obtain s1 where s1: "take_cqe e (d, s) = Inr (d @ completed_ops [e], s1)" "ring_frame s s1"
    "sqUnflushedCount s1 = sqUnflushedCount s - int (remote_events [e])"
    "cqPendingCount s1 = cqPendingCount s + int (remote_events [e])"
    "activeTimerCount s1 = activeTimerCount s - timer_events [e]"
    "remoteQueueReadSubmitted s1 = (remoteQueueReadSubmitted s \<and> remote_events [e] = 0)"
    using take_cqe_ok [of e s d] Cons.prems by (auto simp del: take_cqe.simps)
  have "timer_events es \<le> activeTimerCount s1" using Cons.prems s1(5) by simp
  from Cons.IH [OF this, of "d @ completed_ops [e]"]
  obtain s' where s': "take_cqes es (d @ completed_ops [e], s1) = Inr ((d @ completed_ops [e]) @ completed_ops es, s')"
    "ring_frame s1 s'" "sqUnflushedCount s' = sqUnflushedCount s1 - int (remote_events es)"
    "cqPendingCount s' = cqPendingCount s1 + int (remote_events es)"
    "activeTimerCount s' = activeTimerCount s1 - timer_events es"
    "remoteQueueReadSubmitted s' = (remoteQueueReadSubmitted s1 \<and> remote_events es = 0)" by blast
  have "take_cqes (e # es) (d, s) = Inr (d @ completed_ops (e # es), s')"
    using s1(1) s'(1) by (simp del: take_cqe.simps)
  moreover have "ring_frame s s'" using s1(2) s'(2) by (simp add: ring_frame_def)
  ultimately show ?case using s1(3-6) s'(3-6) by auto
qed


subsection \<open>Runs\<close>

text \<open>
  The context with the submissions that have not completed yet and the history of the ring: all entries
  posted so far and those the loop has taken.
\<close>

record ring_sys =
  ctx :: ucx_am_context
  outstanding :: "user_data list"
  posted :: "ucx_am_cqe list"
  taken :: "ucx_am_cqe list"

definition ring_start :: ring_sys where
  "ring_start = \<lparr>ctx = ucx_am_context_new, outstanding = [], posted = [], taken = []\<rparr>"

datatype ring_op =
    RSubmit nat
  | RSubmitDone nat int
  | RComplete nat int
  | RRegister "nat list"
  | RSignal bool
  | RRemote "nat list"
  | RArm "schedule_at_operation list \<Rightarrow> schedule_at_operation" int bool int
  | RFire
  | RAcquire
  | RTakeLocal

definition cqe_of :: "user_data \<Rightarrow> int \<Rightarrow> ucx_am_cqe" where
  "cqe_of u r = \<lparr>user_data = u, cqe_res = r\<rparr>"

text \<open>
  A submission that finds no room waits in \<open>pendingIoQueue_\<close>. \<open>RSubmitDone\<close> completes inside the submission;
  a timer that cannot be armed posts its completion at once; \<open>RTakeLocal\<close> is the loop taking the ready queue.
\<close>

fun ring_do :: "ring_op \<Rightarrow> ring_sys \<Rightarrow> ring_sys res" where
  "ring_do (RSubmit op) y =
     bind_res (try_submit_io (\<lambda>s. Inr (True, s)) (ctx y)) (\<lambda>(ok, s).
       Inr (if ok then y\<lparr>ctx := s, outstanding := outstanding y @ [operation_user_data op]\<rparr>
            else y\<lparr>ctx := schedule_pending_io op s\<rparr>))"
| "ring_do (RSubmitDone op r) y =
     bind_res (try_submit_io (\<lambda>s. bind_res (get_completion_queue_entry (operation_user_data op) r s) (\<lambda>s1. Inr (True, s1)))
         (ctx y)) (\<lambda>(ok, s).
       Inr (if ok then y\<lparr>ctx := s, posted := posted y @ [cqe_of (operation_user_data op) r]\<rparr>
            else y\<lparr>ctx := schedule_pending_io op s\<rparr>))"
| "ring_do (RComplete op r) y =
     bind_res (get_completion_queue_entry (operation_user_data op) r (ctx y)) (\<lambda>s.
       Inr (y\<lparr>ctx := s, outstanding := remove1 (operation_user_data op) (outstanding y),
              posted := posted y @ [cqe_of (operation_user_data op) r]\<rparr>))"
| "ring_do (RRegister queued) y =
     bind_res (try_register_remote_queue_notification queued (ctx y)) (\<lambda>(ok, s).
       Inr (y\<lparr>ctx := s\<lparr>remoteQueueReadSubmitted := ok\<rparr>\<rparr>))"
| "ring_do (RSignal was_inactive) y =
     bind_res (schedule_remote was_inactive (ctx y)) (\<lambda>s.
       Inr (y\<lparr>ctx := s, posted := posted y @
         (if was_inactive \<and> remoteQueueEventEntry (ctx y) then [cqe_of remote_queue_event_user_data 0] else [])\<rparr>))"
| "ring_do (RRemote items) y =
     bind_res (acquire_remote_queued_items items (ctx y)) (\<lambda>s. Inr (y\<lparr>ctx := s\<rparr>))"
| "ring_do (RArm first now armed due) y =
     bind_res (try_submit_timer_io first now armed due (ctx y)) (\<lambda>(ok, s).
       Inr (if \<not> ok then y\<lparr>ctx := s\<rparr>
            else if cqTail s = cqTail (ctx y) then y\<lparr>ctx := s, outstanding := outstanding y @ [timer_user_data]\<rparr>
            else y\<lparr>ctx := s, posted := posted y @ [cqe_of timer_user_data 0]\<rparr>))"
| "ring_do RFire y =
     bind_res (submit_timer_completion_queue_entry (ctx y)) (\<lambda>s.
       Inr (y\<lparr>ctx := s, outstanding := remove1 timer_user_data (outstanding y),
              posted := posted y @ [cqe_of timer_user_data 0]\<rparr>))"
| "ring_do RAcquire y =
     bind_res (acquire_completion_queue_items (ctx y)) (\<lambda>s.
       Inr (y\<lparr>ctx := s, taken := posted y\<rparr>))"
| "ring_do RTakeLocal y = Inr (y\<lparr>ctx := (ctx y)\<lparr>localQueue := []\<rparr>\<rparr>)"

fun ring_run :: "ring_op list \<Rightarrow> ring_sys \<Rightarrow> ring_sys res" where
  "ring_run [] y = Inr y"
| "ring_run (op # ops) y = bind_res (ring_do op y) (ring_run ops)"

text \<open>
  What is relied on: only submitted operations complete, only an armed timer fires; the loop registers for
  wake-up and reads the remote queue only when it is not registered; an armed timer operation still exists.
\<close>

fun ring_env :: "ring_op \<Rightarrow> ring_sys \<Rightarrow> bool" where
  "ring_env (RComplete op r) y = (operation_user_data op \<in> set (outstanding y))"
| "ring_env (RRegister queued) y = (\<not> remoteQueueReadSubmitted (ctx y))"
| "ring_env (RRemote items) y = (\<not> remoteQueueReadSubmitted (ctx y))"
| "ring_env (RArm first now armed due) y = (t_op (first (timers (ctx y))) \<notin> set (destroyed_ops (ctx y)))"
| "ring_env RFire y = (timer_user_data \<in> set (outstanding y))"
| "ring_env _ y = True"

fun ring_env_run :: "ring_op list \<Rightarrow> ring_sys \<Rightarrow> bool" where
  "ring_env_run [] y = True"
| "ring_env_run (op # ops) y = (ring_env op y \<and> (case ring_do op y of Inl f \<Rightarrow> True | Inr y' \<Rightarrow> ring_env_run ops y'))"

definition pending_timers :: "user_data list \<Rightarrow> nat" where
  "pending_timers us = count_list us timer_user_data"

definition ring_inv :: "ring_sys \<Rightarrow> bool" where
  "ring_inv y \<longleftrightarrow>
     (let s = ctx y; es = cq_ring s in
      length (cqEntries s) = 256 \<and> posted y = taken y @ es \<and>
      int (length es) = cqPendingCount s + int (remote_events es) \<and>
      sqUnflushedCount s = int (length (outstanding y)) + of_bool (remoteQueueReadSubmitted s) \<and>
      pending_operation_count s \<le> 256 \<and>
      remote_events es + of_bool (remoteQueueEventEntry s) = of_bool (remoteQueueReadSubmitted s) \<and>
      activeTimerCount s = pending_timers (outstanding y) + timer_events es)"

lemma ring_inv_bound:
  assumes "ring_inv y"
  shows "length (cq_ring (ctx y)) + length (outstanding y) \<le> 256"
    and "remoteQueueEventEntry (ctx y) \<Longrightarrow> length (cq_ring (ctx y)) + length (outstanding y) < 256"
  using assms
  by (cases "remoteQueueReadSubmitted (ctx y)"; cases "remoteQueueEventEntry (ctx y)";
      simp add: ring_inv_def Let_def pending_operation_count_def del: length_cq_ring)+


definition posts :: "user_data \<Rightarrow> int \<Rightarrow> ucx_am_context \<Rightarrow> ucx_am_context \<Rightarrow> bool" where
  "posts u r s s' \<longleftrightarrow> cq_ring s' = cq_ring s @ [cqe_of u r] \<and> length (cqEntries s') = 256 \<and>
     remoteQueueReadSubmitted s' = remoteQueueReadSubmitted s \<and> remoteQueueEventEntry s' = remoteQueueEventEntry s \<and>
     activeTimerCount s' = activeTimerCount s \<and> cqTail s' = cqTail s + 1"

lemma put_cqe_posts:
  assumes "length (cqEntries s) = 256" and "length (cq_ring s) < 256"
  shows "\<exists>s'. put_cqe u r s = Inr s' \<and> posts u r s s' \<and> sqUnflushedCount s' = sqUnflushedCount s \<and>
    cqPendingCount s' = cqPendingCount s"
  using put_cqe_ok [OF assms(1), of u r] cq_ring_put [OF assms refl, of "cqe_of u r"] assms(1)
  by (simp add: posts_def cqe_of_def)

lemma get_cqe_posts:
  assumes "length (cqEntries s) = 256" and "length (cq_ring s) < 256"
  shows "\<exists>s'. get_completion_queue_entry u r s = Inr s' \<and> posts u r s s' \<and>
    sqUnflushedCount s' = sqUnflushedCount s - 1 \<and> cqPendingCount s' = cqPendingCount s + 1"
proof -
  let ?s = "s\<lparr>sqUnflushedCount := sqUnflushedCount s - 1, cqPendingCount := cqPendingCount s + 1\<rparr>"
  have "cq_ring ?s = cq_ring s" by (rule cq_ring_cong) simp_all
  then show ?thesis
    using put_cqe_posts [of ?s u r] assms by (auto simp: get_completion_queue_entry_def posts_def)
qed

lemma pending_timers_simps [simp]:
  "pending_timers [] = 0" "pending_timers (us @ vs) = pending_timers us + pending_timers vs"
  "pending_timers (u # us) = of_bool (u = timer_user_data) + pending_timers us"
  by (simp_all add: pending_timers_def)

lemma pending_timers_remove1:
  "u \<in> set us \<Longrightarrow> pending_timers us = of_bool (u = timer_user_data) + pending_timers (remove1 u us)"
  by (induction us) auto

lemma cqe_of_simps [simp]: "user_data (cqe_of u r) = u" "cqe_res (cqe_of u r) = r"
  by (simp_all add: cqe_of_def)

lemma length_remove1_Suc: "u \<in> set us \<Longrightarrow> length us = Suc (length (remove1 u us))"
  by (induction us) auto

text \<open>A submitted operation completes.\<close>

lemma complete_inv:
  assumes "ring_inv y" and "u \<in> set (outstanding y)" and "u \<noteq> remote_queue_event_user_data"
  shows "\<exists>s. get_completion_queue_entry u r (ctx y) = Inr s \<and>
    ring_inv (y\<lparr>ctx := s, outstanding := remove1 u (outstanding y), posted := posted y @ [cqe_of u r]\<rparr>)"
proof -
  have len: "0 < length (outstanding y)" using assms(2) by auto
  then have "length (cq_ring (ctx y)) < 256" using ring_inv_bound(1) [OF assms(1)] by linarith
  then obtain s where s: "get_completion_queue_entry u r (ctx y) = Inr s" "posts u r (ctx y) s"
    "sqUnflushedCount s = sqUnflushedCount (ctx y) - 1" "cqPendingCount s = cqPendingCount (ctx y) + 1"
    using get_cqe_posts [of "ctx y" u r] assms(1) by (auto simp: ring_inv_def Let_def)
  have "int (length (remove1 u (outstanding y))) = int (length (outstanding y)) - 1"
    using length_remove1_Suc [OF assms(2)] by simp
  then have "ring_inv (y\<lparr>ctx := s, outstanding := remove1 u (outstanding y), posted := posted y @ [cqe_of u r]\<rparr>)"
    using assms s(2,3,4) pending_timers_remove1 [OF assms(2)]
    by (auto simp: ring_inv_def Let_def posts_def pending_operation_count_def simp del: length_cq_ring)
  then show ?thesis using s(1) by blast
qed

lemma submit_inv:
  assumes "ring_inv y" and "try_submit_io (\<lambda>s. Inr (True, s)) (ctx y) = Inr (True, s)"
    and "s' = s\<lparr>activeTimerCount := activeTimerCount s + of_bool (u = timer_user_data), lastTimerOp := l\<rparr>"
  shows "ring_inv (y\<lparr>ctx := s', outstanding := outstanding y @ [u]\<rparr>)"
proof -
  have s: "s = (ctx y)\<lparr>sqUnflushedCount := sqUnflushedCount (ctx y) + 1\<rparr>" "pending_operation_count (ctx y) < 256"
    using assms(2) by (auto simp: try_submit_io_def kCompletionQueueEntryCount_def split: if_splits)
  have "cq_ring s' = cq_ring (ctx y)" by (rule cq_ring_cong) (simp_all add: s(1) assms(3))
  then show ?thesis using assms(1,3) s
    by (auto simp: ring_inv_def Let_def pending_operation_count_def simp del: length_cq_ring)
qed

text \<open>An operation that completes inside its submission.\<close>

lemma submit_done_inv:
  assumes "ring_inv y" and "pending_operation_count (ctx y) < 256" and "u \<noteq> remote_queue_event_user_data"
  shows "\<exists>s. get_completion_queue_entry u r (ctx y) = Inr s \<and> cqTail s = cqTail (ctx y) + 1 \<and>
    ring_inv (y\<lparr>ctx := s\<lparr>sqUnflushedCount := sqUnflushedCount s + 1,
                        activeTimerCount := activeTimerCount s + of_bool (u = timer_user_data)\<rparr>,
               posted := posted y @ [cqe_of u r]\<rparr>)"
proof -
  have "length (cq_ring (ctx y)) < 256"
    using assms(1,2) by (cases "remoteQueueReadSubmitted (ctx y)"; cases "remoteQueueEventEntry (ctx y)")
      (simp_all add: ring_inv_def Let_def pending_operation_count_def del: length_cq_ring)
  then obtain s where s: "get_completion_queue_entry u r (ctx y) = Inr s" "posts u r (ctx y) s"
    "sqUnflushedCount s = sqUnflushedCount (ctx y) - 1" "cqPendingCount s = cqPendingCount (ctx y) + 1"
    using get_cqe_posts [of "ctx y" u r] assms(1) by (auto simp: ring_inv_def Let_def)
  let ?s = "s\<lparr>sqUnflushedCount := sqUnflushedCount s + 1, activeTimerCount := activeTimerCount s + of_bool (u = timer_user_data)\<rparr>"
  have "cq_ring ?s = cq_ring s" by (rule cq_ring_cong) simp_all
  then have "ring_inv (y\<lparr>ctx := ?s, posted := posted y @ [cqe_of u r]\<rparr>)"
    using assms s(2,3,4)
    by (auto simp: ring_inv_def Let_def posts_def pending_operation_count_def simp del: length_cq_ring)
  then show ?thesis using s(1,2) by (auto simp: posts_def)
qed


definition ring_same :: "ucx_am_context \<Rightarrow> ucx_am_context \<Rightarrow> bool" where
  "ring_same s s' \<longleftrightarrow> cqEntries s' = cqEntries s \<and> cqHead s' = cqHead s \<and> cqTail s' = cqTail s \<and>
     sqUnflushedCount s' = sqUnflushedCount s \<and> cqPendingCount s' = cqPendingCount s \<and>
     remoteQueueReadSubmitted s' = remoteQueueReadSubmitted s \<and> remoteQueueEventEntry s' = remoteQueueEventEntry s \<and>
     activeTimerCount s' = activeTimerCount s"

lemma frame_inv:
  assumes "ring_inv y" and "ring_same (ctx y) s"
  shows "ring_inv (y\<lparr>ctx := s\<rparr>)"
proof -
  have "cq_ring s = cq_ring (ctx y)" by (rule cq_ring_cong) (use assms(2) in \<open>simp_all add: ring_same_def\<close>)
  then show ?thesis using assms by (simp add: ring_inv_def Let_def pending_operation_count_def ring_same_def)
qed

lemma register_inv:
  assumes "ring_inv y" and "\<not> remoteQueueReadSubmitted (ctx y)"
  shows "\<exists>ok s. try_register_remote_queue_notification queued (ctx y) = Inr (ok, s) \<and>
    ring_inv (y\<lparr>ctx := s\<lparr>remoteQueueReadSubmitted := ok\<rparr>\<rparr>)"
proof -
  have e: "\<not> remoteQueueEventEntry (ctx y)" using assms by (simp add: ring_inv_def Let_def)
  consider (full) "\<not> can_submit_io (ctx y)" | (busy) "can_submit_io (ctx y)" "queued \<noteq> []"
    | (idle) "can_submit_io (ctx y)" "queued = []" by blast
  then show ?thesis
  proof cases
    case full
    let ?s = "(ctx y)\<lparr>remoteQueueReadSubmitted := False\<rparr>"
    have "cq_ring ?s = cq_ring (ctx y)" by (rule cq_ring_cong) simp_all
    then have "ring_inv (y\<lparr>ctx := ?s\<rparr>)" using assms by (simp add: ring_inv_def Let_def pending_operation_count_def)
    then show ?thesis using full
      by (auto simp: try_register_remote_queue_notification_def try_submit_io_def can_submit_io_def)
  next
    case busy
    let ?s = "(ctx y)\<lparr>remoteQueueEventEntry := False, localQueue := localQueue (ctx y) @ queued, remoteQueueReadSubmitted := False\<rparr>"
    have "cq_ring ?s = cq_ring (ctx y)" by (rule cq_ring_cong) simp_all
    then have "ring_inv (y\<lparr>ctx := ?s\<rparr>)" using assms e by (simp add: ring_inv_def Let_def pending_operation_count_def)
    then show ?thesis using busy
      by (auto simp: try_register_remote_queue_notification_def try_submit_io_def can_submit_io_def Let_def schedule_local_all_def
          intro!: exI [of _ False])
  next
    case idle
    let ?s = "(ctx y)\<lparr>remoteQueueEventEntry := True, sqUnflushedCount := sqUnflushedCount (ctx y) + 1, remoteQueueReadSubmitted := True\<rparr>"
    have "cq_ring ?s = cq_ring (ctx y)" by (rule cq_ring_cong) simp_all
    then have "ring_inv (y\<lparr>ctx := ?s\<rparr>)" using assms e idle(1)
      by (simp add: ring_inv_def Let_def pending_operation_count_def can_submit_io_def kCompletionQueueEntryCount_def)
    then show ?thesis using idle
      by (auto simp: try_register_remote_queue_notification_def try_submit_io_def can_submit_io_def Let_def
          intro!: exI [of _ True])
  qed
qed

lemma signal_inv:
  assumes "ring_inv y"
  shows "\<exists>s. schedule_remote was_inactive (ctx y) = Inr s \<and> ring_inv (y\<lparr>ctx := s, posted := posted y @
    (if was_inactive \<and> remoteQueueEventEntry (ctx y) then [cqe_of remote_queue_event_user_data 0] else [])\<rparr>)"
proof (cases "was_inactive \<and> remoteQueueEventEntry (ctx y)")
  case True
  then have "length (cq_ring (ctx y)) < 256" using ring_inv_bound(2) [OF assms] by linarith
  then obtain s where s: "submit_remote_queue_event (ctx y) = Inr s" "posts remote_queue_event_user_data 0 (ctx y) s"
    "sqUnflushedCount s = sqUnflushedCount (ctx y)" "cqPendingCount s = cqPendingCount (ctx y)"
    using put_cqe_posts [of "ctx y"] assms by (auto simp: ring_inv_def Let_def submit_remote_queue_event_def)
  let ?s = "s\<lparr>remoteQueueEventEntry := False\<rparr>"
  have "cq_ring ?s = cq_ring s" by (rule cq_ring_cong) simp_all
  then have "ring_inv (y\<lparr>ctx := ?s, posted := posted y @ [cqe_of remote_queue_event_user_data 0]\<rparr>)"
    using assms s(2,3,4) True
    by (auto simp: ring_inv_def Let_def posts_def pending_operation_count_def simp del: length_cq_ring)
  then show ?thesis using s(1) True by (simp add: schedule_remote_def signal_remote_queue_def)
qed (use assms in \<open>auto simp: schedule_remote_def signal_remote_queue_def\<close>)

text \<open>Taking the completions: the ring is emptied, and every operation in it is made ready, in order.\<close>

lemma acquire_inv:
  assumes "ring_inv y"
  shows "\<exists>s. acquire_completion_queue_items (ctx y) = Inr s \<and> cq_ring s = [] \<and>
    localQueue s = localQueue (ctx y) @ completed_ops (cq_ring (ctx y)) \<and>
    ring_inv (y\<lparr>ctx := s, taken := posted y\<rparr>)"
proof (cases "cqHead (ctx y) = cqTail (ctx y)")
  case True
  then have "cq_ring (ctx y) = []" by (simp add: cq_ring_empty)
  then show ?thesis using assms True by (simp add: acquire_completion_queue_items_def ring_inv_def Let_def)
next
  case False
  let ?es = "cq_ring (ctx y)"
  have "timer_events ?es \<le> activeTimerCount (ctx y)" using assms by (simp add: ring_inv_def Let_def)
  from take_cqes_ok [OF this, of "[]"]
  obtain s where s: "take_cqes ?es ([], ctx y) = Inr (completed_ops ?es, s)" "ring_frame (ctx y) s"
    "sqUnflushedCount s = sqUnflushedCount (ctx y) - int (remote_events ?es)"
    "cqPendingCount s = cqPendingCount (ctx y) + int (remote_events ?es)"
    "activeTimerCount s = activeTimerCount (ctx y) - timer_events ?es"
    "remoteQueueReadSubmitted s = (remoteQueueReadSubmitted (ctx y) \<and> remote_events ?es = 0)" by auto
  let ?s = "s\<lparr>localQueue := localQueue s @ completed_ops ?es, cqHead := cqTail (ctx y),
              cqPendingCount := cqPendingCount s - int (length ?es)\<rparr>"
  have "length ?es \<le> 256" using ring_inv_bound(1) [OF assms] by linarith
  then have run: "acquire_completion_queue_items (ctx y) = Inr ?s"
    using False s(1) by (simp add: acquire_completion_queue_items_def Let_def kCompletionQueueEntryCount_def schedule_local_all_def)
  have empty: "cq_ring ?s = []" using s(2) by (simp add: cq_ring_empty ring_frame_def)
  have e: "remoteQueueEventEntry s = remoteQueueEventEntry (ctx y)" "length (cqEntries s) = length (cqEntries (ctx y))"
    using s(2) by (simp_all add: ring_frame_def)
  have "ring_inv (y\<lparr>ctx := ?s, taken := posted y\<rparr>)"
    using assms s(3,4,5,6) empty e
    by (cases "remoteQueueReadSubmitted (ctx y)"; cases "remoteQueueEventEntry (ctx y)")
      (auto simp: ring_inv_def Let_def pending_operation_count_def simp del: length_cq_ring)
  then show ?thesis using run empty s(2) by (simp add: ring_frame_def)
qed


text \<open>Submitting a timer: it is armed and outstanding, or its completion is posted at once.\<close>

lemma arm_inv:
  assumes "ring_inv y" and "t_op (first (timers (ctx y))) \<notin> set (destroyed_ops (ctx y))"
  shows "\<exists>y'. ring_do (RArm first now armed due) y = Inr y' \<and> ring_inv y'"
proof -
  let ?op = "t_op (first (timers (ctx y)))"
  let ?s1 = "(ctx y)\<lparr>lastTimerOp := Some ?op\<rparr>"
  let ?s2 = "?s1\<lparr>cq_entry_ref := (cq_entry_ref ?s1)(?op \<mapsto> cq_index (cqTail ?s1))\<rparr>"
  let ?late = "no_time_left now due"
  consider (full) "\<not> can_submit_io (ctx y)" | (armed) "can_submit_io (ctx y)" "\<not> ?late" "armed"
    | (now) "can_submit_io (ctx y)" "?late \<or> \<not> armed" by blast
  then show ?thesis
  proof cases
    case full
    then show ?thesis using assms(1) by (auto simp: try_submit_timer_io_def try_submit_io_def can_submit_io_def)
  next
    case armed
    let ?s = "?s1\<lparr>sqUnflushedCount := sqUnflushedCount (ctx y) + 1, activeTimerCount := activeTimerCount (ctx y) + 1\<rparr>"
    have "try_submit_io (\<lambda>s. Inr (True, s)) (ctx y) = Inr (True, (ctx y)\<lparr>sqUnflushedCount := sqUnflushedCount (ctx y) + 1\<rparr>)"
      using armed(1) by (simp add: try_submit_io_def can_submit_io_def)
    then have "ring_inv (y\<lparr>ctx := ?s, outstanding := outstanding y @ [timer_user_data]\<rparr>)"
      by (rule submit_inv [OF assms(1), where l = "Some ?op"]) simp
    moreover have "try_submit_timer_io first now armed due (ctx y) = Inr (True, ?s)"
      using armed by (simp add: try_submit_timer_io_def try_submit_io_def can_submit_io_def Let_def)
    ultimately show ?thesis by simp
  next
    case now
    let ?s' = "if ?late then ?s2 else ?s1"
    have "ring_inv (y\<lparr>ctx := ?s'\<rparr>)" by (rule frame_inv [OF assms(1)]) (simp add: ring_same_def)
    moreover have "pending_operation_count ?s' < 256"
      using now(1) by (simp add: can_submit_io_def pending_operation_count_def kCompletionQueueEntryCount_def)
    ultimately obtain s where s: "get_completion_queue_entry timer_user_data 0 ?s' = Inr s" "cqTail s = cqTail (ctx y) + 1"
      "ring_inv (y\<lparr>ctx := s\<lparr>sqUnflushedCount := sqUnflushedCount s + 1, activeTimerCount := activeTimerCount s + 1\<rparr>,
               posted := posted y @ [cqe_of timer_user_data 0]\<rparr>)"
      using submit_done_inv [of "y\<lparr>ctx := ?s'\<rparr>" timer_user_data 0] by auto
    have "try_submit_timer_io first now armed due (ctx y) =
        Inr (True, s\<lparr>sqUnflushedCount := sqUnflushedCount s + 1, activeTimerCount := activeTimerCount s + 1\<rparr>)"
      using now s(1) assms(2)
      by (auto simp: try_submit_timer_io_def try_submit_io_def can_submit_io_def Let_def
          timer_op_access_def submit_timer_completion_queue_entry_def)
    then show ?thesis using s(2,3) by simp
  qed
qed

lemma ring_do_inv:
  assumes "ring_inv y" and "ring_env op y"
  shows "\<exists>y'. ring_do op y = Inr y' \<and> ring_inv y'"
proof (cases op)
  case (RSubmit x)
  show ?thesis
  proof (cases "can_submit_io (ctx y)")
    case True
    let ?s = "(ctx y)\<lparr>sqUnflushedCount := sqUnflushedCount (ctx y) + 1\<rparr>"
    have t: "try_submit_io (\<lambda>s. Inr (True, s)) (ctx y) = Inr (True, ?s)"
      using True by (simp add: try_submit_io_def can_submit_io_def)
    have "ring_inv (y\<lparr>ctx := ?s, outstanding := outstanding y @ [operation_user_data x]\<rparr>)"
      by (rule submit_inv [OF assms(1) t, where l = "lastTimerOp (ctx y)"]) simp
    then show ?thesis using RSubmit t by simp
  next
    case False
    then have t: "try_submit_io (\<lambda>s. Inr (True, s)) (ctx y) = Inr (False, ctx y)"
      by (auto simp: try_submit_io_def can_submit_io_def)
    have "ring_inv (y\<lparr>ctx := schedule_pending_io x (ctx y)\<rparr>)"
      by (rule frame_inv [OF assms(1)]) (simp add: ring_same_def schedule_pending_io_def)
    then show ?thesis using RSubmit t by simp
  qed
next
  case (RSubmitDone x r)
  show ?thesis
  proof (cases "can_submit_io (ctx y)")
    case True
    then have "pending_operation_count (ctx y) < 256" by (simp add: can_submit_io_def kCompletionQueueEntryCount_def)
    from submit_done_inv [OF assms(1) this, of "operation_user_data x" r]
    obtain s where s: "get_completion_queue_entry (operation_user_data x) r (ctx y) = Inr s"
      "ring_inv (y\<lparr>ctx := s\<lparr>sqUnflushedCount := sqUnflushedCount s + 1\<rparr>, posted := posted y @ [cqe_of (operation_user_data x) r]\<rparr>)"
      by auto
    then show ?thesis using RSubmitDone True by (simp add: try_submit_io_def can_submit_io_def)
  next
    case False
    have "ring_inv (y\<lparr>ctx := schedule_pending_io x (ctx y)\<rparr>)"
      by (rule frame_inv [OF assms(1)]) (simp add: ring_same_def schedule_pending_io_def)
    then show ?thesis using RSubmitDone False by (auto simp: try_submit_io_def can_submit_io_def)
  qed
next
  case (RComplete x r)
  then show ?thesis using complete_inv [OF assms(1), of "operation_user_data x" r] assms(2) by auto
next
  case (RRegister queued)
  then show ?thesis using register_inv [OF assms(1), of queued] assms(2) by auto
next
  case (RSignal b)
  then show ?thesis using signal_inv [OF assms(1), of b] by auto
next
  case (RRemote items)
  have "ring_inv (y\<lparr>ctx := schedule_local_all items (ctx y)\<rparr>)"
    by (rule frame_inv [OF assms(1)]) (simp add: ring_same_def schedule_local_all_def)
  then show ?thesis using RRemote assms(2) by (simp add: acquire_remote_queued_items_def)
next
  case (RArm first now armed due)
  then show ?thesis using arm_inv [OF assms(1)] assms(2) by simp
next
  case RFire
  then show ?thesis using complete_inv [OF assms(1), of timer_user_data 0] assms(2)
    by (auto simp: submit_timer_completion_queue_entry_def)
next
  case RAcquire
  then show ?thesis using acquire_inv [OF assms(1)] by auto
next
  case RTakeLocal
  have "ring_inv (y\<lparr>ctx := (ctx y)\<lparr>localQueue := []\<rparr>\<rparr>)"
    by (rule frame_inv [OF assms(1)]) (simp add: ring_same_def)
  then show ?thesis using RTakeLocal by simp
qed

lemma ring_run_inv:
  "ring_inv y \<Longrightarrow> ring_env_run ops y \<Longrightarrow> \<exists>y'. ring_run ops y = Inr y' \<and> ring_inv y'"
proof (induction ops arbitrary: y)
  case (Cons op ops)
  then show ?case using ring_do_inv [of y op] by fastforce
qed simp

lemma ring_start_inv: "ring_inv ring_start"
  by (simp add: ring_start_def ring_inv_def Let_def ucx_am_context_new_def cq_ring_def kCompletionQueueEntryCount_def
      pending_operation_count_def)





subsection \<open>Two writers of the ring\<close>

text \<open>
  The I/O thread posts completions (\<open>get_completion_queue_entry\<close>: load the tail, store the tail, then the
  callback writes the entry) while a remote thread runs \<open>signal_remote_queue\<close> (load the flag, load the tail,
  write the entry, store the tail, clear the flag). The steps of the two threads interleave.
\<close>

datatype io_pc = IoLoad | IoStoreTail u32 | IoWrite nat | IoDone

datatype signal_pc = SigFlag | SigLoad | SigWrite u32 | SigStoreTail u32 | SigClear | SigDone

fun io_micro :: "ucx_am_cqe \<Rightarrow> io_pc \<Rightarrow> ucx_am_context \<Rightarrow> io_pc \<times> ucx_am_context" where
  "io_micro e IoLoad s =
     (IoStoreTail (cqTail s), s\<lparr>sqUnflushedCount := sqUnflushedCount s - 1, cqPendingCount := cqPendingCount s + 1\<rparr>)"
| "io_micro e (IoStoreTail t) s = (IoWrite (cq_index t), s\<lparr>cqTail := t + 1\<rparr>)"
| "io_micro e (IoWrite i) s = (IoDone, s\<lparr>cqEntries := (cqEntries s)[i := e]\<rparr>)"
| "io_micro e IoDone s = (IoDone, s)"

fun signal_micro :: "signal_pc \<Rightarrow> ucx_am_context \<Rightarrow> signal_pc \<times> ucx_am_context" where
  "signal_micro SigFlag s = (if remoteQueueEventEntry s then SigLoad else SigDone, s)"
| "signal_micro SigLoad s = (SigWrite (cqTail s), s)"
| "signal_micro (SigWrite t) s =
     (SigStoreTail t, s\<lparr>cqEntries := (cqEntries s)[cq_index t := cqe_of remote_queue_event_user_data 0]\<rparr>)"
| "signal_micro (SigStoreTail t) s = (SigClear, s\<lparr>cqTail := t + 1\<rparr>)"
| "signal_micro SigClear s = (SigDone, s\<lparr>remoteQueueEventEntry := False\<rparr>)"
| "signal_micro SigDone s = (SigDone, s)"

text \<open>A schedule says for each step whether the I/O thread takes it.\<close>

fun writers_run :: "bool list \<Rightarrow> ucx_am_cqe \<Rightarrow> io_pc \<Rightarrow> signal_pc \<Rightarrow> ucx_am_context \<Rightarrow> io_pc \<times> signal_pc \<times> ucx_am_context" where
  "writers_run [] e p q s = (p, q, s)"
| "writers_run (True # bs) e p q s = (case io_micro e p s of (p', s') \<Rightarrow> writers_run bs e p' q s')"
| "writers_run (False # bs) e p q s = (case signal_micro q s of (q', s') \<Rightarrow> writers_run bs e p q' s')"

lemma writers_sequential:
  assumes "cq_index (cqTail s) < length (cqEntries s)" and "remoteQueueEventEntry s"
  shows "get_completion_queue_entry u r s = Inr (snd (snd (writers_run (replicate 3 True) (cqe_of u r) IoLoad SigDone s)))"
    and "signal_remote_queue s = Inr (snd (snd (writers_run (replicate 5 False) e IoDone SigFlag s)))"
  using assms
  by (simp_all add: get_completion_queue_entry_def put_cqe_def numeral_eq_Suc cqe_of_def signal_remote_queue_def
      submit_remote_queue_event_def)

definition registered :: ucx_am_context where
  "registered = (case ring_run [RSubmit 1, RRegister []] ring_start of Inl f \<Rightarrow> ucx_am_context_new | Inr y \<Rightarrow> ctx y)"

text \<open>
  The tail of the ring is loaded and stored in separate steps by two threads. When a remote thread's
  wake-up and a completion interleave, both claim the same entry and the tail advances once: in one
  interleaving the wake-up is lost while the loop stays registered for it, so it will not read the remote
  queue again; in another the completion of operation 1 is lost.
\<close>

theorem concurrent_posts_lose_entries:
  "\<exists>sched s. writers_run sched (cqe_of (operation_user_data 1) 0) IoLoad SigFlag registered = (IoDone, SigDone, s) \<and>
     cq_ring s = [cqe_of (operation_user_data 1) 0] \<and> remoteQueueReadSubmitted s \<and> \<not> remoteQueueEventEntry s \<and>
     (\<exists>s'. acquire_completion_queue_items s = Inr s' \<and> remoteQueueReadSubmitted s') \<and>
   (\<exists>sched' s''. writers_run sched' (cqe_of (operation_user_data 1) 0) IoLoad SigFlag registered = (IoDone, SigDone, s'') \<and>
     completed_ops (cq_ring s'') = [])"
proof -
  let ?run = "\<lambda>bs. writers_run bs (cqe_of (operation_user_data 1) 0) IoLoad SigFlag registered"
  let ?a = "[False, False, True, False, False, False, True, True]"
  let ?b = "[False, False, True, True, True, False, False, False]"
  obtain p q s where a: "?run ?a = (p, q, s)" by (cases "?run ?a")
  obtain p' q' s'' where b: "?run ?b = (p', q', s'')" by (cases "?run ?b")
  have "case ?run ?a of (p, q, s) \<Rightarrow> p = IoDone \<and> q = SigDone \<and>
     cq_ring s = [cqe_of (operation_user_data 1) 0] \<and> remoteQueueReadSubmitted s \<and> \<not> remoteQueueEventEntry s \<and>
     (case acquire_completion_queue_items s of Inl f \<Rightarrow> False | Inr s' \<Rightarrow> remoteQueueReadSubmitted s')" by code_simp
  then have ra: "p = IoDone" "q = SigDone" "cq_ring s = [cqe_of (operation_user_data 1) 0]" "remoteQueueReadSubmitted s"
    "\<not> remoteQueueEventEntry s" "\<exists>s'. acquire_completion_queue_items s = Inr s' \<and> remoteQueueReadSubmitted s'"
    unfolding a by (auto split: sum.splits)
  have "case ?run ?b of (p, q, s) \<Rightarrow> p = IoDone \<and> q = SigDone \<and> completed_ops (cq_ring s) = []" by code_simp
  then have rb: "p' = IoDone" "q' = SigDone" "completed_ops (cq_ring s'') = []" unfolding b by auto
  show ?thesis using a b ra rb by metis
qed

end
