(* ===== verification/Event_Timers.thy ===== *)
theory Event_Timers
  imports Completion_Ring "HOL-Library.Multiset"
begin

text \<open>
  The timers of the event loop: which operations \<open>update_timers\<close> makes ready, and what happens to the armed
  operating-system timer when its operation is cancelled.
\<close>

subsection \<open>Reaping elapsed timers\<close>

definition due_op :: "int \<Rightarrow> schedule_at_operation \<Rightarrow> bool" where
  "due_op now t \<longleftrightarrow> dueTime t \<le> now \<and> \<not> (canBeCancelled t \<and> cancel_pending t)"

lemma remove_op_mset:
  "distinct (map t_op ts) \<Longrightarrow> x \<in> set ts \<Longrightarrow> mset ts = add_mset x (mset (filter (\<lambda>t. t_op t \<noteq> t_op x) ts))"
proof (induction ts)
  case (Cons t ts)
  show ?case
  proof (cases "x = t")
    case True
    then have "filter (\<lambda>u. t_op u \<noteq> t_op x) ts = ts"
      using Cons.prems(1) by (auto intro!: filter_True intro: rev_image_eqI)
    then show ?thesis using True by (simp del: mset_filter)
  next
    case False
    then have "t_op t \<noteq> t_op x" using Cons.prems by force
    then show ?thesis using Cons False by (auto simp del: mset_filter)
  qed
qed simp

text \<open>What is relied on of \<open>unifex::intrusive_heap\<close>: its top is one of its earliest elements.\<close>

locale earliest_first =
  fixes first :: "schedule_at_operation list \<Rightarrow> schedule_at_operation"
  assumes first_mem: "ts \<noteq> [] \<Longrightarrow> first ts \<in> set ts"
    and first_min: "t \<in> set ts \<Longrightarrow> dueTime (first ts) \<le> dueTime t"
begin

lemma reap_timers_spec:
  assumes "distinct (map t_op (timers s))" and "length (timers s) \<le> n"
  shows "\<exists>ts. localQueue (reap_timers first now n s) = localQueue s @ map t_op ts \<and>
    mset ts = mset (filter (due_op now) (timers s)) \<and> sorted (map dueTime ts) \<and>
    timers (reap_timers first now n s) = filter (\<lambda>t. now < dueTime t) (timers s)"
  using assms
proof (induction n arbitrary: s)
  case (Suc n)
  let ?item = "first (timers s)"
  show ?case
  proof (cases "timers s = [] \<or> now < dueTime ?item")
    case True
    then have late: "now < dueTime t" if "t \<in> set (timers s)" for t using first_min [OF that] that by auto
    then have "filter (due_op now) (timers s) = []" "filter (\<lambda>t. now < dueTime t) (timers s) = timers s"
      by (force simp: due_op_def filter_empty_conv filter_id_conv)+
    moreover have "reap_timers first now (Suc n) s = s" using True by auto
    ultimately show ?thesis by (intro exI [of _ "[]"]) (simp del: mset_filter)
  next
    case False
    then have item: "?item \<in> set (timers s)" "\<not> now < dueTime ?item" using first_mem by auto
    let ?ts = "filter (\<lambda>t. t_op t \<noteq> t_op ?item) (timers s)"
    let ?s = "s\<lparr>timers := ?ts, elapsed_ops := (if canBeCancelled ?item then elapsed_ops s @ [t_op ?item] else elapsed_ops s)\<rparr>"
    let ?s1 = "if canBeCancelled ?item \<and> cancel_pending ?item then ?s else schedule_local (t_op ?item) ?s"
    have ms: "mset (timers s) = add_mset ?item (mset ?ts)" by (rule remove_op_mset [OF Suc.prems(1) item(1)])
    have step: "reap_timers first now (Suc n) s = reap_timers first now n ?s1" using False by (simp add: Let_def)
    have t1: "timers ?s1 = ?ts" by (simp add: schedule_local_def)
    have l1: "localQueue ?s1 = localQueue s @ (if canBeCancelled ?item \<and> cancel_pending ?item then [] else [t_op ?item])"
      by (simp add: schedule_local_def)
    have "size (mset (timers s)) = Suc (size (mset ?ts))" unfolding ms by simp
    then have len: "length ?ts \<le> n" using Suc.prems(2) by (simp del: mset_filter)
    have dist: "distinct (map t_op ?ts)" using Suc.prems(1) by (simp add: distinct_map_filter)
    obtain ts where ts: "localQueue (reap_timers first now n ?s1) = localQueue ?s1 @ map t_op ts"
      "mset ts = mset (filter (due_op now) ?ts)" "sorted (map dueTime ts)"
      "timers (reap_timers first now n ?s1) = filter (\<lambda>t. now < dueTime t) ?ts"
      using Suc.IH [of ?s1] dist len unfolding t1 by blast
    have rest: "filter (\<lambda>t. now < dueTime t) ?ts = filter (\<lambda>t. now < dueTime t) (timers s)"
    proof -
      have "x = ?item" if "x \<in> set (timers s)" "t_op x = t_op ?item" for x
        using Suc.prems(1) that item(1) by (auto simp: distinct_map dest: inj_onD)
      then show ?thesis using item(2) by (auto simp: filter_filter intro!: filter_cong)
    qed
    let ?us = "if canBeCancelled ?item \<and> cancel_pending ?item then ts else ?item # ts"
    have "mset (filter (due_op now) (timers s)) = filter_mset (due_op now) (add_mset ?item (mset ?ts))"
      by (subst mset_filter) (simp only: ms)
    also have "\<dots> = mset ?us"
    proof -
      have "filter_mset (due_op now) (mset ?ts) = mset ts" using ts(2) by (simp only: mset_filter)
      moreover have "due_op now ?item = (\<not> (canBeCancelled ?item \<and> cancel_pending ?item))"
        using item(2) by (simp add: due_op_def)
      ultimately show ?thesis by (simp del: mset_filter)
    qed
    finally have "mset ?us = mset (filter (due_op now) (timers s))" by (rule sym)
    moreover have "set ts \<subseteq> set (timers s)" using ts(2) by (metis filter_is_subset set_mset_mset subset_trans)
    then have "sorted (map dueTime ?us)" using ts(3) first_min by auto
    ultimately show ?thesis using ts(1,4) step l1 rest by (intro exI [of _ ?us]) (simp del: mset_filter)
  qed
qed (simp)

end

text \<open>A choice the heap may make: the first of the earliest timers.\<close>

fun earliest :: "schedule_at_operation list \<Rightarrow> schedule_at_operation" where
  "earliest [] = \<lparr>t_op = 0, dueTime = 0, canBeCancelled = False, cancel_pending = False\<rparr>"
| "earliest [t] = t"
| "earliest (t # ts) = (if dueTime t \<le> dueTime (earliest ts) then t else earliest ts)"

interpretation eh: earliest_first earliest
proof
  show "earliest ts \<in> set ts" if "ts \<noteq> []" for ts
    using that by (induction ts rule: earliest.induct) auto
  show "dueTime (earliest ts) \<le> dueTime t" if "t \<in> set ts" for t ts
    using that by (induction ts rule: earliest.induct) force+
qed


subsection \<open>Updating the timers\<close>

definition queues_same :: "ucx_am_context \<Rightarrow> ucx_am_context \<Rightarrow> bool" where
  "queues_same s s' \<longleftrightarrow> localQueue s' = localQueue s \<and> timers s' = timers s"

lemma put_cqe_queues: "put_cqe u r s = Inr s' \<Longrightarrow> queues_same s s'"
  by (auto simp: put_cqe_def queues_same_def split: if_splits)

lemma get_cqe_queues: "get_completion_queue_entry u r s = Inr s' \<Longrightarrow> queues_same s s'"
  by (auto simp: get_completion_queue_entry_def queues_same_def dest!: put_cqe_queues)

lemma submit_queues:
  assumes "try_submit_io populate s = Inr (ok, s')" and "\<And>b s1. populate s = Inr (b, s1) \<Longrightarrow> queues_same s s1"
  shows "queues_same s s'"
proof (cases "populate s")
  case (Inl f)
  then show ?thesis using assms(1) by (simp add: try_submit_io_def queues_same_def split: if_splits)
next
  case (Inr p)
  obtain b s1 where p: "p = (b, s1)" by (cases p)
  then show ?thesis using assms(1) assms(2) [of b s1] Inr by (auto simp: try_submit_io_def queues_same_def split: if_splits)
qed

lemma cancel_queues: "try_submit_timer_io_cancel s = Inr (ok, s') \<Longrightarrow> queues_same s s'"
  unfolding try_submit_timer_io_cancel_def
proof (erule submit_queues)
  fix b s2
  assume run: "bind_res (submit_timer_completion_queue_entry s) (\<lambda>s1.
         let s2 = s1\<lparr>timerDeleted := True\<rparr> in
         case lastTimerOp s2 of
           None \<Rightarrow> Inr (True, s2)
         | Some op \<Rightarrow>
             bind_res (timer_op_access op s2) (\<lambda>s3.
               case cq_entry_ref s3 op of
                 None \<Rightarrow> Inr (True, s3\<lparr>lastTimerOp := None\<rparr>)
               | Some i \<Rightarrow>
                   if i < length (cqEntries s3)
                   then Inr (True, s3\<lparr>cqEntries := (cqEntries s3)[i := (cqEntries s3 ! i)\<lparr>cqe_res := ECANCELED\<rparr>],
                                      lastTimerOp := None\<rparr>)
                   else Inl OutOfBounds)) = Inr (b, s2)"
  then obtain s1 where s1: "get_completion_queue_entry timer_user_data 0 s = Inr s1"
    by (auto simp: bind_res_Inr_iff submit_timer_completion_queue_entry_def)
  have "queues_same s1 s2"
  proof (cases "lastTimerOp s1")
    case None
    then show ?thesis using run s1 by (auto simp: submit_timer_completion_queue_entry_def queues_same_def)
  next
    case (Some op)
    then show ?thesis using run s1
      by (cases "cq_entry_ref s1 op"; cases "op \<in> set (destroyed_ops s1)")
        (auto simp: submit_timer_completion_queue_entry_def timer_op_access_def queues_same_def Let_def split: if_splits)
  qed
  then show "queues_same s s2" using get_cqe_queues [OF s1] by (simp add: queues_same_def)
qed

lemma arm_queues: "try_submit_timer_io first now armed due s = Inr (ok, s') \<Longrightarrow> queues_same s s'"
proof -
  assume "try_submit_timer_io first now armed due s = Inr (ok, s')"
  then obtain s1 where s1: "queues_same s1 s'" and
    sub: "try_submit_io (\<lambda>s. let op = t_op (first (timers s)); s1 = s\<lparr>lastTimerOp := Some op\<rparr>
         in if no_time_left now due then
              bind_res (timer_op_access op s1) (\<lambda>s2.
              bind_res (get_completion_queue_entry timer_user_data 0
                  (s2\<lparr>cq_entry_ref := (cq_entry_ref s2)(op \<mapsto> cq_index (cqTail s2))\<rparr>)) (\<lambda>s3. Inr (True, s3)))
            else if \<not> armed then bind_res (submit_timer_completion_queue_entry s1) (\<lambda>s2. Inr (True, s2))
            else Inr (True, s1)) s = Inr (ok, s1)"
    unfolding try_submit_timer_io_def bind_res_Inr_iff by (auto simp: queues_same_def split: if_splits)
  from sub have "queues_same s s1"
    by (rule submit_queues)
      (auto simp: bind_res_Inr_iff submit_timer_completion_queue_entry_def timer_op_access_def queues_same_def Let_def
        dest!: get_cqe_queues split: if_splits)
  then show ?thesis using s1 by (simp add: queues_same_def)
qed

lemma update_timers_reaps:
  assumes "update_timers first now now' armed s = Inr s'"
  shows "queues_same (reap_timers first now (length (timers s)) s) s'"
  using assms
  by (auto simp: update_timers_def Let_def bind_res_Inr_iff queues_same_def
      dest!: cancel_queues arm_queues split: if_splits option.splits)

text \<open>
  C31. Timers fire when they are due, in order, and never early. When \<open>update_timers\<close> succeeds at time \<open>now\<close> it
  appends to the ready queue exactly the operations whose due time has passed and that no other thread is
  cancelling, ordered by due time, and keeps exactly the timers that are due later, whichever of several
  equally early timers the heap has at its top.
\<close>

theorem timers_fire_when_due:
  assumes "\<forall>ts. ts \<noteq> [] \<longrightarrow> first ts \<in> set ts" and "\<forall>ts. \<forall>t \<in> set ts. dueTime (first ts) \<le> dueTime t"
    and "distinct (map t_op (timers s))" and "update_timers first now now' armed s = Inr s'"
  shows "\<exists>ts. localQueue s' = localQueue s @ map t_op ts \<and> mset ts = mset (filter (due_op now) (timers s)) \<and>
    sorted (map dueTime ts) \<and> timers s' = filter (\<lambda>t. now < dueTime t) (timers s)"
proof -
  have "earliest_first first" using assms(1,2) by unfold_locales auto
  then show ?thesis
    using earliest_first.reap_timers_spec [of first s "length (timers s)" now] assms(3) update_timers_reaps [OF assms(4)]
    by (simp add: queues_same_def)
qed

definition timer :: "nat \<Rightarrow> int \<Rightarrow> schedule_at_operation" where
  "timer op due = \<lparr>t_op = op, dueTime = due, canBeCancelled = True, cancel_pending = False\<rparr>"

theorem timers_fire_when_due_witness:
  "\<exists>s' ts. update_timers earliest 50 51 True (ucx_am_context_new\<lparr>timers := [timer 1 90, timer 2 40, timer 3 30]\<rparr>) = Inr s' \<and>
    localQueue s' = map t_op ts \<and> mset ts = mset [timer 2 40, timer 3 30] \<and> sorted (map dueTime ts)"
proof -
  let ?s = "ucx_am_context_new\<lparr>timers := [timer 1 90, timer 2 40, timer 3 30]\<rparr>"
  have "case update_timers earliest 50 51 True ?s of Inl f \<Rightarrow> False | Inr s' \<Rightarrow> True" by code_simp
  then obtain s' where s': "update_timers earliest 50 51 True ?s = Inr s'" by (auto split: sum.splits)
  have d: "distinct (map t_op (timers ?s))" by (simp add: timer_def)
  have h: "\<forall>ts. ts \<noteq> [] \<longrightarrow> earliest ts \<in> set ts" "\<forall>ts. \<forall>t \<in> set ts. dueTime (earliest ts) \<le> dueTime t"
    using eh.first_mem eh.first_min by blast+
  from timers_fire_when_due [OF h d s'] show ?thesis using s'
    by (auto simp: due_op_def timer_def ucx_am_context_new_def)
qed

subsection \<open>Cancelling the armed timer\<close>

text \<open>
  A timer is armed; another thread stops its operation; the I/O thread removes it from the heap and delivers
  the result, after which the operation is gone; then the loop updates its timers.
\<close>

definition stop_armed_timer ::
  "(schedule_at_operation list \<Rightarrow> schedule_at_operation) \<Rightarrow> schedule_at_operation \<Rightarrow> int \<Rightarrow> int \<Rightarrow> ucx_am_context \<Rightarrow>
   ucx_am_context res" where
  "stop_armed_timer first t now now2 s =
     bind_res (update_timers first now now True (schedule_at_impl first t s)) (\<lambda>s1.
     bind_res (request_stop_remote False (t_op t) s1) (\<lambda>s2.
     bind_res (remove_timer_from_queue_and_complete_with_done first (t_op t) s2) (\<lambda>s3.
       update_timers first now2 now2 True s3)))"

lemma no_time_left_late: "\<not> no_time_left now due \<Longrightarrow> now < due"
  by (auto simp: no_time_left_def Let_def split: if_splits)


lemma arm_single:
  assumes "first [t] = t" and "\<not> no_time_left now (dueTime t)"
  shows "update_timers first now now True (schedule_at_impl first t ucx_am_context_new) =
    Inr (ucx_am_context_new\<lparr>timers := [t], lastTimerOp := Some (t_op t), sqUnflushedCount := 1, activeTimerCount := 1,
           currentDueTime := Some (dueTime t), timersAreDirty := False\<rparr>)"
  using assms no_time_left_late [OF assms(2)]
  by (simp add: update_timers_def schedule_at_impl_def Let_def ucx_am_context_new_def try_submit_timer_io_def
      try_submit_io_def pending_operation_count_def kCompletionQueueEntryCount_def)

text \<open>
  Stopping an armed timer from another thread makes the loop use a destroyed operation. The loop keeps a
  pointer to the operation whose timer was armed last; when that operation is stopped remotely its result is
  delivered, the client destroys it, and the next \<open>update_timers\<close>, finding no timer left, cancels the armed
  timer through the stale pointer.
\<close>

theorem stopped_timer_use_after_free:
  assumes "\<forall>ts. ts \<noteq> [] \<longrightarrow> first ts \<in> set ts" and "\<not> no_time_left now (dueTime t)"
  shows "stop_armed_timer first t now now2 ucx_am_context_new = Inl UseAfterFree"
proof -
  have first: "first [u] = u" for u using assms(1) by fastforce
  let ?s = "ucx_am_context_new\<lparr>timers := [], lastTimerOp := Some (t_op t), sqUnflushedCount := 1, activeTimerCount := 1,
           currentDueTime := Some (dueTime t), timersAreDirty := True, destroyed_ops := [t_op t]\<rparr>"
  have len: "length (cqEntries ?s) = 256" by (simp add: ucx_am_context_new_def kCompletionQueueEntryCount_def)
  have "update_timers first now2 now2 True ?s = Inl UseAfterFree"
    using len put_cqe_ok [of "?s\<lparr>sqUnflushedCount := 0, cqPendingCount := 1\<rparr>" timer_user_data 0]
    by (simp add: update_timers_def try_submit_timer_io_cancel_def try_submit_io_def pending_operation_count_def
        kCompletionQueueEntryCount_def submit_timer_completion_queue_entry_def get_completion_queue_entry_def Let_def
        timer_op_access_def ucx_am_context_new_def)
  moreover have "bind_res (update_timers first now now True (schedule_at_impl first t ucx_am_context_new)) (\<lambda>s1.
      bind_res (request_stop_remote False (t_op t) s1) (remove_timer_from_queue_and_complete_with_done first (t_op t))) = Inr ?s"
    using arm_single [of first t, OF first assms(2)] first
    by (simp add: request_stop_remote_def schedule_remote_def remove_timer_from_queue_and_complete_with_done_def
        remove_timer_def complete_timer_op_def ucx_am_context_new_def Let_def)
  ultimately show ?thesis
    using arm_single [of first t, OF first assms(2)] by (auto simp: stop_armed_timer_def bind_res_def split: sum.splits)
qed

theorem stopped_timer_use_after_free_witness:
  "stop_armed_timer earliest (timer 1 5000000001) 0 10 ucx_am_context_new = Inl UseAfterFree"
proof -
  have "\<not> no_time_left 0 (dueTime (timer 1 5000000001))" by (simp add: no_time_left_def timer_def)
  moreover have "\<forall>ts. ts \<noteq> [] \<longrightarrow> earliest ts \<in> set ts" using eh.first_mem by blast
  ultimately show ?thesis using stopped_timer_use_after_free [of earliest 0 "timer 1 5000000001" 10] by blast
qed

text \<open>
  Cancelling an armed timer posts one completion for two submissions, the timer's and the cancellation's, and
  deletes the operating-system timer, which is never created again: one submission stays counted for ever.
\<close>

lemma timer_cancel_counts:
  assumes "try_submit_timer_io_cancel s = Inr (True, s')"
  shows "sqUnflushedCount s' = sqUnflushedCount s \<and> cqPendingCount s' = cqPendingCount s + 1 \<and> timerDeleted s'"
  using assms
  by (cases "lastTimerOp s"; cases "cq_index (cqTail s) < length (cqEntries s)")
    (auto simp: try_submit_timer_io_cancel_def try_submit_io_def submit_timer_completion_queue_entry_def
      get_completion_queue_entry_def put_cqe_def timer_op_access_def Let_def split: if_splits option.splits)

text \<open>A due time a whole number of seconds away counts as elapsed: the timer is not armed, its completion is posted at once.\<close>

lemma whole_seconds_not_armed: "0 \<le> n \<Longrightarrow> no_time_left now (now + n * 1000000000)"
  by (simp add: no_time_left_def Let_def)

end
