(* ===== verification/Ucx_Memory.thy ===== *)
theory Ucx_Memory
  imports Rpc_Types
begin

text \<open>
  The memory resource manager of \<open>ucx_context/ucx_memory_resource.{hpp,cpp}\<close>: one memory resource per
  memory type, one copy function per pair of types, and the allocations made through them.

  A memory resource is a number. The heap maps a block number to the resource that the block came from and
  to its bytes; a pointer is null or a block with an offset. Giving a block back to a resource it did not
  come from, or with another size, is a fault, as is any access to a block that is not live.
\<close>

subsection \<open>Memory types and pointers\<close>

text \<open>The C enumeration; the memory type is a number because the code checks its range.\<close>

type_synonym ucx_memory_type = nat

definition HOST :: ucx_memory_type where "HOST = 0"
definition CUDA :: ucx_memory_type where "CUDA = 1"
definition LAST :: ucx_memory_type where "LAST = 9"

definition UCX_MEMORY_TYPE_COUNT :: nat where "UCX_MEMORY_TYPE_COUNT = LAST + 1"

datatype ptr = Null | At nat nat

record block =
  blk_resource :: nat
  blk_bytes :: "u8 list"

record heap =
  mem :: "nat \<Rightarrow> block option"
  next_block :: nat

definition heap_empty :: heap where
  "heap_empty = \<lparr>mem = (\<lambda>_. None), next_block = 0\<rparr>"

text \<open>The blocks handed out so far have numbers below \<open>next_block\<close>.\<close>

definition heap_ok :: "heap \<Rightarrow> bool" where
  "heap_ok h \<longleftrightarrow> (\<forall>b. next_block h \<le> b \<longrightarrow> mem h b = None)"

subsection \<open>The manager\<close>

record UcxMemoryResourceManager =
  memory_resources :: "nat option list"
  memcpy_fns :: "nat option list list"

text \<open>The default manager: the default resource for every type, \<open>std::memcpy\<close> for every pair.\<close>

definition DefaultUcxMemoryResourceManager :: "nat \<Rightarrow> nat \<Rightarrow> UcxMemoryResourceManager" where
  "DefaultUcxMemoryResourceManager default_resource std_memcpy =
     \<lparr>memory_resources = replicate UCX_MEMORY_TYPE_COUNT (Some default_resource),
      memcpy_fns = replicate UCX_MEMORY_TYPE_COUNT (replicate UCX_MEMORY_TYPE_COUNT (Some std_memcpy))\<rparr>"

definition register_memory_resource ::
  "ucx_memory_type \<Rightarrow> nat \<Rightarrow> UcxMemoryResourceManager \<Rightarrow> UcxMemoryResourceManager outcome" where
  "register_memory_resource type resource mr =
     (if UCX_MEMORY_TYPE_COUNT \<le> type then Throw (invalid_argument ''Invalid memory type'')
      else Ok (mr\<lparr>memory_resources := (memory_resources mr)[type := Some resource]\<rparr>))"

definition register_memcpy_fn ::
  "ucx_memory_type \<Rightarrow> ucx_memory_type \<Rightarrow> nat option \<Rightarrow> UcxMemoryResourceManager \<Rightarrow> UcxMemoryResourceManager outcome" where
  "register_memcpy_fn dest_type src_type memcpy_fn mr =
     (if UCX_MEMORY_TYPE_COUNT \<le> dest_type \<or> UCX_MEMORY_TYPE_COUNT \<le> src_type
      then Throw (invalid_argument ''Invalid memory type'')
      else Ok (mr\<lparr>memcpy_fns := (memcpy_fns mr)[dest_type := (memcpy_fns mr ! dest_type)[src_type := memcpy_fn]]\<rparr>))"

definition get_memory_resource :: "ucx_memory_type \<Rightarrow> UcxMemoryResourceManager \<Rightarrow> nat outcome" where
  "get_memory_resource type mr =
     (if UCX_MEMORY_TYPE_COUNT \<le> type then Throw (invalid_argument ''Invalid memory type'')
      else case memory_resources mr ! type of
        None \<Rightarrow> Throw (runtime_error (''Memory resource not registered for type: '' @ to_string type))
      | Some r \<Rightarrow> Ok r)"

definition get_memcpy_fn ::
  "ucx_memory_type \<Rightarrow> ucx_memory_type \<Rightarrow> UcxMemoryResourceManager \<Rightarrow> nat outcome" where
  "get_memcpy_fn dest_type src_type mr =
     (if UCX_MEMORY_TYPE_COUNT \<le> dest_type \<or> UCX_MEMORY_TYPE_COUNT \<le> src_type
      then Throw (invalid_argument ''Invalid memory type'')
      else case memcpy_fns mr ! dest_type ! src_type of
        None \<Rightarrow> Throw (runtime_error (''Memcpy function not registered for type: '' @ to_string src_type @
                    '' -> '' @ to_string dest_type))
      | Some f \<Rightarrow> Ok f)"

definition manager_ok :: "UcxMemoryResourceManager \<Rightarrow> bool" where
  "manager_ok mr \<longleftrightarrow> length (memory_resources mr) = UCX_MEMORY_TYPE_COUNT \<and>
     length (memcpy_fns mr) = UCX_MEMORY_TYPE_COUNT \<and>
     list_all (\<lambda>row. length row = UCX_MEMORY_TYPE_COUNT) (memcpy_fns mr)"

subsection \<open>Blocks\<close>

definition resource_allocate :: "nat \<Rightarrow> nat \<Rightarrow> heap \<Rightarrow> ptr \<times> heap" where
  "resource_allocate r bytes h =
     (At (next_block h) 0,
      h\<lparr>mem := (mem h)(next_block h := Some \<lparr>blk_resource = r, blk_bytes = replicate bytes 0\<rparr>),
        next_block := Suc (next_block h)\<rparr>)"

definition resource_deallocate :: "nat \<Rightarrow> ptr \<Rightarrow> nat \<Rightarrow> heap \<Rightarrow> heap outcome" where
  "resource_deallocate r p bytes h =
     (case p of
        Null \<Rightarrow> Ok h
      | At b off \<Rightarrow>
          (case mem h b of
             None \<Rightarrow> Fault UseAfterFree
           | Some blk \<Rightarrow>
               if off = 0 \<and> blk_resource blk = r \<and> length (blk_bytes blk) = bytes
               then Ok (h\<lparr>mem := (mem h)(b := None)\<rparr>)
               else Fault OutOfBounds))"

text \<open>The bytes read and written through a pointer.\<close>

definition load :: "ptr \<Rightarrow> nat \<Rightarrow> heap \<Rightarrow> u8 list outcome" where
  "load p n h =
     (if n = 0 then Ok []
      else case p of
        Null \<Rightarrow> Fault NullDeref
      | At b off \<Rightarrow>
          (case mem h b of
             None \<Rightarrow> Fault UseAfterFree
           | Some blk \<Rightarrow>
               if off + n \<le> length (blk_bytes blk) then Ok (take n (drop off (blk_bytes blk))) else Fault OutOfBounds))"

definition store :: "ptr \<Rightarrow> u8 list \<Rightarrow> heap \<Rightarrow> heap outcome" where
  "store p bs h =
     (if bs = [] then Ok h
      else case p of
        Null \<Rightarrow> Fault NullDeref
      | At b off \<Rightarrow>
          (case mem h b of
             None \<Rightarrow> Fault UseAfterFree
           | Some blk \<Rightarrow>
               if off + length bs \<le> length (blk_bytes blk)
               then Ok (h\<lparr>mem := (mem h)(b \<mapsto> blk\<lparr>blk_bytes :=
                     take off (blk_bytes blk) @ bs @ drop (off + length bs) (blk_bytes blk)\<rparr>)\<rparr>)
               else Fault OutOfBounds))"

subsection \<open>Allocation through the manager\<close>

definition allocate :: "UcxMemoryResourceManager \<Rightarrow> ucx_memory_type \<Rightarrow> nat \<Rightarrow> heap \<Rightarrow> (ptr \<times> heap) outcome" where
  "allocate mr type bytes h =
     bind_outcome (get_memory_resource type mr) (\<lambda>r. Ok (resource_allocate r bytes h))"

definition deallocate :: "UcxMemoryResourceManager \<Rightarrow> ucx_memory_type \<Rightarrow> ptr \<Rightarrow> nat \<Rightarrow> heap \<Rightarrow> heap outcome" where
  "deallocate mr type p bytes h =
     bind_outcome (get_memory_resource type mr) (\<lambda>r. resource_deallocate r p bytes h)"

text \<open>The copy functions registered for device memory are callbacks; each is taken to copy the bytes.\<close>

definition mr_memcpy ::
  "UcxMemoryResourceManager \<Rightarrow> ucx_memory_type \<Rightarrow> ptr \<Rightarrow> ucx_memory_type \<Rightarrow> ptr \<Rightarrow> nat \<Rightarrow> heap \<Rightarrow> heap outcome" where
  "mr_memcpy mr dest_type dest src_type src count h =
     bind_outcome (get_memcpy_fn dest_type src_type mr) (\<lambda>_.
     bind_outcome (load src count h) (\<lambda>bs. store dest bs h))"

subsection \<open>Lemmas\<close>

lemma default_manager_ok: "manager_ok (DefaultUcxMemoryResourceManager r f)"
  by (simp add: manager_ok_def DefaultUcxMemoryResourceManager_def list_all_length)

lemma default_get [simp]:
  "get_memory_resource t (DefaultUcxMemoryResourceManager r f) =
     (if UCX_MEMORY_TYPE_COUNT \<le> t then Throw (invalid_argument ''Invalid memory type'') else Ok r)"
  "get_memcpy_fn d s (DefaultUcxMemoryResourceManager r f) =
     (if UCX_MEMORY_TYPE_COUNT \<le> d \<or> UCX_MEMORY_TYPE_COUNT \<le> s
      then Throw (invalid_argument ''Invalid memory type'') else Ok f)"
  by (simp_all add: get_memory_resource_def get_memcpy_fn_def DefaultUcxMemoryResourceManager_def)

lemma register_keeps_ok:
  "manager_ok mr \<Longrightarrow> register_memory_resource t r mr = Ok mr' \<Longrightarrow> manager_ok mr'"
  "manager_ok mr \<Longrightarrow> register_memcpy_fn d s fn mr = Ok mr' \<Longrightarrow> manager_ok mr'"
  by (auto simp: register_memory_resource_def register_memcpy_fn_def manager_ok_def list_all_length nth_list_update
      split: if_splits)

text \<open>What was registered is what is found, and nothing else changes.\<close>

lemma get_registered_resource:
  assumes "manager_ok mr" "register_memory_resource t r mr = Ok mr'"
  shows "get_memory_resource t' mr' = (if t' = t then Ok r else get_memory_resource t' mr)"
  using assms by (auto simp: register_memory_resource_def get_memory_resource_def manager_ok_def split: if_splits)

lemma get_registered_memcpy:
  assumes "manager_ok mr" "register_memcpy_fn d s (Some fn) mr = Ok mr'"
  shows "get_memcpy_fn d' s' mr' = (if d' = d \<and> s' = s then Ok fn else get_memcpy_fn d' s' mr)"
proof -
  have "length (memcpy_fns mr ! d) = UCX_MEMORY_TYPE_COUNT" "d < length (memcpy_fns mr)"
    using assms list_all_nth [of _ "memcpy_fns mr" d]
    by (auto simp: manager_ok_def register_memcpy_fn_def split: if_splits)
  then show ?thesis using assms
    by (cases "d' = d") (auto simp: register_memcpy_fn_def get_memcpy_fn_def manager_ok_def split: if_splits)
qed

lemma allocate_fresh:
  assumes "heap_ok h" "allocate mr t n h = Ok (p, h')"
  obtains r where "get_memory_resource t mr = Ok r" "p = At (next_block h) 0" "mem h (next_block h) = None"
    "mem h' = (mem h)(next_block h \<mapsto> \<lparr>blk_resource = r, blk_bytes = replicate n 0\<rparr>)"
    "next_block h' = Suc (next_block h)" "heap_ok h'"
proof -
  from assms obtain r where "get_memory_resource t mr = Ok r" "(p, h') = resource_allocate r n h"
    by (auto simp: allocate_def bind_outcome_Ok_iff)
  then show ?thesis using that assms(1) by (auto simp: resource_allocate_def heap_ok_def)
qed

lemma load_frame:
  "(\<And>b off. p = At b off \<Longrightarrow> mem h' b = mem h b) \<Longrightarrow> load p n h' = load p n h"
  by (auto simp: load_def split: ptr.splits)

lemma load_length: "load p n h = Ok bs \<Longrightarrow> length bs = n"
  by (auto simp: load_def split: if_splits ptr.splits option.splits)

lemma store_load:
  assumes "store p bs h = Ok h'"
  shows "load p (length bs) h' = Ok bs"
  using assms by (auto simp: store_def load_def split: if_splits ptr.splits option.splits)

lemma store_other:
  "store (At b off) bs h = Ok h' \<Longrightarrow> b' \<noteq> b \<Longrightarrow> mem h' b' = mem h b'"
  by (auto simp: store_def split: if_splits option.splits)

lemma store_next [simp]: "store p bs h = Ok h' \<Longrightarrow> next_block h' = next_block h"
  by (auto simp: store_def split: if_splits ptr.splits option.splits)

text \<open>A fresh block of the right size can be filled with any bytes.\<close>

lemma store_fresh:
  assumes "mem h b = Some \<lparr>blk_resource = r, blk_bytes = replicate n 0\<rparr>" "length bs = n"
  shows "\<exists>h'. store (At b 0) bs h = Ok h' \<and> mem h' = (mem h)(b \<mapsto> \<lparr>blk_resource = r, blk_bytes = bs\<rparr>) \<and>
    next_block h' = next_block h"
proof (cases "bs = []")
  case True
  have "mem h = (mem h)(b \<mapsto> \<lparr>blk_resource = r, blk_bytes = bs\<rparr>)"
    using True assms by (simp add: fun_upd_idem)
  moreover have "store (At b 0) bs h = Ok h" using True by (simp add: store_def)
  ultimately show ?thesis by (intro exI [of _ h] conjI) (assumption | rule refl)+
next
  case False
  then have "store (At b 0) bs h = Ok (h\<lparr>mem := (mem h)(b \<mapsto> \<lparr>blk_resource = r, blk_bytes = bs\<rparr>)\<rparr>)"
    using assms by (simp add: store_def)
  then show ?thesis by simp
qed

text \<open>
  Registering another resource for a type while a block of that type is live makes the later deallocation
  go to a resource the block does not belong to.
\<close>

lemma reregister_breaks_deallocation:
  assumes "manager_ok mr" "heap_ok h" "allocate mr t n h = Ok (p, h1)"
    "register_memory_resource t r' mr = Ok mr'" "get_memory_resource t mr \<noteq> Ok r'"
  shows "deallocate mr' t p n h1 = Fault OutOfBounds"
proof -
  obtain r where r: "get_memory_resource t mr = Ok r" "(p, h1) = resource_allocate r n h"
    using assms(3) by (auto simp: allocate_def bind_outcome_Ok_iff)
  have "get_memory_resource t mr' = Ok r'" using get_registered_resource [OF assms(1,4), of t] by simp
  moreover have "r \<noteq> r'" using r(1) assms(5) by simp
  ultimately show ?thesis using r(2)
    by (simp add: deallocate_def resource_deallocate_def resource_allocate_def)
qed

end
