(* ===== verification/Ucx_Data.thy ===== *)
theory Ucx_Data
  imports Ucx_Memory
begin

text \<open>
  The owning wrappers of \<open>ucx_context/ucx_context_data.hpp\<close>: \<open>UcxBuffer\<close>, \<open>UcxHeader\<close>,
  \<open>UcxBufferVec\<close>, \<open>UcxAmData\<close> and \<open>UcxAmIovec\<close>, with their constructors, move operations,
  destructors and the split of a buffer into views.

  A move constructor returns the new object and the object it was moved from. All objects use one memory
  manager, the argument \<open>mr\<close>. A release function is a number (the callback's identity); calling it
  gives the block back to UCX, so the block must be live.
\<close>

subsection \<open>Plain buffers\<close>

record ucx_buffer =
  b_data :: ptr
  b_size :: nat

definition null_buffer :: ucx_buffer where
  "null_buffer = \<lparr>b_data = Null, b_size = 0\<rparr>"

definition call_release :: "nat \<Rightarrow> ptr \<Rightarrow> heap \<Rightarrow> heap outcome" where
  "call_release fn p h =
     (case p of
        Null \<Rightarrow> Ok h
      | At b off \<Rightarrow>
          (case mem h b of
             None \<Rightarrow> Fault UseAfterFree
           | Some blk \<Rightarrow> if off = 0 then Ok (h\<lparr>mem := (mem h)(b := None)\<rparr>) else Fault OutOfBounds))"

definition give_back ::
  "UcxMemoryResourceManager \<Rightarrow> nat option \<Rightarrow> ucx_memory_type \<Rightarrow> ucx_buffer \<Rightarrow> heap \<Rightarrow> heap outcome" where
  "give_back mr fn type buf h =
     (case fn of
        Some f \<Rightarrow> call_release f (b_data buf) h
      | None \<Rightarrow> deallocate mr type (b_data buf) (b_size buf) h)"

subsection \<open>UcxBuffer\<close>

record UcxBuffer =
  ub_type :: ucx_memory_type
  ub_buffer :: ucx_buffer
  ub_mem_h :: nat
  ub_own :: bool
  ub_release :: "nat option"

definition UcxBuffer_sized ::
  "UcxMemoryResourceManager \<Rightarrow> ucx_memory_type \<Rightarrow> nat \<Rightarrow> nat \<Rightarrow> bool \<Rightarrow> nat option \<Rightarrow> heap \<Rightarrow> (UcxBuffer \<times> heap) outcome" where
  "UcxBuffer_sized mr type n mem_h own fn h =
     (let x = \<lparr>ub_type = type, ub_buffer = null_buffer, ub_mem_h = mem_h, ub_own = own, ub_release = fn\<rparr> in
      if n > 0 then
        bind_outcome (allocate mr type n h) (\<lambda>(p, h'). Ok (x\<lparr>ub_buffer := \<lparr>b_data = p, b_size = n\<rparr>\<rparr>, h'))
      else Ok (x, h))"

definition UcxBuffer_of :: "ucx_memory_type \<Rightarrow> ucx_buffer \<Rightarrow> nat \<Rightarrow> bool \<Rightarrow> nat option \<Rightarrow> UcxBuffer" where
  "UcxBuffer_of type buffer mem_h own fn =
     \<lparr>ub_type = type, ub_buffer = buffer, ub_mem_h = mem_h, ub_own = own, ub_release = fn\<rparr>"

definition UcxBuffer_move :: "UcxBuffer \<Rightarrow> UcxBuffer \<times> UcxBuffer" where
  "UcxBuffer_move other = (other, other\<lparr>ub_buffer := null_buffer, ub_own := False, ub_release := None\<rparr>)"

definition UcxBuffer_move_as :: "bool \<Rightarrow> UcxBuffer \<Rightarrow> UcxBuffer \<times> UcxBuffer" where
  "UcxBuffer_move_as own other =
     (other\<lparr>ub_own := own\<rparr>, other\<lparr>ub_buffer := null_buffer, ub_own := False, ub_release := None\<rparr>)"

definition UcxBuffer_destroy :: "UcxMemoryResourceManager \<Rightarrow> UcxBuffer \<Rightarrow> heap \<Rightarrow> heap outcome" where
  "UcxBuffer_destroy mr x h =
     (if b_data (ub_buffer x) \<noteq> Null \<and> ub_own x then give_back mr (ub_release x) (ub_type x) (ub_buffer x) h
      else Ok h)"

text \<open>Move assignment between two objects; assigning an object to itself does nothing.\<close>

definition UcxBuffer_assign ::
  "UcxMemoryResourceManager \<Rightarrow> UcxBuffer \<Rightarrow> UcxBuffer \<Rightarrow> heap \<Rightarrow> (UcxBuffer \<times> UcxBuffer \<times> heap) outcome" where
  "UcxBuffer_assign mr x other h =
     bind_outcome
       (if b_data (ub_buffer x) \<noteq> Null \<and> ub_own x then give_back mr (ub_release x) (ub_type x) (ub_buffer x) h
        else Ok h)
       (\<lambda>h'. Ok (other, other\<lparr>ub_own := False, ub_release := None, ub_buffer := null_buffer\<rparr>, h'))"

subsection \<open>UcxHeader\<close>

record UcxHeader =
  uh_header :: ucx_buffer
  uh_own :: bool

definition UcxHeader_sized ::
  "UcxMemoryResourceManager \<Rightarrow> nat \<Rightarrow> bool \<Rightarrow> heap \<Rightarrow> (UcxHeader \<times> heap) outcome" where
  "UcxHeader_sized mr n own h =
     (if n > 0 then
        bind_outcome (allocate mr HOST n h) (\<lambda>(p, h'). Ok (\<lparr>uh_header = \<lparr>b_data = p, b_size = n\<rparr>, uh_own = own\<rparr>, h'))
      else Ok (\<lparr>uh_header = null_buffer, uh_own = own\<rparr>, h))"

definition UcxHeader_of :: "ucx_buffer \<Rightarrow> bool \<Rightarrow> UcxHeader" where
  "UcxHeader_of header own = \<lparr>uh_header = header, uh_own = own\<rparr>"

definition UcxHeader_move :: "UcxHeader \<Rightarrow> UcxHeader \<times> UcxHeader" where
  "UcxHeader_move other = (other, other\<lparr>uh_own := False, uh_header := null_buffer\<rparr>)"

definition UcxHeader_move_as :: "bool \<Rightarrow> UcxHeader \<Rightarrow> UcxHeader \<times> UcxHeader" where
  "UcxHeader_move_as own other = (other\<lparr>uh_own := own\<rparr>, other\<lparr>uh_own := False, uh_header := null_buffer\<rparr>)"

definition UcxHeader_destroy :: "UcxMemoryResourceManager \<Rightarrow> UcxHeader \<Rightarrow> heap \<Rightarrow> heap outcome" where
  "UcxHeader_destroy mr x h =
     (if b_data (uh_header x) \<noteq> Null \<and> uh_own x
      then deallocate mr HOST (b_data (uh_header x)) (b_size (uh_header x)) h else Ok h)"

definition UcxHeader_assign ::
  "UcxMemoryResourceManager \<Rightarrow> UcxHeader \<Rightarrow> UcxHeader \<Rightarrow> heap \<Rightarrow> (UcxHeader \<times> UcxHeader \<times> heap) outcome" where
  "UcxHeader_assign mr x other h =
     bind_outcome
       (if b_data (uh_header x) \<noteq> Null \<and> uh_own x
        then deallocate mr HOST (b_data (uh_header x)) (b_size (uh_header x)) h else Ok h)
       (\<lambda>h'. Ok (other, other\<lparr>uh_own := False, uh_header := null_buffer\<rparr>, h'))"

subsection \<open>UcxBufferVec\<close>

record UcxBufferVec =
  bv_type :: ucx_memory_type
  bv_buffers :: "ucx_buffer list"
  bv_mem_h :: nat
  bv_own :: bool
  bv_release :: "nat option"
  bv_backing :: "UcxBuffer option"

fun allocate_each ::
  "UcxMemoryResourceManager \<Rightarrow> ucx_memory_type \<Rightarrow> nat list \<Rightarrow> heap \<Rightarrow> (ucx_buffer list \<times> heap) outcome" where
  "allocate_each mr type [] h = Ok ([], h)"
| "allocate_each mr type (n # ns) h =
     bind_outcome (allocate mr type n h) (\<lambda>(p, h1).
     bind_outcome (allocate_each mr type ns h1) (\<lambda>(bufs, h2). Ok (\<lparr>b_data = p, b_size = n\<rparr> # bufs, h2)))"

definition UcxBufferVec_sized ::
  "UcxMemoryResourceManager \<Rightarrow> ucx_memory_type \<Rightarrow> nat list \<Rightarrow> nat \<Rightarrow> bool \<Rightarrow> nat option \<Rightarrow> heap \<Rightarrow> (UcxBufferVec \<times> heap) outcome" where
  "UcxBufferVec_sized mr type sizes mem_h own fn h =
     bind_outcome (allocate_each mr type sizes h) (\<lambda>(bufs, h').
       Ok (\<lparr>bv_type = type, bv_buffers = bufs, bv_mem_h = mem_h, bv_own = own, bv_release = fn, bv_backing = None\<rparr>, h'))"

definition UcxBufferVec_of ::
  "ucx_memory_type \<Rightarrow> ucx_buffer list \<Rightarrow> nat \<Rightarrow> bool \<Rightarrow> nat option \<Rightarrow> UcxBufferVec" where
  "UcxBufferVec_of type buffers mem_h own fn =
     \<lparr>bv_type = type, bv_buffers = buffers, bv_mem_h = mem_h, bv_own = own, bv_release = fn, bv_backing = None\<rparr>"

text \<open>From a vector of buffers: everything but the data comes from the first one.\<close>

definition UcxBufferVec_of_buffers :: "UcxBuffer list \<Rightarrow> (UcxBufferVec \<times> UcxBuffer list) outcome" where
  "UcxBufferVec_of_buffers buffers =
     (case buffers of
        [] \<Rightarrow> Fault OutOfBounds
      | b # bs \<Rightarrow>
          Ok (\<lparr>bv_type = ub_type b, bv_buffers = map ub_buffer buffers, bv_mem_h = ub_mem_h b, bv_own = ub_own b,
               bv_release = ub_release b, bv_backing = None\<rparr>,
              map (\<lambda>x. x\<lparr>ub_own := False\<rparr>) (b\<lparr>ub_release := None\<rparr> # bs)))"

definition UcxBufferVec_of_buffer :: "UcxBuffer \<Rightarrow> UcxBufferVec \<times> UcxBuffer" where
  "UcxBufferVec_of_buffer b =
     (\<lparr>bv_type = ub_type b, bv_buffers = [ub_buffer b], bv_mem_h = ub_mem_h b, bv_own = ub_own b,
       bv_release = ub_release b, bv_backing = None\<rparr>,
      b\<lparr>ub_own := False, ub_release := None\<rparr>)"

text \<open>The move constructors: the backing buffer is not in their list of moved members.\<close>

definition UcxBufferVec_move_as :: "bool \<Rightarrow> UcxBufferVec \<Rightarrow> UcxBufferVec \<times> UcxBufferVec" where
  "UcxBufferVec_move_as own other =
     (other\<lparr>bv_own := own, bv_backing := None\<rparr>, other\<lparr>bv_buffers := [], bv_own := False, bv_release := None\<rparr>)"

definition UcxBufferVec_move :: "UcxBufferVec \<Rightarrow> UcxBufferVec \<times> UcxBufferVec" where
  "UcxBufferVec_move other =
     (other\<lparr>bv_backing := None\<rparr>, other\<lparr>bv_buffers := [], bv_own := False, bv_release := None\<rparr>)"

fun give_back_each ::
  "UcxMemoryResourceManager \<Rightarrow> nat option \<Rightarrow> ucx_memory_type \<Rightarrow> ucx_buffer list \<Rightarrow> heap \<Rightarrow> heap outcome" where
  "give_back_each mr fn type [] h = Ok h"
| "give_back_each mr fn type (b # bs) h = bind_outcome (give_back mr fn type b h) (give_back_each mr fn type bs)"

definition destroy_backing :: "UcxMemoryResourceManager \<Rightarrow> UcxBuffer option \<Rightarrow> heap \<Rightarrow> heap outcome" where
  "destroy_backing mr b h = (case b of None \<Rightarrow> Ok h | Some x \<Rightarrow> UcxBuffer_destroy mr x h)"

text \<open>The destructor's body, then the destructor of the backing buffer.\<close>

definition UcxBufferVec_destroy :: "UcxMemoryResourceManager \<Rightarrow> UcxBufferVec \<Rightarrow> heap \<Rightarrow> heap outcome" where
  "UcxBufferVec_destroy mr x h =
     bind_outcome (if bv_own x then give_back_each mr (bv_release x) (bv_type x) (bv_buffers x) h else Ok h)
       (destroy_backing mr (bv_backing x))"

text \<open>Move assignment: the buffers the target owned are not given back; its old backing buffer is.\<close>

definition UcxBufferVec_assign ::
  "UcxMemoryResourceManager \<Rightarrow> UcxBufferVec \<Rightarrow> UcxBufferVec \<Rightarrow> heap \<Rightarrow> (UcxBufferVec \<times> UcxBufferVec \<times> heap) outcome" where
  "UcxBufferVec_assign mr x other h =
     bind_outcome (destroy_backing mr (bv_backing x) h) (\<lambda>h'.
       Ok (other, other\<lparr>bv_buffers := [], bv_own := False, bv_release := None, bv_backing := None\<rparr>, h'))"

definition ExtractBuffers :: "UcxBufferVec \<Rightarrow> (UcxBuffer list \<times> UcxBufferVec) outcome" where
  "ExtractBuffers x =
     (if bv_backing x \<noteq> None
      then Throw (logic_error ''ExtractBuffers() requires independently-allocated UcxBufferVec'')
      else Ok (map (\<lambda>b. UcxBuffer_of (bv_type x) b (bv_mem_h x) (bv_own x) (bv_release x)) (bv_buffers x),
               x\<lparr>bv_own := False\<rparr>))"

text \<open>The views of a split: consecutive ranges from the start of the buffer.\<close>

definition ptr_add :: "ptr \<Rightarrow> nat \<Rightarrow> ptr" where
  "ptr_add p n = (case p of Null \<Rightarrow> Null | At b off \<Rightarrow> At b (off + n))"

fun views :: "ptr \<Rightarrow> nat list \<Rightarrow> ucx_buffer list" where
  "views p [] = []"
| "views p (n # ns) = \<lparr>b_data = p, b_size = n\<rparr> # views (ptr_add p n) ns"

text \<open>\<open>std::accumulate\<close> over \<open>size_t\<close> wraps around at 64 bits.\<close>

definition accumulate_sizes :: "nat list \<Rightarrow> nat" where
  "accumulate_sizes sizes = sum_list sizes mod 2 ^ 64"

definition to_buffer_vec :: "nat list \<Rightarrow> UcxBuffer \<Rightarrow> (UcxBufferVec \<times> UcxBuffer) outcome" where
  "to_buffer_vec sizes x =
     (if b_size (ub_buffer x) < accumulate_sizes sizes
      then Throw (length_error ''Total size of chunks exceeds buffer size'')
      else
        let (backing, x') = UcxBuffer_move x in
        Ok (\<lparr>bv_type = ub_type x, bv_buffers = views (b_data (ub_buffer x)) sizes, bv_mem_h = ub_mem_h x,
             bv_own = False, bv_release = None, bv_backing = Some backing\<rparr>, x'))"

subsection \<open>UcxAmData\<close>

record ucx_am_data =
  am_header :: ucx_buffer
  am_buffer :: ucx_buffer
  am_buffer_type :: ucx_memory_type
  am_mem_h :: nat

definition ucx_am_data_zero :: ucx_am_data where
  "ucx_am_data_zero = \<lparr>am_header = null_buffer, am_buffer = null_buffer, am_buffer_type = HOST, am_mem_h = 0\<rparr>"

record UcxAmData =
  ad_data :: ucx_am_data
  ad_own_header :: bool
  ad_own_buffer :: bool
  ad_release :: "nat option"

definition allocate_if ::
  "UcxMemoryResourceManager \<Rightarrow> bool \<Rightarrow> ucx_memory_type \<Rightarrow> nat \<Rightarrow> ucx_buffer \<Rightarrow> heap \<Rightarrow> (ucx_buffer \<times> heap) outcome" where
  "allocate_if mr c type n other h =
     (if 0 < n \<and> c then bind_outcome (allocate mr type n h) (\<lambda>(p, h'). Ok (\<lparr>b_data = p, b_size = n\<rparr>, h'))
      else Ok (other, h))"

definition UcxAmData_sized ::
  "UcxMemoryResourceManager \<Rightarrow> nat \<Rightarrow> nat \<Rightarrow> ucx_memory_type \<Rightarrow> bool \<Rightarrow> bool \<Rightarrow> nat option \<Rightarrow> heap \<Rightarrow> (UcxAmData \<times> heap) outcome" where
  "UcxAmData_sized mr header_size buffer_size buffer_type own_header own_buffer fn h =
     bind_outcome (allocate_if mr own_header HOST header_size null_buffer h) (\<lambda>(hb, h1).
     bind_outcome (allocate_if mr own_buffer buffer_type buffer_size \<lparr>b_data = Null, b_size = buffer_size\<rparr> h1) (\<lambda>(bb, h2).
       Ok (\<lparr>ad_data = ucx_am_data_zero\<lparr>am_buffer_type := buffer_type, am_header := hb, am_buffer := bb\<rparr>,
            ad_own_header = own_header, ad_own_buffer = own_buffer, ad_release = fn\<rparr>, h2)))"

definition UcxAmData_of :: "ucx_am_data \<Rightarrow> bool \<Rightarrow> bool \<Rightarrow> nat option \<Rightarrow> UcxAmData" where
  "UcxAmData_of d own_header own_buffer fn =
     \<lparr>ad_data = d, ad_own_header = own_header, ad_own_buffer = own_buffer, ad_release = fn\<rparr>"

definition UcxAmData_moved :: "UcxAmData \<Rightarrow> UcxAmData" where
  "UcxAmData_moved other =
     other\<lparr>ad_data := ucx_am_data_zero, ad_own_header := False, ad_own_buffer := False, ad_release := None\<rparr>"

definition UcxAmData_move :: "UcxAmData \<Rightarrow> UcxAmData \<times> UcxAmData" where
  "UcxAmData_move other = (other, UcxAmData_moved other)"

definition UcxAmData_move_as :: "bool \<Rightarrow> bool \<Rightarrow> UcxAmData \<Rightarrow> UcxAmData \<times> UcxAmData" where
  "UcxAmData_move_as own_header own_buffer other =
     (other\<lparr>ad_own_header := own_header, ad_own_buffer := own_buffer\<rparr>, UcxAmData_moved other)"

text \<open>Move assignment overwrites the members of the target; nothing the target owned is given back.\<close>

definition UcxAmData_assign ::
  "UcxAmData \<Rightarrow> UcxAmData \<Rightarrow> heap \<Rightarrow> (UcxAmData \<times> UcxAmData \<times> heap) outcome" where
  "UcxAmData_assign x other h = Ok (other, UcxAmData_moved other, h)"

definition UcxAmData_destroy :: "UcxMemoryResourceManager \<Rightarrow> UcxAmData \<Rightarrow> heap \<Rightarrow> heap outcome" where
  "UcxAmData_destroy mr x h =
     (let d = ad_data x in
      bind_outcome
        (if b_data (am_header d) \<noteq> Null \<and> ad_own_header x
         then deallocate mr HOST (b_data (am_header d)) (b_size (am_header d)) h else Ok h)
        (\<lambda>h'. if b_data (am_buffer d) \<noteq> Null \<and> ad_own_buffer x
              then give_back mr (ad_release x) (am_buffer_type d) (am_buffer d) h' else Ok h'))"

definition set_ucp_release_fn :: "nat \<Rightarrow> UcxAmData \<Rightarrow> bool \<times> UcxAmData" where
  "set_ucp_release_fn fn x =
     (case ad_release x of Some _ \<Rightarrow> (False, x) | None \<Rightarrow> (True, x\<lparr>ad_release := Some fn\<rparr>))"

subsection \<open>UcxAmIovec\<close>

text \<open>The array of buffers is a block of host memory; its entries are reached only through the object.\<close>

record ucx_am_iovec =
  io_header :: ucx_buffer
  io_array :: ptr
  io_buffers :: "ucx_buffer list"
  io_buffer_type :: ucx_memory_type
  io_mem_h :: nat

definition ucx_am_iovec_zero :: ucx_am_iovec where
  "ucx_am_iovec_zero = \<lparr>io_header = null_buffer, io_array = Null, io_buffers = [], io_buffer_type = HOST, io_mem_h = 0\<rparr>"

record UcxAmIovec =
  iv_iovec :: ucx_am_iovec
  iv_own_header :: bool
  iv_own_buffer :: bool

definition sizeof_ucx_buffer :: nat where "sizeof_ucx_buffer = 16"

fun allocate_owned ::
  "UcxMemoryResourceManager \<Rightarrow> bool \<Rightarrow> ucx_memory_type \<Rightarrow> nat list \<Rightarrow> heap \<Rightarrow> (ucx_buffer list \<times> heap) outcome" where
  "allocate_owned mr own type [] h = Ok ([], h)"
| "allocate_owned mr own type (n # ns) h =
     bind_outcome (allocate_if mr own type n \<lparr>b_data = Null, b_size = n\<rparr> h) (\<lambda>(b, h1).
     bind_outcome (allocate_owned mr own type ns h1) (\<lambda>(bufs, h2). Ok (b # bufs, h2)))"

definition UcxAmIovec_sized ::
  "UcxMemoryResourceManager \<Rightarrow> nat \<Rightarrow> nat list \<Rightarrow> ucx_memory_type \<Rightarrow> bool \<Rightarrow> bool \<Rightarrow> heap \<Rightarrow> (UcxAmIovec \<times> heap) outcome" where
  "UcxAmIovec_sized mr header_size buffer_sizes buffer_type own_header own_buffer h =
     bind_outcome (allocate_if mr own_header HOST header_size null_buffer h) (\<lambda>(hb, h1).
       let v = ucx_am_iovec_zero\<lparr>io_buffer_type := buffer_type, io_header := hb\<rparr> in
       bind_outcome
         (if buffer_sizes \<noteq> [] then
            bind_outcome (allocate mr HOST (sizeof_ucx_buffer * length buffer_sizes) h1) (\<lambda>(p, h2).
            bind_outcome (allocate_owned mr own_buffer buffer_type buffer_sizes h2) (\<lambda>(bufs, h3).
              Ok (v\<lparr>io_array := p, io_buffers := bufs\<rparr>, h3)))
          else Ok (v, h1))
         (\<lambda>(w, h4). Ok (\<lparr>iv_iovec = w, iv_own_header = own_header, iv_own_buffer = own_buffer\<rparr>, h4)))"

definition UcxAmIovec_of :: "ucx_am_iovec \<Rightarrow> bool \<Rightarrow> bool \<Rightarrow> UcxAmIovec" where
  "UcxAmIovec_of v own_header own_buffer =
     \<lparr>iv_iovec = v, iv_own_header = own_header, iv_own_buffer = own_buffer\<rparr>"

definition UcxAmIovec_moved :: "UcxAmIovec \<Rightarrow> UcxAmIovec" where
  "UcxAmIovec_moved other = other\<lparr>iv_iovec := ucx_am_iovec_zero, iv_own_header := False, iv_own_buffer := False\<rparr>"

definition UcxAmIovec_move :: "UcxAmIovec \<Rightarrow> UcxAmIovec \<times> UcxAmIovec" where
  "UcxAmIovec_move other = (other, UcxAmIovec_moved other)"

definition UcxAmIovec_move_as :: "bool \<Rightarrow> bool \<Rightarrow> UcxAmIovec \<Rightarrow> UcxAmIovec \<times> UcxAmIovec" where
  "UcxAmIovec_move_as own_header own_buffer other =
     (other\<lparr>iv_own_header := own_header, iv_own_buffer := own_buffer\<rparr>, UcxAmIovec_moved other)"

definition UcxAmIovec_assign ::
  "UcxAmIovec \<Rightarrow> UcxAmIovec \<Rightarrow> heap \<Rightarrow> (UcxAmIovec \<times> UcxAmIovec \<times> heap) outcome" where
  "UcxAmIovec_assign x other h = Ok (other, UcxAmIovec_moved other, h)"

fun deallocate_nonnull ::
  "UcxMemoryResourceManager \<Rightarrow> ucx_memory_type \<Rightarrow> ucx_buffer list \<Rightarrow> heap \<Rightarrow> heap outcome" where
  "deallocate_nonnull mr type [] h = Ok h"
| "deallocate_nonnull mr type (b # bs) h =
     bind_outcome (if b_data b \<noteq> Null then deallocate mr type (b_data b) (b_size b) h else Ok h)
       (deallocate_nonnull mr type bs)"

definition UcxAmIovec_destroy :: "UcxMemoryResourceManager \<Rightarrow> UcxAmIovec \<Rightarrow> heap \<Rightarrow> heap outcome" where
  "UcxAmIovec_destroy mr x h =
     (let v = iv_iovec x in
      bind_outcome
        (if b_data (io_header v) \<noteq> Null \<and> iv_own_header x
         then deallocate mr HOST (b_data (io_header v)) (b_size (io_header v)) h else Ok h)
        (\<lambda>h1. if io_array v \<noteq> Null \<and> iv_own_buffer x then
                bind_outcome (deallocate_nonnull mr (io_buffer_type v) (io_buffers v) h1) (\<lambda>h2.
                  deallocate mr HOST (io_array v) (sizeof_ucx_buffer * length (io_buffers v)) h2)
              else Ok h1))"

end
