(* ===== verification/Ucx_Ownership.thy ===== *)
theory Ucx_Ownership
  imports Ucx_Data
begin

text \<open>
  Ownership of memory by the wrappers of \<open>ucx_context/ucx_context_data.hpp\<close>. The contract of a class that
  frees what it owns is a locale: a move hands the blocks over, a destructor gives back exactly the blocks
  the object owns, a move assignment gives back those of its target. For every class that meets the contract,
  any program that creates, moves, assigns and destroys objects runs without a bad deallocation and leaves
  no block behind. \<open>UcxBuffer\<close> and \<open>UcxHeader\<close> meet it; the others do not in every operation.
\<close>

subsection \<open>The contract\<close>

definition removes :: "nat set \<Rightarrow> heap \<Rightarrow> heap \<Rightarrow> bool" where
  "removes B h h' \<longleftrightarrow> next_block h' = next_block h \<and> (\<forall>b. mem h' b = (if b \<in> B then None else mem h b))"

lemma removes_none [simp]: "removes {} h h' \<longleftrightarrow> next_block h' = next_block h \<and> mem h' = mem h"
  by (auto simp: removes_def)

lemma removes_trans: "removes B h h1 \<Longrightarrow> removes C h1 h2 \<Longrightarrow> removes (B \<union> C) h h2"
  by (simp add: removes_def)

lemma removes_ok: "removes B h h' \<Longrightarrow> heap_ok h \<Longrightarrow> heap_ok h'"
  by (simp add: removes_def heap_ok_def)

locale raii_move =
  fixes owns :: "'o \<Rightarrow> nat set"
    and valid :: "'o \<Rightarrow> heap \<Rightarrow> bool"
    and move :: "'o \<Rightarrow> 'o \<times> 'o"
    and destroy :: "'o \<Rightarrow> heap \<Rightarrow> heap outcome"
  assumes valid_live: "valid x h \<Longrightarrow> b \<in> owns x \<Longrightarrow> mem h b \<noteq> None"
    and valid_frame: "valid x h \<Longrightarrow> \<forall>b \<in> owns x. mem h' b = mem h b \<Longrightarrow> valid x h'"
    and move_hands_over: "valid x h \<Longrightarrow> move x = (y, x') \<Longrightarrow> owns y = owns x \<and> owns x' = {} \<and> valid y h \<and> valid x' h"
    and destroy_gives_back: "valid x h \<Longrightarrow> \<exists>h'. destroy x h = Ok h' \<and> removes (owns x) h h'"

locale raii_class = raii_move owns valid move destroy
  for owns :: "'o \<Rightarrow> nat set" and valid and move and destroy +
  fixes assign :: "'o \<Rightarrow> 'o \<Rightarrow> heap \<Rightarrow> ('o \<times> 'o \<times> heap) outcome"
  assumes assign_replaces: "valid x h \<Longrightarrow> valid y h \<Longrightarrow> owns x \<inter> owns y = {} \<Longrightarrow>
    \<exists>x' y' h'. assign x y h = Ok (x', y', h') \<and> owns x' = owns y \<and> owns y' = {} \<and> removes (owns x) h h' \<and>
      valid x' h' \<and> valid y' h'"

text \<open>
  A program over objects of one class: the objects live in slots. A constructor is a function on the heap;
  the sound ones allocate what the new object owns and nothing else.
\<close>

datatype 'c raii_op = Construct 'c | MoveTo nat | MoveAssign nat nat | Destroy nat

fun raii_do ::
  "('c \<Rightarrow> heap \<Rightarrow> ('o \<times> heap) outcome) \<Rightarrow> ('o \<Rightarrow> 'o \<times> 'o) \<Rightarrow> ('o \<Rightarrow> 'o \<Rightarrow> heap \<Rightarrow> ('o \<times> 'o \<times> heap) outcome) \<Rightarrow>
   ('o \<Rightarrow> heap \<Rightarrow> heap outcome) \<Rightarrow> 'c raii_op \<Rightarrow> 'o option list \<times> heap \<Rightarrow> ('o option list \<times> heap) outcome" where
  "raii_do mk move assign destroy (Construct c) (os, h) =
     bind_outcome (mk c h) (\<lambda>(x, h'). Ok (os @ [Some x], h'))"
| "raii_do mk move assign destroy (MoveTo i) (os, h) =
     (if i < length os then
        (case os ! i of
           None \<Rightarrow> Ok (os, h)
         | Some x \<Rightarrow> let (y, x') = move x in Ok (os[i := Some x'] @ [Some y], h))
      else Ok (os, h))"
| "raii_do mk move assign destroy (MoveAssign i j) (os, h) =
     (if i < length os \<and> j < length os \<and> i \<noteq> j then
        (case (os ! i, os ! j) of
           (Some x, Some y) \<Rightarrow> bind_outcome (assign x y h) (\<lambda>(x', y', h'). Ok (os[i := Some x', j := Some y'], h'))
         | _ \<Rightarrow> Ok (os, h))
      else Ok (os, h))"
| "raii_do mk move assign destroy (Destroy i) (os, h) =
     (if i < length os then
        (case os ! i of
           None \<Rightarrow> Ok (os, h)
         | Some x \<Rightarrow> bind_outcome (destroy x h) (\<lambda>h'. Ok (os[i := None], h')))
      else Ok (os, h))"

fun raii_run ::
  "('c \<Rightarrow> heap \<Rightarrow> ('o \<times> heap) outcome) \<Rightarrow> ('o \<Rightarrow> 'o \<times> 'o) \<Rightarrow> ('o \<Rightarrow> 'o \<Rightarrow> heap \<Rightarrow> ('o \<times> 'o \<times> heap) outcome) \<Rightarrow>
   ('o \<Rightarrow> heap \<Rightarrow> heap outcome) \<Rightarrow> 'c raii_op list \<Rightarrow> 'o option list \<times> heap \<Rightarrow> ('o option list \<times> heap) outcome" where
  "raii_run mk move assign destroy [] s = Ok s"
| "raii_run mk move assign destroy (c # cs) s =
     bind_outcome (raii_do mk move assign destroy c s) (raii_run mk move assign destroy cs)"

text \<open>The end of the scope: every object that is left is destroyed.\<close>

fun destroy_all :: "('o \<Rightarrow> heap \<Rightarrow> heap outcome) \<Rightarrow> 'o option list \<Rightarrow> heap \<Rightarrow> heap outcome" where
  "destroy_all destroy [] h = Ok h"
| "destroy_all destroy (x # os) h =
     bind_outcome (case x of None \<Rightarrow> Ok h | Some y \<Rightarrow> destroy y h) (destroy_all destroy os)"

subsection \<open>The invariant of a program\<close>

context raii_move
begin

definition owns_opt :: "'o option \<Rightarrow> nat set" where
  "owns_opt x = (case x of None \<Rightarrow> {} | Some y \<Rightarrow> owns y)"

definition valid_opt :: "'o option \<Rightarrow> heap \<Rightarrow> bool" where
  "valid_opt x h = (case x of None \<Rightarrow> True | Some y \<Rightarrow> valid y h)"

lemma opt_simps [simp]:
  "owns_opt None = {}" "owns_opt (Some y) = owns y" "valid_opt None h" "valid_opt (Some y) h = valid y h"
  by (simp_all add: owns_opt_def valid_opt_def)

definition separated :: "'o option list \<Rightarrow> bool" where
  "separated os \<longleftrightarrow> (\<forall>i < length os. \<forall>j < length os. i \<noteq> j \<longrightarrow> owns_opt (os ! i) \<inter> owns_opt (os ! j) = {})"

definition owned :: "'o option list \<Rightarrow> nat set" where
  "owned os = (\<Union>i < length os. owns_opt (os ! i))"

definition raii_inv :: "'o option list \<times> heap \<Rightarrow> bool" where
  "raii_inv s = (case s of (os, h) \<Rightarrow> heap_ok h \<and> separated os \<and> (\<forall>i < length os. valid_opt (os ! i) h) \<and>
     {b. mem h b \<noteq> None} = owned os)"

lemma valid_opt_frame: "valid_opt x h \<Longrightarrow> \<forall>b \<in> owns_opt x. mem h' b = mem h b \<Longrightarrow> valid_opt x h'"
  by (cases x) (auto intro: valid_frame)

lemma valid_after_removal:
  "valid_opt x h \<Longrightarrow> removes B h h' \<Longrightarrow> owns_opt x \<inter> B = {} \<Longrightarrow> valid_opt x h'"
  by (rule valid_opt_frame) (auto simp: removes_def)

lemma owned_append [simp]: "owned (os @ [x]) = owned os \<union> owns_opt x"
  by (auto simp: owned_def nth_append lessThan_Suc)

lemma separated_append: "separated (os @ [x]) \<longleftrightarrow> separated os \<and> owns_opt x \<inter> owned os = {}"
proof
  assume s: "separated (os @ [x])"
  have "owns_opt (os ! i) \<inter> owns_opt (os ! j) = {}" if "i < length os" "j < length os" "i \<noteq> j" for i j
    using s [unfolded separated_def, rule_format, of i j] that by (simp add: nth_append)
  moreover have "owns_opt x \<inter> owns_opt (os ! i) = {}" if "i < length os" for i
    using s [unfolded separated_def, rule_format, of "length os" i] that by (simp add: nth_append)
  ultimately show "separated os \<and> owns_opt x \<inter> owned os = {}" by (simp add: separated_def owned_def Int_UN_distrib)
next
  assume s: "separated os \<and> owns_opt x \<inter> owned os = {}"
  then have x: "owns_opt x \<inter> owns_opt (os ! i) = {}" if "i < length os" for i using that by (auto simp: owned_def)
  show "separated (os @ [x])"
    unfolding separated_def
  proof (intro allI impI)
    fix i j
    assume "i < length (os @ [x])" "j < length (os @ [x])" "i \<noteq> j"
    then show "owns_opt ((os @ [x]) ! i) \<inter> owns_opt ((os @ [x]) ! j) = {}"
      using s x by (cases "i < length os"; cases "j < length os") (simp_all add: nth_append separated_def Int_commute)
  qed
qed

text \<open>Replacing one slot.\<close>

lemma owned_slot: "i < length os \<Longrightarrow> owned os = owns_opt (os ! i) \<union> (\<Union>j \<in> {..<length os} - {i}. owns_opt (os ! j))"
  by (auto simp: owned_def)

lemma others_update:
  "i < length os \<Longrightarrow> (\<Union>j \<in> {..<length os} - {i}. owns_opt (os[i := x] ! j)) = (\<Union>j \<in> {..<length os} - {i}. owns_opt (os ! j))"
  by auto

lemma owned_update:
  assumes "i < length os" "separated os"
  shows "owned (os[i := x]) = owns_opt x \<union> (owned os - owns_opt (os ! i))"
proof -
  have "owns_opt (os ! i) \<inter> (\<Union>j \<in> {..<length os} - {i}. owns_opt (os ! j)) = {}"
    using assms by (auto simp: separated_def)
  then show ?thesis using owned_slot [OF assms(1)] owned_slot [of i "os[i := x]"] others_update [OF assms(1)] assms(1)
    by auto
qed

lemma separated_update:
  assumes "i < length os" "separated os" "owns_opt x \<inter> (owned os - owns_opt (os ! i)) = {}"
  shows "separated (os[i := x])"
proof -
  have "owns_opt x \<inter> owns_opt (os ! j) = {}" if "j < length os" "j \<noteq> i" for j
  proof -
    have "owns_opt (os ! j) \<subseteq> owned os - owns_opt (os ! i)"
      using assms(1,2) that by (auto simp: separated_def owned_def)
    then show ?thesis using assms(3) by blast
  qed
  then show ?thesis using assms(1,2) by (auto simp: separated_def nth_list_update)
qed

lemma destroy_all_spec:
  assumes "\<forall>i < length os. valid_opt (os ! i) h" "separated os"
  shows "\<exists>h'. destroy_all destroy os h = Ok h' \<and> removes (owned os) h h'"
  using assms
proof (induction os arbitrary: h)
  case Nil
  then show ?case by (simp add: owned_def)
next
  case (Cons x os)
  have x: "valid_opt x h" using Cons.prems(1) by force
  have tail: "separated os" "owns_opt x \<inter> owned os = {}"
    using Cons.prems(2) by (fastforce simp: separated_def owned_def All_less_Suc2)+
  obtain h1 where h1: "(case x of None \<Rightarrow> Ok h | Some y \<Rightarrow> destroy y h) = Ok h1" "removes (owns_opt x) h h1"
    using x destroy_gives_back by (cases x) auto
  have "\<forall>i < length os. valid_opt (os ! i) h1"
  proof (intro allI impI)
    fix i assume i: "i < length os"
    have "valid_opt (os ! i) h" using Cons.prems(1) i by force
    then show "valid_opt (os ! i) h1" using h1(2) tail(2) i by (auto intro: valid_after_removal simp: owned_def)
  qed
  then obtain h2 where h2: "destroy_all destroy os h1 = Ok h2" "removes (owned os) h1 h2"
    using Cons.IH tail(1) by blast
  have "owned (x # os) = owns_opt x \<union> owned os"
    by (auto simp: owned_def lessThan_Suc_eq_insert_0)
  then show ?case using h1 h2 removes_trans by auto
qed

text \<open>Destroying the target and then moving is a lawful assignment.\<close>

lemma destroy_then_move:
  assumes "valid x h" "valid y h" "owns x \<inter> owns y = {}"
  shows "\<exists>x' y' h'. bind_outcome (destroy x h) (\<lambda>h'. Ok (fst (move y), snd (move y), h')) = Ok (x', y', h') \<and>
    owns x' = owns y \<and> owns y' = {} \<and> removes (owns x) h h' \<and> valid x' h' \<and> valid y' h'"
proof -
  obtain h' where h': "destroy x h = Ok h'" "removes (owns x) h h'" using destroy_gives_back [OF assms(1)] by blast
  have "valid y h'" using valid_after_removal [of "Some y" h "owns x" h'] assms h'(2) by (auto simp: Int_commute)
  then have "owns (fst (move y)) = owns y \<and> owns (snd (move y)) = {} \<and> valid (fst (move y)) h' \<and> valid (snd (move y)) h'"
    by (intro move_hands_over) auto
  then show ?thesis using h' by auto
qed

text \<open>No leak: after the scope ends, no block is live.\<close>

lemma scope_leaves_nothing:
  assumes "raii_inv (os, h)"
  shows "\<exists>h'. destroy_all destroy os h = Ok h' \<and> (\<forall>b. mem h' b = None)"
proof -
  obtain h' where "destroy_all destroy os h = Ok h'" "removes (owned os) h h'"
    using destroy_all_spec [of os h] assms by (auto simp: raii_inv_def)
  then show ?thesis using assms by (auto simp: raii_inv_def removes_def)
qed

end

subsection \<open>Programs\<close>

locale raii_program = raii_class owns valid move destroy assign
  for owns :: "'o \<Rightarrow> nat set" and valid and move and destroy and assign +
  fixes mk :: "'c \<Rightarrow> heap \<Rightarrow> ('o \<times> heap) outcome"
    and mk_ok :: "'c \<Rightarrow> bool"
  assumes mk_returns: "mk_ok c \<Longrightarrow> \<exists>x h'. mk c h = Ok (x, h')"
    and mk_allocates: "heap_ok h \<Longrightarrow> mk c h = Ok (x, h') \<Longrightarrow> heap_ok h' \<and> valid x h' \<and>
      (\<forall>b \<in> owns x. mem h b = None) \<and> (\<forall>b. b \<notin> owns x \<longrightarrow> mem h' b = mem h b)"
begin

lemma construct_inv:
  assumes "raii_inv (os, h)" "mk c h = Ok (x, h')"
  shows "raii_inv (os @ [Some x], h')"
proof -
  have h: "heap_ok h" "separated os" "\<forall>i < length os. valid_opt (os ! i) h" "{b. mem h b \<noteq> None} = owned os"
    using assms(1) by (auto simp: raii_inv_def)
  have m: "heap_ok h'" "valid x h'" "\<forall>b \<in> owns x. mem h b = None" "\<forall>b. b \<notin> owns x \<longrightarrow> mem h' b = mem h b"
    using mk_allocates [OF h(1) assms(2)] by auto
  have disj: "owns x \<inter> owned os = {}" using m(3) by (auto simp: h(4) [symmetric])
  have v: "valid_opt (os ! i) h'" if "i < length os" for i
  proof (rule valid_opt_frame [where h = h])
    show "valid_opt (os ! i) h" using h(3) that by simp
    show "\<forall>b \<in> owns_opt (os ! i). mem h' b = mem h b" using m(4) disj that by (auto simp: owned_def)
  qed
  have "{b. mem h' b \<noteq> None} = owned os \<union> owns x"
  proof (rule set_eqI)
    fix b
    show "b \<in> {b. mem h' b \<noteq> None} \<longleftrightarrow> b \<in> owned os \<union> owns x"
      using m(4) valid_live [OF m(2)] by (cases "b \<in> owns x") (simp_all add: h(4) [symmetric])
  qed
  then show ?thesis using h(2) m(1,2) v disj by (auto simp: raii_inv_def separated_append nth_append less_Suc_eq)
qed

lemma move_inv:
  assumes "raii_inv (os, h)" "i < length os" "os ! i = Some x" "move x = (y, x')"
  shows "raii_inv (os[i := Some x'] @ [Some y], h)"
proof -
  have h: "heap_ok h" "separated os" "\<forall>i < length os. valid_opt (os ! i) h" "{b. mem h b \<noteq> None} = owned os"
    using assms(1) by (auto simp: raii_inv_def)
  have "valid x h" using h(3) assms(2,3) by force
  then have m: "owns y = owns x" "owns x' = {}" "valid y h" "valid x' h"
    using move_hands_over assms(4) by blast+
  have o: "owned (os[i := Some x']) = owned os - owns x" using owned_update [OF assms(2) h(2)] m(2) assms(3) by simp
  have "owns x \<subseteq> owned os" using assms(2,3) by (force simp: owned_def)
  moreover have "separated (os[i := Some x'])" using separated_update [OF assms(2) h(2)] m(2) by simp
  ultimately show ?thesis using h m o assms(2)
    by (auto simp: raii_inv_def separated_append nth_append nth_list_update less_Suc_eq split: if_splits)
qed

lemma replace_inv:
  assumes "raii_inv (os, h)" "i < length os" "removes (owns_opt (os ! i)) h h'" "owns_opt x = {}" "valid_opt x h'"
  shows "raii_inv (os[i := x], h')"
proof -
  have h: "heap_ok h" "separated os" "\<forall>i < length os. valid_opt (os ! i) h" "{b. mem h b \<noteq> None} = owned os"
    using assms(1) by (auto simp: raii_inv_def)
  have "{b. mem h' b \<noteq> None} = owned os - owns_opt (os ! i)"
    using h(4) assms(3) by (auto simp: removes_def split: if_splits)
  moreover have "owned (os[i := x]) = owned os - owns_opt (os ! i)" using owned_update [OF assms(2) h(2)] assms(4) by simp
  moreover have "separated (os[i := x])" using separated_update [OF assms(2) h(2)] assms(4) by simp
  moreover have "valid_opt (os[i := x] ! j) h'" if "j < length os" for j
  proof (cases "j = i")
    case False
    have "owns_opt (os ! j) \<inter> owns_opt (os ! i) = {}" using h(2) that assms(2) False by (simp add: separated_def)
    then show ?thesis using h(3) that False assms(3) by (auto intro: valid_after_removal)
  qed (use assms(2,5) in simp)
  ultimately show ?thesis using h(1) assms(3) removes_ok by (auto simp: raii_inv_def)
qed

lemma assign_inv:
  assumes "raii_inv (os, h)" "i < length os" "j < length os" "i \<noteq> j" "os ! i = Some x" "os ! j = Some y"
  shows "\<exists>x' y' h'. assign x y h = Ok (x', y', h') \<and> raii_inv (os[i := Some x', j := Some y'], h')"
proof -
  have h: "heap_ok h" "separated os" "\<forall>i < length os. valid_opt (os ! i) h" "{b. mem h b \<noteq> None} = owned os"
    using assms(1) by (auto simp: raii_inv_def)
  have v: "valid x h" "valid y h" using h(3) assms(2,3,5,6) by force+
  have d: "owns x \<inter> owns y = {}" using h(2) assms(2-6) by (force simp: separated_def)
  from assign_replaces [OF v d] obtain x' y' h' where a: "assign x y h = Ok (x', y', h')" "owns x' = owns y" "owns y' = {}"
    "removes (owns x) h h'" "valid x' h'" "valid y' h'" by blast
  have "raii_inv (os[i := None], h')" using replace_inv [OF assms(1,2), of h' None] a(4) assms(5) by simp
  then have r: "heap_ok h'" "separated (os[i := None])" "\<forall>k < length os. valid_opt (os[i := None] ! k) h'"
    "{b. mem h' b \<noteq> None} = owned (os[i := None])"
    by (auto simp: raii_inv_def)
  have j: "os[i := None] ! j = Some y" using assms(4,6) by simp
  have s1: "separated (os[i := None, j := Some y'])" "owned (os[i := None, j := Some y']) = owned (os[i := None]) - owns y"
    using separated_update [of j "os[i := None]" "Some y'"] owned_update [of j "os[i := None]" "Some y'"] r(2) assms(3) a(3) j
    by simp_all
  have ysub: "owns y \<subseteq> owned (os[i := None])" using j assms(3) by (force simp: owned_def)
  have i: "os[i := None, j := Some y'] ! i = None" using assms(2,4) by simp
  have s2: "separated (os[i := None, j := Some y', i := Some x'])"
    "owned (os[i := None, j := Some y', i := Some x']) = owned (os[i := None])"
    using separated_update [of i "os[i := None, j := Some y']" "Some x'"]
      owned_update [of i "os[i := None, j := Some y']" "Some x'"] s1 assms(2) a(2) i ysub by auto
  have eq: "os[i := None, j := Some y', i := Some x'] = os[i := Some x', j := Some y']"
    using assms(4) by (metis list_update_overwrite list_update_swap)
  have "valid_opt (os[i := Some x', j := Some y'] ! k) h'" if "k < length os" for k
    using r(3) that a(5,6) assms(2,3) by (auto simp: nth_list_update split: if_splits)
  then show ?thesis using a(1) r(1,4) s2 eq by (auto simp: raii_inv_def)
qed

lemma raii_do_inv:
  assumes "raii_inv s" "\<forall>d. c = Construct d \<longrightarrow> mk_ok d"
  shows "\<exists>s'. raii_do mk move assign destroy c s = Ok s' \<and> raii_inv s'"
proof -
  obtain os h where s: "s = (os, h)" by (cases s)
  show ?thesis
  proof (cases c)
    case (Construct d)
    then show ?thesis using assms s mk_returns [of d h] construct_inv by fastforce
  next
    case (MoveTo i)
    show ?thesis
    proof (cases "i < length os \<and> os ! i \<noteq> None")
      case True
      then obtain x where x: "os ! i = Some x" by auto
      then show ?thesis using True assms(1) s MoveTo move_inv [of os h i x] by (cases "move x") simp
    qed (use assms s MoveTo in auto)
  next
    case (MoveAssign i j)
    show ?thesis
    proof (cases "i < length os \<and> j < length os \<and> i \<noteq> j \<and> os ! i \<noteq> None \<and> os ! j \<noteq> None")
      case True
      then obtain x y where "os ! i = Some x" "os ! j = Some y" by auto
      then show ?thesis using True assms(1) s MoveAssign assign_inv [of os h i j x y] by auto
    next
      case False
      then have "raii_do mk move assign destroy c s = Ok s" using s MoveAssign by (auto split: option.splits)
      then show ?thesis using assms(1) by simp
    qed
  next
    case (Destroy i)
    show ?thesis
    proof (cases "i < length os \<and> os ! i \<noteq> None")
      case True
      then obtain x where x: "os ! i = Some x" by auto
      then have "valid x h" using assms(1) s True by (force simp: raii_inv_def)
      then obtain h' where "destroy x h = Ok h'" "removes (owns x) h h'" using destroy_gives_back by blast
      then show ?thesis using True x assms(1) s Destroy replace_inv [of os h i h' None] by simp
    qed (use assms s Destroy in auto)
  qed
qed

lemma raii_run_inv:
  assumes "raii_inv s" "\<forall>d. Construct d \<in> set cs \<longrightarrow> mk_ok d"
  shows "\<exists>s'. raii_run mk move assign destroy cs s = Ok s' \<and> raii_inv s'"
  using assms
proof (induction cs arbitrary: s)
  case Nil
  then show ?case by simp
next
  case (Cons c cs)
  then obtain s1 where "raii_do mk move assign destroy c s = Ok s1" "raii_inv s1" using raii_do_inv [of s c] by auto
  then show ?case using Cons.IH [of s1] Cons.prems(2) by auto
qed

theorem program_frees_everything:
  assumes "\<forall>d. Construct d \<in> set cs \<longrightarrow> mk_ok d"
  shows "\<exists>os h h'. raii_run mk move assign destroy cs ([], heap_empty) = Ok (os, h) \<and>
    destroy_all destroy os h = Ok h' \<and> (\<forall>b. mem h' b = None)"
proof -
  have "raii_inv ([], heap_empty)" by (simp add: raii_inv_def heap_ok_def heap_empty_def separated_def owned_def)
  from raii_run_inv [OF this assms] obtain os h where r: "raii_run mk move assign destroy cs ([], heap_empty) = Ok (os, h)"
    "raii_inv (os, h)" by auto
  then show ?thesis using scope_leaves_nothing by blast
qed

end

subsection \<open>Giving back one block\<close>

text \<open>The block a buffer points to, and that giving it back is legal.\<close>

definition points_to :: "ucx_buffer \<Rightarrow> nat set" where
  "points_to buf = (case b_data buf of Null \<Rightarrow> {} | At b off \<Rightarrow> {b})"

definition can_give_back ::
  "UcxMemoryResourceManager \<Rightarrow> nat option \<Rightarrow> ucx_memory_type \<Rightarrow> ucx_buffer \<Rightarrow> heap \<Rightarrow> bool" where
  "can_give_back mr fn type buf h \<longleftrightarrow>
     (case b_data buf of
        Null \<Rightarrow> True
      | At b off \<Rightarrow> off = 0 \<and> (\<exists>blk. mem h b = Some blk \<and>
          (fn = None \<longrightarrow> get_memory_resource type mr = Ok (blk_resource blk) \<and> length (blk_bytes blk) = b_size buf)))"

lemma points_to_simps [simp]: "points_to null_buffer = {}" "points_to \<lparr>b_data = At b off, b_size = n\<rparr> = {b}"
  "points_to \<lparr>b_data = Null, b_size = n\<rparr> = {}"
  by (simp_all add: points_to_def null_buffer_def)

lemma can_give_back_null [simp]: "can_give_back mr fn t null_buffer h" "can_give_back mr fn t \<lparr>b_data = Null, b_size = n\<rparr> h"
  by (simp_all add: can_give_back_def null_buffer_def)

lemma give_back_removes:
  assumes "can_give_back mr fn t buf h" "b_data buf \<noteq> Null"
  shows "\<exists>h'. give_back mr fn t buf h = Ok h' \<and> removes (points_to buf) h h'"
  using assms
  by (auto simp: can_give_back_def give_back_def call_release_def deallocate_def resource_deallocate_def removes_def
      points_to_def split: ptr.splits option.splits)

lemma can_give_back_frame:
  "can_give_back mr fn t buf h \<Longrightarrow> \<forall>b \<in> points_to buf. mem h' b = mem h b \<Longrightarrow> can_give_back mr fn t buf h'"
  by (auto simp: can_give_back_def points_to_def split: ptr.splits)

lemma can_give_back_live: "can_give_back mr fn t buf h \<Longrightarrow> b \<in> points_to buf \<Longrightarrow> mem h b \<noteq> None"
  by (auto simp: can_give_back_def points_to_def split: ptr.splits)

lemma deallocate_as_give_back: "deallocate mr t (b_data buf) (b_size buf) h = give_back mr None t buf h"
  by (simp add: give_back_def)

lemma allocated_can_give_back:
  assumes "heap_ok h" "allocate mr t n h = Ok (p, h')"
  shows "can_give_back mr fn t \<lparr>b_data = p, b_size = n\<rparr> h'" "heap_ok h'"
    "\<forall>b \<in> points_to \<lparr>b_data = p, b_size = n\<rparr>. mem h b = None"
    "\<forall>b. b \<notin> points_to \<lparr>b_data = p, b_size = n\<rparr> \<longrightarrow> mem h' b = mem h b"
  by (rule allocate_fresh [OF assms]; simp add: can_give_back_def)+

subsection \<open>UcxBuffer and UcxHeader meet the contract\<close>

definition UcxBuffer_owns :: "UcxBuffer \<Rightarrow> nat set" where
  "UcxBuffer_owns x = (if ub_own x then points_to (ub_buffer x) else {})"

definition UcxBuffer_valid :: "UcxMemoryResourceManager \<Rightarrow> UcxBuffer \<Rightarrow> heap \<Rightarrow> bool" where
  "UcxBuffer_valid mr x h \<longleftrightarrow> (ub_own x \<longrightarrow> can_give_back mr (ub_release x) (ub_type x) (ub_buffer x) h)"

lemmas UcxBuffer_contract = UcxBuffer_owns_def UcxBuffer_valid_def UcxBuffer_move_def UcxBuffer_destroy_def
  UcxBuffer_assign_def

interpretation buf: raii_move UcxBuffer_owns "UcxBuffer_valid mr" UcxBuffer_move "UcxBuffer_destroy mr" for mr
proof unfold_locales
  fix x h b
  assume "UcxBuffer_valid mr x h" "b \<in> UcxBuffer_owns x"
  then show "mem h b \<noteq> None"
    using can_give_back_live [of mr "ub_release x" "ub_type x" "ub_buffer x" h b]
    by (auto simp: UcxBuffer_contract split: if_splits)
next
  fix x and h h' :: heap
  assume "UcxBuffer_valid mr x h" "\<forall>b \<in> UcxBuffer_owns x. mem h' b = mem h b"
  then show "UcxBuffer_valid mr x h'"
    using can_give_back_frame by (auto simp: UcxBuffer_contract split: if_splits)
next
  fix x h y x'
  assume "UcxBuffer_valid mr x h" "UcxBuffer_move x = (y, x')"
  then show "UcxBuffer_owns y = UcxBuffer_owns x \<and> UcxBuffer_owns x' = {} \<and> UcxBuffer_valid mr y h \<and> UcxBuffer_valid mr x' h"
    by (auto simp: UcxBuffer_contract)
next
  fix x h
  assume v: "UcxBuffer_valid mr x h"
  show "\<exists>h'. UcxBuffer_destroy mr x h = Ok h' \<and> removes (UcxBuffer_owns x) h h'"
  proof (cases "b_data (ub_buffer x) \<noteq> Null \<and> ub_own x")
    case True
    then show ?thesis using v give_back_removes [of mr "ub_release x" "ub_type x" "ub_buffer x" h]
      by (simp add: UcxBuffer_contract)
  next
    case False
    then have "UcxBuffer_owns x = {}" by (auto simp: UcxBuffer_owns_def points_to_def)
    moreover have "UcxBuffer_destroy mr x h = Ok h" using False by (auto simp: UcxBuffer_destroy_def)
    ultimately show ?thesis by simp
  qed
qed

text \<open>Move assignment: the target's destructor, then a move.\<close>

lemma UcxBuffer_assign_destroy:
  "UcxBuffer_assign mr x y h = bind_outcome (UcxBuffer_destroy mr x h) (\<lambda>h'.
     Ok (fst (UcxBuffer_move y), snd (UcxBuffer_move y), h'))"
  by (cases y) (simp add: UcxBuffer_assign_def UcxBuffer_destroy_def UcxBuffer_move_def)

text \<open>A constructor that allocates, and one that borrows memory it does not own.\<close>

datatype buffer_ctor = Sized ucx_memory_type nat nat "nat option" | Borrow ucx_memory_type ucx_buffer nat

fun make_buffer :: "UcxMemoryResourceManager \<Rightarrow> buffer_ctor \<Rightarrow> heap \<Rightarrow> (UcxBuffer \<times> heap) outcome" where
  "make_buffer mr (Sized type n mem_h fn) h = UcxBuffer_sized mr type n mem_h True fn h"
| "make_buffer mr (Borrow type buf mem_h) h = Ok (UcxBuffer_of type buf mem_h False None, h)"

fun registered_type :: "UcxMemoryResourceManager \<Rightarrow> buffer_ctor \<Rightarrow> bool" where
  "registered_type mr (Sized type n mem_h fn) = (\<exists>r. get_memory_resource type mr = Ok r)"
| "registered_type mr (Borrow type buf mem_h) = True"

interpretation buf: raii_program UcxBuffer_owns "UcxBuffer_valid mr" UcxBuffer_move "UcxBuffer_destroy mr"
  "UcxBuffer_assign mr" "make_buffer mr" "registered_type mr" for mr
proof unfold_locales
  fix x y h
  assume "UcxBuffer_valid mr x h" "UcxBuffer_valid mr y h" "UcxBuffer_owns x \<inter> UcxBuffer_owns y = {}"
  then show "\<exists>x' y' h'. UcxBuffer_assign mr x y h = Ok (x', y', h') \<and> UcxBuffer_owns x' = UcxBuffer_owns y \<and>
      UcxBuffer_owns y' = {} \<and> removes (UcxBuffer_owns x) h h' \<and> UcxBuffer_valid mr x' h' \<and> UcxBuffer_valid mr y' h'"
    unfolding UcxBuffer_assign_destroy by (rule buf.destroy_then_move)
next
  fix c h
  assume "registered_type mr c"
  then show "\<exists>x h'. make_buffer mr c h = Ok (x, h')"
    by (cases c) (auto simp: UcxBuffer_sized_def allocate_def resource_allocate_def Let_def)
next
  fix h c x h'
  assume h: "heap_ok h" and m: "make_buffer mr c h = Ok (x, h')"
  show "heap_ok h' \<and> UcxBuffer_valid mr x h' \<and> (\<forall>b \<in> UcxBuffer_owns x. mem h b = None) \<and>
      (\<forall>b. b \<notin> UcxBuffer_owns x \<longrightarrow> mem h' b = mem h b)"
  proof (cases c)
    case (Sized t n mh fn)
    show ?thesis
    proof (cases "n > 0")
      case True
      then obtain p where p: "allocate mr t n h = Ok (p, h')" "x = \<lparr>ub_type = t, ub_buffer = \<lparr>b_data = p, b_size = n\<rparr>,
          ub_mem_h = mh, ub_own = True, ub_release = fn\<rparr>"
        using m Sized by (auto simp: UcxBuffer_sized_def Let_def bind_outcome_Ok_iff)
      then show ?thesis using allocated_can_give_back [OF h p(1)] by (simp add: UcxBuffer_owns_def UcxBuffer_valid_def)
    qed (use m Sized h in \<open>auto simp: UcxBuffer_sized_def Let_def UcxBuffer_owns_def UcxBuffer_valid_def\<close>)
  qed (use m h in \<open>auto simp: UcxBuffer_of_def UcxBuffer_owns_def UcxBuffer_valid_def\<close>)
qed

subsection \<open>UcxHeader\<close>

definition UcxHeader_owns :: "UcxHeader \<Rightarrow> nat set" where
  "UcxHeader_owns x = (if uh_own x then points_to (uh_header x) else {})"

definition UcxHeader_valid :: "UcxMemoryResourceManager \<Rightarrow> UcxHeader \<Rightarrow> heap \<Rightarrow> bool" where
  "UcxHeader_valid mr x h \<longleftrightarrow> (uh_own x \<longrightarrow> can_give_back mr None HOST (uh_header x) h)"

text \<open>A header is a host buffer without release function.\<close>

definition header_as_buffer :: "UcxHeader \<Rightarrow> UcxBuffer" where
  "header_as_buffer x = UcxBuffer_of HOST (uh_header x) 0 (uh_own x) None"

lemma header_as_buffer:
  "UcxHeader_owns x = UcxBuffer_owns (header_as_buffer x)"
  "UcxHeader_valid mr x h = UcxBuffer_valid mr (header_as_buffer x) h"
  "UcxHeader_destroy mr x h = UcxBuffer_destroy mr (header_as_buffer x) h"
  "header_as_buffer (fst (UcxHeader_move x)) = fst (UcxBuffer_move (header_as_buffer x))"
  "header_as_buffer (snd (UcxHeader_move x)) = snd (UcxBuffer_move (header_as_buffer x))"
  by (simp_all add: header_as_buffer_def UcxBuffer_of_def UcxHeader_owns_def UcxBuffer_owns_def UcxHeader_valid_def
      UcxBuffer_valid_def UcxHeader_destroy_def UcxBuffer_destroy_def UcxHeader_move_def UcxBuffer_move_def give_back_def)

interpretation hdr: raii_move UcxHeader_owns "UcxHeader_valid mr" UcxHeader_move "UcxHeader_destroy mr" for mr
proof unfold_locales
  fix x h y x'
  assume "UcxHeader_valid mr x h" "UcxHeader_move x = (y, x')"
  then show "UcxHeader_owns y = UcxHeader_owns x \<and> UcxHeader_owns x' = {} \<and> UcxHeader_valid mr y h \<and> UcxHeader_valid mr x' h"
    by (auto simp: UcxHeader_owns_def UcxHeader_valid_def UcxHeader_move_def)
qed (unfold header_as_buffer, rule buf.valid_live buf.valid_frame buf.destroy_gives_back; assumption)+

lemma UcxHeader_assign_destroy:
  "UcxHeader_assign mr x y h = bind_outcome (UcxHeader_destroy mr x h) (\<lambda>h'.
     Ok (fst (UcxHeader_move y), snd (UcxHeader_move y), h'))"
  by (simp add: UcxHeader_assign_def UcxHeader_destroy_def UcxHeader_move_def)

definition make_header :: "UcxMemoryResourceManager \<Rightarrow> nat \<Rightarrow> heap \<Rightarrow> (UcxHeader \<times> heap) outcome" where
  "make_header mr n h = UcxHeader_sized mr n True h"

interpretation hdr: raii_program UcxHeader_owns "UcxHeader_valid mr" UcxHeader_move "UcxHeader_destroy mr"
  "UcxHeader_assign mr" "make_header mr" "\<lambda>_. \<exists>r. get_memory_resource HOST mr = Ok r" for mr
proof unfold_locales
  fix x y h
  assume "UcxHeader_valid mr x h" "UcxHeader_valid mr y h" "UcxHeader_owns x \<inter> UcxHeader_owns y = {}"
  then show "\<exists>x' y' h'. UcxHeader_assign mr x y h = Ok (x', y', h') \<and> UcxHeader_owns x' = UcxHeader_owns y \<and>
      UcxHeader_owns y' = {} \<and> removes (UcxHeader_owns x) h h' \<and> UcxHeader_valid mr x' h' \<and> UcxHeader_valid mr y' h'"
    unfolding UcxHeader_assign_destroy by (rule hdr.destroy_then_move)
next
  fix n h
  assume "\<exists>r. get_memory_resource HOST mr = Ok r"
  then show "\<exists>x h'. make_header mr n h = Ok (x, h')"
    by (auto simp: make_header_def UcxHeader_sized_def allocate_def resource_allocate_def)
next
  fix h n x h'
  assume h: "heap_ok h" and m: "make_header mr n h = Ok (x, h')"
  show "heap_ok h' \<and> UcxHeader_valid mr x h' \<and> (\<forall>b \<in> UcxHeader_owns x. mem h b = None) \<and>
      (\<forall>b. b \<notin> UcxHeader_owns x \<longrightarrow> mem h' b = mem h b)"
  proof (cases "n > 0")
    case True
    then obtain p where p: "allocate mr HOST n h = Ok (p, h')" "x = \<lparr>uh_header = \<lparr>b_data = p, b_size = n\<rparr>, uh_own = True\<rparr>"
      using m by (auto simp: make_header_def UcxHeader_sized_def bind_outcome_Ok_iff)
    then show ?thesis using allocated_can_give_back [OF h p(1)] by (simp add: UcxHeader_owns_def UcxHeader_valid_def)
  qed (use m h in \<open>auto simp: make_header_def UcxHeader_sized_def UcxHeader_owns_def UcxHeader_valid_def\<close>)
qed

subsection \<open>UcxBufferVec\<close>

text \<open>A vector of separate blocks meets the move half of the contract.\<close>

definition UcxBufferVec_owns :: "UcxBufferVec \<Rightarrow> nat set" where
  "UcxBufferVec_owns x = (if bv_own x then \<Union> (points_to ` set (bv_buffers x)) else {})"

definition UcxBufferVec_valid :: "UcxMemoryResourceManager \<Rightarrow> UcxBufferVec \<Rightarrow> heap \<Rightarrow> bool" where
  "UcxBufferVec_valid mr x h \<longleftrightarrow> bv_backing x = None \<and> (bv_own x \<longrightarrow>
     (\<forall>buf \<in> set (bv_buffers x). b_data buf \<noteq> Null \<and> can_give_back mr (bv_release x) (bv_type x) buf h) \<and>
     distinct (map b_data (bv_buffers x)))"

lemma can_give_back_start: "can_give_back mr fn t buf h \<Longrightarrow> b_data buf = At b off \<Longrightarrow> off = 0"
  by (simp add: can_give_back_def)

lemma give_back_each_removes:
  assumes "\<forall>buf \<in> set bufs. b_data buf \<noteq> Null \<and> can_give_back mr fn t buf h" "distinct (map b_data bufs)"
  shows "\<exists>h'. give_back_each mr fn t bufs h = Ok h' \<and> removes (\<Union> (points_to ` set bufs)) h h'"
  using assms
proof (induction bufs arbitrary: h)
  case Nil
  then show ?case by simp
next
  case (Cons buf bufs)
  obtain h1 where h1: "give_back mr fn t buf h = Ok h1" "removes (points_to buf) h h1"
    using give_back_removes Cons.prems(1) by fastforce
  have sep: "points_to buf \<inter> points_to buf' = {}" if m: "buf' \<in> set bufs" for buf'
  proof -
    have "b_data buf \<noteq> b_data buf'" using Cons.prems(2) m by auto
    then show ?thesis using Cons.prems(1) m can_give_back_start [of mr fn t buf h] can_give_back_start [of mr fn t buf' h]
      by (auto simp: points_to_def split: ptr.splits)
  qed
  have "\<forall>buf' \<in> set bufs. b_data buf' \<noteq> Null \<and> can_give_back mr fn t buf' h1"
  proof
    fix buf' assume m: "buf' \<in> set bufs"
    have "\<forall>b \<in> points_to buf'. mem h1 b = mem h b" using sep [OF m] h1(2) by (auto simp: removes_def)
    then show "b_data buf' \<noteq> Null \<and> can_give_back mr fn t buf' h1" using Cons.prems(1) m can_give_back_frame by auto
  qed
  then obtain h2 where "give_back_each mr fn t bufs h1 = Ok h2" "removes (\<Union> (points_to ` set bufs)) h1 h2"
    using Cons.IH [of h1] Cons.prems(2) by auto
  then show ?case using h1 removes_trans by auto
qed

interpretation vec: raii_move UcxBufferVec_owns "UcxBufferVec_valid mr" UcxBufferVec_move "UcxBufferVec_destroy mr" for mr
proof unfold_locales
  fix x h b
  assume "UcxBufferVec_valid mr x h" "b \<in> UcxBufferVec_owns x"
  then show "mem h b \<noteq> None"
    using can_give_back_live by (fastforce simp: UcxBufferVec_owns_def UcxBufferVec_valid_def split: if_splits)
next
  fix x and h h' :: heap
  assume "UcxBufferVec_valid mr x h" "\<forall>b \<in> UcxBufferVec_owns x. mem h' b = mem h b"
  then show "UcxBufferVec_valid mr x h'"
    using can_give_back_frame by (auto simp: UcxBufferVec_owns_def UcxBufferVec_valid_def split: if_splits)
next
  fix x h y x'
  assume "UcxBufferVec_valid mr x h" "UcxBufferVec_move x = (y, x')"
  then show "UcxBufferVec_owns y = UcxBufferVec_owns x \<and> UcxBufferVec_owns x' = {} \<and> UcxBufferVec_valid mr y h \<and> UcxBufferVec_valid mr x' h"
    by (auto simp: UcxBufferVec_owns_def UcxBufferVec_valid_def UcxBufferVec_move_def)
next
  fix x h
  assume "UcxBufferVec_valid mr x h"
  then show "\<exists>h'. UcxBufferVec_destroy mr x h = Ok h' \<and> removes (UcxBufferVec_owns x) h h'"
    using give_back_each_removes [of "bv_buffers x" mr "bv_release x" "bv_type x" h]
    by (auto simp: UcxBufferVec_owns_def UcxBufferVec_valid_def UcxBufferVec_destroy_def destroy_backing_def)
qed

text \<open>The buffers extracted from such a vector own its blocks; the vector owns none after.\<close>

lemma extract_buffers_hands_over:
  assumes "UcxBufferVec_valid mr x h" "ExtractBuffers x = Ok (bufs, x')"
  shows "\<Union> (UcxBuffer_owns ` set bufs) = UcxBufferVec_owns x \<and> UcxBufferVec_owns x' = {} \<and>
    (\<forall>b \<in> set bufs. UcxBuffer_valid mr b h)"
proof -
  let ?f = "\<lambda>b. UcxBuffer_of (bv_type x) b (bv_mem_h x) (bv_own x) (bv_release x)"
  have b: "bufs = map ?f (bv_buffers x)" "x' = x\<lparr>bv_own := False\<rparr>"
    using assms by (auto simp: ExtractBuffers_def UcxBufferVec_valid_def)
  have "UcxBuffer_owns (?f b) = (if bv_own x then points_to b else {})" for b
    by (simp add: UcxBuffer_owns_def UcxBuffer_of_def)
  then have "\<Union> (UcxBuffer_owns ` set bufs) = UcxBufferVec_owns x"
    unfolding b(1) set_map image_image UcxBufferVec_owns_def by simp
  moreover have "\<forall>b \<in> set bufs. UcxBuffer_valid mr b h"
    using assms(1) b(1) by (auto simp: UcxBufferVec_valid_def UcxBuffer_valid_def UcxBuffer_of_def)
  ultimately show ?thesis using b(2) by (simp add: UcxBufferVec_owns_def)
qed

subsection \<open>Splitting a buffer into views\<close>

text \<open>The bytes seen through the views, one after the other.\<close>

fun load_each :: "ucx_buffer list \<Rightarrow> heap \<Rightarrow> u8 list list outcome" where
  "load_each [] h = Ok []"
| "load_each (b # bs) h = bind_outcome (load (b_data b) (b_size b) h) (\<lambda>x.
     bind_outcome (load_each bs h) (\<lambda>xs. Ok (x # xs)))"

fun cut :: "nat list \<Rightarrow> u8 list \<Rightarrow> u8 list list" where
  "cut [] bs = []"
| "cut (n # ns) bs = take n bs # cut ns (drop n bs)"

lemma load_views:
  assumes "mem h b = Some blk" "off + sum_list ns \<le> length (blk_bytes blk)"
  shows "load_each (views (At b off) ns) h = Ok (cut ns (drop off (blk_bytes blk)))"
  using assms(2)
proof (induction ns arbitrary: off)
  case Nil
  then show ?case by simp
next
  case (Cons n ns)
  have "load (At b off) n h = Ok (take n (drop off (blk_bytes blk)))"
    using Cons.prems assms(1) by (simp add: load_def)
  then show ?case using Cons.IH [of "off + n"] Cons.prems by (simp add: ptr_add_def add.commute)
qed

lemma concat_cut: "concat (cut ns bs) = take (sum_list ns) bs"
  by (induction ns arbitrary: bs) (auto simp: take_add)

text \<open>
  C40. A split whose sizes fit the buffer succeeds: the views are readable, have the requested sizes and show
  consecutive parts of the buffer from its start; the resulting vector keeps the buffer alive as its backing
  buffer, and the buffer it was made from no longer owns anything.
\<close>

theorem split_views_show_buffer:
  assumes "UcxBuffer_valid mr x h" "ub_own x" "b_data (ub_buffer x) = At b 0" "mem h b = Some blk"
    and "length (blk_bytes blk) = b_size (ub_buffer x)" "sum_list sizes \<le> b_size (ub_buffer x)"
  shows "\<exists>v x' bss. to_buffer_vec sizes x = Ok (v, x') \<and> load_each (bv_buffers v) h = Ok bss \<and> map length bss = sizes \<and>
    concat bss = take (sum_list sizes) (blk_bytes blk) \<and>
    bv_backing v = Some x \<and> UcxBufferVec_owns v = {} \<and> UcxBuffer_owns x' = {}"
proof -
  have "accumulate_sizes sizes \<le> sum_list sizes" by (simp add: accumulate_sizes_def)
  then have t: "to_buffer_vec sizes x = Ok (\<lparr>bv_type = ub_type x, bv_buffers = views (At b 0) sizes, bv_mem_h = ub_mem_h x,
      bv_own = False, bv_release = None, bv_backing = Some x\<rparr>, snd (UcxBuffer_move x))"
    using assms(3,6) by (simp add: to_buffer_vec_def UcxBuffer_move_def)
  have c: "map length (cut ns bs) = ns" if "sum_list ns \<le> length bs" for ns :: "nat list" and bs :: "u8 list"
    using that by (induction ns arbitrary: bs) auto
  have "load_each (views (At b 0) sizes) h = Ok (cut sizes (blk_bytes blk))"
    using load_views [OF assms(4), of 0 sizes] assms(5,6) by simp
  then show ?thesis using t c [of sizes "blk_bytes blk"] assms(5,6)
    by (simp add: UcxBufferVec_owns_def UcxBuffer_owns_def UcxBuffer_move_def concat_cut)
qed

definition example_heap :: heap where
  "example_heap = \<lparr>mem = [0 \<mapsto> \<lparr>blk_resource = 7, blk_bytes = [1, 2, 3, 4, 5]\<rparr>], next_block = 1\<rparr>"

definition example_buffer :: UcxBuffer where
  "example_buffer = UcxBuffer_of HOST \<lparr>b_data = At 0 0, b_size = 5\<rparr> 0 True None"

definition example_manager :: UcxMemoryResourceManager where
  "example_manager = DefaultUcxMemoryResourceManager 7 1"

lemma example_facts:
  "UcxBuffer_valid example_manager example_buffer example_heap" "ub_own example_buffer"
  "b_data (ub_buffer example_buffer) = At 0 0" "b_size (ub_buffer example_buffer) = 5"
  "mem example_heap 0 = Some \<lparr>blk_resource = 7, blk_bytes = [1, 2, 3, 4, 5]\<rparr>"
  by (simp_all add: UcxBuffer_valid_def can_give_back_def example_buffer_def example_heap_def example_manager_def
      UcxBuffer_of_def UCX_MEMORY_TYPE_COUNT_def HOST_def LAST_def)

theorem split_views_show_buffer_witness:
  "\<exists>v x' bss. to_buffer_vec [2, 3] example_buffer = Ok (v, x') \<and> load_each (bv_buffers v) example_heap = Ok bss \<and>
    map length bss = [2, 3] \<and> concat bss = [1, 2, 3, 4, 5]"
  using split_views_show_buffer [OF example_facts(1-3,5), of "[2, 3]"] example_facts(4) by auto

text \<open>Without the bound the check can pass by wrap-around: the second view lies outside the buffer.\<close>

lemma split_sizes_wrap_around:
  "\<exists>v x'. to_buffer_vec [2 ^ 64 - 2, 3] example_buffer = Ok (v, x') \<and>
     load (b_data (bv_buffers v ! 1)) (b_size (bv_buffers v ! 1)) example_heap = Fault OutOfBounds"
  by (simp add: to_buffer_vec_def accumulate_sizes_def example_buffer_def UcxBuffer_of_def UcxBuffer_move_def load_def
      ptr_add_def example_heap_def)

text \<open>
  A vector made by a split does not survive a move: the move constructor leaves the backing buffer in the
  object it moves from, so destroying that object frees the memory and every access through the views of the
  new vector is a use after free.
\<close>

theorem moved_split_dangles:
  assumes "UcxBuffer_valid mr x h" "ub_own x" "b_data (ub_buffer x) = At b 0" "to_buffer_vec sizes x = Ok (v, x')"
    and "UcxBufferVec_move v = (w, v')"
  shows "\<exists>h'. UcxBufferVec_destroy mr v' h = Ok h' \<and> length (bv_buffers w) = length sizes \<and>
    (\<forall>buf \<in> set (bv_buffers w). 0 < b_size buf \<longrightarrow> load (b_data buf) (b_size buf) h' = Fault UseAfterFree)"
proof -
  have v: "bv_backing v = Some x" "bv_buffers v = views (At b 0) sizes" "bv_own v = False"
    using assms(3,4) by (auto simp: to_buffer_vec_def UcxBuffer_move_def split: if_splits)
  have w: "bv_buffers w = views (At b 0) sizes" "bv_own v' = False" "bv_backing v' = Some x"
    using assms(5) v by (auto simp: UcxBufferVec_move_def)
  obtain h' where h': "UcxBuffer_destroy mr x h = Ok h'" "removes (UcxBuffer_owns x) h h'"
    using buf.destroy_gives_back assms(1) by blast
  have m: "mem h' b = None" using h'(2) assms(2,3) by (simp add: removes_def UcxBuffer_owns_def points_to_def)
  have in_block: "\<exists>off. b_data buf = At b off" if "buf \<in> set (views (At b k) ns)" for buf k ns
    using that by (induction ns arbitrary: k) (auto simp: ptr_add_def)
  have len: "length (views p ns) = length ns" for p ns by (induction ns arbitrary: p) auto
  have "load (b_data buf) (b_size buf) h' = Fault UseAfterFree" if "buf \<in> set (bv_buffers w)" "0 < b_size buf" for buf
    using in_block [of buf 0 sizes] that w(1) m by (auto simp: load_def)
  moreover have "UcxBufferVec_destroy mr v' h = Ok h'"
    using w(2,3) h'(1) by (simp add: UcxBufferVec_destroy_def destroy_backing_def)
  ultimately show ?thesis using w(1) len by auto
qed

theorem moved_split_dangles_witness:
  "\<exists>v x' w v' h'. to_buffer_vec [2, 3] example_buffer = Ok (v, x') \<and> UcxBufferVec_move v = (w, v') \<and>
    UcxBufferVec_destroy example_manager v' example_heap = Ok h' \<and>
    load (b_data (bv_buffers w ! 0)) 2 h' = Fault UseAfterFree"
proof -
  obtain v x' where t: "to_buffer_vec [2, 3] example_buffer = Ok (v, x')" "b_size (bv_buffers v ! 0) = 2"
    "length (bv_buffers v) = 2"
    by (simp add: to_buffer_vec_def accumulate_sizes_def example_buffer_def UcxBuffer_of_def UcxBuffer_move_def)
  obtain w v' where m: "UcxBufferVec_move v = (w, v')" "bv_buffers w = bv_buffers v" by (simp add: UcxBufferVec_move_def)
  then have "bv_buffers w ! 0 \<in> set (bv_buffers w)" using t(3) by simp
  then show ?thesis using moved_split_dangles [OF example_facts(1-3) t(1) m(1)] t m by fastforce
qed

subsection \<open>Move assignment of UcxAmData\<close>

definition UcxAmData_owns :: "UcxAmData \<Rightarrow> nat set" where
  "UcxAmData_owns x = (if ad_own_header x then points_to (am_header (ad_data x)) else {}) \<union>
     (if ad_own_buffer x then points_to (am_buffer (ad_data x)) else {})"

definition UcxAmData_valid :: "UcxMemoryResourceManager \<Rightarrow> UcxAmData \<Rightarrow> heap \<Rightarrow> bool" where
  "UcxAmData_valid mr x h \<longleftrightarrow>
     (ad_own_header x \<longrightarrow> can_give_back mr None HOST (am_header (ad_data x)) h) \<and>
     (ad_own_buffer x \<longrightarrow> can_give_back mr (ad_release x) (am_buffer_type (ad_data x)) (am_buffer (ad_data x)) h) \<and>
     (ad_own_header x \<and> ad_own_buffer x \<longrightarrow> points_to (am_header (ad_data x)) \<inter> points_to (am_buffer (ad_data x)) = {})"

lemma give_back_if:
  assumes "own \<longrightarrow> can_give_back mr fn t buf h"
  shows "\<exists>h'. (if b_data buf \<noteq> Null \<and> own then give_back mr fn t buf h else Ok h) = Ok h' \<and>
    removes (if own then points_to buf else {}) h h'"
proof (cases "b_data buf \<noteq> Null \<and> own")
  case True
  then show ?thesis using assms give_back_removes [of mr fn t buf h] by simp
next
  case False
  have "(if own then points_to buf else {}) = {}" using False by (auto simp: points_to_def)
  moreover have "(if b_data buf \<noteq> Null \<and> own then give_back mr fn t buf h else Ok h) = Ok h" using False by (simp only: if_False)
  ultimately show ?thesis by simp
qed

interpretation amd: raii_move UcxAmData_owns "UcxAmData_valid mr" UcxAmData_move "UcxAmData_destroy mr" for mr
proof unfold_locales
  fix x h b
  assume "UcxAmData_valid mr x h" "b \<in> UcxAmData_owns x"
  then show "mem h b \<noteq> None"
    using can_give_back_live by (fastforce simp: UcxAmData_owns_def UcxAmData_valid_def split: if_splits)
next
  fix x and h h' :: heap
  assume "UcxAmData_valid mr x h" "\<forall>b \<in> UcxAmData_owns x. mem h' b = mem h b"
  then show "UcxAmData_valid mr x h'"
    using can_give_back_frame by (auto simp: UcxAmData_owns_def UcxAmData_valid_def split: if_splits)
next
  fix x h y x'
  assume "UcxAmData_valid mr x h" "UcxAmData_move x = (y, x')"
  then show "UcxAmData_owns y = UcxAmData_owns x \<and> UcxAmData_owns x' = {} \<and> UcxAmData_valid mr y h \<and> UcxAmData_valid mr x' h"
    by (auto simp: UcxAmData_owns_def UcxAmData_valid_def UcxAmData_move_def UcxAmData_moved_def)
next
  fix x h
  assume v: "UcxAmData_valid mr x h"
  let ?d = "ad_data x"
  obtain h1 where h1: "(if b_data (am_header ?d) \<noteq> Null \<and> ad_own_header x then give_back mr None HOST (am_header ?d) h else Ok h) = Ok h1"
    "removes (if ad_own_header x then points_to (am_header ?d) else {}) h h1"
    using give_back_if [of "ad_own_header x" mr None HOST "am_header ?d" h] v by (auto simp: UcxAmData_valid_def)
  have "ad_own_buffer x \<longrightarrow> can_give_back mr (ad_release x) (am_buffer_type ?d) (am_buffer ?d) h1"
  proof
    assume o: "ad_own_buffer x"
    then have "\<forall>b \<in> points_to (am_buffer ?d). mem h1 b = mem h b"
      using h1(2) v by (auto simp: removes_def UcxAmData_valid_def split: if_splits)
    then show "can_give_back mr (ad_release x) (am_buffer_type ?d) (am_buffer ?d) h1"
      using v o can_give_back_frame by (auto simp: UcxAmData_valid_def)
  qed
  from give_back_if [OF this] obtain h2 where
    h2: "(if b_data (am_buffer ?d) \<noteq> Null \<and> ad_own_buffer x then give_back mr (ad_release x) (am_buffer_type ?d) (am_buffer ?d) h1 else Ok h1) = Ok h2"
    "removes (if ad_own_buffer x then points_to (am_buffer ?d) else {}) h1 h2" by blast
  have "UcxAmData_destroy mr x h = Ok h2"
    using h1(1) h2(1) by (simp only: UcxAmData_destroy_def Let_def deallocate_as_give_back bind_outcome.simps)
  then show "\<exists>h'. UcxAmData_destroy mr x h = Ok h' \<and> removes (UcxAmData_owns x) h h'"
    using removes_trans [OF h1(2) h2(2)] by (auto simp: UcxAmData_owns_def)
qed

text \<open>
  Move-assigning a message over one that owns memory loses that memory: after the assignment and the
  destruction of both objects, every block the target owned is still live.
\<close>

theorem am_data_assign_leaks:
  assumes "UcxAmData_valid mr x h" "UcxAmData_valid mr y h" "UcxAmData_owns x \<inter> UcxAmData_owns y = {}"
  shows "\<exists>x' y' h1 h2 h3. UcxAmData_assign x y h = Ok (x', y', h1) \<and> UcxAmData_destroy mr x' h1 = Ok h2 \<and>
    UcxAmData_destroy mr y' h2 = Ok h3 \<and> (\<forall>b \<in> UcxAmData_owns x. mem h3 b = mem h b \<and> mem h3 b \<noteq> None)"
proof -
  have a: "UcxAmData_assign x y h = Ok (y, snd (UcxAmData_move y), h)"
    by (simp add: UcxAmData_assign_def UcxAmData_move_def)
  have m: "UcxAmData_owns (snd (UcxAmData_move y)) = {}" "UcxAmData_valid mr (snd (UcxAmData_move y)) h'" for h'
    by (simp_all add: UcxAmData_owns_def UcxAmData_valid_def UcxAmData_move_def UcxAmData_moved_def)
  obtain h2 where h2: "UcxAmData_destroy mr y h = Ok h2" "removes (UcxAmData_owns y) h h2"
    using amd.destroy_gives_back assms(2) by blast
  obtain h3 where h3: "UcxAmData_destroy mr (snd (UcxAmData_move y)) h2 = Ok h3" "removes {} h2 h3"
    using amd.destroy_gives_back m by metis
  have "mem h3 b = mem h b" "mem h b \<noteq> None" if "b \<in> UcxAmData_owns x" for b
  proof -
    have "b \<notin> UcxAmData_owns y" using assms(3) that by auto
    then show "mem h3 b = mem h b" using h2(2) h3(2) by (simp add: removes_def)
    show "mem h b \<noteq> None" using amd.valid_live assms(1) that by blast
  qed
  then show ?thesis using a h2(1) h3(1) by fastforce
qed

definition example_message :: UcxAmData where
  "example_message = UcxAmData_of (ucx_am_data_zero\<lparr>am_buffer := \<lparr>b_data = At 0 0, b_size = 5\<rparr>\<rparr>) True True None"

definition empty_message :: UcxAmData where
  "empty_message = UcxAmData_of ucx_am_data_zero True True None"

theorem am_data_assign_leaks_witness:
  "\<exists>x' y' h1 h2 h3. UcxAmData_assign example_message empty_message example_heap = Ok (x', y', h1) \<and>
    UcxAmData_destroy example_manager x' h1 = Ok h2 \<and> UcxAmData_destroy example_manager y' h2 = Ok h3 \<and> mem h3 0 \<noteq> None"
proof -
  have v: "UcxAmData_valid example_manager example_message example_heap" "0 \<in> UcxAmData_owns example_message"
    by (simp_all add: UcxAmData_valid_def UcxAmData_owns_def example_message_def UcxAmData_of_def ucx_am_data_zero_def
        can_give_back_def example_manager_def example_heap_def null_buffer_def UCX_MEMORY_TYPE_COUNT_def HOST_def LAST_def
        points_to_def)
  have w: "UcxAmData_valid example_manager empty_message example_heap" "UcxAmData_owns empty_message = {}"
    by (simp_all add: UcxAmData_valid_def UcxAmData_owns_def empty_message_def UcxAmData_of_def ucx_am_data_zero_def)
  then show ?thesis using am_data_assign_leaks [OF v(1) w(1)] v(2) by fastforce
qed

text \<open>The array of an iovec that does not own its buffers is allocated and never given back.\<close>

lemma iovec_array_leaks:
  assumes "heap_ok h" "get_memory_resource HOST mr = Ok r" "sizes \<noteq> []"
  shows "\<exists>x h' h''. UcxAmIovec_sized mr 0 sizes t True False h = Ok (x, h') \<and> UcxAmIovec_destroy mr x h' = Ok h'' \<and>
    mem h (next_block h) = None \<and> mem h'' (next_block h) \<noteq> None"
proof -
  have o: "allocate_owned mr False t ns g = Ok (map (\<lambda>n. \<lparr>b_data = Null, b_size = n\<rparr>) ns, g)" for ns g
    by (induction ns) (auto simp: allocate_if_def)
  show ?thesis using assms o
    by (simp add: UcxAmIovec_sized_def allocate_if_def allocate_def resource_allocate_def Let_def UcxAmIovec_destroy_def
        ucx_am_iovec_zero_def null_buffer_def heap_ok_def)
qed



text \<open>The same for headers.\<close>

lemma ucx_header_programs_free_everything:
  assumes "get_memory_resource HOST mr = Ok r"
  shows "\<exists>os h h'. raii_run (make_header mr) UcxHeader_move (UcxHeader_assign mr) (UcxHeader_destroy mr) cs ([], heap_empty) = Ok (os, h) \<and>
    destroy_all (UcxHeader_destroy mr) os h = Ok h' \<and> (\<forall>b. mem h' b = None)"
  using assms by (intro hdr.program_frees_everything) blast

end
