(* ===== verification/Axon_Message.thy ===== *)
theory Axon_Message
  imports Ucx_Ownership
begin

text \<open>
  Tensors and messages: \<open>axon/utils/tensor.hpp\<close>, \<open>axon/utils/axon_message.{hpp,cpp}\<close>. A message is a
  header whose parameters describe at most one tensor parameter, and a payload with the memory of the tensors.
  The constructors assert that the two agree; a failed \<open>assert\<close> is the fault \<open>AssertFailed\<close>.
\<close>

subsection \<open>Tensors\<close>

text \<open>
  A \<open>TensorBase\<close> is a \<open>DLTensor\<close> with a data pointer, and the metadata it owns, if any; the arrays
  that its shape and stride pointers refer to are given by value.
\<close>

record TensorBase =
  tb_data :: ptr
  tb_tensor :: DLTensor
  tb_owner :: "TensorMeta option"

definition kDLCPU :: int where "kDLCPU = 1"
definition kDLFloat :: u8 where "kDLFloat = 2"

definition DLTensor_empty :: DLTensor where
  "DLTensor_empty = \<lparr>dl_device = \<lparr>device_type = kDLCPU, device_id = 0\<rparr>, dl_ndim = 0,
     dl_dtype = \<lparr>dt_code = kDLFloat, dt_bits = 32, dt_lanes = 1\<rparr>, dl_byte_offset = 0, dl_shape = None, dl_strides = None\<rparr>"

definition TensorBase_new :: TensorBase where
  "TensorBase_new = \<lparr>tb_data = Null, tb_tensor = DLTensor_empty, tb_owner = None\<rparr>"

definition array_ptr :: "int list \<Rightarrow> int list option" where
  "array_ptr xs = (if xs = [] then None else Some xs)"

definition rewire_pointers_to_owner :: "TensorBase \<Rightarrow> TensorBase" where
  "rewire_pointers_to_owner t =
     (case tb_owner t of
        None \<Rightarrow> t
      | Some m \<Rightarrow> t\<lparr>tb_tensor := (tb_tensor t)\<lparr>dl_shape := array_ptr (tm_shape m), dl_strides := array_ptr (tm_strides m)\<rparr>\<rparr>)"

definition tensor_view_of :: "ptr \<Rightarrow> DLTensor \<Rightarrow> TensorBase" where
  "tensor_view_of p d = \<lparr>tb_data = p, tb_tensor = d, tb_owner = None\<rparr>"

definition TensorBase_copy :: "TensorBase \<Rightarrow> TensorBase" where
  "TensorBase_copy other = (case tb_owner other of None \<Rightarrow> other | Some m \<Rightarrow> rewire_pointers_to_owner other)"

definition TensorBase_moved :: "TensorBase \<Rightarrow> TensorBase" where
  "TensorBase_moved other =
     other\<lparr>tb_owner := None, tb_data := Null, tb_tensor := (tb_tensor other)\<lparr>dl_shape := None, dl_strides := None\<rparr>\<rparr>"

definition TensorBase_move :: "TensorBase \<Rightarrow> TensorBase \<times> TensorBase" where
  "TensorBase_move other = (other, TensorBase_moved other)"

definition tensor_assign :: "TensorMeta \<Rightarrow> ptr \<Rightarrow> TensorBase \<Rightarrow> TensorBase outcome" where
  "tensor_assign meta data_ptr t =
     (if tm_ndim meta \<noteq> 0 \<and> tm_shape meta = []
      then Throw (runtime_error ''Invalid metadata: shape is empty for non-zero dimensions.'')
      else Ok (rewire_pointers_to_owner
        \<lparr>tb_data = data_ptr,
         tb_tensor = (tb_tensor t)\<lparr>dl_device := tm_device meta, dl_ndim := tm_ndim meta, dl_dtype := tm_dtype meta,
           dl_byte_offset := tm_byte_offset meta\<rparr>,
         tb_owner = Some meta\<rparr>))"

definition tensor_assign_owned :: "ptr \<Rightarrow> DLTensor \<Rightarrow> TensorBase \<Rightarrow> TensorBase outcome" where
  "tensor_assign_owned p src t =
     (if dl_ndim src > 0 \<and> dl_shape src = None
      then Throw (runtime_error ''Invalid source DLTensor: shape is null for non-zero dimensions.'')
      else if dl_ndim src > 1 \<and> dl_strides src = None
      then Throw (runtime_error ''Invalid source DLTensor: strides is null for dimensions > 1.'')
      else bind_outcome (TensorMeta_of src) (\<lambda>m.
        Ok (rewire_pointers_to_owner
          \<lparr>tb_data = p,
           tb_tensor = (tb_tensor t)\<lparr>dl_device := dl_device src, dl_ndim := dl_ndim src, dl_dtype := dl_dtype src,
             dl_byte_offset := dl_byte_offset src\<rparr>,
           tb_owner = Some m\<rparr>)))"

definition tensor_assign_view :: "ptr \<Rightarrow> DLTensor \<Rightarrow> TensorBase \<Rightarrow> TensorBase" where
  "tensor_assign_view p src t = \<lparr>tb_data = p, tb_tensor = src, tb_owner = None\<rparr>"

text \<open>The pointers of a tensor that owns its metadata show that metadata.\<close>

definition tensor_inv :: "TensorBase \<Rightarrow> bool" where
  "tensor_inv t \<longleftrightarrow> (\<forall>m. tb_owner t = Some m \<longrightarrow>
     dl_shape (tb_tensor t) = array_ptr (tm_shape m) \<and> dl_strides (tb_tensor t) = array_ptr (tm_strides m))"

lemma tensor_inv_kept:
  "tensor_inv TensorBase_new" "tensor_inv (tensor_view_of p d)" "tensor_inv (TensorBase_copy t)"
  "tensor_inv t \<Longrightarrow> TensorBase_move t = (y, x') \<Longrightarrow> tensor_inv y \<and> tensor_inv x'"
  "tensor_assign meta p t = Ok t' \<Longrightarrow> tensor_inv t'"
  "tensor_assign_owned p src t = Ok t' \<Longrightarrow> tensor_inv t'"
  "tensor_inv (tensor_assign_view p src t)"
  by (auto simp: tensor_inv_def TensorBase_new_def tensor_view_of_def TensorBase_copy_def rewire_pointers_to_owner_def
      TensorBase_move_def TensorBase_moved_def tensor_assign_def tensor_assign_owned_def tensor_assign_view_def
      bind_outcome_Ok_iff split: option.splits if_splits)

subsection \<open>Finding the tensor parameter\<close>

definition is_tensor_param :: "ParamMeta \<Rightarrow> bool" where
  "is_tensor_param p \<longleftrightarrow> pm_type p = TENSOR_META \<or> pm_type p = TENSOR_META_VEC"

fun extract_from :: "nat \<Rightarrow> nat option \<Rightarrow> ParamMeta list \<Rightarrow> nat option outcome" where
  "extract_from i tensor_index [] = Ok tensor_index"
| "extract_from i tensor_index (p # ps) =
     (if is_tensor_param p then
        (case tensor_index of
           Some _ \<Rightarrow> Throw (runtime_error (''Multiple tensor parameters found. Only one TENSOR_META or '' @
                       ''TENSOR_META_VEC parameter is allowed.''))
         | None \<Rightarrow> extract_from (Suc i) (Some i) ps)
      else extract_from (Suc i) tensor_index ps)"

definition ExtractTensorParamIndex :: "ParamMeta list \<Rightarrow> nat option outcome" where
  "ExtractTensorParamIndex params = extract_from 0 None params"

fun ExtractTensorMetaVec :: "ParamMeta list \<Rightarrow> TensorMeta list option outcome" where
  "ExtractTensorMetaVec [] = Ok None"
| "ExtractTensorMetaVec (p # ps) =
     (if pm_type p = TENSOR_META_VEC
      then (case pm_value p of TensorVecV v \<Rightarrow> Ok (Some v) | _ \<Rightarrow> Fault BadVariant)
      else ExtractTensorMetaVec ps)"

fun ExtractSingleTensorMeta :: "ParamMeta list \<Rightarrow> TensorMeta option outcome" where
  "ExtractSingleTensorMeta [] = Ok None"
| "ExtractSingleTensorMeta (p # ps) =
     (if pm_type p = TENSOR_META
      then (case pm_value p of TensorV m \<Rightarrow> Ok (Some m) | _ \<Rightarrow> Fault BadVariant)
      else ExtractSingleTensorMeta ps)"

fun last_tensor_metas :: "ParamMeta list \<Rightarrow> TensorMeta list outcome" where
  "last_tensor_metas [] = Ok []"
| "last_tensor_metas (p # ps) =
     (if pm_type p = TENSOR_META_VEC
      then (case pm_value p of TensorVecV v \<Rightarrow> Ok v | _ \<Rightarrow> Fault BadVariant)
      else if pm_type p = TENSOR_META
      then (case pm_value p of TensorV m \<Rightarrow> Ok [m] | _ \<Rightarrow> Fault BadVariant)
      else last_tensor_metas ps)"

definition GetTensorMetas :: "ParamMeta list \<Rightarrow> TensorMeta list outcome" where
  "GetTensorMetas params = last_tensor_metas (rev params)"

subsection \<open>Messages\<close>

type_synonym payload = "(UcxBuffer, UcxBufferVec) PayloadVariant"

record 'h AxonMessage =
  msg_header :: 'h
  msg_payload :: payload
  tensor_param_index :: "nat option"

definition payload_size :: "payload \<Rightarrow> nat" where
  "payload_size p =
     (case p of
        UcxBuffer b \<Rightarrow> if b_data (ub_buffer b) = Null then 0 else 1
      | UcxBufferVec v \<Rightarrow> length (bv_buffers v)
      | Monostate \<Rightarrow> 0)"

definition tensors_of_param :: "ParamMeta \<Rightarrow> nat outcome" where
  "tensors_of_param p =
     (if pm_type p = TENSOR_META then Ok 1
      else if pm_type p = TENSOR_META_VEC
      then (case pm_value p of TensorVecV v \<Rightarrow> Ok (length v) | _ \<Rightarrow> Fault BadVariant)
      else Ok 0)"

definition tensor_count_at :: "nat option \<Rightarrow> ParamMeta list \<Rightarrow> nat outcome" where
  "tensor_count_at idx params =
     (case idx of
        None \<Rightarrow> Ok 0
      | Some i \<Rightarrow> if i < length params then tensors_of_param (params ! i) else Ok 0)"

definition check_payload :: "nat option \<Rightarrow> ParamMeta list \<Rightarrow> payload \<Rightarrow> unit outcome" where
  "check_payload idx params p =
     bind_outcome (tensor_count_at idx params) (\<lambda>expected_tensor_count.
       case idx of
         Some _ \<Rightarrow> if payload_size p = expected_tensor_count then Ok () else Fault AssertFailed
       | None \<Rightarrow> if payload_size p = 0 \<or> p = Monostate then Ok () else Fault AssertFailed)"

definition AxonMessage_new ::
  "('h \<Rightarrow> ParamMeta list) \<Rightarrow> 'h \<Rightarrow> payload \<Rightarrow> 'h AxonMessage outcome" where
  "AxonMessage_new params_of hdr p =
     bind_outcome (ExtractTensorParamIndex (params_of hdr)) (\<lambda>idx.
     bind_outcome (check_payload idx (params_of hdr) p) (\<lambda>_.
       Ok \<lparr>msg_header = hdr, msg_payload = p, tensor_param_index = idx\<rparr>))"

definition AxonMessage_new_at ::
  "('h \<Rightarrow> ParamMeta list) \<Rightarrow> 'h \<Rightarrow> payload \<Rightarrow> nat option \<Rightarrow> 'h AxonMessage outcome" where
  "AxonMessage_new_at params_of hdr p idx =
     bind_outcome (ExtractTensorParamIndex (params_of hdr)) (\<lambda>actual.
       if (case idx of Some i \<Rightarrow> actual = Some i | None \<Rightarrow> actual = None)
       then bind_outcome (check_payload idx (params_of hdr) p) (\<lambda>_.
              Ok \<lparr>msg_header = hdr, msg_payload = p, tensor_param_index = idx\<rparr>)
       else Fault AssertFailed)"

definition GetTensorCount :: "('h \<Rightarrow> ParamMeta list) \<Rightarrow> 'h AxonMessage \<Rightarrow> nat outcome" where
  "GetTensorCount params_of m = tensor_count_at (tensor_param_index m) (params_of (msg_header m))"

definition tensor_meta_at :: "nat \<Rightarrow> ParamMeta \<Rightarrow> TensorMeta outcome" where
  "tensor_meta_at tensor_index param =
     (if pm_type param = TENSOR_META then
        if 0 < tensor_index then Throw (out_of_range ''Tensor index out of range for single TensorMeta.'')
        else (case pm_value param of TensorV m \<Rightarrow> Ok m | _ \<Rightarrow> Fault BadVariant)
      else if pm_type param = TENSOR_META_VEC then
        (case pm_value param of
           TensorVecV v \<Rightarrow>
             if length v \<le> tensor_index then Throw (out_of_range ''Tensor index out of range for TensorMetaVec.'')
             else Ok (v ! tensor_index)
         | _ \<Rightarrow> Fault BadVariant)
      else Throw (runtime_error ''Parameter is not a tensor type.''))"

definition payload_data :: "nat \<Rightarrow> payload \<Rightarrow> nat \<Rightarrow> ptr outcome" where
  "payload_data tensor_index p off =
     (case p of
        Monostate \<Rightarrow> Ok Null
      | UcxBuffer b \<Rightarrow>
          if 0 < tensor_index then Throw (out_of_range ''Tensor index out of range for UcxBuffer.'')
          else Ok (ptr_add (b_data (ub_buffer b)) off)
      | UcxBufferVec v \<Rightarrow>
          if length (bv_buffers v) \<le> tensor_index then Throw (out_of_range ''vector::at'')
          else Ok (ptr_add (b_data (bv_buffers v ! tensor_index)) off))"

definition GetTensorImpl :: "nat \<Rightarrow> nat option \<Rightarrow> ParamMeta list \<Rightarrow> payload \<Rightarrow> TensorBase outcome" where
  "GetTensorImpl tensor_index idx params p =
     (case idx of
        None \<Rightarrow> Throw (out_of_range ''No tensor parameter found.'')
      | Some i \<Rightarrow>
          if length params \<le> i then Fault OutOfBounds
          else bind_outcome (tensor_meta_at tensor_index (params ! i)) (\<lambda>meta.
               bind_outcome (payload_data tensor_index p (unat (tm_byte_offset meta))) (\<lambda>data_ptr.
                 Ok (tensor_assign_view data_ptr
                   \<lparr>dl_device = tm_device meta, dl_ndim = tm_ndim meta, dl_dtype = tm_dtype meta, dl_byte_offset = 0,
                    dl_shape = Some (tm_shape meta), dl_strides = array_ptr (tm_strides meta)\<rparr> TensorBase_new))))"

definition AxonMessage_GetTensor :: "('h \<Rightarrow> ParamMeta list) \<Rightarrow> nat \<Rightarrow> 'h AxonMessage \<Rightarrow> TensorBase outcome" where
  "AxonMessage_GetTensor params_of i m = GetTensorImpl i (tensor_param_index m) (params_of (msg_header m)) (msg_payload m)"

fun collect :: "('a \<Rightarrow> 'b outcome) \<Rightarrow> 'a list \<Rightarrow> 'b list outcome" where
  "collect f [] = Ok []"
| "collect f (x # xs) = bind_outcome (f x) (\<lambda>y. bind_outcome (collect f xs) (\<lambda>ys. Ok (y # ys)))"

definition AxonMessage_GetTensorVec :: "('h \<Rightarrow> ParamMeta list) \<Rightarrow> 'h AxonMessage \<Rightarrow> TensorBase list outcome" where
  "AxonMessage_GetTensorVec params_of m =
     bind_outcome (tensor_count_at (tensor_param_index m) (params_of (msg_header m))) (\<lambda>n.
       collect (\<lambda>i. AxonMessage_GetTensor params_of i m) [0..<n])"

subsection \<open>Lemmas\<close>

lemma extract_from_spec:
  "extract_from i acc ps = Ok idx \<Longrightarrow>
     (idx = acc \<and> (\<forall>p \<in> set ps. \<not> is_tensor_param p)) \<or>
     (acc = None \<and> (\<exists>k < length ps. idx = Some (i + k) \<and> is_tensor_param (ps ! k) \<and>
        (\<forall>j < length ps. j \<noteq> k \<longrightarrow> \<not> is_tensor_param (ps ! j))))"
proof (induction i acc ps rule: extract_from.induct)
  case (1 i acc)
  then show ?case by simp
next
  case (2 i acc p ps)
  show ?case
  proof (cases "is_tensor_param p")
    case True
    then have "acc = None" "extract_from (Suc i) (Some i) ps = Ok idx" using 2(3) by (auto split: option.splits)
    then have "idx = Some i \<and> (\<forall>p \<in> set ps. \<not> is_tensor_param p)" using 2(1) True by auto
    then have "\<forall>j < length (p # ps). j \<noteq> 0 \<longrightarrow> \<not> is_tensor_param ((p # ps) ! j)" by (auto simp: nth_Cons')
    then show ?thesis using True \<open>acc = None\<close> \<open>idx = Some i \<and> _\<close> by (intro disjI2 conjI exI [of _ 0]) auto
  next
    case False
    then consider "idx = acc \<and> (\<forall>p \<in> set ps. \<not> is_tensor_param p)"
      | k where "acc = None" "k < length ps" "idx = Some (Suc i + k)" "is_tensor_param (ps ! k)"
        "\<forall>j < length ps. j \<noteq> k \<longrightarrow> \<not> is_tensor_param (ps ! j)"
      using 2(2) 2(3) by auto
    then show ?thesis
    proof cases
      case 2
      have "\<forall>j < length (p # ps). j \<noteq> Suc k \<longrightarrow> \<not> is_tensor_param ((p # ps) ! j)"
        using 2(5) False by (auto simp: nth_Cons split: nat.splits)
      then show ?thesis using 2 by (intro disjI2 conjI exI [of _ "Suc k"]) auto
    qed (use False in auto)
  qed
qed

text \<open>The index found is that of the only tensor parameter; none is found exactly if there is none.\<close>

lemma ExtractTensorParamIndex_spec:
  assumes "ExtractTensorParamIndex ps = Ok idx"
  shows "case idx of
      None \<Rightarrow> \<forall>p \<in> set ps. \<not> is_tensor_param p
    | Some k \<Rightarrow> k < length ps \<and> is_tensor_param (ps ! k) \<and> (\<forall>j < length ps. j \<noteq> k \<longrightarrow> \<not> is_tensor_param (ps ! j))"
  using extract_from_spec [of 0 None ps idx] assms by (auto simp: ExtractTensorParamIndex_def split: option.splits)

lemma collect_Ok: "(\<And>x. x \<in> set xs \<Longrightarrow> \<exists>y. f x = Ok y) \<Longrightarrow> \<exists>ys. collect f xs = Ok ys \<and> length ys = length xs"
  by (induction xs) (auto, fastforce)

lemma collect_nth: "collect f xs = Ok ys \<Longrightarrow> i < length xs \<Longrightarrow> f (xs ! i) = Ok (ys ! i)"
  by (induction xs arbitrary: ys i) (auto simp: bind_outcome_Ok_iff nth_Cons split: nat.splits)

lemma extracted_is_same:
  "AxonMessage_new params_of hdr p = Ok m \<Longrightarrow> AxonMessage_new_at params_of hdr p (tensor_param_index m) = Ok m"
proof -
  assume "AxonMessage_new params_of hdr p = Ok m"
  then obtain idx where i: "ExtractTensorParamIndex (params_of hdr) = Ok idx" "check_payload idx (params_of hdr) p = Ok ()"
    "m = \<lparr>msg_header = hdr, msg_payload = p, tensor_param_index = idx\<rparr>"
    unfolding AxonMessage_new_def bind_outcome_Ok_iff by auto
  then show ?thesis by (cases idx) (simp_all add: AxonMessage_new_at_def)
qed

lemma AxonMessage_new_Ok:
  assumes "AxonMessage_new params_of hdr p = Ok m"
  obtains idx n where "m = \<lparr>msg_header = hdr, msg_payload = p, tensor_param_index = idx\<rparr>"
    "ExtractTensorParamIndex (params_of hdr) = Ok idx" "tensor_count_at idx (params_of hdr) = Ok n"
    "payload_size p = (if idx = None then 0 else n)"
proof -
  from assms obtain idx where i: "ExtractTensorParamIndex (params_of hdr) = Ok idx" "check_payload idx (params_of hdr) p = Ok ()"
    "m = \<lparr>msg_header = hdr, msg_payload = p, tensor_param_index = idx\<rparr>"
    unfolding AxonMessage_new_def bind_outcome_Ok_iff by auto
  from i(2) obtain n where n: "tensor_count_at idx (params_of hdr) = Ok n"
    by (auto simp: check_payload_def bind_outcome_Ok_iff)
  have "payload_size p = (if idx = None then 0 else n)"
    using i(2) n by (cases idx) (auto simp: check_payload_def payload_size_def split: if_splits)
  then show ?thesis by (rule that [OF i(3,1) n])
qed

text \<open>The metadata of the tensors of a well-typed parameter.\<close>

definition metas_of_param :: "ParamMeta \<Rightarrow> TensorMeta list" where
  "metas_of_param p = (case pm_value p of TensorV m \<Rightarrow> [m] | TensorVecV v \<Rightarrow> v | _ \<Rightarrow> [])"

lemma tensor_param_wf:
  assumes "param_wf p" "is_tensor_param p"
  shows "tensors_of_param p = Ok (length (metas_of_param p))"
    and "i < length (metas_of_param p) \<Longrightarrow> tensor_meta_at i p = Ok (metas_of_param p ! i)"
    and "length (metas_of_param p) \<le> i \<Longrightarrow> \<exists>e. tensor_meta_at i p = Throw (out_of_range e)"
    and "last_tensor_metas (p # ps) = Ok (metas_of_param p)"
  using assms by (auto simp: param_wf_def is_tensor_param_def tensors_of_param_def tensor_meta_at_def metas_of_param_def
      neq_Nil_conv split: ParamValue.splits)

lemma last_tensor_metas_skip:
  "\<forall>p \<in> set ps. \<not> is_tensor_param p \<Longrightarrow> last_tensor_metas (ps @ qs) = last_tensor_metas qs"
  by (induction ps) (auto simp: is_tensor_param_def)

lemma GetTensorMetas_at:
  assumes "k < length ps" "is_tensor_param (ps ! k)" "\<forall>j < length ps. j \<noteq> k \<longrightarrow> \<not> is_tensor_param (ps ! j)" "param_wf (ps ! k)"
  shows "GetTensorMetas ps = Ok (metas_of_param (ps ! k))"
proof -
  have "rev ps = rev (drop (Suc k) ps) @ ps ! k # rev (take k ps)"
    using assms(1) by (metis id_take_nth_drop rev.simps(2) rev_append append_assoc append_Cons append_Nil)
  moreover have "\<forall>p \<in> set (rev (drop (Suc k) ps)). \<not> is_tensor_param p"
    using assms(3) by (auto simp: in_set_conv_nth)
  ultimately show ?thesis
    using tensor_param_wf(4) [OF assms(4,2)] last_tensor_metas_skip by (simp add: GetTensorMetas_def)
qed

text \<open>The data pointer of the tensor \<open>i\<close> in a payload.\<close>

definition payload_ptr :: "payload \<Rightarrow> nat \<Rightarrow> ptr" where
  "payload_ptr p i =
     (case p of Monostate \<Rightarrow> Null | UcxBuffer b \<Rightarrow> b_data (ub_buffer b) | UcxBufferVec v \<Rightarrow> b_data (bv_buffers v ! i))"

lemma payload_data_in_range:
  "i < payload_size p \<Longrightarrow> payload_data i p off = Ok (ptr_add (payload_ptr p i) off)"
  by (auto simp: payload_size_def payload_data_def payload_ptr_def split: PayloadVariant.splits if_splits)


definition example_meta :: TensorMeta where
  "example_meta = \<lparr>tm_device = \<lparr>device_type = kDLCPU, device_id = 0\<rparr>, tm_ndim = 1,
     tm_dtype = \<lparr>dt_code = kDLFloat, dt_bits = 32, dt_lanes = 1\<rparr>, tm_byte_offset = 1, tm_shape = [1], tm_strides = []\<rparr>"

definition example_params :: "ParamMeta list" where
  "example_params = [\<lparr>pm_type = STRING, pm_value = StringV ''x'', pm_name = ''a''\<rparr>,
     \<lparr>pm_type = TENSOR_META, pm_value = TensorV example_meta, pm_name = ''t''\<rparr>]"


end
