(* ===== verification/Avro_Serialization.thy ===== *)
theory Avro_Serialization
  imports Axon_Message
begin

text \<open>
  Conversion of requests to Avro data and back: \<open>axon/src/storage/avro_serialization.cpp\<close> with the schema
  of \<open>axon/src/storage/avro_schema.cpp\<close>. An Avro datum is a tree in the data model of the Avro
  specification; \<open>int\<close> and \<open>long\<close> are 32- and 64-bit words. Reading a datum at another type than it
  has is a fault, as in \<open>avro::GenericDatum::value\<close>; a union is read through to its branch.
\<close>

subsection \<open>Avro data\<close>

datatype avro =
    A_null
  | A_boolean bool
  | A_int u32
  | A_long u64
  | A_float u32
  | A_double u64
  | A_string string
  | A_bytes "u8 list"
  | A_record "(string \<times> avro) list"
  | A_array "avro list"
  | A_union nat avro

fun datum_value :: "avro \<Rightarrow> avro" where
  "datum_value (A_union k d) = datum_value d"
| "datum_value d = d"

definition get_boolean :: "avro \<Rightarrow> bool outcome" where
  "get_boolean d = (case datum_value d of A_boolean b \<Rightarrow> Ok b | _ \<Rightarrow> Fault BadVariant)"
definition get_int :: "avro \<Rightarrow> u32 outcome" where
  "get_int d = (case datum_value d of A_int w \<Rightarrow> Ok w | _ \<Rightarrow> Fault BadVariant)"
definition get_long :: "avro \<Rightarrow> u64 outcome" where
  "get_long d = (case datum_value d of A_long w \<Rightarrow> Ok w | _ \<Rightarrow> Fault BadVariant)"
definition get_float :: "avro \<Rightarrow> u32 outcome" where
  "get_float d = (case datum_value d of A_float w \<Rightarrow> Ok w | _ \<Rightarrow> Fault BadVariant)"
definition get_double :: "avro \<Rightarrow> u64 outcome" where
  "get_double d = (case datum_value d of A_double w \<Rightarrow> Ok w | _ \<Rightarrow> Fault BadVariant)"
definition get_string :: "avro \<Rightarrow> string outcome" where
  "get_string d = (case datum_value d of A_string s \<Rightarrow> Ok s | _ \<Rightarrow> Fault BadVariant)"
definition get_bytes :: "avro \<Rightarrow> u8 list outcome" where
  "get_bytes d = (case datum_value d of A_bytes bs \<Rightarrow> Ok bs | _ \<Rightarrow> Fault BadVariant)"
definition get_array :: "avro \<Rightarrow> avro list outcome" where
  "get_array d = (case datum_value d of A_array ds \<Rightarrow> Ok ds | _ \<Rightarrow> Fault BadVariant)"

definition field :: "string \<Rightarrow> avro \<Rightarrow> avro outcome" where
  "field name d =
     (case datum_value d of
        A_record fs \<Rightarrow> (case map_of fs name of Some v \<Rightarrow> Ok v | None \<Rightarrow> Throw (runtime_error ''Invalid field name''))
      | _ \<Rightarrow> Fault BadVariant)"

lemmas avro_get_defs = get_boolean_def get_int_def get_long_def get_float_def get_double_def get_string_def
  get_bytes_def get_array_def field_def

subsection \<open>Values\<close>

text \<open>\<open>static_cast\<close> to the Avro integer of the width: sign extension for signed types, zero extension otherwise.\<close>

fun primitive_datum :: "PrimitiveValue \<Rightarrow> avro" where
  "primitive_datum (P_bool b) = A_boolean b"
| "primitive_datum (P_int8 w) = A_int (scast w)"
| "primitive_datum (P_int16 w) = A_int (scast w)"
| "primitive_datum (P_int32 w) = A_int w"
| "primitive_datum (P_uint8 w) = A_int (ucast w)"
| "primitive_datum (P_uint16 w) = A_int (ucast w)"
| "primitive_datum (P_uint32 w) = A_int w"
| "primitive_datum (P_int64 w) = A_long w"
| "primitive_datum (P_uint64 w) = A_long w"
| "primitive_datum (P_float w) = A_float w"
| "primitive_datum (P_double w) = A_double w"

fun vector_data :: "VectorValue \<Rightarrow> avro list" where
  "vector_data (V_bool bs) = map A_boolean bs"
| "vector_data (V_int8 ws) = map (\<lambda>w. A_int (scast w)) ws"
| "vector_data (V_int16 ws) = map (\<lambda>w. A_int (scast w)) ws"
| "vector_data (V_int32 ws) = map A_int ws"
| "vector_data (V_uint8 ws) = map (\<lambda>w. A_int (ucast w)) ws"
| "vector_data (V_uint16 ws) = map (\<lambda>w. A_int (ucast w)) ws"
| "vector_data (V_uint32 ws) = map A_int ws"
| "vector_data (V_int64 ws) = map A_long ws"
| "vector_data (V_uint64 ws) = map A_long ws"
| "vector_data (V_float ws) = map A_float ws"
| "vector_data (V_double ws) = map A_double ws"

definition SerializePrimitiveToAvro :: "prim_type \<Rightarrow> nat \<Rightarrow> ParamValue \<Rightarrow> avro outcome" where
  "SerializePrimitiveToAvro t branch v =
     (case v of
        PrimitiveV p \<Rightarrow> if prim_type_of p = t then Ok (A_union branch (primitive_datum p)) else Fault BadVariant
      | _ \<Rightarrow> Fault BadVariant)"

definition SerializeVectorToAvro :: "prim_type \<Rightarrow> nat \<Rightarrow> ParamValue \<Rightarrow> avro outcome" where
  "SerializeVectorToAvro t branch v =
     (case v of
        VectorV vec \<Rightarrow>
          if vec_type_of vec = t then Ok (A_union branch (A_record [(''items'', A_array (vector_data vec))]))
          else Fault BadVariant
      | _ \<Rightarrow> Fault BadVariant)"

fun DeserializePrimitiveFromAvro :: "prim_type \<Rightarrow> avro \<Rightarrow> PrimitiveValue outcome" where
  "DeserializePrimitiveFromAvro T_bool d = bind_outcome (get_boolean d) (\<lambda>b. Ok (P_bool b))"
| "DeserializePrimitiveFromAvro T_int8 d = bind_outcome (get_int d) (\<lambda>w. Ok (P_int8 (ucast w)))"
| "DeserializePrimitiveFromAvro T_int16 d = bind_outcome (get_int d) (\<lambda>w. Ok (P_int16 (ucast w)))"
| "DeserializePrimitiveFromAvro T_int32 d = bind_outcome (get_int d) (\<lambda>w. Ok (P_int32 w))"
| "DeserializePrimitiveFromAvro T_uint8 d = bind_outcome (get_int d) (\<lambda>w. Ok (P_uint8 (ucast w)))"
| "DeserializePrimitiveFromAvro T_uint16 d = bind_outcome (get_int d) (\<lambda>w. Ok (P_uint16 (ucast w)))"
| "DeserializePrimitiveFromAvro T_uint32 d = bind_outcome (get_int d) (\<lambda>w. Ok (P_uint32 w))"
| "DeserializePrimitiveFromAvro T_int64 d = bind_outcome (get_long d) (\<lambda>w. Ok (P_int64 w))"
| "DeserializePrimitiveFromAvro T_uint64 d = bind_outcome (get_long d) (\<lambda>w. Ok (P_uint64 w))"
| "DeserializePrimitiveFromAvro T_float d = bind_outcome (get_float d) (\<lambda>w. Ok (P_float w))"
| "DeserializePrimitiveFromAvro T_double d = bind_outcome (get_double d) (\<lambda>w. Ok (P_double w))"

definition items :: "avro \<Rightarrow> avro list outcome" where
  "items d = bind_outcome (field ''items'' d) get_array"

fun read_items :: "prim_type \<Rightarrow> avro list \<Rightarrow> VectorValue outcome" where
  "read_items T_bool ds = bind_outcome (collect get_boolean ds) (\<lambda>xs. Ok (V_bool xs))"
| "read_items T_int8 ds = bind_outcome (collect get_int ds) (\<lambda>ws. Ok (V_int8 (map ucast ws)))"
| "read_items T_int16 ds = bind_outcome (collect get_int ds) (\<lambda>ws. Ok (V_int16 (map ucast ws)))"
| "read_items T_int32 ds = bind_outcome (collect get_int ds) (\<lambda>ws. Ok (V_int32 ws))"
| "read_items T_uint8 ds = bind_outcome (collect get_int ds) (\<lambda>ws. Ok (V_uint8 (map ucast ws)))"
| "read_items T_uint16 ds = bind_outcome (collect get_int ds) (\<lambda>ws. Ok (V_uint16 (map ucast ws)))"
| "read_items T_uint32 ds = bind_outcome (collect get_int ds) (\<lambda>ws. Ok (V_uint32 ws))"
| "read_items T_int64 ds = bind_outcome (collect get_long ds) (\<lambda>ws. Ok (V_int64 ws))"
| "read_items T_uint64 ds = bind_outcome (collect get_long ds) (\<lambda>ws. Ok (V_uint64 ws))"
| "read_items T_float ds = bind_outcome (collect get_float ds) (\<lambda>ws. Ok (V_float ws))"
| "read_items T_double ds = bind_outcome (collect get_double ds) (\<lambda>ws. Ok (V_double ws))"

definition DeserializeVectorFromAvro :: "prim_type \<Rightarrow> avro \<Rightarrow> VectorValue outcome" where
  "DeserializeVectorFromAvro t d = bind_outcome (items d) (read_items t)"

subsection \<open>Tensor metadata\<close>

definition tensor_meta_datum :: "TensorMeta \<Rightarrow> avro" where
  "tensor_meta_datum tm = A_record
     [(''device'', A_record [(''device_type'', A_int (word_of_int (device_type (tm_device tm)))),
                             (''device_id'', A_int (word_of_int (device_id (tm_device tm))))]),
      (''ndim'', A_int (word_of_int (tm_ndim tm))),
      (''dtype'', A_record [(''code'', A_int (ucast (dt_code (tm_dtype tm)))),
                            (''bits'', A_int (ucast (dt_bits (tm_dtype tm)))),
                            (''lanes'', A_int (ucast (dt_lanes (tm_dtype tm))))]),
      (''byte_offset'', A_long (tm_byte_offset tm)),
      (''shape'', A_array (map (\<lambda>v. A_long (word_of_int v)) (tm_shape tm))),
      (''strides'', A_array (map (\<lambda>v. A_long (word_of_int v)) (tm_strides tm)))]"

definition read_dims :: "avro \<Rightarrow> int list outcome" where
  "read_dims d = bind_outcome (get_array d) (\<lambda>ds. bind_outcome (collect get_long ds) (\<lambda>ws. Ok (map sint ws)))"

definition read_field :: "string \<Rightarrow> (avro \<Rightarrow> 'a outcome) \<Rightarrow> avro \<Rightarrow> 'a outcome" where
  "read_field name get d = bind_outcome (field name d) get"

definition read_tensor_meta :: "avro \<Rightarrow> TensorMeta outcome" where
  "read_tensor_meta d =
     bind_outcome (field ''device'' d) (\<lambda>device_rec.
     bind_outcome (read_field ''device_type'' get_int device_rec) (\<lambda>device_type.
     bind_outcome (read_field ''device_id'' get_int device_rec) (\<lambda>device_id.
     bind_outcome (read_field ''ndim'' get_int d) (\<lambda>ndim.
     bind_outcome (field ''dtype'' d) (\<lambda>dtype_rec.
     bind_outcome (read_field ''code'' get_int dtype_rec) (\<lambda>code.
     bind_outcome (read_field ''bits'' get_int dtype_rec) (\<lambda>bits.
     bind_outcome (read_field ''lanes'' get_int dtype_rec) (\<lambda>lanes.
     bind_outcome (read_field ''byte_offset'' get_long d) (\<lambda>byte_offset.
     bind_outcome (read_field ''shape'' read_dims d) (\<lambda>shape.
     bind_outcome (read_field ''strides'' read_dims d) (\<lambda>strides.
       Ok \<lparr>tm_device = \<lparr>device_type = sint device_type, device_id = sint device_id\<rparr>, tm_ndim = sint ndim,
           tm_dtype = \<lparr>dt_code = ucast code, dt_bits = ucast bits, dt_lanes = ucast lanes\<rparr>,
           tm_byte_offset = byte_offset, tm_shape = shape, tm_strides = strides\<rparr>)))))))))))"

subsection \<open>Parameters\<close>

fun ParamType_idx :: "ParamType \<Rightarrow> nat" where
  "ParamType_idx PRIMITIVE_BOOL = 0"
| "ParamType_idx PRIMITIVE_INT8 = 1"
| "ParamType_idx PRIMITIVE_INT16 = 2"
| "ParamType_idx PRIMITIVE_INT32 = 3"
| "ParamType_idx PRIMITIVE_INT64 = 4"
| "ParamType_idx PRIMITIVE_UINT8 = 5"
| "ParamType_idx PRIMITIVE_UINT16 = 6"
| "ParamType_idx PRIMITIVE_UINT32 = 7"
| "ParamType_idx PRIMITIVE_UINT64 = 8"
| "ParamType_idx PRIMITIVE_FLOAT32 = 9"
| "ParamType_idx PRIMITIVE_FLOAT64 = 10"
| "ParamType_idx VECTOR_BOOL = 11"
| "ParamType_idx VECTOR_INT8 = 12"
| "ParamType_idx VECTOR_INT16 = 13"
| "ParamType_idx VECTOR_INT32 = 14"
| "ParamType_idx VECTOR_INT64 = 15"
| "ParamType_idx VECTOR_UINT8 = 16"
| "ParamType_idx VECTOR_UINT16 = 17"
| "ParamType_idx VECTOR_UINT32 = 18"
| "ParamType_idx VECTOR_UINT64 = 19"
| "ParamType_idx VECTOR_FLOAT32 = 20"
| "ParamType_idx VECTOR_FLOAT64 = 21"
| "ParamType_idx STRING = 22"
| "ParamType_idx VOID = 23"
| "ParamType_idx TENSOR_META = 24"
| "ParamType_idx TENSOR_META_VEC = 25"
| "ParamType_idx UNKNOWN_PARAM = 255"

definition ParamTypes :: "ParamType list" where
  "ParamTypes =
     [PRIMITIVE_BOOL, PRIMITIVE_INT8, PRIMITIVE_INT16, PRIMITIVE_INT32, PRIMITIVE_INT64, PRIMITIVE_UINT8,
      PRIMITIVE_UINT16, PRIMITIVE_UINT32, PRIMITIVE_UINT64, PRIMITIVE_FLOAT32, PRIMITIVE_FLOAT64,
      VECTOR_BOOL, VECTOR_INT8, VECTOR_INT16, VECTOR_INT32, VECTOR_INT64, VECTOR_UINT8, VECTOR_UINT16,
      VECTOR_UINT32, VECTOR_UINT64, VECTOR_FLOAT32, VECTOR_FLOAT64, STRING, VOID, TENSOR_META, TENSOR_META_VEC,
      UNKNOWN_PARAM]"

text \<open>\<open>static_cast\<close> of the stored integer to the enumeration, whose underlying type is \<open>uint8_t\<close>.\<close>

definition ParamType_of_int :: "u32 \<Rightarrow> ParamType option" where
  "ParamType_of_int w = find (\<lambda>t. ParamType_idx t = unat (ucast w :: u8)) ParamTypes"

definition unsupported :: "string \<Rightarrow> nat \<Rightarrow> exn" where
  "unsupported s n = runtime_error (''Unsupported ParamType for Avro '' @ s @ '': '' @ to_string n)"

definition param_value_datum :: "ParamType \<Rightarrow> ParamValue \<Rightarrow> avro outcome" where
  "param_value_datum t v =
     (case t of
        VOID \<Rightarrow> Ok (A_union 0 A_null)
      | PRIMITIVE_BOOL \<Rightarrow> SerializePrimitiveToAvro T_bool 1 v
      | PRIMITIVE_INT8 \<Rightarrow> SerializePrimitiveToAvro T_int8 2 v
      | PRIMITIVE_INT16 \<Rightarrow> SerializePrimitiveToAvro T_int16 2 v
      | PRIMITIVE_INT32 \<Rightarrow> SerializePrimitiveToAvro T_int32 2 v
      | PRIMITIVE_UINT8 \<Rightarrow> SerializePrimitiveToAvro T_uint8 2 v
      | PRIMITIVE_UINT16 \<Rightarrow> SerializePrimitiveToAvro T_uint16 2 v
      | PRIMITIVE_UINT32 \<Rightarrow> SerializePrimitiveToAvro T_uint32 2 v
      | PRIMITIVE_INT64 \<Rightarrow> SerializePrimitiveToAvro T_int64 3 v
      | PRIMITIVE_UINT64 \<Rightarrow> SerializePrimitiveToAvro T_uint64 3 v
      | PRIMITIVE_FLOAT32 \<Rightarrow> SerializePrimitiveToAvro T_float 4 v
      | PRIMITIVE_FLOAT64 \<Rightarrow> SerializePrimitiveToAvro T_double 5 v
      | STRING \<Rightarrow> (case v of StringV s \<Rightarrow> Ok (A_union 6 (A_string s)) | _ \<Rightarrow> Fault BadVariant)
      | VECTOR_BOOL \<Rightarrow> SerializeVectorToAvro T_bool 7 v
      | VECTOR_INT8 \<Rightarrow> SerializeVectorToAvro T_int8 8 v
      | VECTOR_INT16 \<Rightarrow> SerializeVectorToAvro T_int16 8 v
      | VECTOR_INT32 \<Rightarrow> SerializeVectorToAvro T_int32 8 v
      | VECTOR_UINT8 \<Rightarrow> SerializeVectorToAvro T_uint8 8 v
      | VECTOR_UINT16 \<Rightarrow> SerializeVectorToAvro T_uint16 8 v
      | VECTOR_UINT32 \<Rightarrow> SerializeVectorToAvro T_uint32 8 v
      | VECTOR_INT64 \<Rightarrow> SerializeVectorToAvro T_int64 9 v
      | VECTOR_UINT64 \<Rightarrow> SerializeVectorToAvro T_uint64 9 v
      | VECTOR_FLOAT32 \<Rightarrow> SerializeVectorToAvro T_float 10 v
      | VECTOR_FLOAT64 \<Rightarrow> SerializeVectorToAvro T_double 11 v
      | TENSOR_META \<Rightarrow> (case v of TensorV m \<Rightarrow> Ok (A_union 12 (tensor_meta_datum m)) | _ \<Rightarrow> Fault BadVariant)
      | TENSOR_META_VEC \<Rightarrow>
          (case v of
             TensorVecV ms \<Rightarrow> Ok (A_union 13 (A_record [(''items'', A_array (map tensor_meta_datum ms))]))
           | _ \<Rightarrow> Fault BadVariant)
      | UNKNOWN_PARAM \<Rightarrow> Throw (unsupported ''serialization'' 255))"

definition ConvertParamMetaToAvro :: "ParamMeta \<Rightarrow> avro outcome" where
  "ConvertParamMetaToAvro param =
     bind_outcome (param_value_datum (pm_type param) (pm_value param)) (\<lambda>v.
       Ok (A_record [(''type'', A_int (word_of_nat (ParamType_idx (pm_type param)))), (''value'', v),
                     (''name'', A_string (pm_name param))]))"

definition ConvertParamsToAvro :: "ParamMeta list \<Rightarrow> avro outcome" where
  "ConvertParamsToAvro params = bind_outcome (collect ConvertParamMetaToAvro params) (\<lambda>ds. Ok (A_array ds))"

definition read_primitive :: "prim_type \<Rightarrow> avro \<Rightarrow> ParamValue outcome" where
  "read_primitive t d = bind_outcome (DeserializePrimitiveFromAvro t d) (\<lambda>p. Ok (PrimitiveV p))"

definition read_vector :: "prim_type \<Rightarrow> avro \<Rightarrow> ParamValue outcome" where
  "read_vector t d = bind_outcome (DeserializeVectorFromAvro t d) (\<lambda>v. Ok (VectorV v))"

definition read_param_value :: "ParamType \<Rightarrow> avro \<Rightarrow> ParamValue outcome" where
  "read_param_value t d =
     (case t of
        VOID \<Rightarrow> Ok NullV
      | PRIMITIVE_BOOL \<Rightarrow> read_primitive T_bool d
      | PRIMITIVE_INT8 \<Rightarrow> read_primitive T_int8 d
      | PRIMITIVE_INT16 \<Rightarrow> read_primitive T_int16 d
      | PRIMITIVE_INT32 \<Rightarrow> read_primitive T_int32 d
      | PRIMITIVE_UINT8 \<Rightarrow> read_primitive T_uint8 d
      | PRIMITIVE_UINT16 \<Rightarrow> read_primitive T_uint16 d
      | PRIMITIVE_UINT32 \<Rightarrow> read_primitive T_uint32 d
      | PRIMITIVE_INT64 \<Rightarrow> read_primitive T_int64 d
      | PRIMITIVE_UINT64 \<Rightarrow> read_primitive T_uint64 d
      | PRIMITIVE_FLOAT32 \<Rightarrow> read_primitive T_float d
      | PRIMITIVE_FLOAT64 \<Rightarrow> read_primitive T_double d
      | STRING \<Rightarrow> bind_outcome (get_string d) (\<lambda>s. Ok (StringV s))
      | VECTOR_BOOL \<Rightarrow> read_vector T_bool d
      | VECTOR_INT8 \<Rightarrow> read_vector T_int8 d
      | VECTOR_INT16 \<Rightarrow> read_vector T_int16 d
      | VECTOR_INT32 \<Rightarrow> read_vector T_int32 d
      | VECTOR_UINT8 \<Rightarrow> read_vector T_uint8 d
      | VECTOR_UINT16 \<Rightarrow> read_vector T_uint16 d
      | VECTOR_UINT32 \<Rightarrow> read_vector T_uint32 d
      | VECTOR_INT64 \<Rightarrow> read_vector T_int64 d
      | VECTOR_UINT64 \<Rightarrow> read_vector T_uint64 d
      | VECTOR_FLOAT32 \<Rightarrow> read_vector T_float d
      | VECTOR_FLOAT64 \<Rightarrow> read_vector T_double d
      | TENSOR_META \<Rightarrow> bind_outcome (read_tensor_meta d) (\<lambda>m. Ok (TensorV m))
      | TENSOR_META_VEC \<Rightarrow>
          bind_outcome (items d) (\<lambda>ds. bind_outcome (collect read_tensor_meta ds) (\<lambda>ms. Ok (TensorVecV ms)))
      | UNKNOWN_PARAM \<Rightarrow> Throw (unsupported ''deserialization'' 255))"

definition ConvertAvroToParamMeta :: "avro \<Rightarrow> ParamMeta outcome" where
  "ConvertAvroToParamMeta param_rec =
     bind_outcome (read_field ''type'' get_int param_rec) (\<lambda>w.
     bind_outcome (read_field ''name'' get_string param_rec) (\<lambda>name.
     bind_outcome (field ''value'' param_rec) (\<lambda>value_union.
       case ParamType_of_int w of
         None \<Rightarrow> Throw (unsupported ''deserialization'' (unat (ucast w :: u8)))
       | Some t \<Rightarrow> bind_outcome (read_param_value t value_union) (\<lambda>v.
           Ok \<lparr>pm_type = t, pm_value = v, pm_name = name\<rparr>))))"

definition ConvertAvroToParams :: "avro \<Rightarrow> ParamMeta list outcome" where
  "ConvertAvroToParams params_array = bind_outcome (get_array params_array) (collect ConvertAvroToParamMeta)"

subsection \<open>Headers\<close>

definition ConvertRpcRequestHeaderToAvro :: "RpcRequestHeader \<Rightarrow> avro outcome" where
  "ConvertRpcRequestHeaderToAvro hdr =
     bind_outcome (ConvertParamsToAvro (rq_params hdr)) (\<lambda>params.
       Ok (A_record [(''function_id'', A_int (rq_function_id hdr)), (''session_id'', A_int (rq_session_id hdr)),
         (''request_id'', A_int (rq_request_id hdr)), (''params'', params),
         (''hlc'', A_record [(''raw'', A_long (raw (rq_hlc hdr)))]), (''workflow_id'', A_int (rq_workflow_id hdr))]))"

definition ConvertAvroToRpcRequestHeader :: "avro \<Rightarrow> RpcRequestHeader outcome" where
  "ConvertAvroToRpcRequestHeader header_rec =
     bind_outcome (read_field ''function_id'' get_int header_rec) (\<lambda>function_id.
     bind_outcome (read_field ''session_id'' get_int header_rec) (\<lambda>session_id.
     bind_outcome (read_field ''request_id'' get_int header_rec) (\<lambda>request_id.
     bind_outcome (read_field ''params'' ConvertAvroToParams header_rec) (\<lambda>params.
     bind_outcome (field ''hlc'' header_rec) (\<lambda>hlc_rec.
     bind_outcome (read_field ''raw'' get_long hlc_rec) (\<lambda>raw_hlc.
     bind_outcome (read_field ''workflow_id'' get_int header_rec) (\<lambda>workflow_id.
       Ok \<lparr>rq_session_id = session_id, rq_request_id = request_id, rq_function_id = function_id,
           rq_hlc = HybridLogicalClock raw_hlc, rq_workflow_id = workflow_id, rq_params = params\<rparr>)))))))"

subsection \<open>Payloads\<close>

text \<open>One buffer: its bytes are copied to host memory.\<close>

definition buffer_datum :: "UcxMemoryResourceManager \<Rightarrow> ucx_memory_type \<Rightarrow> ucx_buffer \<Rightarrow> heap \<Rightarrow> avro outcome" where
  "buffer_datum mr type buf h =
     bind_outcome (get_memcpy_fn HOST type mr) (\<lambda>_.
     bind_outcome (load (b_data buf) (b_size buf) h) (\<lambda>bs.
       Ok (A_record [(''data'', A_bytes bs), (''size'', A_long (word_of_nat (b_size buf)))])))"

definition ConvertPayloadToAvro :: "UcxMemoryResourceManager \<Rightarrow> payload \<Rightarrow> heap \<Rightarrow> avro outcome" where
  "ConvertPayloadToAvro mr p h =
     (case p of
        Monostate \<Rightarrow> Ok (A_union 0 A_null)
      | UcxBuffer b \<Rightarrow> bind_outcome (buffer_datum mr (ub_type b) (ub_buffer b) h) (\<lambda>d. Ok (A_union 1 d))
      | UcxBufferVec v \<Rightarrow>
          bind_outcome (collect (\<lambda>buf. buffer_datum mr (bv_type v) buf h) (bv_buffers v)) (\<lambda>ds. Ok (A_union 2 (A_array ds))))"

text \<open>Reading a buffer: the larger of the stored size and the number of stored bytes is allocated and copied.\<close>

definition read_buffer :: "UcxMemoryResourceManager \<Rightarrow> avro \<Rightarrow> heap \<Rightarrow> (ucx_buffer \<times> heap) outcome" where
  "read_buffer mr d h =
     bind_outcome (read_field ''data'' get_bytes d) (\<lambda>data_vec.
     bind_outcome (read_field ''size'' get_long d) (\<lambda>w.
       let n = max (unat w) (length data_vec) in
       bind_outcome (allocate mr HOST n h) (\<lambda>(p, h1).
       bind_outcome (get_memcpy_fn HOST HOST mr) (\<lambda>_.
         if length data_vec < n then Fault OutOfBounds
         else bind_outcome (store p (take n data_vec) h1) (\<lambda>h2. Ok (\<lparr>b_data = p, b_size = n\<rparr>, h2))))))"

fun read_buffers :: "UcxMemoryResourceManager \<Rightarrow> avro list \<Rightarrow> heap \<Rightarrow> (ucx_buffer list \<times> heap) outcome" where
  "read_buffers mr [] h = Ok ([], h)"
| "read_buffers mr (d # ds) h =
     bind_outcome (read_buffer mr d h) (\<lambda>(b, h1).
     bind_outcome (read_buffers mr ds h1) (\<lambda>(bs, h2). Ok (b # bs, h2)))"

definition ConvertAvroToPayloadVariant :: "UcxMemoryResourceManager \<Rightarrow> avro \<Rightarrow> heap \<Rightarrow> (payload \<times> heap) outcome" where
  "ConvertAvroToPayloadVariant mr d h =
     (case datum_value d of
        A_null \<Rightarrow> Ok (Monostate, h)
      | A_record fs \<Rightarrow>
          bind_outcome (read_buffer mr d h) (\<lambda>(b, h'). Ok (UcxBuffer (UcxBuffer_of HOST b 0 True None), h'))
      | A_array ds \<Rightarrow>
          bind_outcome (read_buffers mr ds h) (\<lambda>(bs, h'). Ok (UcxBufferVec (UcxBufferVec_of HOST bs 0 True None), h'))
      | _ \<Rightarrow> Throw (runtime_error ''Unsupported payload type (expected null/record/array)''))"

subsection \<open>Requests\<close>

type_synonym AxonRequest = "RpcRequestHeader AxonMessage"

definition Serialize :: "UcxMemoryResourceManager \<Rightarrow> AxonRequest \<Rightarrow> heap \<Rightarrow> avro outcome" where
  "Serialize mr request h =
     bind_outcome (ConvertRpcRequestHeaderToAvro (msg_header request)) (\<lambda>header_rec.
     bind_outcome (ConvertPayloadToAvro mr (msg_payload request) h) (\<lambda>payload_union.
       Ok (A_record [(''header'', header_rec), (''payload'', payload_union)])))"

definition Deserialize :: "UcxMemoryResourceManager \<Rightarrow> avro \<Rightarrow> heap \<Rightarrow> (AxonRequest \<times> heap) outcome" where
  "Deserialize mr d h =
     bind_outcome (read_field ''header'' ConvertAvroToRpcRequestHeader d) (\<lambda>hdr.
     bind_outcome (field ''payload'' d) (\<lambda>payload_union.
     bind_outcome (ConvertAvroToPayloadVariant mr payload_union h) (\<lambda>(p, h').
     bind_outcome (ExtractTensorParamIndex (rq_params hdr)) (\<lambda>tensor_param_index.
     bind_outcome (AxonMessage_new_at rq_params hdr p tensor_param_index) (\<lambda>m. Ok (m, h'))))))"

end
