(* ===== verification/Avro_Roundtrip.thy ===== *)
theory Avro_Roundtrip
  imports Avro_Serialization
begin

text \<open>
  What the conversion to Avro keeps: a request that is written and read back has the same header, the same
  tensor parameter and the same bytes in its payload. Integers of C types that the model keeps as \<open>int\<close>
  (device numbers, dimensions) are assumed to be in the range of their type.
\<close>

subsection \<open>Casts\<close>

lemma ucast_scast_16_8 [simp]: "(ucast (scast w :: u32) :: u8) = w" for w :: u8
  by (rule bit_word_eqI) (auto simp: bit_simps)

lemma ucast_scast_32_16 [simp]: "(ucast (scast w :: u32) :: u16) = w" for w :: u16
  by (rule bit_word_eqI) (auto simp: bit_simps)

lemma ucast_ucast_32_8 [simp]: "(ucast (ucast w :: u32) :: u8) = w" for w :: u8
  by (rule bit_word_eqI) (auto simp: bit_simps)

lemma ucast_ucast_32_16 [simp]: "(ucast (ucast w :: u32) :: u16) = w" for w :: u16
  by (rule bit_word_eqI) (auto simp: bit_simps)

definition fits32 :: "int \<Rightarrow> bool" where "fits32 i \<longleftrightarrow> - (2 ^ 31) \<le> i \<and> i < 2 ^ 31"
definition fits64 :: "int \<Rightarrow> bool" where "fits64 i \<longleftrightarrow> - (2 ^ 63) \<le> i \<and> i < 2 ^ 63"

lemma sint_of_int32 [simp]: "fits32 i \<Longrightarrow> sint (word_of_int i :: u32) = i"
  by (simp add: fits32_def signed_of_int signed_take_bit_int_eq_self)

lemma sint_of_int64 [simp]: "fits64 i \<Longrightarrow> sint (word_of_int i :: u64) = i"
  by (simp add: fits64_def signed_of_int signed_take_bit_int_eq_self)

subsection \<open>Lists\<close>

lemma collect_map:
  "(\<And>x. x \<in> set xs \<Longrightarrow> g (f x) = Ok (k x)) \<Longrightarrow> collect g (map f xs) = Ok (map k xs)"
  by (induction xs) auto

lemma collect_map_id: "(\<And>x. x \<in> set xs \<Longrightarrow> g (f x) = Ok x) \<Longrightarrow> collect g (map f xs) = Ok xs"
  using collect_map [of xs g f id] by simp

text \<open>Writing a list element by element and reading it back, element by element.\<close>

lemma collect_roundtrip:
  assumes "\<And>x. x \<in> set xs \<Longrightarrow> \<exists>d. f x = Ok d \<and> g d = Ok x"
  shows "\<exists>ds. collect f xs = Ok ds \<and> collect g ds = Ok xs"
  using assms
proof (induction xs)
  case Nil
  then show ?case by simp
next
  case (Cons x xs)
  obtain d where d: "f x = Ok d" "g d = Ok x" using Cons.prems [of x] by auto
  obtain ds where ds: "collect f xs = Ok ds" "collect g ds = Ok xs" using Cons by auto
  show ?case by (intro exI [of _ "d # ds"]) (simp add: d ds)
qed

subsection \<open>Parameters\<close>

lemma primitive_roundtrip:
  "DeserializePrimitiveFromAvro (prim_type_of p) (A_union k (primitive_datum p)) = Ok p"
  by (cases p) (simp_all add: avro_get_defs)

lemma items_union [simp]: "items (A_union k (A_record [(''items'', A_array ds)])) = Ok ds"
  by (simp add: items_def avro_get_defs)

lemma getters_map [simp]:
  "collect get_boolean (map A_boolean bs) = Ok bs" "collect get_int (map A_int ws) = Ok ws"
  "collect get_long (map A_long vs) = Ok vs" "collect get_float (map A_float ws) = Ok ws"
  "collect get_double (map A_double vs) = Ok vs"
  by (rule collect_map_id; simp add: avro_get_defs)+

lemma get_int_map [simp]: "collect get_int (map (\<lambda>w. A_int (f w)) ws) = Ok (map f ws)"
  by (rule collect_map) (simp add: avro_get_defs)

lemma get_long_map [simp]: "collect get_long (map (\<lambda>w. A_long (f w)) ws) = Ok (map f ws)"
  by (rule collect_map) (simp add: avro_get_defs)

lemma map_casts [simp]:
  "map (ucast \<circ> (scast :: u8 \<Rightarrow> u32)) xs = xs" "map (ucast \<circ> (ucast :: u8 \<Rightarrow> u32)) xs = xs"
  "map (ucast \<circ> (scast :: u16 \<Rightarrow> u32)) ys = ys" "map (ucast \<circ> (ucast :: u16 \<Rightarrow> u32)) ys = ys"
  by (rule map_idI; simp)+

lemma vector_roundtrip:
  "DeserializeVectorFromAvro (vec_type_of v) (A_union k (A_record [(''items'', A_array (vector_data v))])) = Ok v"
  by (cases v) (simp_all add: DeserializeVectorFromAvro_def)

definition meta_fits :: "TensorMeta \<Rightarrow> bool" where
  "meta_fits m \<longleftrightarrow> fits32 (device_type (tm_device m)) \<and> fits32 (device_id (tm_device m)) \<and> fits32 (tm_ndim m) \<and>
     list_all fits64 (tm_shape m) \<and> list_all fits64 (tm_strides m)"

lemma read_dims_roundtrip [simp]:
  "list_all fits64 ds \<Longrightarrow> read_dims (A_array (map (\<lambda>v. A_long (word_of_int v)) ds)) = Ok ds"
  by (simp add: read_dims_def avro_get_defs(8)) (auto simp: list_all_iff intro: map_idI)

lemma field_record [simp]: "field n (A_record fs) = (case map_of fs n of Some v \<Rightarrow> Ok v | None \<Rightarrow> Throw (runtime_error ''Invalid field name''))"
  by (simp add: field_def)

lemma field_union [simp]: "field n (A_union k d) = field n d"
  by (simp add: field_def)

lemma get_simps [simp]:
  "get_int (A_int w) = Ok w" "get_long (A_long v) = Ok v" "get_string (A_string s) = Ok s" "get_bytes (A_bytes bs) = Ok bs"
  "get_array (A_array ds) = Ok ds" "get_string (A_union k d) = get_string d" "get_array (A_union k d) = get_array d"
  by (simp_all add: avro_get_defs)

lemma tensor_meta_roundtrip [simp]: "meta_fits m \<Longrightarrow> read_tensor_meta (tensor_meta_datum m) = Ok m"
  by (simp add: read_tensor_meta_def tensor_meta_datum_def read_field_def meta_fits_def)

lemma read_tensor_meta_union [simp]: "read_tensor_meta (A_union k d) = read_tensor_meta d"
  by (simp add: read_tensor_meta_def read_field_def)

fun value_fits :: "ParamValue \<Rightarrow> bool" where
  "value_fits (TensorV m) = meta_fits m"
| "value_fits (TensorVecV ms) = list_all meta_fits ms"
| "value_fits _ = True"

lemma primitive_param:
  "\<exists>k. param_value_datum (fst (get_primitive_param_info (prim_type_of p))) (PrimitiveV p) = Ok (A_union k (primitive_datum p))"
  "read_param_value (fst (get_primitive_param_info (prim_type_of p))) d = read_primitive (prim_type_of p) d"
  by (cases p; simp add: param_value_datum_def SerializePrimitiveToAvro_def read_param_value_def)+

lemma vector_param:
  "\<exists>k. param_value_datum (fst (get_vector_param_info (vec_type_of v))) (VectorV v) =
     Ok (A_union k (A_record [(''items'', A_array (vector_data v))]))"
  "read_param_value (fst (get_vector_param_info (vec_type_of v))) d = read_vector (vec_type_of v) d"
  by (cases v; simp add: param_value_datum_def SerializeVectorToAvro_def read_param_value_def)+

lemma value_roundtrip:
  assumes "value_fits v"
  shows "\<exists>d. param_value_datum (value_type v) v = Ok d \<and> read_param_value (value_type v) d = Ok v"
proof (cases v)
  case (PrimitiveV p)
  then show ?thesis using primitive_param [of p] primitive_roundtrip [of p] by (auto simp: read_primitive_def)
next
  case (VectorV vec)
  then show ?thesis using vector_param [of vec] vector_roundtrip [of vec] by (auto simp: read_vector_def)
next
  case (TensorVecV ms)
  then have "collect read_tensor_meta (map tensor_meta_datum ms) = Ok ms"
    using assms by (intro collect_map_id) (auto simp: list_all_iff)
  then show ?thesis using TensorVecV by (simp add: param_value_datum_def read_param_value_def)
qed (use assms in \<open>simp_all add: param_value_datum_def read_param_value_def\<close>)

lemma ParamType_idx_roundtrip: "ParamType_of_int (word_of_nat (ParamType_idx t)) = Some t"
  by (induction t; code_simp)

definition param_ok :: "ParamMeta \<Rightarrow> bool" where
  "param_ok p \<longleftrightarrow> param_wf p \<and> value_fits (pm_value p)"

lemma param_roundtrip:
  assumes "param_ok p"
  shows "\<exists>d. ConvertParamMetaToAvro p = Ok d \<and> ConvertAvroToParamMeta d = Ok p"
proof -
  have t: "pm_type p = value_type (pm_value p)" using assms by (simp add: param_ok_def param_wf_def)
  obtain d where "param_value_datum (pm_type p) (pm_value p) = Ok d" "read_param_value (pm_type p) d = Ok (pm_value p)"
    using value_roundtrip [of "pm_value p"] assms t by (auto simp: param_ok_def)
  then show ?thesis
    by (simp add: ConvertParamMetaToAvro_def ConvertAvroToParamMeta_def read_field_def ParamType_idx_roundtrip)
qed

text \<open>
  Writing a header and reading it back gives the same header: every primitive and vector type at its width,
  strings, tensor metadata and vectors of them.
\<close>

lemma header_roundtrip:
  assumes "list_all param_ok (rq_params hdr)"
  shows "\<exists>d. ConvertRpcRequestHeaderToAvro hdr = Ok d \<and> ConvertAvroToRpcRequestHeader d = Ok hdr"
proof -
  obtain ds where "collect ConvertParamMetaToAvro (rq_params hdr) = Ok ds" "collect ConvertAvroToParamMeta ds = Ok (rq_params hdr)"
    using collect_roundtrip [of "rq_params hdr" ConvertParamMetaToAvro ConvertAvroToParamMeta] param_roundtrip assms
    by (auto simp: list_all_iff)
  then show ?thesis
    by (simp add: ConvertRpcRequestHeaderToAvro_def ConvertAvroToRpcRequestHeader_def ConvertParamsToAvro_def
        ConvertAvroToParams_def read_field_def)
qed

subsection \<open>Payloads\<close>

text \<open>The bytes of a payload, buffer by buffer.\<close>

definition payload_bytes :: "payload \<Rightarrow> heap \<Rightarrow> u8 list list outcome" where
  "payload_bytes p h =
     (case p of
        Monostate \<Rightarrow> Ok []
      | UcxBuffer b \<Rightarrow> load_each [ub_buffer b] h
      | UcxBufferVec v \<Rightarrow> load_each (bv_buffers v) h)"

text \<open>The manager can allocate host memory and copy from the memory type to the host.\<close>

definition host_ready :: "UcxMemoryResourceManager \<Rightarrow> bool" where
  "host_ready mr \<longleftrightarrow> (\<exists>r. get_memory_resource HOST mr = Ok r) \<and> (\<exists>f. get_memcpy_fn HOST HOST mr = Ok f)"

fun payload_buffers :: "payload \<Rightarrow> ucx_buffer list" where
  "payload_buffers Monostate = []"
| "payload_buffers (UcxBuffer b) = [ub_buffer b]"
| "payload_buffers (UcxBufferVec v) = bv_buffers v"

fun payload_type :: "payload \<Rightarrow> ucx_memory_type" where
  "payload_type Monostate = HOST"
| "payload_type (UcxBuffer b) = ub_type b"
| "payload_type (UcxBufferVec v) = bv_type v"

definition datum_of_bytes :: "u8 list \<Rightarrow> avro" where
  "datum_of_bytes bs = A_record [(''data'', A_bytes bs), (''size'', A_long (word_of_nat (length bs)))]"

lemma load_each_length: "load_each bufs h = Ok bss \<Longrightarrow> length bss = length bufs"
  by (induction bufs arbitrary: bss) (auto simp: bind_outcome_Ok_iff)

lemma buffer_datum_Ok:
  assumes "get_memcpy_fn HOST t mr = Ok f" "load (b_data buf) (b_size buf) h = Ok bs"
  shows "buffer_datum mr t buf h = Ok (datum_of_bytes bs)"
  using assms load_length [OF assms(2)] by (simp add: buffer_datum_def datum_of_bytes_def)

lemma buffers_datum_Ok:
  assumes "get_memcpy_fn HOST t mr = Ok f" "load_each bufs h = Ok bss"
  shows "collect (\<lambda>buf. buffer_datum mr t buf h) bufs = Ok (map datum_of_bytes bss)"
  using assms(2) by (induction bufs arbitrary: bss) (auto simp: bind_outcome_Ok_iff buffer_datum_Ok [OF assms(1)])

lemma read_buffer_Ok:
  assumes "heap_ok h" "get_memory_resource HOST mr = Ok r" "get_memcpy_fn HOST HOST mr = Ok f" "length bs < 2 ^ 64"
  shows "\<exists>h'. read_buffer mr (datum_of_bytes bs) h = Ok (\<lparr>b_data = At (next_block h) 0, b_size = length bs\<rparr>, h') \<and>
    mem h' = (mem h)(next_block h \<mapsto> \<lparr>blk_resource = r, blk_bytes = bs\<rparr>) \<and> next_block h' = Suc (next_block h) \<and> heap_ok h'"
proof -
  let ?h1 = "snd (resource_allocate r (length bs) h)"
  have "mem ?h1 (next_block h) = Some \<lparr>blk_resource = r, blk_bytes = replicate (length bs) 0\<rparr>"
    by (simp add: resource_allocate_def)
  from store_fresh [OF this, of bs] obtain h' where h': "store (At (next_block h) 0) bs ?h1 = Ok h'"
    "mem h' = (mem ?h1)(next_block h \<mapsto> \<lparr>blk_resource = r, blk_bytes = bs\<rparr>)" "next_block h' = next_block ?h1" by auto
  have u: "unat (word_of_nat (length bs) :: u64) = length bs" using assms(4) by (simp add: unat_word_of_nat)
  have "read_buffer mr (datum_of_bytes bs) h = Ok (\<lparr>b_data = At (next_block h) 0, b_size = length bs\<rparr>, h')"
    using h'(1) assms(2,3) u
    by (simp add: read_buffer_def datum_of_bytes_def read_field_def allocate_def resource_allocate_def)
  moreover have "mem h' = (mem h)(next_block h \<mapsto> \<lparr>blk_resource = r, blk_bytes = bs\<rparr>)" "next_block h' = Suc (next_block h)"
    using h'(2,3) by (simp_all add: resource_allocate_def)
  moreover have "heap_ok h'" using assms(1) calculation(2,3) by (simp add: heap_ok_def)
  ultimately show ?thesis by blast
qed

lemma read_buffers_Ok:
  assumes "heap_ok h" "get_memory_resource HOST mr = Ok r" "get_memcpy_fn HOST HOST mr = Ok f" "list_all (\<lambda>bs. length bs < 2 ^ 64) bss"
  shows "\<exists>bufs h'. read_buffers mr (map datum_of_bytes bss) h = Ok (bufs, h') \<and> load_each bufs h' = Ok bss \<and>
    length bufs = length bss \<and> heap_ok h' \<and> next_block h \<le> next_block h' \<and> (\<forall>b < next_block h. mem h' b = mem h b)"
  using assms(1,4)
proof (induction bss arbitrary: h)
  case Nil
  then show ?case by simp
next
  case (Cons bs bss)
  obtain h1 where h1: "read_buffer mr (datum_of_bytes bs) h = Ok (\<lparr>b_data = At (next_block h) 0, b_size = length bs\<rparr>, h1)"
    "mem h1 = (mem h)(next_block h \<mapsto> \<lparr>blk_resource = r, blk_bytes = bs\<rparr>)" "next_block h1 = Suc (next_block h)" "heap_ok h1"
    using read_buffer_Ok [OF Cons.prems(1) assms(2,3), of bs] Cons.prems(2) by auto
  obtain bufs h' where r: "read_buffers mr (map datum_of_bytes bss) h1 = Ok (bufs, h')" "load_each bufs h' = Ok bss"
    "length bufs = length bss" "heap_ok h'" "next_block h1 \<le> next_block h'" "\<forall>b < next_block h1. mem h' b = mem h1 b"
    using Cons.IH [OF h1(4)] Cons.prems(2) by auto
  have "mem h' (next_block h) = Some \<lparr>blk_resource = r, blk_bytes = bs\<rparr>" using r(6) h1(2,3) by simp
  then have "load (At (next_block h) 0) (length bs) h' = Ok bs" by (simp add: load_def)
  moreover have "\<forall>b < next_block h. mem h' b = mem h b" using r(6) h1(2,3) by simp
  ultimately show ?case using h1(1,3) r by simp
qed

text \<open>The heap only grows: the blocks that were there are unchanged.\<close>

definition grows :: "heap \<Rightarrow> heap \<Rightarrow> bool" where
  "grows h h' \<longleftrightarrow> heap_ok h' \<and> next_block h \<le> next_block h' \<and> (\<forall>b < next_block h. mem h' b = mem h b)"

lemma grows_trans: "grows h h1 \<Longrightarrow> grows h1 h2 \<Longrightarrow> grows h h2"
  by (auto simp: grows_def)

lemma grows_load:
  assumes "heap_ok h" "grows h h'" "load p n h = Ok bs"
  shows "load p n h' = Ok bs"
proof (cases "n = 0")
  case False
  then obtain b off where p: "p = At b off" "mem h b \<noteq> None"
    using assms(3) by (auto simp: load_def split: ptr.splits option.splits)
  then have "b < next_block h" using assms(1) by (auto simp: heap_ok_def not_le [symmetric])
  then have "mem h' b = mem h b" using assms(2) by (simp add: grows_def)
  then have "load p n h' = load p n h" by (intro load_frame) (simp add: p(1))
  then show ?thesis using assms(3) by simp
qed (use assms(3) in \<open>simp add: load_def\<close>)

lemma grows_load_each:
  assumes "heap_ok h" "grows h h'"
  shows "load_each bufs h = Ok bss \<Longrightarrow> load_each bufs h' = Ok bss"
  by (induction bufs arbitrary: bss) (auto simp: bind_outcome_Ok_iff grows_load [OF assms])

lemma grows_payload: "heap_ok h \<Longrightarrow> grows h h' \<Longrightarrow> payload_bytes p h = Ok bss \<Longrightarrow> payload_bytes p h' = Ok bss"
  unfolding payload_bytes_def by (cases p) (simp_all del: load_each.simps, (rule grows_load_each; assumption)+)

text \<open>The payload read back: the same kind, the same number of buffers, the same bytes, in host memory.\<close>

definition same_kind :: "payload \<Rightarrow> payload \<Rightarrow> bool" where
  "same_kind p q \<longleftrightarrow> (case (p, q) of (Monostate, Monostate) \<Rightarrow> True | (UcxBuffer _, UcxBuffer _) \<Rightarrow> True
     | (UcxBufferVec _, UcxBufferVec _) \<Rightarrow> True | _ \<Rightarrow> False)"

definition not_null :: "payload \<Rightarrow> bool" where
  "not_null p \<longleftrightarrow> (case p of UcxBuffer b \<Rightarrow> b_data (ub_buffer b) \<noteq> Null | _ \<Rightarrow> True)"

lemma payload_roundtrip:
  assumes "heap_ok h'" "host_ready mr" "get_memcpy_fn HOST (payload_type p) mr = Ok f" "payload_bytes p h = Ok bss"
    "list_all (\<lambda>bs. length bs < 2 ^ 64) bss" "not_null p"
  shows "\<exists>d q h''. ConvertPayloadToAvro mr p h = Ok d \<and> ConvertAvroToPayloadVariant mr d h' = Ok (q, h'') \<and>
    payload_bytes q h'' = Ok bss \<and> same_kind p q \<and> payload_size q = payload_size p \<and> payload_type q = HOST \<and> grows h' h''"
proof -
  obtain r g where host: "get_memory_resource HOST mr = Ok r" "get_memcpy_fn HOST HOST mr = Ok g"
    using assms(2) by (auto simp: host_ready_def)
  show ?thesis
  proof (cases p)
    case Monostate
    then show ?thesis using assms(1,4)
      by (simp add: ConvertPayloadToAvro_def ConvertAvroToPayloadVariant_def payload_bytes_def same_kind_def payload_size_def grows_def)
  next
    case (UcxBuffer b)
    then obtain bs where bs: "load (b_data (ub_buffer b)) (b_size (ub_buffer b)) h = Ok bs" "bss = [bs]"
      using assms(4) by (auto simp: payload_bytes_def bind_outcome_Ok_iff)
    have d: "ConvertPayloadToAvro mr p h = Ok (A_union 1 (datum_of_bytes bs))"
      using buffer_datum_Ok [OF _ bs(1)] UcxBuffer assms(3) by (simp add: ConvertPayloadToAvro_def)
    obtain h'' where h'': "read_buffer mr (datum_of_bytes bs) h' = Ok (\<lparr>b_data = At (next_block h') 0, b_size = length bs\<rparr>, h'')"
      "mem h'' = (mem h')(next_block h' \<mapsto> \<lparr>blk_resource = r, blk_bytes = bs\<rparr>)" "next_block h'' = Suc (next_block h')" "heap_ok h''"
      using read_buffer_Ok [OF assms(1) host, of bs] assms(5) bs(2) by auto
    have "grows h' h''" using h''(2-4) by (simp add: grows_def)
    have "read_buffer mr (A_union 1 (datum_of_bytes bs)) h' = read_buffer mr (datum_of_bytes bs) h'"
      by (simp add: read_buffer_def read_field_def)
    then have "ConvertAvroToPayloadVariant mr (A_union 1 (datum_of_bytes bs)) h' =
        Ok (UcxBuffer (UcxBuffer_of HOST \<lparr>b_data = At (next_block h') 0, b_size = length bs\<rparr> 0 True None), h'')"
      using h''(1) by (simp add: ConvertAvroToPayloadVariant_def datum_of_bytes_def)
    moreover have "load (At (next_block h') 0) (length bs) h'' = Ok bs" using h''(2) by (simp add: load_def)
    moreover note \<open>grows h' h''\<close>
    ultimately show ?thesis using d UcxBuffer bs(2) assms(6)
      by (simp add: payload_bytes_def same_kind_def payload_size_def UcxBuffer_of_def not_null_def)
  next
    case (UcxBufferVec v)
    then have l: "load_each (bv_buffers v) h = Ok bss" using assms(4) by (simp add: payload_bytes_def)
    have d: "ConvertPayloadToAvro mr p h = Ok (A_union 2 (A_array (map datum_of_bytes bss)))"
      using buffers_datum_Ok [OF _ l] UcxBufferVec assms(3) by (simp add: ConvertPayloadToAvro_def)
    obtain bufs h'' where r: "read_buffers mr (map datum_of_bytes bss) h' = Ok (bufs, h'')" "load_each bufs h'' = Ok bss"
      "length bufs = length bss" "grows h' h''"
      using read_buffers_Ok [OF assms(1) host assms(5)] by (auto simp: grows_def)
    have "length bss = length (bv_buffers v)" using load_each_length [OF l] .
    then show ?thesis using d r UcxBufferVec
      by (simp add: ConvertAvroToPayloadVariant_def payload_bytes_def same_kind_def payload_size_def UcxBufferVec_of_def)
  qed
qed

subsection \<open>Requests\<close>

lemma Serialize_Ok:
  assumes "ConvertRpcRequestHeaderToAvro (msg_header m) = Ok hdat" "ConvertPayloadToAvro mr (msg_payload m) h = Ok pd"
  shows "Serialize mr m h = Ok (A_record [(''header'', hdat), (''payload'', pd)])"
  using assms by (simp add: Serialize_def)

lemma Deserialize_record:
  assumes "ConvertAvroToRpcRequestHeader hdat = Ok hdr" "ConvertAvroToPayloadVariant mr pd h = Ok (q, h')"
    "ExtractTensorParamIndex (rq_params hdr) = Ok idx"
  shows "Deserialize mr (A_record [(''header'', hdat), (''payload'', pd)]) h =
    bind_outcome (AxonMessage_new_at rq_params hdr q idx) (\<lambda>m. Ok (m, h'))"
  using assms by (simp add: Deserialize_def read_field_def)

text \<open>
  A request that can be stored: it was constructed, its parameters are well typed, its payload is readable, its
  memory type can be copied to the host, and a single buffer has a data pointer.
\<close>

definition storable :: "UcxMemoryResourceManager \<Rightarrow> heap \<Rightarrow> AxonRequest \<Rightarrow> bool" where
  "storable mr h m \<longleftrightarrow> AxonMessage_new rq_params (msg_header m) (msg_payload m) = Ok m \<and> list_all param_ok (rq_params (msg_header m)) \<and>
     (\<exists>f. get_memcpy_fn HOST (payload_type (msg_payload m)) mr = Ok f) \<and> not_null (msg_payload m) \<and>
     (\<exists>bss. payload_bytes (msg_payload m) h = Ok bss \<and> list_all (\<lambda>bs. length bs < 2 ^ 64) bss)"

definition same_request :: "heap \<Rightarrow> AxonRequest \<Rightarrow> heap \<Rightarrow> AxonRequest \<Rightarrow> bool" where
  "same_request h m h' m' \<longleftrightarrow> msg_header m' = msg_header m \<and> tensor_param_index m' = tensor_param_index m \<and>
     same_kind (msg_payload m) (msg_payload m') \<and> (\<exists>bss. payload_bytes (msg_payload m) h = Ok bss \<and> payload_bytes (msg_payload m') h' = Ok bss)"

lemma request_stored_and_read:
  assumes "storable mr h m" and "heap_ok h'" and "host_ready mr"
  shows "\<exists>d m' h''. Serialize mr m h = Ok d \<and> Deserialize mr d h' = Ok (m', h'') \<and> same_request h m h'' m' \<and> grows h' h''"
proof -
  let ?hdr = "msg_header m" let ?p = "msg_payload m"
  from assms(1) obtain f bss where a: "AxonMessage_new rq_params ?hdr ?p = Ok m" "list_all param_ok (rq_params ?hdr)"
    "get_memcpy_fn HOST (payload_type ?p) mr = Ok f" "payload_bytes ?p h = Ok bss" "list_all (\<lambda>bs. length bs < 2 ^ 64) bss" "not_null ?p"
    by (auto simp: storable_def)
  obtain idx n where m: "m = \<lparr>msg_header = ?hdr, msg_payload = ?p, tensor_param_index = idx\<rparr>"
    "ExtractTensorParamIndex (rq_params ?hdr) = Ok idx" "tensor_count_at idx (rq_params ?hdr) = Ok n"
    "payload_size ?p = (if idx = None then 0 else n)"
    by (rule AxonMessage_new_Ok [OF a(1)])
  obtain hdat where hdat: "ConvertRpcRequestHeaderToAvro ?hdr = Ok hdat" "ConvertAvroToRpcRequestHeader hdat = Ok ?hdr"
    using header_roundtrip [OF a(2)] by blast
  obtain pd q h'' where p: "ConvertPayloadToAvro mr ?p h = Ok pd" "ConvertAvroToPayloadVariant mr pd h' = Ok (q, h'')"
    "payload_bytes q h'' = Ok bss" "same_kind ?p q" "payload_size q = payload_size ?p" "grows h' h''"
    using payload_roundtrip [OF assms(2,3) a(3-6)] by blast
  have "check_payload idx (rq_params ?hdr) q = Ok ()"
    using m(3,4) p(5) by (cases idx) (simp_all add: check_payload_def)
  then have n: "AxonMessage_new_at rq_params ?hdr q idx = Ok \<lparr>msg_header = ?hdr, msg_payload = q, tensor_param_index = idx\<rparr>"
    using m(2) by (cases idx) (simp_all add: AxonMessage_new_at_def)
  have i: "tensor_param_index m = idx" using m(1) by (metis AxonMessage.select_convs(3))
  show ?thesis using Serialize_Ok [OF hdat(1) p(1)] Deserialize_record [OF hdat(2) p(2) m(2)] n p(3,4,6) a(4) i
    by (auto simp: same_request_def)
qed


definition example_header :: RpcRequestHeader where
  "example_header = RpcRequestHeader_new\<lparr>rq_session_id := 3, rq_params := example_params\<rparr>"

definition example_request :: AxonRequest where
  "example_request = \<lparr>msg_header = example_header, msg_payload = UcxBuffer example_buffer, tensor_param_index = Some 1\<rparr>"

lemma example_storable: "storable example_manager example_heap example_request" "host_ready example_manager" "heap_ok heap_empty"
proof -
  have ps: "rq_params example_header = example_params" by (simp add: example_header_def)
  have m: "AxonMessage_new rq_params example_header (UcxBuffer example_buffer) = Ok example_request"
    by (simp add: AxonMessage_new_def ps example_params_def ExtractTensorParamIndex_def is_tensor_param_def check_payload_def
        tensor_count_at_def tensors_of_param_def payload_size_def example_buffer_def UcxBuffer_of_def example_request_def)
  have ok: "list_all param_ok (rq_params example_header)"
    by (simp add: ps example_params_def param_ok_def param_wf_def meta_fits_def fits32_def fits64_def example_meta_def kDLCPU_def)
  have r: "get_memcpy_fn HOST (payload_type (UcxBuffer example_buffer)) example_manager = Ok 1"
    by (simp add: example_manager_def UCX_MEMORY_TYPE_COUNT_def HOST_def LAST_def example_buffer_def UcxBuffer_of_def)
  have b: "payload_bytes (UcxBuffer example_buffer) example_heap = Ok [[1, 2, 3, 4, 5]]" "not_null (UcxBuffer example_buffer)"
    by (simp_all add: payload_bytes_def example_buffer_def UcxBuffer_of_def load_def example_heap_def not_null_def)
  show "storable example_manager example_heap example_request"
    unfolding storable_def using m ok r b by (simp add: example_request_def)
  show "host_ready example_manager" "heap_ok heap_empty"
    by (simp_all add: host_ready_def example_manager_def UCX_MEMORY_TYPE_COUNT_def HOST_def LAST_def heap_ok_def heap_empty_def)
qed


text \<open>
  A single buffer without memory is accepted as the payload of a request without tensors, and written; read
  back, it is a fresh block of size zero, which counts as one tensor: the assertion of the constructor fails.
\<close>

lemma null_buffer_not_readable:
  assumes "AxonMessage_new rq_params hdr (UcxBuffer b) = Ok m" and "list_all param_ok (rq_params hdr)"
    and "heap_ok h'" and "host_ready mr" and "get_memcpy_fn HOST (ub_type b) mr = Ok f" and "ub_buffer b = null_buffer"
  shows "\<exists>d. Serialize mr m h = Ok d \<and> Deserialize mr d h' = Fault AssertFailed"
proof -
  obtain idx n where m: "m = \<lparr>msg_header = hdr, msg_payload = UcxBuffer b, tensor_param_index = idx\<rparr>"
    "ExtractTensorParamIndex (rq_params hdr) = Ok idx" "tensor_count_at idx (rq_params hdr) = Ok n"
    "payload_size (UcxBuffer b) = (if idx = None then 0 else n)"
    by (rule AxonMessage_new_Ok [OF assms(1)])
  have n: "payload_size (UcxBuffer b) = 0" using assms(6) by (simp add: payload_size_def null_buffer_def)
  obtain hdat where hdat: "ConvertRpcRequestHeaderToAvro hdr = Ok hdat" "ConvertAvroToRpcRequestHeader hdat = Ok hdr"
    using header_roundtrip [OF assms(2)] by blast
  have "load (b_data (ub_buffer b)) (b_size (ub_buffer b)) h = Ok []" using assms(6) by (simp add: load_def null_buffer_def)
  then have s: "ConvertPayloadToAvro mr (UcxBuffer b) h = Ok (A_union 1 (datum_of_bytes []))"
    using buffer_datum_Ok [OF assms(5)] by (simp add: ConvertPayloadToAvro_def)
  obtain r g where host: "get_memory_resource HOST mr = Ok r" "get_memcpy_fn HOST HOST mr = Ok g"
    using assms(4) by (auto simp: host_ready_def)
  obtain h'' where h'': "read_buffer mr (datum_of_bytes []) h' = Ok (\<lparr>b_data = At (next_block h') 0, b_size = length []\<rparr>, h'')"
    using read_buffer_Ok [OF assms(3) host, of "[]"] by auto
  let ?q = "UcxBuffer (UcxBuffer_of HOST \<lparr>b_data = At (next_block h') 0, b_size = 0\<rparr> 0 True None)"
  have d: "ConvertAvroToPayloadVariant mr (A_union 1 (datum_of_bytes [])) h' = Ok (?q, h'')"
    using h'' by (simp add: ConvertAvroToPayloadVariant_def datum_of_bytes_def read_buffer_def read_field_def)
  have q: "payload_size ?q = 1" by (simp add: payload_size_def UcxBuffer_of_def)
  have "check_payload idx (rq_params hdr) ?q = Fault AssertFailed"
    using m(3,4) n q by (cases idx) (simp_all add: check_payload_def)
  then have "AxonMessage_new_at rq_params hdr ?q idx = Fault AssertFailed"
    using m(2) by (cases idx) (simp_all add: AxonMessage_new_at_def)
  then show ?thesis using Serialize_Ok [of m hdat mr h "A_union 1 (datum_of_bytes [])"] Deserialize_record [OF hdat(2) d m(2)] hdat(1) s m(1) by simp
qed

text \<open>A stored size larger than the number of stored bytes makes the copy read past the end of the data.\<close>

lemma stored_size_overreads:
  assumes "host_ready mr" "length bs < unat w"
  shows "read_buffer mr (A_record [(''data'', A_bytes bs), (''size'', A_long w)]) h = Fault OutOfBounds"
  using assms by (auto simp: read_buffer_def read_field_def host_ready_def allocate_def resource_allocate_def Let_def)

end
