(* ===== verification/File_Streams.thy ===== *)
theory File_Streams
  imports Rpc_Types
begin

text \<open>
  The double-buffered file streams of \<open>axon/src/storage/unifex_io.cpp\<close> and their Avro adapters. Two
  buffers alternate: one is filled (or consumed) by the client, the other is written (or read ahead)
  asynchronously. An asynchronous operation runs at some time between its submission and the wait for it; a
  write reads the buffer at that time. The operating system is an argument: \<open>w off n\<close> is the number of
  bytes a write of \<open>n\<close> bytes at \<open>off\<close> transfers, \<open>rd off n\<close> the bytes a read returns, and
  \<open>None\<close> is an I/O error. File offsets and counts stay far below \<open>2 ^ 64\<close> and are natural numbers.
\<close>

subsection \<open>Output\<close>

datatype write_future = WPending nat nat | WDone | WFailed

record obuffer =
  ob_data :: "u8 list"
  ob_future :: "write_future option"

record UnifexOutputStream =
  os_file :: "u8 list"
  os_byte_count :: nat
  os_file_offset :: nat
  os_active :: nat
  os_buffers :: "obuffer list"
  os_span_first :: nat
  os_span_size :: nat

definition UnifexOutputStream_new :: "u8 list \<Rightarrow> nat \<Rightarrow> UnifexOutputStream" where
  "UnifexOutputStream_new file buffer_size =
     \<lparr>os_file = file, os_byte_count = 0, os_file_offset = 0, os_active = 0,
      os_buffers = replicate 2 \<lparr>ob_data = replicate buffer_size 0, ob_future = None\<rparr>,
      os_span_first = 0, os_span_size = buffer_size\<rparr>"

abbreviation obuf :: "UnifexOutputStream \<Rightarrow> nat \<Rightarrow> obuffer" where
  "obuf s i \<equiv> os_buffers s ! i"

definition set_future :: "nat \<Rightarrow> write_future option \<Rightarrow> UnifexOutputStream \<Rightarrow> UnifexOutputStream" where
  "set_future i f s = s\<lparr>os_buffers := (os_buffers s)[i := (obuf s i)\<lparr>ob_future := f\<rparr>]\<rparr>"

text \<open>A write into a file at an offset; a gap reads as zeros.\<close>

definition pwrite :: "u8 list \<Rightarrow> nat \<Rightarrow> u8 list \<Rightarrow> u8 list" where
  "pwrite file off bs = take off (file @ replicate (off - length file) 0) @ bs @ drop (off + length bs) file"

text \<open>The asynchronous write of buffer \<open>i\<close> takes place.\<close>

definition perform_write :: "(nat \<Rightarrow> nat \<Rightarrow> nat option) \<Rightarrow> nat \<Rightarrow> UnifexOutputStream \<Rightarrow> UnifexOutputStream" where
  "perform_write w i s =
     (case ob_future (obuf s i) of
        Some (WPending off n) \<Rightarrow>
          (case w off n of
             None \<Rightarrow> set_future i (Some WFailed) s
           | Some k \<Rightarrow> set_future i (Some WDone) (s\<lparr>os_file := pwrite (os_file s) off (take (min k n) (ob_data (obuf s i)))\<rparr>))
      | _ \<Rightarrow> s)"

definition wait_for_buffer :: "(nat \<Rightarrow> nat \<Rightarrow> nat option) \<Rightarrow> nat \<Rightarrow> UnifexOutputStream \<Rightarrow> UnifexOutputStream outcome" where
  "wait_for_buffer w i s =
     (case ob_future (obuf s i) of
        None \<Rightarrow> Ok s
      | Some _ \<Rightarrow>
          let s1 = perform_write w i s in
          if ob_future (obuf s1 i) = Some WFailed then Throw (runtime_error ''write'') else Ok (set_future i None s1))"

definition submit_buffer :: "nat \<Rightarrow> nat \<Rightarrow> UnifexOutputStream \<Rightarrow> UnifexOutputStream" where
  "submit_buffer i n s =
     (if n = 0 then s
      else (set_future i (Some (WPending (os_file_offset s) n)) s)\<lparr>os_file_offset := os_file_offset s + n\<rparr>)"

text \<open>The result of \<open>Next\<close> is the range of the active buffer that may be written: its first index and its size.\<close>

definition OutputStream_Next ::
  "(nat \<Rightarrow> nat \<Rightarrow> nat option) \<Rightarrow> UnifexOutputStream \<Rightarrow> ((nat \<times> nat) \<times> UnifexOutputStream) outcome" where
  "OutputStream_Next w s =
     bind_outcome
       (if os_span_size s = 0 then
          let next_buffer_idx = 1 - os_active s in
          bind_outcome (wait_for_buffer w next_buffer_idx s) (\<lambda>s1.
            let write_size = length (ob_data (obuf s1 (os_active s1)));
                s2 = submit_buffer (os_active s1) write_size s1
            in Ok (s2\<lparr>os_byte_count := os_byte_count s2 + write_size, os_active := next_buffer_idx,
                     os_span_first := 0, os_span_size := length (ob_data (obuf s2 next_buffer_idx))\<rparr>))
        else Ok s)
       (\<lambda>s'. Ok ((os_span_first s', os_span_size s'), s'))"

definition OutputStream_Backup :: "nat \<Rightarrow> UnifexOutputStream \<Rightarrow> UnifexOutputStream outcome" where
  "OutputStream_Backup len s =
     (if os_span_size s < len then Fault OutOfBounds
      else Ok (s\<lparr>os_span_first := os_span_first s + (os_span_size s - len), os_span_size := len\<rparr>))"

definition OutputStream_ByteCount :: "UnifexOutputStream \<Rightarrow> nat" where
  "OutputStream_ByteCount s = os_byte_count s + (length (ob_data (obuf s (os_active s))) - os_span_size s)"

definition OutputStream_Flush :: "(nat \<Rightarrow> nat \<Rightarrow> nat option) \<Rightarrow> UnifexOutputStream \<Rightarrow> UnifexOutputStream outcome" where
  "OutputStream_Flush w s =
     (let remaining_size = length (ob_data (obuf s (os_active s))) - os_span_size s in
      bind_outcome
        (if 0 < remaining_size then
           bind_outcome (wait_for_buffer w (1 - os_active s) s) (\<lambda>s1. Ok (submit_buffer (os_active s1) remaining_size s1))
         else Ok s) (\<lambda>s2.
      bind_outcome (wait_for_buffer w 0 s2) (\<lambda>s3.
      bind_outcome (wait_for_buffer w 1 s3) (\<lambda>s4.
        Ok (s4\<lparr>os_byte_count := os_byte_count s4 + remaining_size, os_span_first := 0,
               os_span_size := length (ob_data (obuf s4 (os_active s4)))\<rparr>)))))"

text \<open>
  The client stores bytes into the range it was given; then it reports the part it did not use. The loop
  writes a byte string in chunks; every chunk has at least one byte, so its length bounds the rounds.
\<close>

definition fill :: "nat \<Rightarrow> u8 list \<Rightarrow> UnifexOutputStream \<Rightarrow> UnifexOutputStream outcome" where
  "fill first bs s =
     (let b = obuf s (os_active s) in
      if length (ob_data b) < first + length bs then Fault OutOfBounds
      else Ok (s\<lparr>os_buffers := (os_buffers s)[os_active s :=
             b\<lparr>ob_data := take first (ob_data b) @ bs @ drop (first + length bs) (ob_data b)\<rparr>]\<rparr>))"

definition put_chunk ::
  "(nat \<Rightarrow> nat \<Rightarrow> nat option) \<Rightarrow> u8 list \<Rightarrow> UnifexOutputStream \<Rightarrow> (u8 list \<times> UnifexOutputStream) outcome" where
  "put_chunk w bs s =
     bind_outcome (OutputStream_Next w s) (\<lambda>((first, len), s1).
       let k = min len (length bs) in
       bind_outcome (fill first (take k bs) s1) (\<lambda>s2.
       bind_outcome (OutputStream_Backup (len - k) s2) (\<lambda>s3. Ok (drop k bs, s3))))"

fun put_bytes ::
  "(nat \<Rightarrow> nat \<Rightarrow> nat option) \<Rightarrow> nat \<Rightarrow> u8 list \<Rightarrow> UnifexOutputStream \<Rightarrow> UnifexOutputStream outcome" where
  "put_bytes w fuel [] s = Ok s"
| "put_bytes w 0 (b # bs) s = Fault OutOfFuel"
| "put_bytes w (Suc fuel) (b # bs) s =
     bind_outcome (put_chunk w (b # bs) s) (\<lambda>(rest, s'). put_bytes w fuel rest s')"

datatype out_op = OPut "u8 list" | OFlush | OIo nat

fun out_do :: "(nat \<Rightarrow> nat \<Rightarrow> nat option) \<Rightarrow> out_op \<Rightarrow> UnifexOutputStream \<Rightarrow> UnifexOutputStream outcome" where
  "out_do w (OPut bs) s = put_bytes w (length bs) bs s"
| "out_do w OFlush s = OutputStream_Flush w s"
| "out_do w (OIo i) s = Ok (if i < 2 then perform_write w i s else s)"

fun out_run :: "(nat \<Rightarrow> nat \<Rightarrow> nat option) \<Rightarrow> out_op list \<Rightarrow> UnifexOutputStream \<Rightarrow> UnifexOutputStream outcome" where
  "out_run w [] s = Ok s"
| "out_run w (x # xs) s = bind_outcome (out_do w x s) (out_run w xs)"

fun written :: "out_op list \<Rightarrow> u8 list" where
  "written [] = []"
| "written (OPut bs # xs) = bs @ written xs"
| "written (x # xs) = written xs"

subsection \<open>Input\<close>

record ibuffer =
  ib_data :: "u8 list"
  ib_future :: "nat option"
  ib_data_len :: nat
  ib_read_pos :: nat

record UnifexInputStream =
  is_file_offset :: nat
  is_byte_count :: nat
  is_active :: nat
  is_buffers :: "ibuffer list"

abbreviation ibuf :: "UnifexInputStream \<Rightarrow> nat \<Rightarrow> ibuffer" where
  "ibuf s i \<equiv> is_buffers s ! i"

definition prefetch_buffer :: "nat \<Rightarrow> UnifexInputStream \<Rightarrow> UnifexInputStream" where
  "prefetch_buffer i s =
     s\<lparr>is_buffers := (is_buffers s)[i := (ibuf s i)\<lparr>ib_future := Some (is_file_offset s)\<rparr>],
       is_file_offset := is_file_offset s + length (ib_data (ibuf s i))\<rparr>"

definition UnifexInputStream_new :: "nat \<Rightarrow> UnifexInputStream" where
  "UnifexInputStream_new buffer_size =
     prefetch_buffer 1 (prefetch_buffer 0
       \<lparr>is_file_offset = 0, is_byte_count = 0, is_active = 0,
        is_buffers = replicate 2 \<lparr>ib_data = replicate buffer_size 0, ib_future = None, ib_data_len = 0, ib_read_pos = 0\<rparr>\<rparr>)"

definition wait_for_buffer_ready ::
  "(nat \<Rightarrow> nat \<Rightarrow> u8 list option) \<Rightarrow> nat \<Rightarrow> UnifexInputStream \<Rightarrow> UnifexInputStream outcome" where
  "wait_for_buffer_ready rd i s =
     (case ib_future (ibuf s i) of
        None \<Rightarrow> Ok s
      | Some off \<Rightarrow>
          (case rd off (length (ib_data (ibuf s i))) of
             None \<Rightarrow> Throw (runtime_error ''read'')
           | Some bs \<Rightarrow>
               Ok (s\<lparr>is_buffers := (is_buffers s)[i :=
                   \<lparr>ib_data = bs @ drop (length bs) (ib_data (ibuf s i)), ib_future = None, ib_data_len = length bs, ib_read_pos = 0\<rparr>]\<rparr>)))"

text \<open>The rest of the active buffer is handed out.\<close>

definition take_rest :: "UnifexInputStream \<Rightarrow> u8 list option \<times> UnifexInputStream" where
  "take_rest s =
     (let b = ibuf s (is_active s); len = ib_data_len b - ib_read_pos b in
      (Some (take len (drop (ib_read_pos b) (ib_data b))),
       s\<lparr>is_buffers := (is_buffers s)[is_active s := b\<lparr>ib_read_pos := ib_read_pos b + len\<rparr>], is_byte_count := is_byte_count s + len\<rparr>))"

definition InputStream_Next ::
  "(nat \<Rightarrow> nat \<Rightarrow> u8 list option) \<Rightarrow> UnifexInputStream \<Rightarrow> (u8 list option \<times> UnifexInputStream) outcome" where
  "InputStream_Next rd s =
     bind_outcome (wait_for_buffer_ready rd (is_active s) s) (\<lambda>s1.
       let active_buffer = ibuf s1 (is_active s1) in
       if ib_data_len active_buffer \<le> ib_read_pos active_buffer then
         if ib_data_len active_buffer < length (ib_data active_buffer) then Ok (None, s1)
         else
           let s2 = s1\<lparr>is_active := 1 - is_active s1\<rparr>;
               s3 = prefetch_buffer (1 - is_active s2) s2
           in bind_outcome (wait_for_buffer_ready rd (is_active s3) s3) (\<lambda>s4.
                let new_active_buffer = ibuf s4 (is_active s4) in
                if ib_data_len new_active_buffer \<le> ib_read_pos new_active_buffer then Ok (None, s4)
                else Ok (take_rest s4))
       else Ok (take_rest s1))"

definition InputStream_Backup :: "nat \<Rightarrow> UnifexInputStream \<Rightarrow> UnifexInputStream outcome" where
  "InputStream_Backup len s =
     (let b = ibuf s (is_active s) in
      if ib_read_pos b < len \<or> is_byte_count s < len then Fault OutOfBounds
      else Ok (s\<lparr>is_buffers := (is_buffers s)[is_active s := b\<lparr>ib_read_pos := ib_read_pos b - len\<rparr>],
                 is_byte_count := is_byte_count s - len\<rparr>))"

text \<open>Skipping takes at least one byte per round, so the number of bytes bounds the rounds.\<close>

fun skip_loop ::
  "(nat \<Rightarrow> nat \<Rightarrow> u8 list option) \<Rightarrow> nat \<Rightarrow> nat \<Rightarrow> UnifexInputStream \<Rightarrow> UnifexInputStream outcome" where
  "skip_loop rd fuel len s =
     (if len = 0 then Ok s
      else case fuel of
        0 \<Rightarrow> Fault OutOfFuel
      | Suc fuel' \<Rightarrow>
          bind_outcome (InputStream_Next rd s) (\<lambda>(r, s1).
            case r of
              None \<Rightarrow> Ok s1
            | Some chunk \<Rightarrow>
                let to_skip = min len (length chunk) in
                bind_outcome (InputStream_Backup (length chunk - to_skip) s1) (skip_loop rd fuel' (len - to_skip))))"

declare skip_loop.simps [simp del]

definition InputStream_Skip :: "(nat \<Rightarrow> nat \<Rightarrow> u8 list option) \<Rightarrow> nat \<Rightarrow> UnifexInputStream \<Rightarrow> UnifexInputStream outcome" where
  "InputStream_Skip rd len s = skip_loop rd len len s"

text \<open>The client reads chunk after chunk until there is none.\<close>

fun read_all :: "(nat \<Rightarrow> nat \<Rightarrow> u8 list option) \<Rightarrow> nat \<Rightarrow> UnifexInputStream \<Rightarrow> (u8 list \<times> UnifexInputStream) outcome" where
  "read_all rd 0 s = Fault OutOfFuel"
| "read_all rd (Suc fuel) s =
     bind_outcome (InputStream_Next rd s) (\<lambda>(r, s1).
       case r of
         None \<Rightarrow> Ok ([], s1)
       | Some chunk \<Rightarrow> bind_outcome (read_all rd fuel s1) (\<lambda>(bs, s2). Ok (chunk @ bs, s2)))"

subsection \<open>The output stream keeps every byte\<close>

text \<open>
  \<open>c\<close> is what the client has written so far, \<open>f0\<close> the file as it was opened. The part of \<open>c\<close> up to the
  file offset is in the file, or will be when the pending write of the inactive buffer takes place; the rest
  is in the active buffer.
\<close>

definition out_inv :: "u8 list \<Rightarrow> nat \<Rightarrow> u8 list \<Rightarrow> UnifexOutputStream \<Rightarrow> bool" where
  "out_inv f0 B c s \<longleftrightarrow>
     length (os_buffers s) = 2 \<and> os_active s < 2 \<and> (\<forall>j < 2. length (ob_data (obuf s j)) = B) \<and>
     ob_future (obuf s (os_active s)) = None \<and> os_span_first s + os_span_size s = B \<and>
     length c = os_file_offset s + os_span_first s \<and> os_byte_count s = os_file_offset s \<and>
     drop (os_file_offset s) c = take (os_span_first s) (ob_data (obuf s (os_active s))) \<and>
     (case ob_future (obuf s (1 - os_active s)) of
        Some (WPending off n) \<Rightarrow> off + n = os_file_offset s \<and> n \<le> B \<and> os_file s = take off c @ drop off f0 \<and>
          take n (ob_data (obuf s (1 - os_active s))) = drop off (take (os_file_offset s) c)
      | Some WFailed \<Rightarrow> False
      | _ \<Rightarrow> os_file s = take (os_file_offset s) c @ drop (os_file_offset s) f0)"

lemma pwrite_next:
  assumes "off + n \<le> length c"
  shows "pwrite (take off c @ drop off f0) off (drop off (take (off + n) c)) = take (off + n) c @ drop (off + n) f0"
proof -
  have "length (take off c) = off" "length (drop off (take (off + n) c)) = n" using assms by simp_all
  then have "pwrite (take off c @ drop off f0) off (drop off (take (off + n) c)) =
      take off c @ drop off (take (off + n) c) @ drop (off + n) f0"
    by (simp add: pwrite_def add.commute)
  moreover have "take off c @ drop off (take (off + n) c) = take (off + n) c"
    by (metis append_take_drop_id le_add1 take_take min.absorb1)
  ultimately show ?thesis by (metis append_assoc)
qed

lemma two: "length xs = 2 \<Longrightarrow> i < 2 \<Longrightarrow> i < length xs" by simp

lemma set_future_simps [simp]:
  "os_file (set_future i f s) = os_file s" "os_byte_count (set_future i f s) = os_byte_count s"
  "os_file_offset (set_future i f s) = os_file_offset s" "os_active (set_future i f s) = os_active s"
  "os_span_first (set_future i f s) = os_span_first s" "os_span_size (set_future i f s) = os_span_size s"
  "length (os_buffers (set_future i f s)) = length (os_buffers s)"
  "i < length (os_buffers s) \<Longrightarrow> obuf (set_future i f s) j = (if j = i then (obuf s i)\<lparr>ob_future := f\<rparr> else obuf s j)"
  by (auto simp: set_future_def nth_list_update)

text \<open>All writes are complete.\<close>

definition full_writes :: "(nat \<Rightarrow> nat \<Rightarrow> nat option) \<Rightarrow> bool" where
  "full_writes w \<longleftrightarrow> (\<forall>off n. w off n = Some n)"

lemma other_buffer: "a < 2 \<Longrightarrow> (1::nat) - a < 2" "a < 2 \<Longrightarrow> (1::nat) - a \<noteq> a" "a < 2 \<Longrightarrow> (1::nat) - (1 - a) = a"
  by (auto simp: less_2_cases_iff)

lemma perform_write_inv:
  assumes "full_writes w" "out_inv f0 B c s" "i < 2"
  shows "out_inv f0 B c (perform_write w i s) \<and>
    (\<forall>off n. ob_future (obuf (perform_write w i s) i) \<noteq> Some (WPending off n)) \<and>
    ob_future (obuf (perform_write w i s) i) \<noteq> Some WFailed"
proof (cases "ob_future (obuf s i)")
  case None
  then show ?thesis using assms(2) by (simp add: perform_write_def)
next
  case (Some fut)
  then have i: "i = 1 - os_active s" using assms(2,3) by (cases "i = os_active s") (auto simp: out_inv_def)
  show ?thesis
  proof (cases fut)
    case (WPending off n)
    let ?s = "perform_write w i s"
    have len: "length (os_buffers s) = 2" using assms(2) by (simp add: out_inv_def)
    have p: "off + n = os_file_offset s" "n \<le> B" "os_file s = take off c @ drop off f0"
      "take n (ob_data (obuf s i)) = drop off (take (os_file_offset s) c)" "os_file_offset s \<le> length c"
      using assms(2) Some WPending i by (auto simp: out_inv_def)
    have "?s = set_future i (Some WDone) (s\<lparr>os_file := pwrite (os_file s) off (take n (ob_data (obuf s i)))\<rparr>)"
      using Some WPending assms(1) by (simp add: perform_write_def full_writes_def)
    moreover have "pwrite (os_file s) off (take n (ob_data (obuf s i))) = take (os_file_offset s) c @ drop (os_file_offset s) f0"
      using pwrite_next [of off n c f0] p by simp
    ultimately show ?thesis using assms(2,3) len i other_buffer(2) [of "os_active s"] by (auto simp: out_inv_def)
  next
    case WDone
    then show ?thesis using Some assms(2) by (simp add: perform_write_def)
  next
    case WFailed
    then show ?thesis using Some assms(2) i by (simp add: out_inv_def)
  qed
qed

lemma wait_inv:
  assumes "full_writes w" "out_inv f0 B c s" "i < 2"
  shows "\<exists>s'. wait_for_buffer w i s = Ok s' \<and> out_inv f0 B c s' \<and> ob_future (obuf s' i) = None \<and>
    os_active s' = os_active s \<and> os_span_first s' = os_span_first s \<and> os_span_size s' = os_span_size s \<and>
    os_file_offset s' = os_file_offset s \<and> (\<forall>j. j \<noteq> i \<longrightarrow> obuf s' j = obuf s j)"
proof (cases "ob_future (obuf s i)")
  case None
  then show ?thesis using assms(2) by (simp add: wait_for_buffer_def)
next
  case (Some fut)
  let ?p = "perform_write w i s"
  have i: "i = 1 - os_active s" using assms(2,3) Some by (cases "i = os_active s") (auto simp: out_inv_def)
  have p: "out_inv f0 B c ?p" "\<forall>off n. ob_future (obuf ?p i) \<noteq> Some (WPending off n)" "ob_future (obuf ?p i) \<noteq> Some WFailed"
    using perform_write_inv [OF assms] by auto
  have same: "os_active ?p = os_active s" "os_span_first ?p = os_span_first s" "os_span_size ?p = os_span_size s"
    "os_file_offset ?p = os_file_offset s" "\<forall>j. j \<noteq> i \<longrightarrow> obuf ?p j = obuf s j"
    by (auto simp: perform_write_def set_future_def split: option.splits write_future.splits)
  have len: "length (os_buffers ?p) = 2" using p(1) by (simp add: out_inv_def)
  have "os_file ?p = take (os_file_offset ?p) c @ drop (os_file_offset ?p) f0"
    using p i same(1) by (auto simp: out_inv_def split: option.splits write_future.splits)
  then have "out_inv f0 B c (set_future i None ?p)"
    using p(1) len assms(3) i same(1) by (auto simp: out_inv_def)
  moreover have "wait_for_buffer w i s = Ok (set_future i None ?p)"
    using Some p(3) by (simp add: wait_for_buffer_def Let_def)
  ultimately show ?thesis using same len assms(3) by simp
qed

text \<open>Submitting the filled part of the active buffer and switching to the other one.\<close>

lemma submit_switch_inv:
  assumes "out_inv f0 B c s" "ob_future (obuf s (1 - os_active s)) = None" "n = os_span_first s"
  shows "out_inv f0 B c ((submit_buffer (os_active s) n s)\<lparr>os_byte_count := os_byte_count s + n, os_active := 1 - os_active s,
    os_span_first := 0, os_span_size := B\<rparr>)"
proof -
  have s: "length (os_buffers s) = 2" "os_active s < 2" "length c = os_file_offset s + os_span_first s"
    "os_span_first s + os_span_size s = B" "os_file s = take (os_file_offset s) c @ drop (os_file_offset s) f0"
    "drop (os_file_offset s) c = take (os_span_first s) (ob_data (obuf s (os_active s)))"
    "ob_future (obuf s (os_active s)) = None"
    using assms(1,2) by (auto simp: out_inv_def)
  show ?thesis
  proof (cases "n = 0")
    case True
    then show ?thesis using assms s other_buffer [OF s(2)] by (auto simp: submit_buffer_def out_inv_def)
  next
    case False
    then show ?thesis using assms s other_buffer [OF s(2)] by (auto simp: submit_buffer_def out_inv_def)
  qed
qed

lemma next_inv:
  assumes "full_writes w" "out_inv f0 B c s" "0 < B"
  shows "\<exists>s'. OutputStream_Next w s = Ok ((os_span_first s', os_span_size s'), s') \<and> out_inv f0 B c s' \<and> 0 < os_span_size s'"
proof (cases "os_span_size s = 0")
  case False
  then show ?thesis using assms(2) by (simp add: OutputStream_Next_def)
next
  case True
  have a: "os_active s < 2" using assms(2) by (simp add: out_inv_def)
  obtain s1 where s1: "wait_for_buffer w (1 - os_active s) s = Ok s1" "out_inv f0 B c s1" "ob_future (obuf s1 (1 - os_active s)) = None"
    "os_active s1 = os_active s" "os_span_first s1 = os_span_first s" "os_span_size s1 = os_span_size s"
    using wait_inv [OF assms(1,2) other_buffer(1) [OF a]] by blast
  have B: "length (ob_data (obuf s1 (os_active s1))) = B" "os_span_first s1 = B"
    using s1(2,4,5,6) True a by (auto simp: out_inv_def less_2_cases_iff)
  let ?s2 = "submit_buffer (os_active s1) B s1"
  have len: "length (os_buffers s1) = 2" "length (ob_data (obuf s1 (1 - os_active s))) = B"
    using s1(2) other_buffer(1) [OF a] by (simp_all add: out_inv_def)
  have "os_byte_count ?s2 = os_byte_count s1" "length (ob_data (obuf ?s2 (1 - os_active s))) = B"
    using assms(3) len s1(4) a other_buffer(1,2) [OF a] by (simp_all add: submit_buffer_def)
  then have "OutputStream_Next w s = Ok ((0, B), ?s2\<lparr>os_byte_count := os_byte_count s1 + B, os_active := 1 - os_active s,
      os_span_first := 0, os_span_size := B\<rparr>)"
    using True s1(1) B by (simp add: OutputStream_Next_def Let_def)
  moreover have "out_inv f0 B c (?s2\<lparr>os_byte_count := os_byte_count s1 + B, os_active := 1 - os_active s,
      os_span_first := 0, os_span_size := B\<rparr>)"
    using submit_switch_inv [OF s1(2), of B] s1(3,4) B(2) by simp
  ultimately show ?thesis using assms(3) by fastforce
qed

lemma out_inv_active: "out_inv f0 B c s \<Longrightarrow> length (ob_data (obuf s (os_active s))) = B"
  by (simp add: out_inv_def)

lemma fill_inv:
  assumes "out_inv f0 B c s" "length bs \<le> os_span_size s"
  shows "\<exists>s1 s2. fill (os_span_first s) bs s = Ok s1 \<and> OutputStream_Backup (os_span_size s - length bs) s1 = Ok s2 \<and>
    out_inv f0 B (c @ bs) s2"
proof -
  let ?a = "os_active s" let ?d = "ob_data (obuf s ?a)" let ?p = "os_span_first s"
  let ?b = "(obuf s ?a)\<lparr>ob_data := take ?p ?d @ bs @ drop (?p + length bs) ?d\<rparr>"
  let ?s2 = "s\<lparr>os_buffers := (os_buffers s)[?a := ?b], os_span_first := ?p + length bs, os_span_size := os_span_size s - length bs\<rparr>"
  have s: "length (os_buffers s) = 2" "?a < 2" "length ?d = B" "?p + os_span_size s = B" "length c = os_file_offset s + ?p"
    "drop (os_file_offset s) c = take ?p ?d"
    using assms(1) by (auto simp: out_inv_def)
  have f: "fill ?p bs s = Ok (s\<lparr>os_buffers := (os_buffers s)[?a := ?b]\<rparr>)"
    using s assms(2) by (simp add: fill_def Let_def)
  have "OutputStream_Backup (os_span_size s - length bs) (s\<lparr>os_buffers := (os_buffers s)[?a := ?b]\<rparr>) = Ok ?s2"
    using assms(2) by (simp add: OutputStream_Backup_def)
  moreover have "out_inv f0 B (c @ bs) ?s2"
    using assms s other_buffer(2) [OF s(2)] by (auto simp: out_inv_def nth_list_update split: option.splits write_future.splits)
  ultimately show ?thesis using f by blast
qed

lemma put_chunk_inv:
  assumes "full_writes w" "0 < B" "out_inv f0 B c s" "bs \<noteq> []"
  shows "\<exists>k s'. put_chunk w bs s = Ok (drop k bs, s') \<and> 0 < k \<and> out_inv f0 B (c @ take k bs) s'"
proof -
  obtain s1 where s1: "OutputStream_Next w s = Ok ((os_span_first s1, os_span_size s1), s1)" "out_inv f0 B c s1" "0 < os_span_size s1"
    using next_inv [OF assms(1,3,2)] by blast
  let ?k = "min (os_span_size s1) (length bs)"
  obtain s2 s3 where "fill (os_span_first s1) (take ?k bs) s1 = Ok s2" "OutputStream_Backup (os_span_size s1 - ?k) s2 = Ok s3"
    "out_inv f0 B (c @ take ?k bs) s3"
    using fill_inv [OF s1(2), of "take ?k bs"] by auto
  then show ?thesis using s1(1,3) assms(4) by (intro exI [of _ ?k] exI [of _ s3]) (simp add: put_chunk_def Let_def)
qed

lemma put_bytes_inv:
  assumes "full_writes w" "0 < B"
  shows "out_inv f0 B c s \<Longrightarrow> length bs \<le> fuel \<Longrightarrow> \<exists>s'. put_bytes w fuel bs s = Ok s' \<and> out_inv f0 B (c @ bs) s'"
proof (induction fuel arbitrary: bs c s)
  case 0
  then show ?case by simp
next
  case (Suc fuel)
  show ?case
  proof (cases bs)
    case Nil
    then show ?thesis using Suc.prems by simp
  next
    case (Cons b bs')
    obtain k s1 where k: "put_chunk w bs s = Ok (drop k bs, s1)" "0 < k" "out_inv f0 B (c @ take k bs) s1"
      using put_chunk_inv [OF assms Suc.prems(1)] Cons by blast
    have "length (drop k bs) \<le> fuel" using Suc.prems(2) k(2) by simp
    then obtain s' where "put_bytes w fuel (drop k bs) s1 = Ok s'" "out_inv f0 B ((c @ take k bs) @ drop k bs) s'"
      using Suc.IH [OF k(3)] by blast
    then show ?thesis using k(1) Cons by auto
  qed
qed

text \<open>Waiting does not look at the client's position.\<close>

definition repos :: "nat \<Rightarrow> nat \<Rightarrow> nat \<Rightarrow> nat \<Rightarrow> UnifexOutputStream \<Rightarrow> UnifexOutputStream" where
  "repos cnt a p q s = s\<lparr>os_byte_count := cnt, os_active := a, os_span_first := p, os_span_size := q\<rparr>"

lemma wait_repos:
  "wait_for_buffer w i (repos cnt a p q s) = bind_outcome (wait_for_buffer w i s) (\<lambda>s'. Ok (repos cnt a p q s'))"
proof -
  have set: "set_future i f (repos cnt a p q t) = repos cnt a p q (set_future i f t)" for f t
    by (simp add: set_future_def repos_def)
  have bufs: "os_buffers (repos cnt a p q t) = os_buffers t" "os_file (repos cnt a p q t) = os_file t" for t by (simp_all add: repos_def)
  have upd: "(repos cnt a p q t)\<lparr>os_file := x\<rparr> = repos cnt a p q (t\<lparr>os_file := x\<rparr>)" for x t by (simp add: repos_def)
  have "perform_write w i (repos cnt a p q s) = repos cnt a p q (perform_write w i s)"
    by (simp add: perform_write_def bufs set upd split: option.split write_future.split)
  then show ?thesis by (simp add: wait_for_buffer_def bufs set Let_def split: option.split)
qed

lemma repos_repos [simp]: "repos cnt a p q (repos cnt' a' p' q' s) = repos cnt a p q s"
  by (simp add: repos_def)

text \<open>With no write pending the roles of the two buffers can be exchanged.\<close>

lemma idle_inv:
  assumes "out_inv f0 B c s" "ob_future (obuf s 0) = None" "ob_future (obuf s 1) = None" "os_span_first s = 0" "a < 2"
  shows "out_inv f0 B c (repos (os_byte_count s) a 0 B s)" "os_file s = c @ drop (length c) f0" "os_byte_count s = length c"
proof -
  have none: "ob_future (obuf s j) = None" if "j < 2" for j using assms(2,3) that by (auto simp: less_2_cases_iff)
  have s: "os_active s < 2" "length (os_buffers s) = 2" "\<forall>j < 2. length (ob_data (obuf s j)) = B" "length c = os_file_offset s"
    "os_byte_count s = os_file_offset s"
    using assms(1,4) by (auto simp: out_inv_def)
  have "os_file s = take (os_file_offset s) c @ drop (os_file_offset s) f0"
    using assms(1) none [OF other_buffer(1) [OF s(1)]] by (simp add: out_inv_def)
  then show f: "os_file s = c @ drop (length c) f0" and "os_byte_count s = length c" using s by simp_all
  show "out_inv f0 B c (repos (os_byte_count s) a 0 B s)"
    using s f none [OF assms(5)] none [OF other_buffer(1) [OF assms(5)]] assms(5) by (simp add: out_inv_def repos_def)
qed

lemma flush_inv:
  assumes "full_writes w" "out_inv f0 B c s"
  shows "\<exists>s'. OutputStream_Flush w s = Ok s' \<and> out_inv f0 B c s' \<and> os_file s' = c @ drop (length c) f0"
proof -
  let ?a = "os_active s"
  have a: "?a < 2" "B - os_span_size s = os_span_first s" "length (ob_data (obuf s ?a)) = B" "os_byte_count s = os_file_offset s"
    "length c = os_file_offset s + os_span_first s"
    using assms(2) by (auto simp: out_inv_def)
  have "\<exists>t. (if 0 < os_span_first s then bind_outcome (wait_for_buffer w (1 - ?a) s) (\<lambda>s1. Ok (submit_buffer (os_active s1) (os_span_first s) s1))
       else Ok s) = Ok t \<and> (\<exists>b < 2. out_inv f0 B c (repos (length c) b 0 B t)) \<and> os_byte_count t = os_byte_count s \<and> os_active t = ?a"
  proof (cases "0 < os_span_first s")
    case True
    obtain s1 where s1: "wait_for_buffer w (1 - ?a) s = Ok s1" "out_inv f0 B c s1" "ob_future (obuf s1 (1 - ?a)) = None"
      "os_active s1 = ?a" "os_span_first s1 = os_span_first s" "os_file_offset s1 = os_file_offset s"
      using wait_inv [OF assms other_buffer(1) [OF a(1)]] by blast
    let ?t = "submit_buffer ?a (os_span_first s) s1"
    have c1: "os_byte_count s1 = os_file_offset s" using s1(2,6) by (simp add: out_inv_def)
    have "out_inv f0 B c (repos (length c) (1 - ?a) 0 B ?t)"
      using submit_switch_inv [OF s1(2)] s1(3-5) c1 a(5) by (simp add: repos_def)
    moreover have "os_byte_count ?t = os_byte_count s" "os_active ?t = ?a"
      using c1 a(4) s1(4) by (simp_all add: submit_buffer_def)
    ultimately show ?thesis using True s1(1,4) other_buffer(1) [OF a(1)] by auto
  next
    case False
    then have "repos (length c) ?a 0 B s = s" using a(4,5) assms(2) by (simp add: repos_def out_inv_def)
    then show ?thesis using False assms(2) a(1) by auto
  qed
  then obtain t b where t: "(if 0 < os_span_first s then bind_outcome (wait_for_buffer w (1 - ?a) s)
        (\<lambda>s1. Ok (submit_buffer (os_active s1) (os_span_first s) s1)) else Ok s) = Ok t"
    "b < 2" "out_inv f0 B c (repos (length c) b 0 B t)" "os_byte_count t = os_byte_count s" "os_active t = ?a" by blast
  let ?r = "repos (length c) b 0 B"
  obtain u where u: "wait_for_buffer w 0 (?r t) = Ok u" "out_inv f0 B c u" "ob_future (obuf u 0) = None" "os_span_first u = 0"
    using wait_inv [OF assms(1) t(3), of 0] by (auto simp: repos_def)
  obtain v where v: "wait_for_buffer w 1 u = Ok v" "out_inv f0 B c v" "ob_future (obuf v 1) = None" "os_span_first v = 0"
    "obuf v 0 = obuf u 0"
    using wait_inv [OF assms(1) u(2), of 1] u(4) by auto
  obtain t3 where t3: "wait_for_buffer w 0 t = Ok t3" "u = ?r t3"
    using u(1) by (auto simp: wait_repos bind_outcome_Ok_iff)
  obtain t4 where t4: "wait_for_buffer w 1 t3 = Ok t4" "v = ?r t4"
    using v(1) t3(2) by (auto simp: wait_repos bind_outcome_Ok_iff)
  have keeps: "os_active s' = os_active s''" "os_byte_count s' = os_byte_count s''" if "wait_for_buffer w i s'' = Ok s'" for i s' s''
    using that by (auto simp: wait_for_buffer_def perform_write_def set_future_def Let_def split: option.splits write_future.splits if_splits)
  have k: "os_active t4 = ?a" "os_byte_count t4 + os_span_first s = length c"
    using keeps [OF t3(1)] keeps [OF t4(1)] t(4,5) a(4,5) by simp_all
  have idle: "out_inv f0 B c (repos (length c) ?a 0 B v)" "os_file v = c @ drop (length c) f0"
    using idle_inv [OF v(2) _ v(3,4) a(1)] u(3) v(5) by auto
  have B: "length (ob_data (obuf t4 ?a)) = B"
    using v(2) t4(2) a(1) by (auto simp: out_inv_def repos_def)
  have "OutputStream_Flush w s = Ok (repos (length c) ?a 0 B t4)"
    using t(1) t3(1) t4(1) a(2,3) k B by (simp add: OutputStream_Flush_def Let_def repos_def)
  then show ?thesis using idle t4(2) by (simp add: repos_def)
qed

lemma out_new_inv: "out_inv f0 B [] (UnifexOutputStream_new f0 B)"
  by (auto simp: out_inv_def UnifexOutputStream_new_def less_2_cases_iff)

lemma out_run_inv:
  assumes "full_writes w" "0 < B"
  shows "out_inv f0 B c s \<Longrightarrow> \<exists>s'. out_run w xs s = Ok s' \<and> out_inv f0 B (c @ written xs) s'"
proof (induction xs arbitrary: c s)
  case Nil
  then show ?case by simp
next
  case (Cons x xs)
  show ?case
  proof (cases x)
    case (OPut bs)
    obtain s1 where "put_bytes w (length bs) bs s = Ok s1" "out_inv f0 B (c @ bs) s1"
      using put_bytes_inv [OF assms Cons.prems, of bs "length bs"] by auto
    then show ?thesis using Cons.IH [of "c @ bs" s1] OPut by auto
  next
    case OFlush
    then show ?thesis using flush_inv [OF assms(1) Cons.prems] Cons.IH by auto
  next
    case (OIo i)
    have "out_inv f0 B c (if i < 2 then perform_write w i s else s)"
      using perform_write_inv [OF assms(1) Cons.prems, of i] Cons.prems by simp
    then show ?thesis using Cons.IH OIo by auto
  qed
qed



text \<open>
  A range that is filled completely and not reported with \<open>Backup\<close> is lost: the next call of \<open>Next\<close>
  returns the same range again, and after it was filled a second time a flush still writes nothing. (The
  adapter for Avro forwards both calls unchanged, and an Avro writer takes a buffer it does not back up as
  written.)
\<close>

theorem range_without_backup_is_lost:
  assumes "0 < B" and "length bs = B" and "length bs' = B"
  shows "\<exists>s1 s2 s3 s4 s5. OutputStream_Next w (UnifexOutputStream_new f0 B) = Ok ((0, B), s1) \<and> fill 0 bs s1 = Ok s2 \<and>
    OutputStream_Next w s2 = Ok ((0, B), s3) \<and> fill 0 bs' s3 = Ok s4 \<and> OutputStream_Flush w s4 = Ok s5 \<and>
    os_file s5 = f0 \<and> OutputStream_ByteCount s5 = 0"
  using assms
  by (simp add: OutputStream_Next_def UnifexOutputStream_new_def fill_def Let_def OutputStream_Flush_def wait_for_buffer_def
      OutputStream_ByteCount_def numeral_2_eq_2)

theorem range_without_backup_is_lost_witness:
  "\<exists>s1 s2 s3 s4 s5. OutputStream_Next (\<lambda>off n. Some n) (UnifexOutputStream_new [] 2) = Ok ((0, 2), s1) \<and> fill 0 [1, 2] s1 = Ok s2 \<and>
    OutputStream_Next (\<lambda>off n. Some n) s2 = Ok ((0, 2), s3) \<and> fill 0 [3, 4] s3 = Ok s4 \<and>
    OutputStream_Flush (\<lambda>off n. Some n) s4 = Ok s5 \<and> os_file s5 = []"
  using range_without_backup_is_lost [of 2 "[1, 2]" "[3, 4]" "\<lambda>off n. Some n" "[]"] by auto

text \<open>
  The number of bytes an asynchronous write transferred is not looked at: after a short write the rest of the
  buffer is missing from the file and nothing is reported.
\<close>

lemma short_write_not_noticed:
  "\<exists>s s'. out_run (\<lambda>off n. Some (n - 1)) [OPut [1, 2, 3]] (UnifexOutputStream_new [] 4) = Ok s \<and>
    OutputStream_Flush (\<lambda>off n. Some (n - 1)) s = Ok s' \<and> os_file s' = [1, 2] \<and> OutputStream_ByteCount s' = 3"
proof -
  let ?w = "\<lambda>off n :: nat. Some (n - 1 :: nat)"
  have "case out_run ?w [OPut [1, 2, 3]] (UnifexOutputStream_new [] 4) of
      Ok s \<Rightarrow> (case OutputStream_Flush ?w s of Ok s' \<Rightarrow> os_file s' = [1, 2] \<and> OutputStream_ByteCount s' = 3 | _ \<Rightarrow> False) | _ \<Rightarrow> False"
    by code_simp
  then show ?thesis by (auto split: outcome.splits)
qed

subsection \<open>The input stream reads the file\<close>

definition full_reads :: "u8 list \<Rightarrow> (nat \<Rightarrow> nat \<Rightarrow> u8 list option) \<Rightarrow> bool" where
  "full_reads f rd \<longleftrightarrow> (\<forall>off n. rd off n = Some (take n (drop off f)))"

text \<open>
  The active buffer covers the file from \<open>base\<close>, the read-ahead of the other one from \<open>base + B\<close>; the
  number of bytes read is the position in the file.
\<close>

definition in_inv :: "u8 list \<Rightarrow> nat \<Rightarrow> UnifexInputStream \<Rightarrow> bool" where
  "in_inv f B s \<longleftrightarrow> length (is_buffers s) = 2 \<and> is_active s < 2 \<and> (\<forall>j < 2. length (ib_data (ibuf s j)) = B) \<and>
     (\<exists>base \<le> length f. is_file_offset s = base + 2 * B \<and> ib_future (ibuf s (1 - is_active s)) = Some (base + B) \<and>
       (let b = ibuf s (is_active s) in
        case ib_future b of
          Some off \<Rightarrow> off = base \<and> is_byte_count s = base
        | None \<Rightarrow> is_byte_count s = base + ib_read_pos b \<and> ib_read_pos b \<le> ib_data_len b \<and>
            ib_data_len b = length (take B (drop base f)) \<and> take (ib_data_len b) (ib_data b) = take B (drop base f)))"

lemma in_new_inv: "in_inv f B (UnifexInputStream_new B)"
  unfolding in_inv_def UnifexInputStream_new_def prefetch_buffer_def
  by (auto simp: numeral_2_eq_2 less_Suc_eq Let_def)

lemma ready_inv:
  assumes "full_reads f rd" "in_inv f B s"
  shows "\<exists>s'. wait_for_buffer_ready rd (is_active s) s = Ok s' \<and> in_inv f B s' \<and> ib_future (ibuf s' (is_active s)) = None \<and>
    is_active s' = is_active s \<and> is_byte_count s' = is_byte_count s \<and>
    (ib_future (ibuf s (is_active s)) \<noteq> None \<longrightarrow> ib_read_pos (ibuf s' (is_active s)) = 0)"
proof (cases "ib_future (ibuf s (is_active s))")
  case None
  then show ?thesis using assms(2) by (simp add: wait_for_buffer_ready_def)
next
  case (Some off)
  let ?a = "is_active s" let ?d = "ib_data (ibuf s ?a)" let ?bs = "take B (drop off f)"
  let ?b = "\<lparr>ib_data = ?bs @ drop (length ?bs) ?d, ib_future = None, ib_data_len = length ?bs, ib_read_pos = 0\<rparr>"
  have s: "length (is_buffers s) = 2" "?a < 2" "length ?d = B" "is_byte_count s = off" "is_file_offset s = off + 2 * B"
    "off \<le> length f" "ib_future (ibuf s (1 - ?a)) = Some (off + B)"
    using assms(2) Some by (auto simp: in_inv_def Let_def)
  have "wait_for_buffer_ready rd ?a s = Ok (s\<lparr>is_buffers := (is_buffers s)[?a := ?b]\<rparr>)"
    using Some assms(1) s(3) by (simp add: wait_for_buffer_ready_def full_reads_def)
  moreover have "in_inv f B (s\<lparr>is_buffers := (is_buffers s)[?a := ?b]\<rparr>)"
  proof -
    have "\<forall>j < 2. length (ib_data (ibuf s j)) = B" using assms(2) by (simp add: in_inv_def)
    moreover have "1 - ?a \<noteq> ?a" using s(2) by (auto simp: less_2_cases_iff)
    moreover have "take (min (length f - off) B) (drop off f) = take B (drop off f)" by (simp add: min_def)
    ultimately show ?thesis using s by (auto simp: in_inv_def Let_def nth_list_update)
  qed
  ultimately show ?thesis using s(1,2) by simp
qed

text \<open>A buffer that was read to its end was full: the other one becomes active and the first is read ahead.\<close>

lemma switch_inv:
  assumes "in_inv f B s" "ib_future (ibuf s (is_active s)) = None" "ib_data_len (ibuf s (is_active s)) \<le> ib_read_pos (ibuf s (is_active s))"
    "B \<le> ib_data_len (ibuf s (is_active s))"
  shows "in_inv f B (prefetch_buffer (is_active s) (s\<lparr>is_active := 1 - is_active s\<rparr>))"
proof -
  let ?a = "is_active s"
  obtain base where s: "length (is_buffers s) = 2" "?a < 2" "\<forall>j < 2. length (ib_data (ibuf s j)) = B" "base \<le> length f"
    "is_file_offset s = base + 2 * B" "ib_future (ibuf s (1 - ?a)) = Some (base + B)"
    "is_byte_count s = base + ib_read_pos (ibuf s ?a)" "ib_read_pos (ibuf s ?a) \<le> ib_data_len (ibuf s ?a)"
    "ib_data_len (ibuf s ?a) = length (take B (drop base f))"
    using assms(1,2) by (auto simp: in_inv_def Let_def)
  have "base + B \<le> length f" "is_byte_count s = base + B" using s assms(3,4) by auto
  moreover have "1 - (1 - ?a) = ?a" "1 - ?a \<noteq> ?a" "1 - ?a < 2" using s(2) by (auto simp: less_2_cases_iff)
  ultimately show ?thesis using s
    by (auto simp: in_inv_def prefetch_buffer_def Let_def nth_list_update intro!: exI [of _ "base + B"])
qed

definition reads_next :: "u8 list \<Rightarrow> nat \<Rightarrow> UnifexInputStream \<Rightarrow> u8 list option \<Rightarrow> UnifexInputStream \<Rightarrow> bool" where
  "reads_next f B s r s' \<longleftrightarrow> in_inv f B s' \<and>
     (case r of
        None \<Rightarrow> is_byte_count s = length f \<and> is_byte_count s' = length f
      | Some chunk \<Rightarrow> chunk \<noteq> [] \<and> is_byte_count s' = is_byte_count s + length chunk \<and>
          chunk = take (length chunk) (drop (is_byte_count s) f) \<and> is_byte_count s' \<le> length f \<and>
          length chunk \<le> ib_read_pos (ibuf s' (is_active s')) \<and> ib_future (ibuf s' (is_active s')) = None)"

lemma reads_next_cong: "is_byte_count s = is_byte_count t \<Longrightarrow> reads_next f B s r s' = reads_next f B t r s'"
  by (cases r) (simp_all add: reads_next_def)

lemma take_rest_reads:
  assumes "in_inv f B s" "ib_future (ibuf s (is_active s)) = None" "ib_read_pos (ibuf s (is_active s)) < ib_data_len (ibuf s (is_active s))"
  shows "reads_next f B s (fst (take_rest s)) (snd (take_rest s))"
proof -
  let ?a = "is_active s" let ?b = "ibuf s ?a" let ?n = "ib_data_len ?b - ib_read_pos ?b"
  obtain base where s: "length (is_buffers s) = 2" "?a < 2" "\<forall>j < 2. length (ib_data (ibuf s j)) = B" "base \<le> length f"
    "is_file_offset s = base + 2 * B" "ib_future (ibuf s (1 - ?a)) = Some (base + B)"
    "is_byte_count s = base + ib_read_pos ?b" "ib_data_len ?b = length (take B (drop base f))"
    "take (ib_data_len ?b) (ib_data ?b) = take B (drop base f)"
    using assms(1,2) by (auto simp: in_inv_def Let_def)
  let ?chunk = "take ?n (drop (ib_read_pos ?b) (ib_data ?b))"
  have len: "ib_data_len ?b \<le> length (ib_data ?b)" "base + ib_data_len ?b \<le> length f" using s(2,3,4,8) by auto
  have "?chunk = drop (ib_read_pos ?b) (take (ib_data_len ?b) (ib_data ?b))" using assms(3) by (simp add: take_drop)
  also have "\<dots> = take (B - ib_read_pos ?b) (drop (is_byte_count s) f)" using s(7,9) by (simp add: drop_take add.commute)
  also have "\<dots> = take ?n (drop (is_byte_count s) f)" using s(4,7,8) by (auto simp: min_def)
  finally have chunk: "?chunk = take ?n (drop (is_byte_count s) f)" .
  have n: "length ?chunk = ?n" using len(1) by simp
  have "1 - ?a \<noteq> ?a" using s(2) by (auto simp: less_2_cases_iff)
  then have "in_inv f B (snd (take_rest s))"
    using s assms(2,3) by (auto simp: in_inv_def take_rest_def Let_def nth_list_update)
  moreover have "?chunk \<noteq> []" using n assms(3) by (metis list.size(3) zero_less_diff less_irrefl)
  ultimately show ?thesis using chunk n s(1,2,7) len assms(2,3)
    by (simp add: reads_next_def take_rest_def Let_def)
qed

lemma next_reads:
  assumes "full_reads f rd" "in_inv f B s" "0 < B"
  shows "\<exists>r s'. InputStream_Next rd s = Ok (r, s') \<and> reads_next f B s r s'"
proof -
  obtain s1 where s1: "wait_for_buffer_ready rd (is_active s) s = Ok s1" "in_inv f B s1" "ib_future (ibuf s1 (is_active s1)) = None"
    "is_active s1 = is_active s" "is_byte_count s1 = is_byte_count s"
    using ready_inv [OF assms(1,2)] by auto
  let ?b = "ibuf s1 (is_active s1)"
  show ?thesis
  proof (cases "ib_read_pos ?b < ib_data_len ?b")
    case True
    then have "reads_next f B s (fst (take_rest s1)) (snd (take_rest s1))"
      using take_rest_reads [OF s1(2,3)] reads_next_cong [OF s1(5)] by blast
    then show ?thesis using s1(1) True by (simp add: InputStream_Next_def Let_def) (metis prod.collapse)
  next
    case False
    obtain base where b: "is_byte_count s1 = base + ib_read_pos ?b" "ib_read_pos ?b \<le> ib_data_len ?b"
      "ib_data_len ?b = length (take B (drop base f))" "base \<le> length f" "length (ib_data ?b) = B"
      using s1(2,3) by (auto simp: in_inv_def Let_def)
    show ?thesis
    proof (cases "ib_data_len ?b < B")
      case True
      have "is_byte_count s1 = length f" using True False b by auto
      then have "reads_next f B s None s1" using s1(2,5) by (simp add: reads_next_def)
      then show ?thesis using s1(1) False True b(5) by (auto simp: InputStream_Next_def Let_def)
    next
      case full: False
      let ?s3 = "prefetch_buffer (is_active s1) (s1\<lparr>is_active := 1 - is_active s1\<rparr>)"
      have a: "is_active s1 < 2" using s1(2) by (simp add: in_inv_def)
      have i3: "in_inv f B ?s3" using switch_inv [OF s1(2,3)] False full b by simp
      have act3: "is_active ?s3 = 1 - is_active s1" "is_byte_count ?s3 = is_byte_count s1" by (simp_all add: prefetch_buffer_def)
      obtain s4 where s4: "wait_for_buffer_ready rd (is_active ?s3) ?s3 = Ok s4" "in_inv f B s4" "ib_future (ibuf s4 (is_active s4)) = None"
        "is_active s4 = is_active ?s3" "is_byte_count s4 = is_byte_count ?s3"
        "ib_future (ibuf ?s3 (is_active ?s3)) \<noteq> None \<longrightarrow> ib_read_pos (ibuf s4 (is_active ?s3)) = 0"
        using ready_inv [OF assms(1) i3] by auto
      have "ib_future (ibuf ?s3 (is_active ?s3)) \<noteq> None"
        using s1(2) a by (auto simp: in_inv_def prefetch_buffer_def nth_list_update)
      then have start: "ib_read_pos (ibuf s4 (is_active s4)) = 0" using s4(4,6) by simp
      have eq: "1 - (1 - is_active s1) = is_active s1" using a by (auto simp: less_2_cases_iff)
      have nxt: "InputStream_Next rd s = (if ib_data_len (ibuf s4 (is_active s4)) \<le> ib_read_pos (ibuf s4 (is_active s4))
          then Ok (None, s4) else Ok (take_rest s4))"
        using s1(1) False full b(5) s4(1) act3(1) eq by (simp add: InputStream_Next_def Let_def)
      show ?thesis
      proof (cases "ib_data_len (ibuf s4 (is_active s4)) \<le> ib_read_pos (ibuf s4 (is_active s4))")
        case True
        obtain base4 where b4: "is_byte_count s4 = base4 + ib_read_pos (ibuf s4 (is_active s4))"
          "ib_read_pos (ibuf s4 (is_active s4)) \<le> ib_data_len (ibuf s4 (is_active s4))"
          "ib_data_len (ibuf s4 (is_active s4)) = length (take B (drop base4 f))" "base4 \<le> length f"
          using s4(2,3) by (auto simp: in_inv_def Let_def)
        have "length (take B (drop base4 f)) = 0" "is_byte_count s4 = base4" using True b4 start by simp_all
        then have "is_byte_count s4 = length f" using b4(4) assms(3) by simp
        then have "reads_next f B s None s4" using s4(2,5) act3(2) s1(5) by (simp add: reads_next_def)
        then show ?thesis using nxt True by auto
      next
        case False
        then have "reads_next f B s (fst (take_rest s4)) (snd (take_rest s4))"
          using take_rest_reads [OF s4(2,3)] reads_next_cong [of s4 s] s4(5) act3(2) s1(5) by simp
        then show ?thesis using nxt False by simp (metis prod.collapse)
      qed
    qed
  qed
qed

lemma backup_inv:
  assumes "in_inv f B s" "ib_future (ibuf s (is_active s)) = None" "k \<le> ib_read_pos (ibuf s (is_active s))"
  shows "\<exists>s'. InputStream_Backup k s = Ok s' \<and> in_inv f B s' \<and> is_byte_count s' = is_byte_count s - k"
proof -
  let ?a = "is_active s"
  have a: "?a < 2" "length (is_buffers s) = 2" "ib_read_pos (ibuf s ?a) \<le> is_byte_count s" "1 - ?a \<noteq> ?a"
    using assms(1,2) by (auto simp: in_inv_def Let_def less_2_cases_iff)
  let ?s = "s\<lparr>is_buffers := (is_buffers s)[?a := (ibuf s ?a)\<lparr>ib_read_pos := ib_read_pos (ibuf s ?a) - k\<rparr>], is_byte_count := is_byte_count s - k\<rparr>"
  have "in_inv f B ?s" using assms a by (auto simp: in_inv_def Let_def nth_list_update)
  then show ?thesis using assms(3) a(3) by (simp add: InputStream_Backup_def Let_def)
qed

lemma in_inv_bound: "in_inv f B s \<Longrightarrow> is_byte_count s \<le> length f"
  by (auto simp: in_inv_def Let_def split: option.splits)

lemma skip_loop_inv:
  assumes "full_reads f rd" "0 < B"
  shows "in_inv f B s \<Longrightarrow> len \<le> fuel \<Longrightarrow>
    \<exists>s'. skip_loop rd fuel len s = Ok s' \<and> in_inv f B s' \<and> is_byte_count s' = min (is_byte_count s + len) (length f)"
proof (induction fuel arbitrary: len s)
  case 0
  then show ?case using in_inv_bound by (simp add: skip_loop.simps)
next
  case (Suc fuel)
  show ?case
  proof (cases "len = 0")
    case True
    then show ?thesis using Suc.prems(1) in_inv_bound by (simp add: skip_loop.simps)
  next
    case False
    obtain r s1 where s1: "InputStream_Next rd s = Ok (r, s1)" "reads_next f B s r s1"
      using next_reads [OF assms(1) Suc.prems(1) assms(2)] by blast
    show ?thesis
    proof (cases r)
      case None
      then show ?thesis using s1 False by (auto simp: skip_loop.simps [of rd "Suc fuel"] reads_next_def)
    next
      case (Some chunk)
      let ?k = "min len (length chunk)"
      have c: "chunk \<noteq> []" "is_byte_count s1 = is_byte_count s + length chunk" "is_byte_count s1 \<le> length f" "in_inv f B s1"
        "length chunk \<le> ib_read_pos (ibuf s1 (is_active s1))" "ib_future (ibuf s1 (is_active s1)) = None"
        using s1(2) Some by (auto simp: reads_next_def)
      obtain s2 where s2: "InputStream_Backup (length chunk - ?k) s1 = Ok s2" "in_inv f B s2"
        "is_byte_count s2 = is_byte_count s1 - (length chunk - ?k)"
        using backup_inv [OF c(4,6) le_trans [OF diff_le_self c(5)], of ?k] by blast
      have "0 < ?k" using c(1) False by simp
      then have "len - ?k \<le> fuel" using Suc.prems(2) by linarith
      then obtain s' where "skip_loop rd fuel (len - ?k) s2 = Ok s'" "in_inv f B s'" "is_byte_count s' = min (is_byte_count s2 + (len - ?k)) (length f)"
        using Suc.IH [OF s2(2)] by blast
      moreover have "is_byte_count s2 + (len - ?k) = is_byte_count s + len" using s2(3) c(2) by simp
      ultimately show ?thesis using s1(1) Some False s2(1) by (simp add: skip_loop.simps [of rd "Suc fuel"] Let_def)
    qed
  qed
qed

lemma read_all_inv:
  assumes "full_reads f rd" "0 < B"
  shows "in_inv f B s \<Longrightarrow> length f - is_byte_count s < fuel \<Longrightarrow>
    \<exists>s'. read_all rd fuel s = Ok (drop (is_byte_count s) f, s') \<and> is_byte_count s' = length f"
proof (induction fuel arbitrary: s)
  case 0
  then show ?case by simp
next
  case (Suc fuel)
  obtain r s1 where s1: "InputStream_Next rd s = Ok (r, s1)" "reads_next f B s r s1"
    using next_reads [OF assms(1) Suc.prems(1) assms(2)] by blast
  show ?case
  proof (cases r)
    case None
    then show ?thesis using s1 by (auto simp: reads_next_def)
  next
    case (Some chunk)
    have c: "chunk \<noteq> []" "is_byte_count s1 = is_byte_count s + length chunk" "is_byte_count s1 \<le> length f" "in_inv f B s1"
      "chunk = take (length chunk) (drop (is_byte_count s) f)"
      using s1(2) Some by (auto simp: reads_next_def)
    have "0 < length chunk" using c(1) by simp
    then have "length f - is_byte_count s1 < fuel" using Suc.prems(2) c(2,3) by linarith
    then obtain s' where s': "read_all rd fuel s1 = Ok (drop (is_byte_count s1) f, s')" "is_byte_count s' = length f"
      using Suc.IH [OF c(4)] by blast
    have "chunk @ drop (is_byte_count s1) f = drop (is_byte_count s) f"
      using c(2,5) by (metis append_take_drop_id drop_drop add.commute)
    then show ?thesis using s1(1) Some s' by simp
  qed
qed



text \<open>A read-ahead that returns fewer bytes than asked for before the end of the file is taken as the end of the file.\<close>

lemma short_read_ends_stream:
  "\<exists>s'. read_all (\<lambda>off n. Some (take (n - 1) (drop off [1, 2, 3, 4, 5, 6]))) 7 (UnifexInputStream_new 4) = Ok ([1, 2, 3], s')"
proof -
  have "case read_all (\<lambda>off n. Some (take (n - 1) (drop off [1, 2, 3, 4, 5, 6]))) 7 (UnifexInputStream_new 4) of
      Ok (bs, s') \<Rightarrow> bs = [1, 2, 3] | _ \<Rightarrow> False" by code_simp
  then show ?thesis by (auto split: outcome.splits)
qed

end
