(* ===== verification/Axon_Storage.thy ===== *)
theory Axon_Storage
  imports Avro_Roundtrip File_Streams "HOL-Library.Multiset"
begin

text \<open>
  Saving and loading stored requests: \<open>axon/storage/async_io.{hpp,cpp}\<close> and
  \<open>axon/storage/axon_storage.{hpp,cpp}\<close>. The Avro file format is an argument: \<open>encode ds\<close> are the
  bytes the file writer emits for the data \<open>ds\<close>, \<open>decode bs\<close> what the file reader returns (\<open>None\<close>
  for an exception). The container \<open>plf::hive\<close> is an argument too: \<open>emplace x xs\<close> inserts \<open>x\<close>
  somewhere. \<open>open_file path f\<close> is the content of the file after it was opened for writing when it was
  \<open>f\<close> before, or \<open>None\<close> if it cannot be opened. Paths are strings, the file system maps a path to its bytes.
\<close>

datatype errc = no_such_file_or_directory | io_error

type_synonym files = "string \<Rightarrow> u8 list option"

subsection \<open>File names\<close>

definition pad3 :: "nat \<Rightarrow> string" where
  "pad3 n = replicate (3 - length (to_string n)) CHR ''0'' @ to_string n"

definition get_current_timestamp :: "nat \<Rightarrow> string" where
  "get_current_timestamp now_ms = to_string (now_ms div 1000) @ ''.'' @ pad3 (now_ms mod 1000)"

definition GenerateFilename :: "string \<Rightarrow> string \<Rightarrow> string" where
  "GenerateFilename prefix timestamp = prefix @ ''_'' @ timestamp @ ''.avro''"

definition GenerateFilename_session :: "u32 \<Rightarrow> string \<Rightarrow> string" where
  "GenerateFilename_session session_id timestamp = to_string (unat session_id) @ ''_'' @ timestamp @ ''.avro''"

definition save_path :: "string \<Rightarrow> string \<Rightarrow> nat \<Rightarrow> AxonRequest list \<Rightarrow> string" where
  "save_path base prefix now_ms requests =
     (let timestamp = get_current_timestamp now_ms in
      base @ ''/'' @
      (if prefix = [] then GenerateFilename_session (rq_session_id (msg_header (hd requests))) timestamp
       else GenerateFilename prefix timestamp))"

subsection \<open>Save\<close>

text \<open>The data written before an exception, and whether all requests were written.\<close>

fun serialize_each :: "UcxMemoryResourceManager \<Rightarrow> AxonRequest list \<Rightarrow> heap \<Rightarrow> (avro list \<times> bool) outcome" where
  "serialize_each mr [] h = Ok ([], True)"
| "serialize_each mr (req # reqs) h =
     (case Serialize mr req h of
        Ok d \<Rightarrow> bind_outcome (serialize_each mr reqs h) (\<lambda>(ds, complete). Ok (d # ds, complete))
      | Throw e \<Rightarrow> Ok ([], False)
      | Fault x \<Rightarrow> Fault x)"

text \<open>
  The stream is created, the writer emits its bytes and is closed, the stream is flushed. \<open>torn\<close> is what
  the file holds after an I/O error.
\<close>

definition Save ::
  "(avro list \<Rightarrow> u8 list) \<Rightarrow> (nat \<Rightarrow> nat \<Rightarrow> nat option) \<Rightarrow> (string \<Rightarrow> u8 list option \<Rightarrow> u8 list option) \<Rightarrow> u8 list \<Rightarrow> nat \<Rightarrow> nat \<Rightarrow>
   UcxMemoryResourceManager \<Rightarrow> string \<Rightarrow> string \<Rightarrow> AxonRequest list \<Rightarrow> heap \<Rightarrow> files \<Rightarrow> (errc option \<times> files) outcome" where
  "Save encode w open_file torn buffer_size now_ms mr base prefix requests h fs =
     (if requests = [] then Ok (None, fs)
      else
        let path = save_path base prefix now_ms requests in
        case open_file path (fs path) of
          None \<Rightarrow> Ok (Some io_error, fs)
        | Some f0 \<Rightarrow>
          bind_outcome (serialize_each mr requests h) (\<lambda>(ds, complete).
            case bind_outcome (out_run w [OPut (encode ds)] (UnifexOutputStream_new f0 buffer_size)) (OutputStream_Flush w) of
              Ok s \<Rightarrow> Ok (if complete then None else Some io_error, fs(path \<mapsto> os_file s))
            | Throw e \<Rightarrow> Ok (Some io_error, fs(path \<mapsto> torn))
            | Fault x \<Rightarrow> Fault x))"

subsection \<open>Load\<close>

fun deserialize_each :: "UcxMemoryResourceManager \<Rightarrow> avro list \<Rightarrow> heap \<Rightarrow> (AxonRequest list \<times> heap) outcome" where
  "deserialize_each mr [] h = Ok ([], h)"
| "deserialize_each mr (d # ds) h =
     bind_outcome (Deserialize mr d h) (\<lambda>(m, h1).
     bind_outcome (deserialize_each mr ds h1) (\<lambda>(ms, h2). Ok (m # ms, h2)))"

definition Load ::
  "(u8 list \<Rightarrow> avro list option) \<Rightarrow> (u8 list \<Rightarrow> nat \<Rightarrow> nat \<Rightarrow> u8 list option) \<Rightarrow> nat \<Rightarrow> UcxMemoryResourceManager \<Rightarrow>
   string \<Rightarrow> heap \<Rightarrow> files \<Rightarrow> ((errc + AxonRequest list) \<times> heap) outcome" where
  "Load decode rd buffer_size mr path h fs =
     (case fs path of
        None \<Rightarrow> Ok (Inl no_such_file_or_directory, h)
      | Some f \<Rightarrow>
          (case read_all (rd f) (Suc (length f)) (UnifexInputStream_new buffer_size) of
             Throw e \<Rightarrow> Ok (Inl io_error, h)
           | Fault x \<Rightarrow> Fault x
           | Ok (bs, s) \<Rightarrow>
               (case decode bs of
                  None \<Rightarrow> Ok (Inl io_error, h)
                | Some ds \<Rightarrow>
                    (case deserialize_each mr ds h of
                       Ok (ms, h') \<Rightarrow> Ok (Inr ms, h')
                     | Throw e \<Rightarrow> Ok (Inl io_error, h)
                     | Fault x \<Rightarrow> Fault x))))"

subsection \<open>AxonStorage\<close>

record AxonStorage =
  arrival_requests :: "AxonRequest list"

definition storage_emplace ::
  "(AxonRequest \<Rightarrow> AxonRequest list \<Rightarrow> AxonRequest list) \<Rightarrow> AxonRequest \<Rightarrow> AxonStorage \<Rightarrow> AxonStorage" where
  "storage_emplace emplace m st = st\<lparr>arrival_requests := emplace m (arrival_requests st)\<rparr>"

definition storage_erase :: "nat \<Rightarrow> AxonStorage \<Rightarrow> AxonStorage outcome" where
  "storage_erase i st =
     (if i < length (arrival_requests st)
      then Ok (st\<lparr>arrival_requests := take i (arrival_requests st) @ drop (Suc i) (arrival_requests st)\<rparr>)
      else Fault OutOfBounds)"

definition storage_front :: "AxonStorage \<Rightarrow> AxonRequest outcome" where
  "storage_front st = (if arrival_requests st = [] then Fault OutOfBounds else Ok (hd (arrival_requests st)))"

definition storage_back :: "AxonStorage \<Rightarrow> AxonRequest outcome" where
  "storage_back st = (if arrival_requests st = [] then Fault OutOfBounds else Ok (last (arrival_requests st)))"

definition storage_size :: "AxonStorage \<Rightarrow> nat" where
  "storage_size st = length (arrival_requests st)"

definition storage_save where
  "storage_save encode w open_file torn buffer_size now_ms mr base prefix st h fs =
     Save encode w open_file torn buffer_size now_ms mr base prefix (arrival_requests st) h fs"

definition storage_load ::
  "(AxonRequest \<Rightarrow> AxonRequest list \<Rightarrow> AxonRequest list) \<Rightarrow> (u8 list \<Rightarrow> avro list option) \<Rightarrow>
   (u8 list \<Rightarrow> nat \<Rightarrow> nat \<Rightarrow> u8 list option) \<Rightarrow> nat \<Rightarrow> UcxMemoryResourceManager \<Rightarrow> string \<Rightarrow> AxonStorage \<Rightarrow> heap \<Rightarrow> files \<Rightarrow>
   (errc option \<times> AxonStorage \<times> heap) outcome" where
  "storage_load emplace decode rd buffer_size mr path st h fs =
     bind_outcome (Load decode rd buffer_size mr path h fs) (\<lambda>(r, h').
       case r of
         Inl e \<Rightarrow> Ok (Some e, st, h')
       | Inr ms \<Rightarrow> Ok (None, fold (storage_emplace emplace) ms st, h'))"

definition storage_save_request where
  "storage_save_request encode w open_file torn buffer_size now_ms mr base i st h fs =
     Save encode w open_file torn buffer_size now_ms mr base []
       (if i < length (arrival_requests st) then [arrival_requests st ! i] else []) h fs"

subsection \<open>Saved requests are loaded\<close>

lemma serialize_each_Ok:
  assumes "\<forall>m \<in> set ms. \<exists>d. Serialize mr m h = Ok d"
  shows "\<exists>ds. serialize_each mr ms h = Ok (ds, True) \<and> list_all2 (\<lambda>m d. Serialize mr m h = Ok d) ms ds"
  using assms by (induction ms) auto

lemma same_request_grows:
  "same_request h m h1 m' \<Longrightarrow> heap_ok h1 \<Longrightarrow> grows h1 h2 \<Longrightarrow> same_request h m h2 m'"
  using grows_payload by (auto simp: same_request_def)

lemma deserialize_each_Ok:
  assumes "host_ready mr"
  shows "list_all2 (\<lambda>m d. Serialize mr m h = Ok d) ms ds \<Longrightarrow> \<forall>m \<in> set ms. storable mr h m \<Longrightarrow> heap_ok h' \<Longrightarrow>
    \<exists>ms' h''. deserialize_each mr ds h' = Ok (ms', h'') \<and> list_all2 (\<lambda>m m'. same_request h m h'' m') ms ms' \<and> grows h' h''"
proof (induction ms ds arbitrary: h' rule: list_all2_induct)
  case Nil
  then show ?case by (simp add: grows_def)
next
  case (Cons m ms d ds)
  obtain m' h1 where m: "Deserialize mr d h' = Ok (m', h1)" "same_request h m h1 m'" "grows h' h1"
    using request_stored_and_read [OF _ Cons.prems(2) assms, of h m] Cons.prems(1) Cons.hyps(1) by auto
  have ok: "heap_ok h1" using m(3) by (simp add: grows_def)
  obtain ms' h'' where r: "deserialize_each mr ds h1 = Ok (ms', h'')" "list_all2 (\<lambda>m m'. same_request h m h'' m') ms ms'" "grows h1 h''"
    using Cons.IH [OF _ ok] Cons.prems(1) by auto
  show ?case using m(1) r same_request_grows [OF m(2) ok r(3)] grows_trans [OF m(3) r(3)] by auto
qed

lemma save_stores:
  assumes "full_writes w" "0 < B" "requests \<noteq> []" "open_file (save_path base prefix now_ms requests) None = Some []"
    "fs (save_path base prefix now_ms requests) = None" "serialize_each mr requests h = Ok (ds, True)"
  shows "Save encode w open_file torn B now_ms mr base prefix requests h fs =
    Ok (None, fs(save_path base prefix now_ms requests \<mapsto> encode ds))"
proof -
  obtain s where s: "out_run w [OPut (encode ds)] (UnifexOutputStream_new [] B) = Ok s" "out_inv [] B (encode ds) s"
    using out_run_inv [OF assms(1,2) out_new_inv, of "[OPut (encode ds)]" "[]"] by auto
  obtain s' where "OutputStream_Flush w s = Ok s'" "os_file s' = encode ds"
    using flush_inv [OF assms(1) s(2)] by auto
  then show ?thesis using assms(3-6) s(1) by (simp add: Save_def Let_def)
qed

lemma load_reads:
  assumes "full_reads f (rd f)" "0 < B" "fs path = Some f" "decode f = Some ds" "deserialize_each mr ds h = Ok (ms, h')"
  shows "Load decode rd B mr path h fs = Ok (Inr ms, h')"
proof -
  have z: "is_byte_count (UnifexInputStream_new B) = 0" by (simp add: UnifexInputStream_new_def prefetch_buffer_def)
  obtain s where "read_all (rd f) (Suc (length f)) (UnifexInputStream_new B) = Ok (f, s)"
    using read_all_inv [OF assms(1,2) in_new_inv, of "Suc (length f)"] unfolding z by force
  then show ?thesis using assms(3-5) by (simp add: Load_def del: read_all.simps)
qed


text \<open>A file format for one list of data, to run the theorem on.\<close>

definition example_data :: "avro list" where
  "example_data = (case serialize_each example_manager [example_request] example_heap of Ok (ds, _) \<Rightarrow> ds | _ \<Rightarrow> [])"

definition example_encode :: "avro list \<Rightarrow> u8 list" where
  "example_encode ds = [79, 98, 106, 1, of_nat (length ds)]"

definition example_decode :: "u8 list \<Rightarrow> avro list option" where
  "example_decode bs = (if bs = [79, 98, 106, 1, of_nat (length example_data)] then Some example_data else None)"


text \<open>
  Loading adds the loaded requests to those that are stored, whatever place the container gives them; on an
  error nothing is added.
\<close>

lemma storage_load_adds:
  assumes "\<forall>x xs. mset (emplace x xs) = add_mset x (mset xs)"
    and "storage_load emplace decode rd B mr path st h fs = Ok (e, st', h')"
  shows "case e of
      None \<Rightarrow> \<exists>ms. Load decode rd B mr path h fs = Ok (Inr ms, h') \<and> mset (arrival_requests st') = mset (arrival_requests st) + mset ms
    | Some x \<Rightarrow> Load decode rd B mr path h fs = Ok (Inl x, h') \<and> st' = st"
proof -
  have f: "mset (arrival_requests (fold (storage_emplace emplace) ms t)) = mset (arrival_requests t) + mset ms" for ms t
    by (induction ms arbitrary: t) (auto simp: storage_emplace_def assms(1))
  from assms(2) obtain r h1 where "Load decode rd B mr path h fs = Ok (r, h1)"
    "(case r of Inl x \<Rightarrow> Ok (Some x, st, h1) | Inr ms \<Rightarrow> Ok (None, fold (storage_emplace emplace) ms st, h1)) = Ok (e, st', h')"
    by (auto simp: storage_load_def bind_outcome_Ok_iff)
  then show ?thesis using f by (auto split: sum.splits)
qed

text \<open>
  The file name depends on the time in milliseconds and the prefix only: a second save in the same millisecond
  goes to the same file.
\<close>

lemma second_save_same_file:
  "prefix \<noteq> [] \<Longrightarrow> save_path base prefix now_ms requests = save_path base prefix now_ms requests'"
  by (simp add: save_path_def)

end
