(* ===== verification/Worker_Errors.thy ===== *)
theory Worker_Errors
  imports Rpc_Types
begin

text \<open>
  Errors inside the worker: \<open>AxonErrorContext\<close> of \<open>axon/errors/error_types.hpp\<close> and the
  function objects of \<open>axon/src/axon_worker.cpp\<close> that turn an error of one channel into another.
  A sender of the worker fails with an error code, an exception pointer or an error context
  (\<open>any_error\<close>). An exception pointer holds an \<open>RpcException\<close>, an \<open>AxonErrorException\<close>, another
  exception of the standard library with its text, or a value of a type that is not an exception.
  The texts of the standard categories are arguments (\<open>status_texts\<close>).
\<close>

subsection \<open>Error contexts\<close>

record AxonErrorContext =
  ax_conn_id :: u64
  ax_session_id :: u32
  ax_request_id :: u32
  ax_function_id :: u32
  ax_status :: RpcStatus
  ax_what :: string
  ax_hlc :: HybridLogicalClock
  ax_workflow_id :: u32

definition AxonErrorContext_new :: AxonErrorContext where
  "AxonErrorContext_new =
     \<lparr>ax_conn_id = 0, ax_session_id = 0, ax_request_id = 0, ax_function_id = 0,
      ax_status = RpcStatus_of (make_error_code INTERNAL), ax_what = ''Unknown error'',
      ax_hlc = HybridLogicalClock 0, ax_workflow_id = 0\<rparr>"

datatype exception_ptr =
    RpcEx RpcException
  | AxonEx AxonErrorContext
  | StdEx string
  | ForeignEx

definition MakeExceptionPtr :: "AxonErrorContext \<Rightarrow> exception_ptr" where
  "MakeExceptionPtr context = AxonEx context"

datatype any_error = ErrCode error_code | ErrPtr exception_ptr | ErrCtx AxonErrorContext

definition error_message :: "status_texts \<Rightarrow> error_code \<Rightarrow> string" where
  "error_message tx ec = category_message tx (ec_category ec) (ec_value ec)"

text \<open>\<open>e.what()\<close> of an exception caught as \<open>std::exception\<close>.\<close>

fun what_of :: "exception_ptr \<Rightarrow> string option" where
  "what_of (RpcEx e) = Some (ex_what e)"
| "what_of (AxonEx c) = Some (ax_what c)"
| "what_of (StdEx w) = Some w"
| "what_of ForeignEx = None"

subsection \<open>Conversions\<close>

fun TransformErrorToRpcException :: "status_texts \<Rightarrow> any_error \<Rightarrow> exception_ptr" where
  "TransformErrorToRpcException tx (ErrCode ec) = RpcEx (RpcException_of tx ec)"
| "TransformErrorToRpcException tx (ErrCtx c) = MakeExceptionPtr c"
| "TransformErrorToRpcException tx (ErrPtr p) = p"

definition internal_status :: RpcStatus where
  "internal_status = RpcStatus_of (make_error_code INTERNAL)"

fun RethrowErrorContextHelper :: "status_texts \<Rightarrow> AxonErrorContext \<Rightarrow> any_error \<Rightarrow> AxonErrorContext" where
  "RethrowErrorContextHelper tx ctx (ErrCode ec) = ctx\<lparr>ax_status := RpcStatus_of ec, ax_what := error_message tx ec\<rparr>"
| "RethrowErrorContextHelper tx ctx (ErrPtr (RpcEx e)) = ctx\<lparr>ax_status := RpcStatus_of (ex_code e), ax_what := ex_what e\<rparr>"
| "RethrowErrorContextHelper tx ctx (ErrPtr (AxonEx c)) = c"
| "RethrowErrorContextHelper tx ctx (ErrPtr (StdEx w)) = ctx\<lparr>ax_status := internal_status, ax_what := w\<rparr>"
| "RethrowErrorContextHelper tx ctx (ErrPtr ForeignEx) =
     ctx\<lparr>ax_status := internal_status, ax_what := ''Unknown error in RethrowErrorContextHelper_''\<rparr>"
| "RethrowErrorContextHelper tx ctx (ErrCtx c) = c"

text \<open>\<open>ReturnTimeoutErrorContextHelper_\<close>: the prepared context, whatever the error was.\<close>

definition ReturnTimeoutErrorContextHelper :: "AxonErrorContext \<Rightarrow> any_error option \<Rightarrow> AxonErrorContext" where
  "ReturnTimeoutErrorContextHelper ctx ignored = ctx"

text \<open>
  The context the two receive loops report for a failed \<open>connection_recv_header\<close>
  (\<open>ServerCtxLoop_\<close>, \<open>ClientCtxLoop_\<close>); it fails with a code or an exception. The name of the loop is
  the argument.
\<close>

definition loop_error_context :: "status_texts \<Rightarrow> string \<Rightarrow> HybridLogicalClock \<Rightarrow> error_code + exception_ptr \<Rightarrow> AxonErrorContext" where
  "loop_error_context tx loop hlc e =
     (case e of
        Inl ec \<Rightarrow> AxonErrorContext_new\<lparr>ax_status := RpcStatus_of ec, ax_what := loop @ '' failed: '' @ error_message tx ec, ax_hlc := hlc\<rparr>
      | Inr p \<Rightarrow>
          AxonErrorContext_new\<lparr>ax_status := internal_status,
            ax_what := (case what_of p of Some w \<Rightarrow> loop @ '' failed: '' @ w | None \<Rightarrow> ''Unknown error in '' @ loop),
            ax_hlc := hlc\<rparr>)"

text \<open>The context reported when a message failed after \<open>ServerProcessMessage_\<close> and its error response.\<close>

definition message_error_context :: "status_texts \<Rightarrow> HybridLogicalClock \<Rightarrow> any_error \<Rightarrow> AxonErrorContext" where
  "message_error_context tx hlc e =
     (let c0 = AxonErrorContext_new\<lparr>ax_hlc := hlc, ax_workflow_id := 0\<rparr> in
      case e of
        ErrCtx c \<Rightarrow> c
      | ErrCode ec \<Rightarrow> c0\<lparr>ax_status := RpcStatus_of ec, ax_what := ''ServerCtxLoopImpl_ failed: '' @ error_message tx ec\<rparr>
      | ErrPtr (RpcEx x) \<Rightarrow> c0\<lparr>ax_status := RpcStatus_of (ex_code x), ax_what := ex_what x\<rparr>
      | ErrPtr p \<Rightarrow>
          c0\<lparr>ax_status := internal_status,
             ax_what := (case what_of p of Some w \<Rightarrow> ''ServerCtxLoopImpl_ failed: '' @ w
                         | None \<Rightarrow> ''Unknown error in ServerCtxLoopImpl_'')\<rparr>)"

text \<open>
  The context of a failed \<open>ConnectEndpointAsync\<close>; the handler catches \<open>std::exception\<close> only, so
  anything else leaves it as an exception.
\<close>

definition connect_error_context ::
  "status_texts \<Rightarrow> HybridLogicalClock \<Rightarrow> error_code + exception_ptr \<Rightarrow> exception_ptr + AxonErrorContext" where
  "connect_error_context tx hlc e =
     (case e of
        Inl ec \<Rightarrow> Inr (AxonErrorContext_new\<lparr>ax_status := RpcStatus_of ec,
                        ax_what := ''ConnectEndpoint failed: '' @ error_message tx ec, ax_hlc := hlc\<rparr>)
      | Inr p \<Rightarrow>
          (case what_of p of
             Some w \<Rightarrow> Inr (AxonErrorContext_new\<lparr>ax_status := RpcStatus_of (make_axon_error_code CoordinatorError),
                         ax_what := ''ConnectEndpoint failed: '' @ w, ax_hlc := hlc\<rparr>)
           | None \<Rightarrow> Inl p))"

subsection \<open>Lemmas\<close>

text \<open>The identifiers of a context that an error carries itself win over the prepared ones.\<close>

fun own_context :: "any_error \<Rightarrow> AxonErrorContext option" where
  "own_context (ErrCtx c) = Some c"
| "own_context (ErrPtr (AxonEx c)) = Some c"
| "own_context e = None"

fun error_status :: "any_error \<Rightarrow> RpcStatus" where
  "error_status (ErrCode ec) = RpcStatus_of ec"
| "error_status (ErrCtx c) = ax_status c"
| "error_status (ErrPtr (RpcEx e)) = RpcStatus_of (ex_code e)"
| "error_status (ErrPtr (AxonEx c)) = ax_status c"
| "error_status (ErrPtr (StdEx w)) = internal_status"
| "error_status (ErrPtr ForeignEx) = internal_status"

lemma rethrow_status [simp]: "ax_status (RethrowErrorContextHelper tx ctx e) = error_status e"
  by (cases "(tx, ctx, e)" rule: RethrowErrorContextHelper.cases) auto

lemma transform_status [simp]: "error_status (ErrPtr (TransformErrorToRpcException tx e)) = error_status e"
  by (cases e) (auto simp: RpcException_of_def MakeExceptionPtr_def)

lemma rethrow_own: "own_context e = Some c \<Longrightarrow> RethrowErrorContextHelper tx ctx e = c"
  by (cases "(tx, ctx, e)" rule: RethrowErrorContextHelper.cases) auto

lemma rethrow_ids:
  assumes "own_context e = None"
  shows "\<exists>s w. RethrowErrorContextHelper tx ctx e = ctx\<lparr>ax_status := s, ax_what := w\<rparr>"
  using assms by (cases "(tx, ctx, e)" rule: RethrowErrorContextHelper.cases) auto

lemma transform_own [simp]: "own_context (ErrPtr (TransformErrorToRpcException tx e)) = own_context e"
  by (cases e; cases "own_context e") (auto simp: MakeExceptionPtr_def)

end
