(* ===== verification/Async_Dispatcher.thy ===== *)
theory Async_Dispatcher
  imports Rpc_Dispatcher Worker_Errors
begin

text \<open>
  The dispatcher of functions that return a sender, \<open>rpc_core/async_rpc_dispatcher.hpp\<close>. A sender
  is the signal it completes with: a value, an exception pointer, or the stop signal. A wrapper that
  throws before it returns a sender is \<open>Throw\<close>. The functions, the deserialisation and the context
  object are arguments, as for the synchronous dispatcher, whose signature table this class inherits.
\<close>

subsection \<open>Senders\<close>

datatype 'a completion = Completes 'a | Fails exception_ptr | Stops

text \<open>\<open>unifex::then\<close>: an exception of the continuation becomes the error of the sender.\<close>

fun then_completion :: "('a \<Rightarrow> 'b outcome) \<Rightarrow> 'a completion \<Rightarrow> 'b completion outcome" where
  "then_completion k (Completes a) =
     (case k a of Ok b \<Rightarrow> Ok (Completes b) | Throw e \<Rightarrow> Ok (Fails (StdEx (exn_what e))) | Fault x \<Rightarrow> Fault x)"
| "then_completion k (Fails p) = Ok (Fails p)"
| "then_completion k Stops = Ok Stops"

definition MakeRpcExceptionPtr :: "RpcErrc \<Rightarrow> string \<Rightarrow> exception_ptr" where
  "MakeRpcExceptionPtr rpc_errc msg = RpcEx \<lparr>ex_code = make_error_code rpc_errc, ex_what = msg\<rparr>"

subsection \<open>Wrappers\<close>

record ('b, 'v) async_static_func =
  af_args :: "cpp_type list"
  af_body :: "('b, 'v) cpp_value list \<Rightarrow> exn + ('b, 'v) ret_value completion"

record ('b, 'v) async_dynamic_func =
  ad_input :: PayloadType
  ad_body :: "ParamMeta list \<Rightarrow> ('b, 'v) PayloadVariant option \<Rightarrow> exn + (ParamMeta list \<times> ('b, 'v) PayloadVariant) completion"

datatype ('b, 'v) ErasedAsyncRpcFunction =
    AsyncStaticFunc "('b, 'v) async_static_func"
  | AsyncDynamicFunc "('b, 'v) async_dynamic_func"

definition package_outcome ::
  "RpcRequestHeader \<Rightarrow> ('b, 'v) ret_value \<Rightarrow> (RpcResponseHeader \<times> ('b, 'v) PayloadVariant) outcome" where
  "package_outcome req r = (case package_result req r of Some x \<Rightarrow> Ok x | None \<Rightarrow> Fault AssertFailed)"

definition MakeAsyncRpcWrapper ::
  "('b, 'v) async_static_func \<Rightarrow> RpcRequestHeader \<Rightarrow> ('b, 'v) PayloadVariant option \<Rightarrow>
   (RpcResponseHeader \<times> ('b, 'v) PayloadVariant) completion outcome" where
  "MakeAsyncRpcWrapper f req ctx =
     bind_outcome
       (case payload_finder (af_args f) of
          None \<Rightarrow> extract_args (af_args f) req Monostate 0
        | Some _ \<Rightarrow> (case ctx of
            None \<Rightarrow> Throw (runtime_error ''Context required but not provided.'')
          | Some c \<Rightarrow> extract_args (af_args f) req c 0))
       (\<lambda>args. case af_body f args of
          Inl e \<Rightarrow> Throw e
        | Inr result_sender \<Rightarrow> then_completion (package_outcome req) result_sender)"

text \<open>The cast of the context by the payload type the function was registered with.\<close>

definition dynamic_payload ::
  "PayloadType \<Rightarrow> ('b, 'v) PayloadVariant option \<Rightarrow> ('b, 'v) PayloadVariant option outcome" where
  "dynamic_payload input_payload_type ctx =
     (case (ctx, input_payload_type) of
        (Some (UcxBuffer b), UCX_BUFFER) \<Rightarrow> Ok (Some (UcxBuffer b))
      | (Some (UcxBufferVec v), UCX_BUFFER_VEC) \<Rightarrow> Ok (Some (UcxBufferVec v))
      | (Some _, NO_PAYLOAD) \<Rightarrow> Ok None
      | (None, _) \<Rightarrow> Ok None
      | _ \<Rightarrow> Fault BadVariant)"

definition dynamic_header :: "RpcRequestHeader \<Rightarrow> ParamMeta list \<Rightarrow> RpcResponseHeader" where
  "dynamic_header req results =
     RpcResponseHeader_new\<lparr>rs_session_id := rq_session_id req, rs_request_id := rq_request_id req,
       rs_status := RpcStatus_of (make_error_code OK), rs_results := results\<rparr>"

definition DynamicAsyncFuncWrapper ::
  "('b, 'v) async_dynamic_func \<Rightarrow> RpcRequestHeader \<Rightarrow> ('b, 'v) PayloadVariant option \<Rightarrow>
   (RpcResponseHeader \<times> ('b, 'v) PayloadVariant) completion outcome" where
  "DynamicAsyncFuncWrapper f req ctx =
     bind_outcome (dynamic_payload (ad_input f) ctx)
       (\<lambda>payload. case ad_body f (rq_params req) payload of
          Inl e \<Rightarrow> Ok (Fails (MakeRpcExceptionPtr INVALID_ARGUMENT (exn_what e)))
        | Inr s \<Rightarrow> then_completion (\<lambda>(results, p). Ok (dynamic_header req results, p)) s)"

fun run_async ::
  "('b, 'v) ErasedAsyncRpcFunction \<Rightarrow> RpcRequestHeader \<Rightarrow> ('b, 'v) PayloadVariant option \<Rightarrow>
   (RpcResponseHeader \<times> ('b, 'v) PayloadVariant) completion outcome" where
  "run_async (AsyncStaticFunc f) req ctx = MakeAsyncRpcWrapper f req ctx"
| "run_async (AsyncDynamicFunc f) req ctx = DynamicAsyncFuncWrapper f req ctx"

subsection \<open>The dispatcher\<close>

record ('b, 'v) AsyncRpcDispatcher =
  base_dispatcher :: "('b, 'v) RpcDispatcher"
  async_functions :: "u32 \<rightharpoonup> ('b, 'v) ErasedAsyncRpcFunction"

definition AsyncRpcDispatcher_new :: "string \<Rightarrow> ('b, 'v) AsyncRpcDispatcher" where
  "AsyncRpcDispatcher_new name = \<lparr>base_dispatcher = RpcDispatcher_new name, async_functions = Map.empty\<rparr>"

definition InvokeAsyncFunction ::
  "RpcRequestHeader \<Rightarrow> ('b, 'v) PayloadVariant option \<Rightarrow> ('b, 'v) AsyncRpcDispatcher \<Rightarrow>
   (RpcResponseHeader \<times> ('b, 'v) PayloadVariant) completion outcome" where
  "InvokeAsyncFunction req ctx d =
     (case async_functions d (rq_function_id req) of
        None \<Rightarrow> Ok (Fails (MakeRpcExceptionPtr NOT_FOUND ''Function not found''))
      | Some f \<Rightarrow>
          (case run_async f req ctx of
             Throw e \<Rightarrow> Ok (Fails (MakeRpcExceptionPtr INVALID_ARGUMENT (exn_what e)))
           | r \<Rightarrow> r))"

text \<open>
  The signature of a registered callable is computed from the sender type it returns, which is neither
  a payload nor a parameter type.
\<close>

definition async_signature :: "u32 \<Rightarrow> string \<Rightarrow> string \<Rightarrow> ('b, 'v) async_static_func \<Rightarrow> RpcFunctionSignature outcome" where
  "async_signature fid function_name inst f =
     (let sig = \<lparr>sig_instance_name = inst, sig_id = fid, sig_function_name = function_name,
                 sig_param_types = FillParamTypes (af_args f), sig_return_types = [],
                 sig_input_payload_type = (case payload_finder (af_args f) of None \<Rightarrow> NO_PAYLOAD
                                           | Some t \<Rightarrow> get_payload_type t),
                 sig_return_payload_type = NO_PAYLOAD\<rparr> in
      bind_outcome (ValidateTensorPayloadConstraints sig) (\<lambda>_. Ok sig))"

definition emplace_signature ::
  "u32 \<Rightarrow> RpcFunctionSignature outcome \<Rightarrow> ('b, 'v) AsyncRpcDispatcher \<Rightarrow> exn option \<times> ('b, 'v) AsyncRpcDispatcher" where
  "emplace_signature fid sig d =
     (case sig of
        Ok s \<Rightarrow> (None, d\<lparr>base_dispatcher := (base_dispatcher d)\<lparr>sig_table := map_emplace fid s (sig_table (base_dispatcher d))\<rparr>\<rparr>)
      | Throw e \<Rightarrow> (Some e, d)
      | Fault _ \<Rightarrow> (None, d))"

definition RegisterFunction_async ::
  "u32 \<Rightarrow> ('b, 'v) async_static_func \<Rightarrow> string \<Rightarrow> ('b, 'v) AsyncRpcDispatcher \<Rightarrow> exn option \<times> ('b, 'v) AsyncRpcDispatcher" where
  "RegisterFunction_async fid f name d =
     emplace_signature fid (async_signature fid name (instance_name (base_dispatcher d)) f)
       (d\<lparr>async_functions := map_emplace fid (AsyncStaticFunc f) (async_functions d)\<rparr>)"

definition RegisterFunction_async_dynamic ::
  "u32 \<Rightarrow> string \<Rightarrow> ParamType list \<Rightarrow> ParamType list \<Rightarrow> PayloadType \<Rightarrow> PayloadType \<Rightarrow>
   (ParamMeta list \<Rightarrow> ('b, 'v) PayloadVariant option \<Rightarrow> exn + (ParamMeta list \<times> ('b, 'v) PayloadVariant) completion) \<Rightarrow>
   ('b, 'v) AsyncRpcDispatcher \<Rightarrow> exn option \<times> ('b, 'v) AsyncRpcDispatcher" where
  "RegisterFunction_async_dynamic fid name param_types return_types input_payload_type return_payload_type body d =
     (let sig = \<lparr>sig_instance_name = instance_name (base_dispatcher d), sig_id = fid, sig_function_name = name,
                 sig_param_types = param_types, sig_return_types = return_types,
                 sig_input_payload_type = input_payload_type, sig_return_payload_type = return_payload_type\<rparr> in
      emplace_signature fid (bind_outcome (ValidateTensorPayloadConstraints sig) (\<lambda>_. Ok sig))
        (d\<lparr>async_functions :=
             map_emplace fid (AsyncDynamicFunc \<lparr>ad_input = input_payload_type, ad_body = body\<rparr>) (async_functions d)\<rparr>))"

definition IsRegistered_async :: "u32 \<Rightarrow> ('b, 'v) AsyncRpcDispatcher \<Rightarrow> bool" where
  "IsRegistered_async fid d \<longleftrightarrow> async_functions d fid \<noteq> None"

definition FunctionCount :: "('b, 'v) AsyncRpcDispatcher \<Rightarrow> nat" where
  "FunctionCount d = card (dom (async_functions d))"

text \<open>\<open>DispatchImpl\<close> with a return context type, and the overload that returns the variant.\<close>

definition DispatchImpl_async ::
  "PayloadType \<Rightarrow> RpcRequestHeader \<Rightarrow> ('b, 'v) PayloadVariant option \<Rightarrow> ('b, 'v) AsyncRpcDispatcher \<Rightarrow>
   (RpcResponseHeader \<times> ('b, 'v) PayloadVariant) completion outcome" where
  "DispatchImpl_async return_context req ctx d =
     bind_outcome (InvokeAsyncFunction req ctx d) (then_completion (BuildRpcResult return_context))"

definition Dispatch_async_variant ::
  "RpcRequestHeader \<Rightarrow> ('b, 'v) PayloadVariant option \<Rightarrow> ('b, 'v) AsyncRpcDispatcher \<Rightarrow>
   (RpcResponseHeader \<times> ('b, 'v) PayloadVariant) completion outcome" where
  "Dispatch_async_variant req ctx d = bind_outcome (InvokeAsyncFunction req ctx d) (then_completion Ok)"

text \<open>The overloads over a serialised request: an exception of the deserialisation is not caught.\<close>

definition from_buffer ::
  "('buf \<Rightarrow> exn + RpcRequestHeader option) \<Rightarrow> 'buf \<Rightarrow> (RpcRequestHeader \<Rightarrow> 'a completion outcome) \<Rightarrow> 'a completion outcome" where
  "from_buffer deserialize buf k =
     (case deserialize buf of
        Inl e \<Rightarrow> Throw e
      | Inr None \<Rightarrow> Ok (Fails (MakeRpcExceptionPtr UNAVAILABLE ''Failed to deserialize request''))
      | Inr (Some req) \<Rightarrow> k req)"

definition Dispatch_async_serialized ::
  "('buf \<Rightarrow> exn + RpcRequestHeader option) \<Rightarrow> PayloadType \<Rightarrow> 'buf \<Rightarrow> ('b, 'v) PayloadVariant option \<Rightarrow>
   ('b, 'v) AsyncRpcDispatcher \<Rightarrow> (RpcResponseHeader \<times> ('b, 'v) PayloadVariant) completion outcome" where
  "Dispatch_async_serialized deserialize return_context buf ctx d =
     from_buffer deserialize buf (\<lambda>req. DispatchImpl_async return_context req ctx d)"

definition Dispatch_async_serialized_variant ::
  "('buf \<Rightarrow> exn + RpcRequestHeader option) \<Rightarrow> 'buf \<Rightarrow> ('b, 'v) PayloadVariant option \<Rightarrow>
   ('b, 'v) AsyncRpcDispatcher \<Rightarrow> (RpcResponseHeader \<times> ('b, 'v) PayloadVariant) completion outcome" where
  "Dispatch_async_serialized_variant deserialize buf ctx d =
     from_buffer deserialize buf (\<lambda>req. Dispatch_async_variant req ctx d)"

definition DispatchAdhoc_async ::
  "('b, 'v) ErasedAsyncRpcFunction \<Rightarrow> RpcRequestHeader \<Rightarrow> ('b, 'v) PayloadVariant option \<Rightarrow>
   (RpcResponseHeader \<times> ('b, 'v) PayloadVariant) completion outcome" where
  "DispatchAdhoc_async f req ctx = run_async f req ctx"

subsection \<open>Lemmas\<close>

lemma dispatch_variant_invoke [simp]: "Dispatch_async_variant req ctx d = InvokeAsyncFunction req ctx d"
proof -
  have "then_completion Ok c = Ok c" for c :: "'x completion" by (cases c) auto
  then show ?thesis by (cases "InvokeAsyncFunction req ctx d") (auto simp: Dispatch_async_variant_def)
qed

lemma invoke_never_throws: "InvokeAsyncFunction req ctx d \<noteq> Throw e"
  by (auto simp: InvokeAsyncFunction_def split: option.splits outcome.splits)

lemma call_dynamic_payload:
  "call_dynamic f req ctx =
     bind_outcome (dynamic_payload (df_input f) ctx)
       (\<lambda>payload. case df_body f (rq_params req) payload of
          Inl e \<Rightarrow> Throw e | Inr (results, p) \<Rightarrow> Ok (dynamic_header req results, p))"
  unfolding call_dynamic_def dynamic_payload_def dynamic_header_def by (rule refl)

text \<open>Registering keeps what is registered under the identifier already.\<close>

lemma register_async_functions:
  "async_functions (snd (RegisterFunction_async fid f name d)) = map_emplace fid (AsyncStaticFunc f) (async_functions d)"
  by (auto simp: RegisterFunction_async_def emplace_signature_def split: outcome.splits)

text \<open>
  A dynamic function is entered before its signature is validated: when the registration fails, it
  stays callable.
\<close>

lemma rejected_function_stays_registered:
  assumes "RegisterFunction_async_dynamic fid name ps rs ip rp body d = (Some e, d')"
  shows "IsRegistered_async fid d'"
  using assms
  by (auto simp: RegisterFunction_async_dynamic_def emplace_signature_def IsRegistered_async_def map_emplace_def Let_def
      split: outcome.splits option.splits)

text \<open>Whatever a sender function returns, its signature says that it returns nothing.\<close>

lemma async_signature_hides_results:
  assumes "async_signature fid name inst f = Ok sig"
  shows "sig_return_types sig = [] \<and> sig_return_payload_type sig = NO_PAYLOAD"
  using assms by (auto simp: async_signature_def Let_def bind_outcome_Ok_iff)

subsection \<open>Agreement with the synchronous dispatcher\<close>

text \<open>A synchronous function as a function that returns a sender which completes at once.\<close>

fun async_of :: "('b, 'v) ErasedRpcFunction \<Rightarrow> ('b, 'v) ErasedAsyncRpcFunction" where
  "async_of (StaticFunc f) = AsyncStaticFunc \<lparr>af_args = sf_args f, af_body = \<lambda>args. map_sum id Completes (sf_body f args)\<rparr>"
| "async_of (DynamicFunc f) = AsyncDynamicFunc \<lparr>ad_input = df_input f, ad_body = \<lambda>ps p. map_sum id Completes (df_body f ps p)\<rparr>"

definition async_dispatcher_of :: "('b, 'v) RpcDispatcher \<Rightarrow> ('b, 'v) AsyncRpcDispatcher" where
  "async_dispatcher_of d = \<lparr>base_dispatcher = d, async_functions = (\<lambda>fid. map_option async_of (fn_table d fid))\<rparr>"

text \<open>How the synchronous dispatcher answers what the asynchronous one signals.\<close>

definition answer_of ::
  "RpcErrc \<Rightarrow> RpcRequestHeader \<Rightarrow> (RpcResponseHeader \<times> ('b, 'v) PayloadVariant) completion outcome \<Rightarrow>
   (RpcResponseHeader \<times> ('b, 'v) PayloadVariant) outcome" where
  "answer_of code req r =
     (case r of
        Ok (Completes x) \<Rightarrow> Ok x
      | Ok (Fails p) \<Rightarrow> Ok (error_response (rq_session_id req) (rq_request_id req) code
                            (case what_of p of Some w \<Rightarrow> w | None \<Rightarrow> []), Monostate)
      | Ok Stops \<Rightarrow> Fault AssertFailed
      | Throw e \<Rightarrow> Throw e
      | Fault x \<Rightarrow> Fault x)"

definition immediate :: "'a outcome \<Rightarrow> 'a completion outcome" where
  "immediate r =
     (case r of Ok x \<Rightarrow> Ok (Completes x) | Throw e \<Rightarrow> Ok (Fails (MakeRpcExceptionPtr INVALID_ARGUMENT (exn_what e))) | Fault x \<Rightarrow> Fault x)"

lemmas erased_simps = ErasedRpcFunction.case
lemmas async_func_simps = async_static_func.simps

lemma run_async_of:
  "(case run_async (async_of f) req ctx of
      Throw e \<Rightarrow> Ok (Fails (MakeRpcExceptionPtr INVALID_ARGUMENT (exn_what e))) | r \<Rightarrow> r) =
   immediate (case f of StaticFunc g \<Rightarrow> invoke_and_package g req ctx | DynamicFunc g \<Rightarrow> call_dynamic g req ctx)"
proof (cases f)
  case (StaticFunc g)
  define args where "args = (case payload_finder (sf_args g) of
      None \<Rightarrow> extract_args (sf_args g) req Monostate 0
    | Some _ \<Rightarrow> (case ctx of None \<Rightarrow> Throw (runtime_error ''Context required but not provided.'')
        | Some c \<Rightarrow> extract_args (sf_args g) req c 0))"
  show ?thesis unfolding StaticFunc
    unfolding run_async.simps async_of.simps erased_simps MakeAsyncRpcWrapper_def invoke_and_package_def async_func_simps args_def [symmetric]
    by (cases args) (auto simp: package_outcome_def immediate_def split: sum.splits option.splits)
next
  case (DynamicFunc g)
  then show ?thesis
    by (cases "dynamic_payload (df_input g) ctx")
      (auto simp: DynamicAsyncFuncWrapper_def call_dynamic_payload immediate_def split: sum.splits)
qed

lemma answer_immediate:
  "answer_of INTERNAL req (immediate r) = catch_internal req r"
  by (cases r) (auto simp: answer_of_def immediate_def catch_internal_def MakeRpcExceptionPtr_def)

subsection \<open>Properties\<close>

text \<open>
  C35. Registered with the asynchronous dispatcher, every synchronous function is answered as the
  synchronous dispatcher answers it: with the same header and payload when it succeeds, and with an error
  of the same text when it throws or is not registered. The codes differ: the asynchronous dispatcher
  fails with \<open>INVALID_ARGUMENT\<close> or \<open>NOT_FOUND\<close> where the synchronous one answers \<open>INTERNAL\<close> or
  \<open>INVALID_ARGUMENT\<close>.
\<close>

theorem async_dispatch_matches_sync:
  "InvokeFunction req ctx d =
     answer_of (if IsRegistered (rq_function_id req) d then INTERNAL else INVALID_ARGUMENT) req
       (InvokeAsyncFunction req ctx (async_dispatcher_of d))"
proof (cases "fn_table d (rq_function_id req)")
  case None
  then show ?thesis
    by (simp add: InvokeFunction_def InvokeAsyncFunction_def async_dispatcher_of_def IsRegistered_def answer_of_def
        MakeRpcExceptionPtr_def)
next
  case (Some f)
  let ?r = "case f of StaticFunc g \<Rightarrow> invoke_and_package g req ctx | DynamicFunc g \<Rightarrow> call_dynamic g req ctx"
  have run: "run_function f req ctx = catch_internal req ?r" by (cases f) auto
  have "catch_internal req ?r \<noteq> Throw e" for e by (auto simp: catch_internal_def split: outcome.splits)
  then have "InvokeFunction req ctx d = catch_internal req ?r"
    using Some by (auto simp: InvokeFunction_def run split: outcome.splits)
  moreover have "InvokeAsyncFunction req ctx (async_dispatcher_of d) = immediate ?r"
    using Some run_async_of [of f req ctx] by (simp add: InvokeAsyncFunction_def async_dispatcher_of_def)
  ultimately show ?thesis using Some by (simp add: IsRegistered_def answer_immediate)
qed

text \<open>
  A typed dispatch of a registered function completes with the requested alternative or not at all:
  whatever the function does, a value signal carries a payload of the requested type.
\<close>

lemma typed_async_dispatch_sound:
  assumes "Dispatch_async_serialized deserialize return_context buf ctx d = Ok (Completes (h, p))"
  shows "payload_tag p = return_context \<and>
     (\<exists>req. deserialize buf = Inr (Some req) \<and> InvokeAsyncFunction req ctx d = Ok (Completes (h, p)))"
proof -
  obtain req where req: "deserialize buf = Inr (Some req)"
    and typed: "bind_outcome (InvokeAsyncFunction req ctx d) (then_completion (BuildRpcResult return_context)) = Ok (Completes (h, p))"
    using assms by (auto simp: Dispatch_async_serialized_def from_buffer_def DispatchImpl_async_def split: sum.splits option.splits)
  then obtain c where "InvokeAsyncFunction req ctx d = Ok c" and k: "then_completion (BuildRpcResult return_context) c = Ok (Completes (h, p))"
    by (auto simp: bind_outcome_Ok_iff)
  then show ?thesis using req by (cases c) (auto simp: BuildRpcResult_def split: outcome.splits if_splits)
qed

end
