(* ===== verification/Worker_Requests.thy ===== *)
theory Worker_Requests
  imports Worker_Errors Axon_Message
begin

text \<open>
  The stored requests of a worker (\<open>axon_worker.cpp\<close> and \<open>axon_worker.hpp\<close>): the retention of a
  request under a lifecycle policy, the index \<open>request_id_to_iterator_\<close> over the storage, and the
  functions that process, find and erase stored requests.

  The storage is a \<open>plf::hive\<close> of shared pointers: a list of iterators with the object each points to,
  in iteration order. An insertion chooses the place and an iterator that is not in use; iterators of
  other elements stay valid. A request object has a count of its owners and is gone when the count
  drops to zero; reading it then is the fault \<open>UseAfterFree\<close>. A visitor is a function of its own state,
  the iterator and the request: it answers with a lifecycle status and whether it kept a copy of the
  shared pointer. Visitors that call back into the worker are not covered.
\<close>

subsection \<open>State\<close>

datatype LifecycleStatus = Discard | Preserve | Error

type_synonym stored_request = "RpcRequestHeader AxonMessage"

record request_store =
  hive :: "(nat \<times> nat) list"
  objects :: "nat \<rightharpoonup> stored_request \<times> nat"
  request_id_to_iterator :: "u64 \<rightharpoonup> nat"

definition request_store_new :: request_store where
  "request_store_new = \<lparr>hive = [], objects = Map.empty, request_id_to_iterator = Map.empty\<rparr>"

definition GetMessageID :: "RpcRequestHeader \<Rightarrow> u64" where
  "GetMessageID h = raw (rq_hlc h)"

abbreviation message_id :: "stored_request \<Rightarrow> u64" where
  "message_id r \<equiv> GetMessageID (msg_header r)"

text \<open>Copying and dropping a shared pointer.\<close>

definition acquire :: "nat \<Rightarrow> request_store \<Rightarrow> request_store" where
  "acquire ob st = (case objects st ob of Some (r, n) \<Rightarrow> st\<lparr>objects := (objects st)(ob \<mapsto> (r, Suc n))\<rparr> | None \<Rightarrow> st)"

definition release :: "nat \<Rightarrow> request_store \<Rightarrow> request_store" where
  "release ob st =
     (case objects st ob of
        Some (r, n) \<Rightarrow> if n \<le> 1 then st\<lparr>objects := (objects st)(ob := None)\<rparr>
                      else st\<lparr>objects := (objects st)(ob \<mapsto> (r, n - 1))\<rparr>
      | None \<Rightarrow> st)"

abbreviation acquire_if :: "bool \<Rightarrow> nat \<Rightarrow> request_store \<Rightarrow> request_store" where
  "acquire_if kept ob st \<equiv> (if kept then acquire ob st else st)"

definition read_object :: "nat \<Rightarrow> request_store \<Rightarrow> stored_request outcome" where
  "read_object ob st = (case objects st ob of Some (r, n) \<Rightarrow> Ok r | None \<Rightarrow> Fault UseAfterFree)"

subsection \<open>The hive\<close>

fun first_of :: "(nat \<times> nat) list \<Rightarrow> nat option" where
  "first_of [] = None"
| "first_of ((i, ob) # xs) = Some i"

definition next_of :: "nat \<Rightarrow> (nat \<times> nat) list \<Rightarrow> nat option" where
  "next_of i xs = first_of (tl (dropWhile (\<lambda>p. fst p \<noteq> i) xs))"

definition hive_emplace :: "nat \<Rightarrow> nat \<Rightarrow> nat \<Rightarrow> request_store \<Rightarrow> request_store" where
  "hive_emplace pos i ob st = acquire ob (st\<lparr>hive := take pos (hive st) @ (i, ob) # drop pos (hive st)\<rparr>)"

definition deref :: "nat \<Rightarrow> request_store \<Rightarrow> (nat \<times> stored_request) outcome" where
  "deref i st =
     (case map_of (hive st) i of
        None \<Rightarrow> Fault UseAfterFree
      | Some ob \<Rightarrow> bind_outcome (read_object ob st) (\<lambda>r. Ok (ob, r)))"

definition hive_erase :: "nat \<Rightarrow> nat \<Rightarrow> request_store \<Rightarrow> request_store" where
  "hive_erase i ob st = release ob (st\<lparr>hive := filter (\<lambda>p. fst p \<noteq> i) (hive st)\<rparr>)"

subsection \<open>Retention\<close>

text \<open>
  The retention step of \<open>ServerDispatchAndManageLifecycle_\<close>. The environment chooses the address of
  the new object, the iterator and the place in the hive. The result is the object whose payload
  the returned reference denotes; the local shared pointer is gone when the step returns.
\<close>

record placement =
  new_object :: nat
  new_iterator :: nat
  position :: nat

definition retention_fn ::
  "placement \<Rightarrow> (stored_request \<Rightarrow> u64 \<Rightarrow> LifecycleStatus \<times> bool) \<Rightarrow> RpcRequestHeader \<Rightarrow> payload \<Rightarrow> request_store \<Rightarrow>
   (nat \<times> request_store) outcome" where
  "retention_fn pl lc_policy hdr p st =
     bind_outcome (AxonMessage_new rq_params hdr p) (\<lambda>req.
       let req_id = GetMessageID hdr;
           ob = new_object pl;
           st1 = st\<lparr>objects := (objects st)(ob \<mapsto> (req, 1))\<rparr>;
           (status, kept) = lc_policy req req_id;
           st2 = acquire_if kept ob st1;
           st3 = (if status = Preserve
                  then let s = hive_emplace (position pl) (new_iterator pl) ob st2
                       in s\<lparr>request_id_to_iterator :=
                              (if request_id_to_iterator s req_id = None
                               then (request_id_to_iterator s)(req_id \<mapsto> new_iterator pl)
                               else request_id_to_iterator s)\<rparr>
                  else st2)
       in Ok (ob, release ob st3))"

definition retained_payload :: "nat \<Rightarrow> request_store \<Rightarrow> payload outcome" where
  "retained_payload ob st = bind_outcome (read_object ob st) (\<lambda>r. Ok (msg_payload r))"

subsection \<open>Finding and erasing\<close>

definition FindStoredRequest :: "u64 \<Rightarrow> request_store \<Rightarrow> stored_request option outcome" where
  "FindStoredRequest request_id st =
     (case request_id_to_iterator st request_id of
        None \<Rightarrow> Ok None
      | Some i \<Rightarrow> bind_outcome (deref i st) (\<lambda>(ob, r). Ok (Some r)))"

definition EraseStoredRequest :: "nat \<Rightarrow> request_store \<Rightarrow> request_store outcome" where
  "EraseStoredRequest i st =
     bind_outcome (deref i st) (\<lambda>(ob, r).
       Ok (hive_erase i ob (st\<lparr>request_id_to_iterator := (request_id_to_iterator st)(message_id r := None)\<rparr>)))"

subsection \<open>Processing\<close>

definition stored_error :: "HybridLogicalClock \<Rightarrow> string \<Rightarrow> RpcRequestHeader \<Rightarrow> AxonErrorContext" where
  "stored_error hlc what h =
     AxonErrorContext_new\<lparr>ax_session_id := rq_session_id h, ax_request_id := rq_request_id h,
       ax_function_id := rq_function_id h, ax_status := RpcStatus_of (make_error_code INTERNAL),
       ax_what := what, ax_hlc := hlc, ax_workflow_id := rq_workflow_id h\<rparr>"

text \<open>
  Dropping the index entry and the element; an error status then builds its context from the header
  through the reference taken before the erase.
\<close>

definition finish_request ::
  "HybridLogicalClock \<Rightarrow> string \<Rightarrow> nat \<Rightarrow> LifecycleStatus \<Rightarrow> request_store \<Rightarrow> (AxonErrorContext option \<times> request_store) outcome" where
  "finish_request hlc what i status st =
     bind_outcome (deref i st) (\<lambda>(ob, r).
       let st' = hive_erase i ob (st\<lparr>request_id_to_iterator := (request_id_to_iterator st)(message_id r := None)\<rparr>) in
       if status = Error
       then bind_outcome (read_object ob st') (\<lambda>r'. Ok (Some (stored_error hlc what (msg_header r')), st'))
       else Ok (None, st'))"

definition ProcessLifecycleStatus ::
  "HybridLogicalClock \<Rightarrow> nat \<Rightarrow> LifecycleStatus \<Rightarrow> request_store \<Rightarrow>
   (AxonErrorContext option \<times> nat option option \<times> request_store) outcome" where
  "ProcessLifecycleStatus hlc i status st =
     (if status = Discard \<or> status = Error
      then bind_outcome (finish_request hlc ''Error processing stored request'' i status st)
             (\<lambda>(res, st'). Ok (res, Some (next_of i (hive st)), st'))
      else Ok (None, None, st))"

type_synonym 'v visitor = "'v \<Rightarrow> nat \<Rightarrow> stored_request \<Rightarrow> LifecycleStatus \<times> bool \<times> 'v"

definition visit_request :: "'v visitor \<Rightarrow> 'v \<Rightarrow> nat \<Rightarrow> request_store \<Rightarrow> (LifecycleStatus \<times> 'v \<times> request_store) outcome" where
  "visit_request visit v i st =
     bind_outcome (deref i st) (\<lambda>(ob, r).
       let (status, kept, v') = visit v i r in Ok (status, v', acquire_if kept ob st))"

definition ProcessSingleStoredRequest ::
  "HybridLogicalClock \<Rightarrow> 'v visitor \<Rightarrow> 'v \<Rightarrow> nat \<Rightarrow> request_store \<Rightarrow> (AxonErrorContext option \<times> 'v \<times> request_store) outcome" where
  "ProcessSingleStoredRequest hlc visit v i st =
     bind_outcome (visit_request visit v i st) (\<lambda>(status, v', st1).
       if status = Discard \<or> status = Error
       then bind_outcome (finish_request hlc ''Error processing single stored request'' i status st1)
              (\<lambda>(res, st2). Ok (res, v', st2))
       else Ok (None, v', st1))"

definition not_stored :: "HybridLogicalClock \<Rightarrow> u64 \<Rightarrow> AxonErrorContext" where
  "not_stored hlc req_id =
     AxonErrorContext_new\<lparr>ax_request_id := ucast req_id, ax_status := RpcStatus_of (make_error_code NOT_FOUND),
       ax_what := ''Request not found in storage'', ax_hlc := hlc\<rparr>"

text \<open>The overloads for one request: with an iterator visitor (or a callable), and through a function view.\<close>

definition ProcessStoredRequest ::
  "HybridLogicalClock \<Rightarrow> u64 \<Rightarrow> 'v visitor \<Rightarrow> 'v \<Rightarrow> request_store \<Rightarrow> (AxonErrorContext option \<times> 'v \<times> request_store) outcome" where
  "ProcessStoredRequest hlc req_id visit v st =
     (case request_id_to_iterator st req_id of
        None \<Rightarrow> Ok (Some (not_stored hlc req_id), v, st)
      | Some i \<Rightarrow>
          bind_outcome (visit_request visit v i st) (\<lambda>(status, v', st1).
          bind_outcome (ProcessLifecycleStatus hlc i status st1) (\<lambda>(res, nx, st2). Ok (res, v', st2))))"

definition ProcessStoredRequest_view ::
  "HybridLogicalClock \<Rightarrow> u64 \<Rightarrow> 'v visitor \<Rightarrow> 'v \<Rightarrow> request_store \<Rightarrow> (AxonErrorContext option \<times> 'v \<times> request_store) outcome" where
  "ProcessStoredRequest_view hlc req_id visit v st =
     (case request_id_to_iterator st req_id of
        None \<Rightarrow> Ok (Some (not_stored hlc req_id), v, st)
      | Some i \<Rightarrow> ProcessSingleStoredRequest hlc visit v i st)"

text \<open>
  The three loops over the storage. Each turn of a loop is a body that processes the element under
  the iterator and gives the iterator of the next turn (\<open>None\<close> is \<open>end()\<close>).
\<close>

type_synonym 'v body = "'v \<Rightarrow> nat \<Rightarrow> request_store \<Rightarrow> (AxonErrorContext option \<times> nat option \<times> 'v \<times> request_store) outcome"

fun storage_loop :: "nat \<Rightarrow> 'v body \<Rightarrow> 'v \<Rightarrow> nat option \<Rightarrow> request_store \<Rightarrow> (AxonErrorContext option \<times> 'v \<times> request_store) outcome" where
  "storage_loop fuel body v None st = Ok (None, v, st)"
| "storage_loop 0 body v (Some i) st = Fault OutOfFuel"
| "storage_loop (Suc fuel) body v (Some i) st =
     bind_outcome (body v i st) (\<lambda>(res, nx, v', st').
       case res of Some e \<Rightarrow> Ok (Some e, v', st') | None \<Rightarrow> storage_loop fuel body v' nx st')"

definition body_speculative :: "HybridLogicalClock \<Rightarrow> 'v visitor \<Rightarrow> 'v body" where
  "body_speculative hlc visit v i st =
     (let nx = next_of i (hive st) in
      bind_outcome (visit_request visit v i st) (\<lambda>(status, v', st1).
      bind_outcome (ProcessLifecycleStatus hlc i status st1) (\<lambda>(res, next_it, st2).
        Ok (res, (case next_it of Some j \<Rightarrow> j | None \<Rightarrow> nx), v', st2))))"

definition body_view :: "HybridLogicalClock \<Rightarrow> 'v visitor \<Rightarrow> 'v body" where
  "body_view hlc visit v i st =
     (let nx = next_of i (hive st) in
      bind_outcome (ProcessSingleStoredRequest hlc visit v i st) (\<lambda>(res, v', st').
        Ok (res, nx, v', st')))"

definition body_callable :: "HybridLogicalClock \<Rightarrow> 'v visitor \<Rightarrow> 'v body" where
  "body_callable hlc visit v i st =
     bind_outcome (visit_request visit v i st) (\<lambda>(status, v', st1).
     bind_outcome (ProcessLifecycleStatus hlc i status st1) (\<lambda>(res, next_it, st2).
       Ok (res, (case next_it of Some j \<Rightarrow> j | None \<Rightarrow> next_of i (hive st2)), v', st2)))"

definition ProcessStoredRequests :: "HybridLogicalClock \<Rightarrow> 'v visitor \<Rightarrow> 'v \<Rightarrow> request_store \<Rightarrow> (AxonErrorContext option \<times> 'v \<times> request_store) outcome" where
  "ProcessStoredRequests hlc visit v st =
     storage_loop (length (hive st)) (body_speculative hlc visit) v (first_of (hive st)) st"

definition ProcessStoredRequests_view :: "HybridLogicalClock \<Rightarrow> 'v visitor \<Rightarrow> 'v \<Rightarrow> request_store \<Rightarrow> (AxonErrorContext option \<times> 'v \<times> request_store) outcome" where
  "ProcessStoredRequests_view hlc visit v st =
     storage_loop (length (hive st)) (body_view hlc visit) v (first_of (hive st)) st"

definition ProcessStoredRequests_callable :: "HybridLogicalClock \<Rightarrow> 'v visitor \<Rightarrow> 'v \<Rightarrow> request_store \<Rightarrow> (AxonErrorContext option \<times> 'v \<times> request_store) outcome" where
  "ProcessStoredRequests_callable hlc visit v st =
     storage_loop (length (hive st)) (body_callable hlc visit) v (first_of (hive st)) st"

subsection \<open>Invariant\<close>

text \<open>
  Every element points to a live object, and every index entry to an element whose request has the
  indexed identifier. (An element may be missing from the index: see below.)
\<close>

definition indexed :: "request_store \<Rightarrow> u64 \<Rightarrow> nat \<Rightarrow> bool" where
  "indexed st req_id i \<longleftrightarrow> (\<exists>ob r n. (i, ob) \<in> set (hive st) \<and> objects st ob = Some (r, n) \<and> message_id r = req_id)"

definition store_inv :: "request_store \<Rightarrow> bool" where
  "store_inv st \<longleftrightarrow>
     distinct (map fst (hive st)) \<and> distinct (map snd (hive st)) \<and>
     (\<forall>ob \<in> snd ` set (hive st). objects st ob \<noteq> None) \<and> (\<forall>ob r. objects st ob \<noteq> Some (r, 0)) \<and>
     (\<forall>req_id i. request_id_to_iterator st req_id = Some i \<longrightarrow> indexed st req_id i)"

lemma store_invI:
  assumes "distinct (map fst (hive st))" and "distinct (map snd (hive st))"
    and "\<And>i ob. (i, ob) \<in> set (hive st) \<Longrightarrow> objects st ob \<noteq> None" and "\<And>ob r. objects st ob \<noteq> Some (r, 0)"
    and "\<And>req_id i. request_id_to_iterator st req_id = Some i \<Longrightarrow> indexed st req_id i"
  shows "store_inv st"
  using assms by (force simp: store_inv_def)

lemma store_invD:
  assumes "store_inv st"
  shows "distinct (map fst (hive st))" and "distinct (map snd (hive st))"
    and "(i, ob) \<in> set (hive st) \<Longrightarrow> \<exists>r n. objects st ob = Some (r, Suc n)" and "objects st ob \<noteq> Some (r, 0)"
    and "request_id_to_iterator st req_id = Some i \<Longrightarrow> indexed st req_id i"
proof -
  show "(i, ob) \<in> set (hive st) \<Longrightarrow> \<exists>r n. objects st ob = Some (r, Suc n)"
  proof -
    assume "(i, ob) \<in> set (hive st)"
    then have "objects st ob \<noteq> None" using assms by (force simp: store_inv_def)
    moreover have "\<forall>r. objects st ob \<noteq> Some (r, 0)" using assms by (simp add: store_inv_def)
    ultimately show ?thesis by (metis not_None_eq old.prod.exhaust not0_implies_Suc)
  qed
qed (use assms in \<open>auto simp: store_inv_def\<close>)

lemma acquire_fields [simp]:
  "hive (acquire ob st) = hive st" "request_id_to_iterator (acquire ob st) = request_id_to_iterator st"
  by (auto simp: acquire_def split: option.splits)

lemma release_fields [simp]:
  "hive (release ob st) = hive st" "request_id_to_iterator (release ob st) = request_id_to_iterator st"
  by (auto simp: release_def split: option.splits)

lemma acquire_objects:
  "objects (acquire ob st) b = (if b = ob then map_option (\<lambda>(r, n). (r, Suc n)) (objects st ob) else objects st b)"
  by (auto simp: acquire_def split: option.splits)

lemma release_objects:
  "objects (release ob st) b =
     (if b = ob then (case objects st ob of Some (r, n) \<Rightarrow> if n \<le> 1 then None else Some (r, n - 1) | None \<Rightarrow> None)
      else objects st b)"
  by (auto simp: release_def split: option.splits)

lemma acquire_indexed [simp]: "indexed (acquire ob st) req_id i = indexed st req_id i"
  by (force simp: indexed_def acquire_objects split: if_splits)

lemma acquired_store_inv: "store_inv st \<Longrightarrow> store_inv (acquire ob st)"
  by (auto simp: store_inv_def acquire_objects)

subsection \<open>One element\<close>

definition drop_request :: "nat \<Rightarrow> nat \<Rightarrow> stored_request \<Rightarrow> request_store \<Rightarrow> request_store" where
  "drop_request i ob r st = hive_erase i ob (st\<lparr>request_id_to_iterator := (request_id_to_iterator st)(message_id r := None)\<rparr>)"

lemma drop_request_fields [simp]:
  "hive (drop_request i ob r st) = filter (\<lambda>p. fst p \<noteq> i) (hive st)"
  "request_id_to_iterator (drop_request i ob r st) = (request_id_to_iterator st)(message_id r := None)"
  "objects (drop_request i ob r st) b = objects (release ob st) b"
  by (auto simp: drop_request_def hive_erase_def release_objects)

lemma filter_other: "distinct (map fst (xs @ (i, ob) # ys)) \<Longrightarrow> filter (\<lambda>p. fst p \<noteq> i) (xs @ (i, ob) # ys) = xs @ ys"
proof -
  assume "distinct (map fst (xs @ (i, ob) # ys))"
  then have "\<forall>p \<in> set xs. fst p \<noteq> i" "\<forall>p \<in> set ys. fst p \<noteq> i" by force+
  then show ?thesis by simp
qed

lemma next_of_split:
  assumes "distinct (map fst (xs @ (i, ob) # ys))"
  shows "next_of i (xs @ (i, ob) # ys) = first_of ys"
proof -
  have "dropWhile (\<lambda>p. fst p \<noteq> i) (xs @ (i, ob) # ys) = (i, ob) # ys"
    using assms by (subst dropWhile_append2) force+
  then show ?thesis by (simp add: next_of_def)
qed

lemma map_of_split: "distinct (map fst (xs @ (i, ob) # ys)) \<Longrightarrow> map_of (xs @ (i, ob) # ys) i = Some ob"
  by (rule map_of_is_SomeI) simp_all

lemma drop_request_inv:
  assumes inv: "store_inv st" and split: "hive st = xs @ (i, ob) # ys" and r: "objects st ob = Some (r, n)"
  shows "store_inv (drop_request i ob r st)"
proof (rule store_invI)
  note d = store_invD(1,2) [OF inv, unfolded split]
  have h: "hive (drop_request i ob r st) = xs @ ys" using filter_other [OF d(1)] by (simp add: split)
  show "distinct (map fst (hive (drop_request i ob r st)))" "distinct (map snd (hive (drop_request i ob r st)))"
    using d by (auto simp: h simp del: drop_request_fields(1))
  show "objects (drop_request i ob r st) b \<noteq> None" if "(j, b) \<in> set (hive (drop_request i ob r st))" for j b
  proof -
    have "b \<noteq> ob" using that d(2) unfolding h by force
    moreover have "(j, b) \<in> set (hive st)" using that unfolding h split by auto
    ultimately show ?thesis using store_invD(3) [OF inv] by (force simp: release_objects)
  qed
  show "objects (drop_request i ob r st) b \<noteq> Some (q, 0)" for b q
    using store_invD(4) [OF inv] by (auto simp: release_objects split: option.splits)
  fix req_id j
  assume "request_id_to_iterator (drop_request i ob r st) req_id = Some j"
  then have k: "req_id \<noteq> message_id r" "request_id_to_iterator st req_id = Some j" by (auto split: if_splits)
  obtain b q m where q: "(j, b) \<in> set (hive st)" "objects st b = Some (q, m)" "message_id q = req_id"
    using store_invD(5) [OF inv k(2)] by (auto simp: indexed_def)
  have "b \<noteq> ob" using q r k(1) by auto
  moreover have "(j, b) \<in> set (xs @ ys)" using q(1) \<open>b \<noteq> ob\<close> by (auto simp: split)
  ultimately show "indexed (drop_request i ob r st) req_id j"
    using q(2,3) unfolding indexed_def h by (auto simp: release_objects)
qed

lemma deref_split:
  assumes "store_inv st" and "hive st = xs @ (i, ob) # ys" and "objects st ob = Some (r, n)"
  shows "deref i st = Ok (ob, r)"
proof -
  have "map_of (hive st) i = Some ob" using map_of_split [of xs i ob ys] store_invD(1) [OF assms(1)] by (simp only: assms(2))
  then show ?thesis using assms(3) by (simp add: deref_def read_object_def)
qed

subsection \<open>The loops against a fold over the elements\<close>

text \<open>
  The reference: the elements in order, each visited once; the loop stops at the first error. An
  error whose object has no owner but the storage reads a destroyed header.
\<close>

fun process_each ::
  "HybridLogicalClock \<Rightarrow> string \<Rightarrow> 'v visitor \<Rightarrow> 'v \<Rightarrow> (nat \<times> nat) list \<Rightarrow> request_store \<Rightarrow>
   (AxonErrorContext option \<times> 'v \<times> request_store) outcome" where
  "process_each hlc what visit v [] st = Ok (None, v, st)"
| "process_each hlc what visit v ((i, ob) # ys) st =
     (case objects st ob of
        None \<Rightarrow> Fault UseAfterFree
      | Some (r, n) \<Rightarrow>
          let (status, kept, v') = visit v i r; st1 = acquire_if kept ob st in
          (case status of
             Preserve \<Rightarrow> process_each hlc what visit v' ys st1
           | Discard \<Rightarrow> process_each hlc what visit v' ys (drop_request i ob r st1)
           | Error \<Rightarrow> if n = 1 \<and> \<not> kept then Fault UseAfterFree
                      else Ok (Some (stored_error hlc what (msg_header r)), v', drop_request i ob r st1)))"

locale request_body =
  fixes body :: "'v body" and hlc :: HybridLogicalClock and what :: string and visit :: "'v visitor"
  assumes body_law: "store_inv st \<Longrightarrow> hive st = xs @ (i, ob) # ys \<Longrightarrow> objects st ob = Some (r, n) \<Longrightarrow>
    visit v i r = (status, kept, v') \<Longrightarrow>
    body v i st =
      (if status = Preserve then Ok (None, first_of ys, v', acquire_if kept ob st)
       else if status = Error \<and> n = 1 \<and> \<not> kept then Fault UseAfterFree
       else Ok (if status = Error then Some (stored_error hlc what (msg_header r)) else None, first_of ys, v',
                drop_request i ob r (acquire_if kept ob st)))"
begin

lemma loop_reference:
  "store_inv st \<Longrightarrow> hive st = xs @ ys \<Longrightarrow> length ys \<le> fuel \<Longrightarrow>
   storage_loop fuel body v (first_of ys) st = process_each hlc what visit v ys st"
proof (induction ys arbitrary: fuel v st xs)
  case Nil
  then show ?case by simp
next
  case (Cons e ys)
  obtain i ob where e: "e = (i, ob)" by fastforce
  obtain f where f: "fuel = Suc f" using Cons.prems(3) by (cases fuel) auto
  obtain r n where r: "objects st ob = Some (r, Suc n)" using store_invD(3) [OF Cons.prems(1), of i ob] Cons.prems(2) e by auto
  obtain status kept v' where vis: "visit v i r = (status, kept, v')" by (metis prod_cases3)
  let ?st1 = "acquire_if kept ob st"
  have split: "hive st = xs @ (i, ob) # ys" using Cons.prems(2) e by simp
  note b = body_law [OF Cons.prems(1) split r vis]
  have i1: "store_inv ?st1" "hive ?st1 = xs @ (i, ob) # ys" using Cons.prems(1) split acquired_store_inv by auto
  obtain m where o1: "objects ?st1 ob = Some (r, m)" using r by (cases kept) (auto simp: acquire_objects)
  have i2: "store_inv (drop_request i ob r ?st1)" by (rule drop_request_inv [OF i1 o1])
  have h2: "hive (drop_request i ob r ?st1) = xs @ ys"
    using filter_other [of xs i ob ys] store_invD(1) [OF i1(1)] i1(2) by simp
  show ?case
  proof (cases status)
    case Discard
    then show ?thesis using Cons.IH [OF i2 h2, of f v'] Cons.prems(3) by (simp add: e f b r vis)
  next
    case Preserve
    have "hive ?st1 = (xs @ [(i, ob)]) @ ys" using i1(2) by simp
    then show ?thesis using Cons.IH [OF i1(1), of "xs @ [(i, ob)]" f v'] Cons.prems(3) Preserve by (simp add: e f b r vis)
  next
    case Error
    then show ?thesis by (simp add: e f b r vis)
  qed
qed

end

lemma visit_split:
  assumes "store_inv st" and "hive st = xs @ (i, ob) # ys" and "objects st ob = Some (r, n)" and "visit v i r = (status, kept, v')"
  shows "visit_request visit v i st = Ok (status, v', acquire_if kept ob st)"
  using assms deref_split [OF assms(1-3)] by (simp add: visit_request_def)

lemma finish_split:
  assumes "store_inv st" and "hive st = xs @ (i, ob) # ys" and "objects st ob = Some (r, n)"
  shows "finish_request hlc what i status st =
    (if status = Error \<and> n = 1 then Fault UseAfterFree
     else Ok (if status = Error then Some (stored_error hlc what (msg_header r)) else None, drop_request i ob r st))"
  using deref_split [OF assms] store_invD(4) [OF assms(1), of ob r] assms(3)
  by (auto simp: finish_request_def drop_request_def hive_erase_def Let_def read_object_def release_objects)

lemma acquired_split:
  assumes "store_inv st" and "hive st = xs @ (i, ob) # ys" and "objects st ob = Some (r, n)"
  shows "store_inv (acquire_if kept ob st)" and "hive (acquire_if kept ob st) = xs @ (i, ob) # ys"
    and "objects (acquire_if kept ob st) ob = Some (r, if kept then Suc n else n)"
    and "next_of i (hive (acquire_if kept ob st)) = first_of ys"
  using assms acquired_store_inv next_of_split [of xs i ob ys] store_invD(1) [OF assms(1)] by (auto simp: acquire_objects)

interpretation speculative: request_body "body_speculative hlc visit" hlc "''Error processing stored request''" visit
  for hlc and visit :: "'v visitor"
proof (unfold_locales, goal_cases)
  case (1 st xs i ob ys r n v status kept v')
  note a = acquired_split [OF 1(1-3), of kept]
  have "next_of i (hive st) = first_of ys" using acquired_split(4) [OF 1(1-3), of False] by simp
  then show ?case using visit_split [where visit = visit, OF 1] finish_split [OF a(1-3)] a(4) store_invD(4) [OF 1(1), of ob r] 1(3)
    by (cases status) (simp_all add: body_speculative_def ProcessLifecycleStatus_def Let_def)
qed

interpretation viewed: request_body "body_view hlc visit" hlc "''Error processing single stored request''" visit
  for hlc and visit :: "'v visitor"
proof (unfold_locales, goal_cases)
  case (1 st xs i ob ys r n v status kept v')
  note a = acquired_split [OF 1(1-3), of kept]
  have "next_of i (hive st) = first_of ys" using acquired_split(4) [OF 1(1-3), of False] by simp
  then show ?case using visit_split [where visit = visit, OF 1] finish_split [OF a(1-3)] store_invD(4) [OF 1(1), of ob r] 1(3)
    by (cases status) (simp_all add: body_view_def ProcessSingleStoredRequest_def Let_def)
qed

interpretation callable: request_body "body_callable hlc visit" hlc "''Error processing stored request''" visit
  for hlc and visit :: "'v visitor"
proof (unfold_locales, goal_cases)
  case (1 st xs i ob ys r n v status kept v')
  note a = acquired_split [OF 1(1-3), of kept]
  show ?case using visit_split [where visit = visit, OF 1] finish_split [OF a(1-3)] a(4) store_invD(4) [OF 1(1), of ob r] 1(3)
    by (cases status) (simp_all add: body_callable_def ProcessLifecycleStatus_def Let_def)
qed

subsection \<open>Every operation keeps the invariant\<close>

lemma find_sound:
  assumes "store_inv st"
  shows "\<exists>x. FindStoredRequest req_id st = Ok x"
    and "FindStoredRequest req_id st = Ok (Some r) \<Longrightarrow> message_id r = req_id"
proof -
  have *: "\<exists>r. FindStoredRequest req_id st = Ok (Some r) \<and> message_id r = req_id" if "request_id_to_iterator st req_id = Some i" for i
  proof -
    obtain ob r n where r: "(i, ob) \<in> set (hive st)" "objects st ob = Some (r, n)" "message_id r = req_id"
      using store_invD(5) [OF assms \<open>request_id_to_iterator st req_id = Some i\<close>] by (auto simp: indexed_def)
    obtain xs ys where "hive st = xs @ (i, ob) # ys" using split_list [OF r(1)] by blast
    then show ?thesis using deref_split [OF assms _ r(2)] r(3) that by (simp add: FindStoredRequest_def)
  qed
  show "\<exists>x. FindStoredRequest req_id st = Ok x"
    using * by (cases "request_id_to_iterator st req_id") (auto simp: FindStoredRequest_def)
  show "FindStoredRequest req_id st = Ok (Some r) \<Longrightarrow> message_id r = req_id"
    using * by (cases "request_id_to_iterator st req_id") (auto simp: FindStoredRequest_def)
qed

lemma process_each_inv:
  "store_inv st \<Longrightarrow> hive st = xs @ ys \<Longrightarrow> process_each hlc what visit v ys st = Ok (res, v', st') \<Longrightarrow> store_inv st'"
proof (induction ys arbitrary: v st xs)
  case Nil
  then show ?case by simp
next
  case (Cons e ys)
  obtain i ob where e: "e = (i, ob)" by fastforce
  obtain r n where r: "objects st ob = Some (r, Suc n)" using store_invD(3) [OF Cons.prems(1), of i ob] Cons.prems(2) e by auto
  obtain status kept w where vis: "visit v i r = (status, kept, w)" by (metis prod_cases3)
  have split: "hive st = xs @ (i, ob) # ys" using Cons.prems(2) e by simp
  note a = acquired_split [OF Cons.prems(1) split r, of kept]
  note d = drop_request_inv [OF a(1-3)]
  have h: "hive (drop_request i ob r (acquire_if kept ob st)) = xs @ ys"
    using filter_other [of xs i ob ys] store_invD(1) [OF a(1)] a(2) by simp
  show ?case
  proof (cases status)
    case Discard
    then show ?thesis using Cons.IH [OF d h] Cons.prems(3) by (simp add: e r vis)
  next
    case Preserve
    then show ?thesis using Cons.IH [OF a(1), of "xs @ [(i, ob)]"] a(2) Cons.prems(3) by (simp add: e r vis)
  next
    case Error
    then show ?thesis using Cons.prems(3) d by (auto simp: e r vis split: if_splits)
  qed
qed

lemma loop_value:
  assumes "store_inv st"
  shows "ProcessStoredRequests hlc visit v st = process_each hlc ''Error processing stored request'' visit v (hive st) st"
    and "ProcessStoredRequests_callable hlc visit v st = process_each hlc ''Error processing stored request'' visit v (hive st) st"
    and "ProcessStoredRequests_view hlc visit v st = process_each hlc ''Error processing single stored request'' visit v (hive st) st"
  by (simp_all add: ProcessStoredRequests_def ProcessStoredRequests_callable_def ProcessStoredRequests_view_def
      speculative.loop_reference [OF assms, of "[]"] callable.loop_reference [OF assms, of "[]"] viewed.loop_reference [OF assms, of "[]"])

lemma indexed_elem:
  assumes "store_inv st" and "request_id_to_iterator st req_id = Some i"
  obtains xs ob ys r n where "hive st = xs @ (i, ob) # ys" and "objects st ob = Some (r, n)" and "message_id r = req_id"
  using store_invD(5) [OF assms] split_list unfolding indexed_def by metis

lemma process_one_steps:
  assumes "store_inv st" and "request_id_to_iterator st req_id = Some i"
  obtains status w st1 st2 where "visit_request visit v i st = Ok (status, w, st1)" and "store_inv st1" and "store_inv st2"
    and "\<forall>hlc what e s. finish_request hlc what i status st1 = Ok (e, s) \<longrightarrow> s = st2"
proof -
  obtain xs ob ys r n where e: "hive st = xs @ (i, ob) # ys" "objects st ob = Some (r, n)"
    using indexed_elem [OF assms] by metis
  obtain status kept w where vis: "visit v i r = (status, kept, w)" by (metis prod_cases3)
  note a = acquired_split [OF assms(1) e, of kept]
  show ?thesis
    by (rule that [OF visit_split [where visit = visit, OF assms(1) e vis] a(1) drop_request_inv [OF a(1-3)]])
      (simp add: finish_split [OF a(1-3)] split: if_splits)
qed

lemma process_one_inv:
  assumes "store_inv st" and "ProcessStoredRequest hlc req_id visit v st = Ok (res, v', st') \<or>
    ProcessStoredRequest_view hlc req_id visit v st = Ok (res, v', st')"
  shows "store_inv st'"
proof (cases "request_id_to_iterator st req_id")
  case (Some i)
  obtain status w st1 st2 where s: "visit_request visit v i st = Ok (status, w, st1)" "store_inv st1" "store_inv st2"
    "\<forall>hlc what e s. finish_request hlc what i status st1 = Ok (e, s) \<longrightarrow> s = st2"
    using process_one_steps [OF assms(1) Some, where visit = visit and v = v] by blast
  then show ?thesis using Some assms(2)
    by (auto simp: ProcessStoredRequest_def ProcessLifecycleStatus_def ProcessStoredRequest_view_def
        ProcessSingleStoredRequest_def bind_outcome_Ok_iff split: if_splits)
qed (use assms in \<open>simp add: ProcessStoredRequest_def ProcessStoredRequest_view_def\<close>)

lemma erase_inv:
  assumes "store_inv st" and "EraseStoredRequest i st = Ok st'"
  shows "store_inv st'"
proof -
  obtain ob r where d: "deref i st = Ok (ob, r)" "st' = drop_request i ob r st"
    using assms(2) by (auto simp: EraseStoredRequest_def bind_outcome_Ok_iff drop_request_def)
  then have "(i, ob) \<in> set (hive st)" "\<exists>n. objects st ob = Some (r, n)"
    by (auto simp: deref_def read_object_def dest: map_of_SomeD split: option.splits)
  then show ?thesis using drop_request_inv [OF assms(1)] split_list d(2) by metis
qed

lemma release_inv:
  assumes "store_inv st" and "ob \<in> snd ` set (hive st) \<Longrightarrow> objects st ob \<noteq> Some (r, Suc 0)" and "objects st ob = Some (r, n)"
  shows "store_inv (release ob st)"
proof (rule store_invI)
  show "distinct (map fst (hive (release ob st)))" "distinct (map snd (hive (release ob st)))"
    using store_invD(1,2) [OF assms(1)] by auto
  show "objects (release ob st) b \<noteq> Some (q, 0)" for b q
    using store_invD(4) [OF assms(1)] by (auto simp: release_objects split: option.splits)
  have keep: "objects (release ob st) b \<noteq> None" if "(j, b) \<in> set (hive st)" for j b
  proof -
    have "n \<noteq> 1" if "b = ob"
    proof -
      have "ob \<in> snd ` set (hive st)" using that \<open>(j, b) \<in> set (hive st)\<close> by force
      then show ?thesis using assms(2,3) by auto
    qed
    then show ?thesis using store_invD(3) [OF assms(1) that] assms(3) by (auto simp: release_objects)
  qed
  then show "objects (release ob st) b \<noteq> None" if "(j, b) \<in> set (hive (release ob st))" for j b using that by auto
  fix req_id j
  assume "request_id_to_iterator (release ob st) req_id = Some j"
  then have "indexed st req_id j" using store_invD(5) [OF assms(1)] by simp
  then obtain b q m where q: "(j, b) \<in> set (hive st)" "objects st b = Some (q, m)" "message_id q = req_id"
    by (auto simp: indexed_def)
  have "\<exists>m'. objects (release ob st) b = Some (q, m')"
    using keep [OF q(1)] q(2) assms(3) by (auto simp: release_objects split: option.splits if_splits)
  then show "indexed (release ob st) req_id j" using q(1,3) by (auto simp: indexed_def)
qed

subsection \<open>Retention\<close>

definition fresh :: "placement \<Rightarrow> request_store \<Rightarrow> bool" where
  "fresh pl st \<longleftrightarrow> objects st (new_object pl) = None \<and> new_iterator pl \<notin> fst ` set (hive st)"

lemma emplace_hive: "set (take n xs @ x # drop n xs) = insert x (set xs)"
  by (metis append_take_drop_id set_append list.simps(15) Un_insert_right)

lemma new_object_unowned:
  assumes "store_inv st" and "objects st ob = None"
  shows "ob \<notin> snd ` set (hive st)"
  using assms by (force simp: store_inv_def)

lemma add_object_inv:
  assumes "store_inv st" and "objects st ob = None"
  shows "store_inv (st\<lparr>objects := (objects st)(ob \<mapsto> (r, Suc n))\<rparr>)"
proof (rule store_invI)
  let ?s = "st\<lparr>objects := (objects st)(ob \<mapsto> (r, Suc n))\<rparr>"
  show "distinct (map fst (hive ?s))" "distinct (map snd (hive ?s))" using store_invD(1,2) [OF assms(1)] by auto
  show "objects ?s b \<noteq> None" if "(i, b) \<in> set (hive ?s)" for i b
    using store_invD(3) [OF assms(1), of i b] that by auto
  show "objects ?s b \<noteq> Some (q, 0)" for b q using store_invD(4) [OF assms(1)] by auto
  show "indexed ?s req_id i" if "request_id_to_iterator ?s req_id = Some i" for req_id i
  proof -
    have "indexed st req_id i" using store_invD(5) [OF assms(1)] that by simp
    then show ?thesis using assms(2) by (force simp: indexed_def)
  qed
qed

lemma emplace_inv:
  assumes inv: "store_inv st" and ob: "objects st ob = Some (r, n)" "ob \<notin> snd ` set (hive st)" and i: "i \<notin> fst ` set (hive st)"
    and idx: "m = request_id_to_iterator st \<or> m = (request_id_to_iterator st)(message_id r \<mapsto> i)"
  shows "store_inv ((hive_emplace pos i ob st)\<lparr>request_id_to_iterator := m\<rparr>)"
proof (rule store_invI)
  let ?s = "(hive_emplace pos i ob st)\<lparr>request_id_to_iterator := m\<rparr>"
  have h: "hive ?s = take pos (hive st) @ (i, ob) # drop pos (hive st)" by (simp add: hive_emplace_def)
  have o: "objects (hive_emplace pos i ob st) b = (if b = ob then Some (r, Suc n) else objects st b)" for b
    using ob(1) by (auto simp: hive_emplace_def acquire_objects)
  have d: "distinct (take pos xs @ x # drop pos xs)" if "distinct xs" "x \<notin> set xs" for x and xs :: "nat list"
  proof -
    have "distinct (take pos xs @ drop pos xs)" using that(1) by simp
    then show ?thesis using that(2) by (auto simp: distinct_append simp del: append_take_drop_id dest: in_set_takeD in_set_dropD)
  qed
  show "distinct (map fst (hive ?s))" "distinct (map snd (hive ?s))"
    using d [of "map fst (hive st)" i] d [of "map snd (hive st)" ob] store_invD(1,2) [OF inv] ob(2) i
    by (simp_all add: h take_map drop_map)
  show "objects ?s b \<noteq> None" if "(j, b) \<in> set (hive ?s)" for j b
    using that store_invD(3) [OF inv, of j b] unfolding h emplace_hive by (auto simp: o)
  show "objects ?s b \<noteq> Some (q, 0)" for b q using store_invD(4) [OF inv] by (simp add: o)
  fix req_id j
  assume j: "request_id_to_iterator ?s req_id = Some j"
  show "indexed ?s req_id j"
  proof (cases "request_id_to_iterator st req_id = Some j")
    case True
    then show ?thesis using store_invD(5) [OF inv True] unfolding indexed_def h emplace_hive by (auto simp: ob o)
  next
    case False
    with j idx have "req_id = message_id r" "j = i" by (auto split: if_splits)
    then show ?thesis unfolding indexed_def h emplace_hive by (auto simp: o)
  qed
qed

lemma retention_inv:
  assumes "store_inv st" and "fresh pl st" and "retention_fn pl lc_policy hdr p st = Ok (ob, st')"
  shows "store_inv st'"
proof -
  obtain req where req: "AxonMessage_new rq_params hdr p = Ok req" using assms(3) by (auto simp: retention_fn_def bind_outcome_Ok_iff)
  obtain status kept where pol: "lc_policy req (GetMessageID hdr) = (status, kept)" by fastforce
  let ?ob = "new_object pl"
  let ?st2 = "acquire_if kept ?ob (st\<lparr>objects := (objects st)(?ob \<mapsto> (req, Suc 0))\<rparr>)"
  have i2: "store_inv ?st2" and h2: "hive ?st2 = hive st"
    using add_object_inv [OF assms(1), of ?ob req 0] acquired_store_inv assms(2) by (auto simp: fresh_def)
  have o2: "objects ?st2 ?ob = Some (req, if kept then 2 else 1)" by (auto simp: acquire_objects)
  have u: "?ob \<notin> snd ` set (hive st)" using new_object_unowned [OF assms(1)] assms(2) by (simp add: fresh_def)
  have id: "GetMessageID hdr = message_id req" using req by (auto simp: AxonMessage_new_def bind_outcome_Ok_iff)
  show ?thesis
  proof (cases "status = Preserve")
    case True
    define m where "m = (if request_id_to_iterator ?st2 (message_id req) = None
      then (request_id_to_iterator ?st2)(message_id req \<mapsto> new_iterator pl) else request_id_to_iterator ?st2)"
    let ?st3 = "(hive_emplace (position pl) (new_iterator pl) ?ob ?st2)\<lparr>request_id_to_iterator := m\<rparr>"
    have i3: "store_inv ?st3"
      by (rule emplace_inv [OF i2 o2]) (use u assms(2) h2 in \<open>auto simp: fresh_def m_def\<close>)
    have o3: "objects ?st3 ?ob = Some (req, if kept then 3 else 2)"
      using o2 by (auto simp: hive_emplace_def acquire_objects)
    have "st' = release ?ob ?st3"
      using assms(3) True req pol by (auto simp: retention_fn_def Let_def m_def id hive_emplace_def)
    moreover have "store_inv (release ?ob ?st3)" by (rule release_inv [OF i3 _ o3]) (use o3 in auto)
    ultimately show ?thesis by simp
  next
    case False
    then have "st' = release ?ob ?st2" using assms(3) req pol by (auto simp: retention_fn_def Let_def)
    moreover have "store_inv (release ?ob ?st2)" by (rule release_inv [OF i2 _ o2]) (use u h2 in auto)
    ultimately show ?thesis by simp
  qed
qed

subsection \<open>Runs\<close>

text \<open>
  One step of a worker on its stored requests; \<open>forget\<close> is an owner outside the storage that drops its
  copy of the shared pointer.
\<close>

inductive store_step :: "HybridLogicalClock \<Rightarrow> request_store \<Rightarrow> request_store \<Rightarrow> bool" for hlc where
  retain: "fresh pl st \<Longrightarrow> retention_fn pl lc_policy hdr p st = Ok (ob, st') \<Longrightarrow> store_step hlc st st'"
| process_all: "ProcessStoredRequests hlc visit (v :: nat) st = Ok (res, v', st') \<Longrightarrow> store_step hlc st st'"
| process_view: "ProcessStoredRequests_view hlc visit (v :: nat) st = Ok (res, v', st') \<Longrightarrow> store_step hlc st st'"
| process_callable: "ProcessStoredRequests_callable hlc visit (v :: nat) st = Ok (res, v', st') \<Longrightarrow> store_step hlc st st'"
| process_one: "ProcessStoredRequest hlc req_id visit (v :: nat) st = Ok (res, v', st') \<Longrightarrow> store_step hlc st st'"
| process_one_view: "ProcessStoredRequest_view hlc req_id visit (v :: nat) st = Ok (res, v', st') \<Longrightarrow> store_step hlc st st'"
| erase: "EraseStoredRequest i st = Ok st' \<Longrightarrow> store_step hlc st st'"
| forget: "objects st ob = Some (r, n) \<Longrightarrow> ob \<notin> snd ` set (hive st) \<or> n \<noteq> 1 \<Longrightarrow> store_step hlc st (release ob st)"

inductive_cases store_stepE: "store_step hlc st st'"

lemma store_new_inv: "store_inv request_store_new"
  by (simp add: store_inv_def request_store_new_def)

lemma store_step_inv:
  assumes "store_inv st" and "store_step hlc st st'"
  shows "store_inv st'"
  using assms(2)
proof cases
  case (process_all visit v res v')
  then show ?thesis by (auto simp: loop_value [OF assms(1)] intro: process_each_inv [OF assms(1), of "[]"])
next
  case (process_view visit v res v')
  then show ?thesis by (auto simp: loop_value [OF assms(1)] intro: process_each_inv [OF assms(1), of "[]"])
next
  case (process_callable visit v res v')
  then show ?thesis by (auto simp: loop_value [OF assms(1)] intro: process_each_inv [OF assms(1), of "[]"])
next
  case (forget ob r n)
  have "store_inv (release ob st)" by (rule release_inv [OF assms(1) _ forget(2)]) (use forget in auto)
  then show ?thesis using forget by simp
next
  case (retain pl lc_policy hdr p ob)
  then show ?thesis by (rule retention_inv [OF assms(1)])
next
  case (process_one req_id visit v res v')
  then show ?thesis by (rule process_one_inv [OF assms(1) disjI1])
next
  case (process_one_view req_id visit v res v')
  then show ?thesis by (rule process_one_inv [OF assms(1) disjI2])
next
  case (erase i)
  then show ?thesis by (rule erase_inv [OF assms(1)])
qed

lemma store_run_inv: "(store_step hlc)\<^sup>*\<^sup>* st st' \<Longrightarrow> store_inv st \<Longrightarrow> store_inv st'"
  by (induction rule: rtranclp_induct) (auto intro: store_step_inv)

lemma retention_effect:
  assumes "fresh pl st" and "AxonMessage_new rq_params hdr p = Ok req" and "lc_policy req (GetMessageID hdr) = (status, kept)"
  shows "\<exists>st'. retention_fn pl lc_policy hdr p st = Ok (new_object pl, st') \<and>
    objects st' (new_object pl) = (if status = Preserve \<or> kept then Some (req, if status = Preserve \<and> kept then 2 else 1) else None) \<and>
    (status = Preserve \<longrightarrow> request_id_to_iterator st (GetMessageID hdr) = None \<longrightarrow>
       request_id_to_iterator st' (GetMessageID hdr) = Some (new_iterator pl) \<and> (new_iterator pl, new_object pl) \<in> set (hive st'))"
  using assms by (auto simp: retention_fn_def Let_def fresh_def hive_emplace_def acquire_objects release_objects emplace_hive)

lemma message_header: "AxonMessage_new params_of hdr p = Ok req \<Longrightarrow> msg_header req = hdr \<and> msg_payload req = p"
  by (auto simp: AxonMessage_new_def bind_outcome_Ok_iff)

subsection \<open>Properties\<close>

abbreviation example_header :: "u64 \<Rightarrow> RpcRequestHeader" where
  "example_header n \<equiv> RpcRequestHeader_new\<lparr>rq_hlc := HybridLogicalClock n\<rparr>"

definition example_placement :: "nat \<Rightarrow> placement" where
  "example_placement n = \<lparr>new_object = n, new_iterator = n + 10, position = 0\<rparr>"

text \<open>
  C19. In every state a worker reaches by retaining, processing and erasing requests, looking up a message
  identifier never follows a dangling iterator, and a request that is found has that identifier.
\<close>

theorem stored_requests_found_by_id:
  assumes "(store_step hlc)\<^sup>*\<^sup>* request_store_new st"
  shows "\<exists>x. FindStoredRequest req_id st = Ok x \<and> (\<forall>r. x = Some r \<longrightarrow> GetMessageID (msg_header r) = req_id)"
  using find_sound [OF store_run_inv [OF assms store_new_inv], of req_id] by (metis outcome.inject(1))

theorem stored_requests_found_by_id_witness:
  "\<exists>st. (store_step (HybridLogicalClock 0))\<^sup>*\<^sup>* request_store_new st \<and>
    (\<exists>x. FindStoredRequest 7 st = Ok x \<and> (\<forall>r. x = Some r \<longrightarrow> GetMessageID (msg_header r) = 7) \<and> x \<noteq> None)"
proof -
  let ?r = "retention_fn (example_placement 3) (\<lambda>_ _. (Preserve, False)) (example_header 7) Monostate request_store_new"
  have run: "case ?r of Ok (ob, st) \<Rightarrow> (case FindStoredRequest 7 st of Ok (Some r) \<Rightarrow> True | _ \<Rightarrow> False) | _ \<Rightarrow> False" by code_simp
  then obtain ob st where st: "?r = Ok (ob, st)" "case FindStoredRequest 7 st of Ok (Some r) \<Rightarrow> True | _ \<Rightarrow> False"
    by (auto split: outcome.splits)
  have "fresh (example_placement 3) request_store_new" by (simp add: fresh_def request_store_new_def)
  then have "(store_step (HybridLogicalClock 0))\<^sup>*\<^sup>* request_store_new st" using store_step.retain [OF _ st(1)] by blast
  then show ?thesis using stored_requests_found_by_id [of "HybridLogicalClock 0" st 7] st(2) by (fastforce split: outcome.splits option.splits)
qed



text \<open>
  When a visitor answers \<open>Error\<close> for a request that only the storage owns, the error is built from
  the header of the request after it was erased: a read of a destroyed object. This holds for every
  way to process a stored request.
\<close>

theorem error_status_reads_freed_header:
  assumes "store_inv st" and "request_id_to_iterator st req_id = Some i" and "(i, ob) \<in> set (hive st)"
    and "objects st ob = Some (r, 1)" and "visit v i r = (Error, False, v')"
  shows "ProcessStoredRequest hlc req_id visit v st = Fault UseAfterFree \<and>
    ProcessStoredRequest_view hlc req_id visit v st = Fault UseAfterFree"
proof -
  obtain xs ys where e: "hive st = xs @ (i, ob) # ys" using split_list [OF assms(3)] by blast
  have "visit_request visit v i st = Ok (Error, v', st)" using visit_split [where visit = visit, OF assms(1) e assms(4,5)] by simp
  moreover have "finish_request hlc what i Error st = Fault UseAfterFree" for what
    using finish_split [OF assms(1) e assms(4)] by simp
  ultimately show ?thesis
    using assms(2) by (simp add: ProcessStoredRequest_def ProcessStoredRequest_view_def ProcessLifecycleStatus_def ProcessSingleStoredRequest_def)
qed

definition example_store :: request_store where
  "example_store = \<lparr>hive = [(13, 3)], objects = [3 \<mapsto> (\<lparr>msg_header = example_header 7, msg_payload = Monostate, tensor_param_index = None\<rparr>, 1)],
     request_id_to_iterator = [7 \<mapsto> 13]\<rparr>"

lemma example_store_inv: "store_inv example_store"
  by (simp add: store_inv_def indexed_def example_store_def GetMessageID_def)

theorem error_status_reads_freed_header_witness:
  "store_inv example_store \<and>
   ProcessStoredRequest (HybridLogicalClock 0) 7 (\<lambda>v _ _. (Error, False, v)) (0 :: nat) example_store = Fault UseAfterFree"
  using error_status_reads_freed_header [OF example_store_inv, of 7 13 3 _ "\<lambda>v _ _. (Error, False, v)" "0 :: nat" 0 "HybridLogicalClock 0"]
    example_store_inv
  by (simp add: example_store_def)

text \<open>
  The retention step hands the dispatcher a reference to the payload of the request object. When the
  policy answers anything but \<open>Preserve\<close> and keeps no copy of the shared pointer, the object is gone
  when the step returns and the dispatcher reads a destroyed payload; when it answers \<open>Preserve\<close>, the
  payload can be read and the request is found under its identifier.
\<close>

theorem retention_payload_lifetime:
  assumes "store_inv st" and "fresh pl st" and "AxonMessage_new rq_params hdr p = Ok req"
    and "lc_policy req (GetMessageID hdr) = (status, False)" and "request_id_to_iterator st (GetMessageID hdr) = None"
  shows "\<exists>ob st'. retention_fn pl lc_policy hdr p st = Ok (ob, st') \<and>
    retained_payload ob st' = (if status = Preserve then Ok p else Fault UseAfterFree) \<and>
    (status = Preserve \<longrightarrow> FindStoredRequest (GetMessageID hdr) st' = Ok (Some req))"
proof -
  obtain st' where r: "retention_fn pl lc_policy hdr p st = Ok (new_object pl, st')"
    "objects st' (new_object pl) = (if status = Preserve then Some (req, 1) else None)"
    "status = Preserve \<longrightarrow> request_id_to_iterator st' (GetMessageID hdr) = Some (new_iterator pl) \<and>
       (new_iterator pl, new_object pl) \<in> set (hive st')"
    using retention_effect [where lc_policy = lc_policy, OF assms(2-4)] assms(5) by auto
  have inv: "store_inv st'" using retention_inv [OF assms(1,2) r(1)] .
  have f: "FindStoredRequest (GetMessageID hdr) st' = Ok (Some req)" if "status = Preserve"
  proof -
    obtain xs ys where "hive st' = xs @ (new_iterator pl, new_object pl) # ys" using split_list [of "(new_iterator pl, new_object pl)" "hive st'"] r(3) \<open>status = Preserve\<close> by blast
    then show ?thesis using deref_split [OF inv] r(2,3) that by (simp add: FindStoredRequest_def)
  qed
  have "retained_payload (new_object pl) st' = (if status = Preserve then Ok p else Fault UseAfterFree)"
    using r(2) message_header [OF assms(3)] by (simp add: retained_payload_def read_object_def)
  then show ?thesis using r(1) f by blast
qed

theorem retention_payload_lifetime_witness:
  "store_inv request_store_new \<and>
   (\<exists>ob st'. retention_fn (example_placement 3) (\<lambda>_ _. (Discard, False)) (example_header 7) Monostate request_store_new = Ok (ob, st') \<and>
      retained_payload ob st' = Fault UseAfterFree)"
proof -
  have m: "AxonMessage_new rq_params (example_header 7) Monostate =
      Ok \<lparr>msg_header = example_header 7, msg_payload = Monostate, tensor_param_index = None\<rparr>" by code_simp
  have f: "fresh (example_placement 3) request_store_new" by (simp add: fresh_def request_store_new_def)
  show ?thesis
    using retention_payload_lifetime [OF store_new_inv f m, of "\<lambda>_ _. (Discard, False)" Discard] store_new_inv
    by (auto simp: request_store_new_def)
qed

text \<open>
  Two requests with the same clock value share an index entry: the second is not indexed, and when it is
  dropped the entry of the first goes with it.
\<close>

lemma dropping_duplicate_unindexes:
  assumes "store_inv st" and "hive st = xs @ (j, ob) # ys" and "objects st ob = Some (r, n)"
    and "request_id_to_iterator st (message_id r) = Some i" and "i \<noteq> j"
  shows "FindStoredRequest (message_id r) (drop_request j ob r st) = Ok None"
    and "\<exists>ob'. (i, ob') \<in> set (hive (drop_request j ob r st))"
  using store_invD(5) [OF assms(1,4)] assms(5) by (auto simp: FindStoredRequest_def indexed_def)

end
