(* ===== verification/Worker_Client.thy ===== *)
theory Worker_Client
  imports Worker_Errors Ring_Buffer Slot_Map
begin

text \<open>
  The client side of a worker (\<open>axon_worker.hpp\<close>, \<open>axon_worker.cpp\<close>): the remote workers and their
  connections, and the life of a call from the registration of its response handler to its completion.

  A response handler is a closure over the receiver of its call; the pending buffer therefore holds
  call numbers. A receiver must be completed exactly once: completing it a second time, or before it
  waits, is the fault \<open>UseAfterFree\<close> (its operation state may be gone). The environment decides when a
  response arrives, when the timer of a call fires and when a stop is requested; each of these is one
  operation. The deserialiser of \<open>cista\<close> is an argument.
\<close>

subsection \<open>Remote workers\<close>

record RemoteEndpoint =
  ep_name :: string
  ep_signatures :: "u32 \<rightharpoonup> RpcFunctionSignature"
  ep_conn_id :: "u64 option"

record remote_workers =
  rw_endpoints :: "RemoteEndpoint SlotMap"
  rw_slot :: "string \<rightharpoonup> SlotKey"

definition remote_workers_new :: remote_workers where
  "remote_workers_new = \<lparr>rw_endpoints = SlotMap_new, rw_slot = Map.empty\<rparr>"

text \<open>Writing through the pointer that \<open>access\<close> returned.\<close>

definition slot_write :: "SlotKey \<Rightarrow> 'a \<Rightarrow> 'a SlotMap \<Rightarrow> 'a SlotMap" where
  "slot_write key v m =
     m\<lparr>slots := (slots m)[unat (index key) := (slots m ! unat (index key))\<lparr>member := Value v\<rparr>]\<rparr>"

definition AssociateConnection :: "string \<Rightarrow> u64 \<Rightarrow> remote_workers \<Rightarrow> remote_workers res" where
  "AssociateConnection worker_name cid w =
     (case rw_slot w worker_name of
        Some key \<Rightarrow>
          bind_res (SlotMap_get key (rw_endpoints w)) (\<lambda>info.
            case info of
              Some e \<Rightarrow> Inr (w\<lparr>rw_endpoints := slot_write key (e\<lparr>ep_conn_id := Some cid\<rparr>) (rw_endpoints w)\<rparr>)
            | None \<Rightarrow> Inr w)
      | None \<Rightarrow>
          bind_res (SlotMap_emplace (Some \<lparr>ep_name = worker_name, ep_signatures = Map.empty, ep_conn_id = Some cid\<rparr>) (rw_endpoints w))
            (\<lambda>(key, m). case key of
               Some k \<Rightarrow> Inr (w\<lparr>rw_endpoints := m, rw_slot := (rw_slot w)(worker_name \<mapsto> k)\<rparr>)
             | None \<Rightarrow> Inr (w\<lparr>rw_endpoints := m\<rparr>)))"

definition GetConnectionId :: "SlotKey \<Rightarrow> remote_workers \<Rightarrow> (error_code + u64) res" where
  "GetConnectionId worker_key w =
     bind_res (SlotMap_get worker_key (rw_endpoints w)) (\<lambda>info.
       case info of
         None \<Rightarrow> Inr (Inl (make_axon_error_code WorkerNotFound))
       | Some e \<Rightarrow> Inr (case ep_conn_id e of None \<Rightarrow> Inl (make_axon_error_code ConnectError) | Some cid \<Rightarrow> Inr cid))"

text \<open>The overloads of \<open>InvokeRpc\<close> that take a worker name resolve it first.\<close>

definition resolve_worker :: "string \<Rightarrow> remote_workers \<Rightarrow> SlotKey" where
  "resolve_worker worker_name w = (case rw_slot w worker_name of Some key \<Rightarrow> key | None \<Rightarrow> SlotKey_default)"

definition worker_error :: "HybridLogicalClock \<Rightarrow> error_code \<Rightarrow> string \<Rightarrow> AxonErrorContext" where
  "worker_error hlc ec what = AxonErrorContext_new\<lparr>ax_status := RpcStatus_of ec, ax_what := what, ax_hlc := hlc\<rparr>"

fun add_signatures :: "RpcFunctionSignature list \<Rightarrow> (u32 \<rightharpoonup> RpcFunctionSignature) \<Rightarrow> u32 \<rightharpoonup> RpcFunctionSignature" where
  "add_signatures [] m = m"
| "add_signatures (s # ss) m = add_signatures ss (m(sig_id s \<mapsto> s))"

definition RegisterEndpointSignatures ::
  "('blob \<Rightarrow> exn + RpcFunctionSignature list option) \<Rightarrow> HybridLogicalClock \<Rightarrow> string \<Rightarrow> 'blob \<Rightarrow> remote_workers \<Rightarrow>
   ((AxonErrorContext + SlotKey) \<times> remote_workers) res" where
  "RegisterEndpointSignatures deserialize hlc worker_name blob w =
     (case deserialize blob of
        Inl e \<Rightarrow> Inr (Inl (worker_error hlc (make_error_code INVALID_ARGUMENT) (''Failed to deserialize signatures: '' @ exn_what e)), w)
      | Inr None \<Rightarrow> Inr (Inl (worker_error hlc (make_error_code INVALID_ARGUMENT) ''Failed to deserialize signatures: null result''), w)
      | Inr (Some sigs) \<Rightarrow>
          (case rw_slot w worker_name of
             None \<Rightarrow> Inr (Inl (worker_error hlc (make_axon_error_code WorkerNotFound) (''Worker '' @ [CHR 0x27] @ worker_name @ [CHR 0x27] @ '' not found'')), w)
           | Some key \<Rightarrow>
               bind_res (SlotMap_get key (rw_endpoints w)) (\<lambda>info.
                 case info of
                   Some e \<Rightarrow> Inr (Inr key, w\<lparr>rw_endpoints :=
                               slot_write key (e\<lparr>ep_signatures := add_signatures sigs (ep_signatures e)\<rparr>) (rw_endpoints w)\<rparr>)
                 | None \<Rightarrow> Inr (Inl (worker_error hlc (make_axon_error_code WorkerNotFound)
                             (''Worker '' @ [CHR 0x27] @ worker_name @ [CHR 0x27] @ '' not accessible'')), w))))"

subsection \<open>The response handler\<close>

datatype 'b PayloadOrKey = EagerBuffer 'b | AmDescKey u64

datatype 'b recv_signal = SetValue RpcResponseHeader "'b PayloadOrKey" | SetError any_error | SetDone

type_synonym 'b handler_input = "AxonErrorContext + RpcResponseHeader \<times> 'b PayloadOrKey"

definition response_error_text :: "status_texts \<Rightarrow> registry \<Rightarrow> RpcResponseHeader \<Rightarrow> string res" where
  "response_error_text tx reg h =
     (case rs_results h of
        [] \<Rightarrow> Inr (RpcStatus_GetErrorMessage tx reg (rs_status h))
      | p # _ \<Rightarrow>
          if pm_type p = STRING
          then (case pm_value p of
                  StringV s \<Rightarrow> Inr (if s \<noteq> [] then s else RpcStatus_GetErrorMessage tx reg (rs_status h))
                | _ \<Rightarrow> Inl BadVariant)
          else Inr (RpcStatus_GetErrorMessage tx reg (rs_status h)))"

definition response_callback :: "status_texts \<Rightarrow> registry \<Rightarrow> bool \<Rightarrow> 'b handler_input \<Rightarrow> 'b recv_signal res" where
  "response_callback tx reg stopped inp =
     (if stopped then Inr SetDone
      else case inp of
        Inl ctx \<Rightarrow> Inr (SetError (ErrPtr (MakeExceptionPtr ctx)))
      | Inr (h, p) \<Rightarrow>
          if error_code_bool (RpcStatus_to_error_code reg (rs_status h))
          then bind_res (response_error_text tx reg h) (\<lambda>msg.
                 Inr (SetError (ErrPtr (RpcEx \<lparr>ex_code = RpcStatus_to_error_code reg (rs_status h), ex_what = msg\<rparr>))))
          else Inr (SetValue h p))"

subsection \<open>Calls\<close>

datatype 'b receiver_state = NotStarted | Waiting | Completed "'b recv_signal"

record 'b client =
  pending_rpcs :: "(u32, nat) RingBuffer"
  receivers :: "nat \<Rightarrow> 'b receiver_state"
  stops :: "nat \<Rightarrow> bool"
  next_request_id :: u32
  client_hlc :: HybridLogicalClock
  client_errors :: "AxonErrorContext list"

definition kPendingRpcBufferSize :: nat where
  "kPendingRpcBufferSize = 2048"

definition client_new :: "HybridLogicalClock \<Rightarrow> 'b client" where
  "client_new hlc = \<lparr>pending_rpcs = RingBuffer_new kPendingRpcBufferSize 0 0, receivers = (\<lambda>_. NotStarted), stops = (\<lambda>_. False),
     next_request_id = 1, client_hlc = hlc, client_errors = []\<rparr>"

definition ReportClientError :: "AxonErrorContext \<Rightarrow> 'b client \<Rightarrow> 'b client" where
  "ReportClientError ctx c = c\<lparr>client_errors := client_errors c @ [ctx]\<rparr>"

definition complete :: "nat \<Rightarrow> 'b recv_signal \<Rightarrow> 'b client \<Rightarrow> 'b client res" where
  "complete k s c =
     (case receivers c k of
        Waiting \<Rightarrow> Inr (c\<lparr>receivers := (receivers c)(k := Completed s)\<rparr>)
      | _ \<Rightarrow> Inl UseAfterFree)"

text \<open>The request id of a call: \<open>next_request_id_.fetch_add(1)\<close>.\<close>

definition fetch_request_id :: "'b client \<Rightarrow> u32 \<times> 'b client" where
  "fetch_request_id c = (next_request_id c, c\<lparr>next_request_id := next_request_id c + 1\<rparr>)"

record call =
  cl_conn :: "error_code + u64"
  cl_session :: u32
  cl_request :: u32
  cl_function :: u32
  cl_workflow :: u32

definition conn_or_zero :: "call \<Rightarrow> u64" where
  "conn_or_zero a = (case cl_conn a of Inl _ \<Rightarrow> 0 | Inr cid \<Rightarrow> cid)"

definition call_context :: "HybridLogicalClock \<Rightarrow> call \<Rightarrow> RpcErrc \<Rightarrow> string \<Rightarrow> AxonErrorContext" where
  "call_context hlc a e what =
     \<lparr>ax_conn_id = conn_or_zero a, ax_session_id = cl_session a, ax_request_id = cl_request a, ax_function_id = cl_function a,
      ax_status = RpcStatus_of (make_error_code e), ax_what = what, ax_hlc = hlc, ax_workflow_id = cl_workflow a\<rparr>"

definition deadline_context :: "HybridLogicalClock \<Rightarrow> int \<Rightarrow> call \<Rightarrow> AxonErrorContext" where
  "deadline_context hlc timeout a =
     call_context hlc a DEADLINE_EXCEEDED (''Deadline exceeded '' @ int_to_string timeout @
       '' milliseconds   when executing registered function: '' @ to_string (unat (cl_function a)))"

text \<open>The start of \<open>recv_callback_sender\<close>; \<open>spurious\<close> is a spurious failure of the compare-exchange in \<open>emplace\<close>.\<close>

definition start_call :: "bool \<Rightarrow> nat \<Rightarrow> call \<Rightarrow> 'b client \<Rightarrow> 'b client res" where
  "start_call spurious k a c0 =
     (let c = c0\<lparr>receivers := (receivers c0)(k := Waiting)\<rparr> in
      if stops c k then complete k SetDone c
      else case cl_conn a of
        Inl ec \<Rightarrow> complete k (SetError (ErrCode ec)) c
      | Inr _ \<Rightarrow>
          bind_res (RingBuffer_emplace spurious (cl_request a) (cl_session a) k (pending_rpcs c)) (\<lambda>(inserted, b).
            if inserted then Inr (c\<lparr>pending_rpcs := b\<rparr>)
            else complete k (SetError (ErrPtr (MakeExceptionPtr
                   (call_context (client_hlc c) a RESOURCE_EXHAUSTED ''Client pending RPC ring buffer is full''))))
                   (c\<lparr>pending_rpcs := b\<rparr>)))"

definition PopPendingRpcResponseHandler :: "u32 \<Rightarrow> u32 \<Rightarrow> 'b client \<Rightarrow> (nat option \<times> 'b client) res" where
  "PopPendingRpcResponseHandler request_id session_id c =
     bind_res (RingBuffer_find request_id session_id (pending_rpcs c)) (\<lambda>idx.
       if unat idx = kPendingRpcBufferSize then Inr (None, c)
       else bind_res (RingBuffer_at idx (pending_rpcs c)) (\<lambda>k.
            bind_res (RingBuffer_erase request_id (pending_rpcs c)) (\<lambda>(_, b).
              Inr (Some k, c\<lparr>pending_rpcs := b\<rparr>))))"

definition invoke_handler :: "status_texts \<Rightarrow> registry \<Rightarrow> nat \<Rightarrow> 'b handler_input \<Rightarrow> 'b client \<Rightarrow> 'b client res" where
  "invoke_handler tx reg k inp c = bind_res (response_callback tx reg (stops c k) inp) (\<lambda>s. complete k s c)"

text \<open>The timer of a call.\<close>

definition timeout_call :: "status_texts \<Rightarrow> registry \<Rightarrow> AxonErrorContext \<Rightarrow> u32 \<Rightarrow> u32 \<Rightarrow> 'b client \<Rightarrow> 'b client res" where
  "timeout_call tx reg error_ctx request_id session_id c =
     bind_res (PopPendingRpcResponseHandler request_id session_id c) (\<lambda>(h, c').
       case h of Some k \<Rightarrow> invoke_handler tx reg k (Inl error_ctx) c' | None \<Rightarrow> Inr c')"

subsection \<open>Received responses\<close>

definition ClientProcessHeader ::
  "('hd \<Rightarrow> exn + RpcResponseHeader) \<Rightarrow> u64 \<Rightarrow> 'hd \<Rightarrow> 'b client \<Rightarrow> ((AxonErrorContext + RpcResponseHeader \<times> nat) \<times> 'b client) res" where
  "ClientProcessHeader deserialize now_ms header c =
     (case deserialize header of
        Inl e \<Rightarrow> Inr (Inl (worker_error (client_hlc c) (make_axon_error_code DeserializeError) (''Invalid response header: '' @ exn_what e)), c)
      | Inr h \<Rightarrow>
          let c1 = c\<lparr>client_hlc := Merge (raw (rs_hlc h)) now_ms (client_hlc c)\<rparr> in
          bind_res (PopPendingRpcResponseHandler (rs_request_id h) (rs_session_id h) c1) (\<lambda>(r, c2).
            case r of
              None \<Rightarrow> Inr (Inl ((worker_error (client_hlc c2) (make_error_code NOT_FOUND) ''Response handler not found'')
                        \<lparr>ax_session_id := rs_session_id h, ax_request_id := rs_request_id h, ax_workflow_id := rs_workflow_id h\<rparr>), c2)
            | Some k \<Rightarrow> Inr (Inr (h, k), c2)))"

text \<open>A received message: the key of a rendezvous descriptor or an eager buffer, with the header.\<close>

definition ClientProcessResponseMessage ::
  "status_texts \<Rightarrow> registry \<Rightarrow> ('hd \<Rightarrow> exn + RpcResponseHeader) \<Rightarrow> u64 \<Rightarrow> 'hd \<times> 'b PayloadOrKey \<Rightarrow> 'b client \<Rightarrow> 'b client res" where
  "ClientProcessResponseMessage tx reg deserialize now_ms message c =
     bind_res (ClientProcessHeader deserialize now_ms (fst message) c) (\<lambda>(r, c').
       case r of
         Inl ctx \<Rightarrow> Inr (ReportClientError ctx c')
       | Inr (h, k) \<Rightarrow> invoke_handler tx reg k (Inr (h, snd message)) c')"

text \<open>Cancelling all pending calls in \<open>StopClient\<close>: the entries are collected first and then popped one by one.\<close>

definition cancelled_context :: "HybridLogicalClock \<Rightarrow> AxonErrorContext" where
  "cancelled_context hlc = worker_error hlc (make_error_code CANCELLED) ''Client stopped''"

fun cancel_each :: "status_texts \<Rightarrow> registry \<Rightarrow> (u32, nat) Entry list \<Rightarrow> 'b client \<Rightarrow> 'b client res" where
  "cancel_each tx reg [] c = Inr c"
| "cancel_each tx reg (e # es) c =
     bind_res (PopPendingRpcResponseHandler (entry_request_id e) (entry_session_id e) c) (\<lambda>(h, c').
       bind_res (case h of Some k \<Rightarrow> invoke_handler tx reg k (Inl (cancelled_context (client_hlc c'))) c' | None \<Rightarrow> Inr c')
         (cancel_each tx reg es))"

definition cancel_pending :: "status_texts \<Rightarrow> registry \<Rightarrow> 'b client \<Rightarrow> 'b client res" where
  "cancel_pending tx reg c = cancel_each tx reg (iterate_from (pending_rpcs c) 0) c"

subsection \<open>The result of a call\<close>

text \<open>
  \<open>InvokeRpcImpl\<close> joins the send and the receive side with \<open>when_all\<close> (the first error wins, then done)
  and converts: an error becomes a context, done becomes the prepared deadline context.
\<close>

definition when_all :: "any_error option \<Rightarrow> bool \<Rightarrow> 'b recv_signal \<Rightarrow> 'b recv_signal" where
  "when_all send_error send_first recv =
     (case (send_error, recv) of
        (Some e, SetError e') \<Rightarrow> SetError (if send_first then e else e')
      | (Some e, _) \<Rightarrow> SetError e
      | (None, _) \<Rightarrow> recv)"

definition invoke_result ::
  "status_texts \<Rightarrow> AxonErrorContext \<Rightarrow> 'b recv_signal \<Rightarrow> AxonErrorContext + RpcResponseHeader \<times> 'b PayloadOrKey" where
  "invoke_result tx error_ctx s =
     (case s of
        SetValue h p \<Rightarrow> Inr (h, p)
      | SetError e \<Rightarrow> Inl (RethrowErrorContextHelper tx error_ctx e)
      | SetDone \<Rightarrow> Inl (ReturnTimeoutErrorContextHelper error_ctx None))"

subsection \<open>The endpoints\<close>

definition endpoints_inv :: "remote_workers \<Rightarrow> bool" where
  "endpoints_inv w \<longleftrightarrow> SlotMap_inv (rw_endpoints w) \<and>
     (\<forall>n key. rw_slot w n = Some key \<longrightarrow> issued_key key \<and> SlotMap_abs (rw_endpoints w) key \<noteq> None) \<and>
     (\<forall>n n' key. rw_slot w n = Some key \<longrightarrow> rw_slot w n' = Some key \<longrightarrow> n = n')"

lemma slot_write_view:
  assumes "SlotMap_inv m" and "SlotMap_abs m key = Some e"
  shows "SlotMap_inv (slot_write key v m)" and "SlotMap_abs (slot_write key v m) = (SlotMap_abs m)(key \<mapsto> v)"
    and "length (slots (slot_write key v m)) = length (slots m)"
proof -
  let ?i = "unat (index key)"
  have i: "?i < length (slots m)" "slot_generation (slots m ! ?i) = generation key" "is_value (member (slots m ! ?i))"
    using assms(2) by (auto simp: SlotMap_abs_def Let_def split: if_splits slot_union.splits)
  have ik: "index k = index key" if "unat (index k) = ?i" for k using that by (simp add: word_unat_eq_iff)
  show "length (slots (slot_write key v m)) = length (slots m)" by (simp add: slot_write_def)
  show "SlotMap_abs (slot_write key v m) = (SlotMap_abs m)(key \<mapsto> v)"
  proof
    fix k
    show "SlotMap_abs (slot_write key v m) k = ((SlotMap_abs m)(key \<mapsto> v)) k"
    proof (cases "unat (index k) = ?i")
      case True
      then show ?thesis using i ik [OF True]
        by (cases k; cases key) (auto simp: SlotMap_abs_def slot_write_def Let_def split: slot_union.splits)
    next
      case False
      then show ?thesis by (auto simp: SlotMap_abs_def slot_write_def)
    qed
  qed
  have c: "free_chain (slots (slot_write key v m)) h fs" if "free_chain (slots m) h fs" for h fs
    using that
  proof (induction fs arbitrary: h)
    case (Cons j fs)
    then have "j \<noteq> ?i" using i(3) by (auto split: slot_union.splits)
    then show ?case using Cons by (auto simp: slot_write_def split: slot_union.splits)
  qed simp
  have g: "\<forall>s \<in> set (slots m). even (slot_generation s) = active s" using assms(1) by (simp add: SlotMap_inv_def)
  have e: "even (generation key)" using g [rule_format, of "slots m ! ?i"] i by simp
  have "\<forall>s \<in> set (slots (slot_write key v m)). even (slot_generation s) = active s"
    using g i(2) e by (auto simp: slot_write_def dest!: set_update_subset_insert [THEN subsetD])
  moreover have "length (filter active (slots (slot_write key v m))) = length (filter active (slots m))"
    using filter_update_count_same [OF i(1), of active "(slots m ! ?i)\<lparr>member := Value v\<rparr>"] i(3) by (simp add: slot_write_def)
  ultimately show "SlotMap_inv (slot_write key v m)"
    using assms(1) c by (auto simp: SlotMap_inv_def slot_write_def)
qed

lemma remote_workers_new_inv: "endpoints_inv remote_workers_new"
  by (simp add: endpoints_inv_def remote_workers_new_def SlotMap_inv_def SlotMap_new_def exI [of _ "[]"])

text \<open>What a lookup by name yields, as a function of the recorded endpoints.\<close>

definition connection_of :: "remote_workers \<Rightarrow> string \<Rightarrow> error_code + u64" where
  "connection_of w n =
     (case rw_slot w n of
        None \<Rightarrow> Inl (make_axon_error_code WorkerNotFound)
      | Some key \<Rightarrow>
          (case SlotMap_abs (rw_endpoints w) key of
             None \<Rightarrow> Inl (make_axon_error_code WorkerNotFound)
           | Some e \<Rightarrow> (case ep_conn_id e of None \<Rightarrow> Inl (make_axon_error_code ConnectError) | Some cid \<Rightarrow> Inr cid)))"

lemma lookup_by_name:
  assumes "endpoints_inv w"
  shows "GetConnectionId (resolve_worker n w) w = Inr (connection_of w n)"
proof (cases "rw_slot w n")
  case None
  have "SlotMap_get SlotKey_default (rw_endpoints w) = Inr None"
    using assms by (auto simp: SlotMap_get_def SlotKey_default_def InvalidIndex_def endpoints_inv_def SlotMap_inv_def)
  then show ?thesis using None by (simp add: GetConnectionId_def resolve_worker_def connection_of_def)
next
  case (Some key)
  then have "SlotMap_get key (rw_endpoints w) = Inr (SlotMap_abs (rw_endpoints w) key)"
    using assms sm.get_contents by (auto simp: endpoints_inv_def)
  then show ?thesis using Some by (simp add: GetConnectionId_def resolve_worker_def connection_of_def split: option.splits)
qed

lemma associate_step:
  assumes "endpoints_inv w" and "length (slots (rw_endpoints w)) < 2 ^ 32 - 1"
  shows "\<exists>w'. AssociateConnection n cid w = Inr w' \<and> endpoints_inv w' \<and> connection_of w' n = Inr cid \<and>
    (\<forall>n'. n' \<noteq> n \<longrightarrow> connection_of w' n' = connection_of w n')"
proof (cases "rw_slot w n")
  case None
  let ?e = "\<lparr>ep_name = n, ep_signatures = Map.empty, ep_conn_id = Some cid\<rparr>"
  obtain k m where m: "SlotMap_emplace (Some ?e) (rw_endpoints w) = Inr (Some k, m)" "issued_key k" "SlotMap_inv m"
    "SlotMap_abs (rw_endpoints w) k = None" "SlotMap_abs m = (SlotMap_abs (rw_endpoints w))(k \<mapsto> ?e)"
    using sm.ins_ok [of "rw_endpoints w" ?e] assms by (auto simp: endpoints_inv_def)
  let ?w = "w\<lparr>rw_endpoints := m, rw_slot := (rw_slot w)(n \<mapsto> k)\<rparr>"
  have "rw_slot w n' \<noteq> Some k" for n' using assms(1) m(4) by (force simp: endpoints_inv_def)
  then have "endpoints_inv ?w" "connection_of ?w n = Inr cid" "\<forall>n'. n' \<noteq> n \<longrightarrow> connection_of ?w n' = connection_of w n'"
    using assms(1) m by (auto simp: endpoints_inv_def connection_of_def split: option.splits)
  then show ?thesis using None m(1) by (auto simp: AssociateConnection_def)
next
  case (Some key)
  obtain e where e: "SlotMap_abs (rw_endpoints w) key = Some e" "issued_key key" "SlotMap_inv (rw_endpoints w)"
    using assms(1) Some unfolding endpoints_inv_def by blast
  let ?w = "w\<lparr>rw_endpoints := slot_write key (e\<lparr>ep_conn_id := Some cid\<rparr>) (rw_endpoints w)\<rparr>"
  note v = slot_write_view [OF e(3,1), of "e\<lparr>ep_conn_id := Some cid\<rparr>"]
  have "rw_slot w n' \<noteq> Some key" if "n' \<noteq> n" for n' using assms(1) Some that by (auto simp: endpoints_inv_def)
  then have "endpoints_inv ?w" "connection_of ?w n = Inr cid" "\<forall>n'. n' \<noteq> n \<longrightarrow> connection_of ?w n' = connection_of w n'"
    using assms(1) v Some by (auto simp: endpoints_inv_def connection_of_def split: option.splits)
  moreover have "AssociateConnection n cid w = Inr ?w"
    using Some e sm.get_contents [OF e(3,2)] by (simp add: AssociateConnection_def)
  ultimately show ?thesis by blast
qed

subsection \<open>Invariant of the calls\<close>

abbreviation slot_of :: "u32 \<Rightarrow> nat" where
  "slot_of r \<equiv> unat r mod kPendingRpcBufferSize"

abbreviation handlers :: "'b client \<Rightarrow> nat \<rightharpoonup> u32 \<times> nat" where
  "handlers c \<equiv> RingBuffer_abs (pending_rpcs c)"

definition awaits :: "nat \<Rightarrow> 'b client \<Rightarrow> bool" where
  "awaits k c \<longleftrightarrow> (\<exists>i s. handlers c i = Some (s, k))"

definition client_inv :: "'b client \<Rightarrow> bool" where
  "client_inv c \<longleftrightarrow>
     RingBuffer_inv (pending_rpcs c) \<and> length (rslots (pending_rpcs c)) = kPendingRpcBufferSize \<and>
     (\<forall>k. awaits k c \<longrightarrow> receivers c k = Waiting) \<and>
     (\<forall>i j s s' k. handlers c i = Some (s, k) \<longrightarrow> handlers c j = Some (s', k) \<longrightarrow> i = j)"

lemma client_invD:
  assumes "client_inv c"
  shows "RingBuffer_inv (pending_rpcs c)" and "length (rslots (pending_rpcs c)) = kPendingRpcBufferSize"
    and "awaits k c \<Longrightarrow> receivers c k = Waiting"
    and "handlers c i = Some (s, k) \<Longrightarrow> handlers c j = Some (s', k) \<Longrightarrow> i = j"
  using assms by (auto simp: client_inv_def)

lemma client_new_inv: "client_inv (client_new hlc)"
  using RingBuffer_new_inv [of 11 "0 :: u32" "0 :: nat"]
  by (auto simp: client_inv_def client_new_def awaits_def kPendingRpcBufferSize_def)

lemma ridx_slot: "client_inv c \<Longrightarrow> ridx (pending_rpcs c) r = slot_of r"
  using ridx_width client_invD(1,2) by metis

lemma pop_lookup:
  assumes "length (rslots (pending_rpcs c)) = kPendingRpcBufferSize"
  shows "PopPendingRpcResponseHandler r s c =
    bind_res (RingBuffer_lookup r s (pending_rpcs c)) (\<lambda>x. case x of
      None \<Rightarrow> Inr (None, c)
    | Some k \<Rightarrow> bind_res (RingBuffer_erase r (pending_rpcs c)) (\<lambda>(_, b). Inr (Some k, c\<lparr>pending_rpcs := b\<rparr>)))"
proof -
  have cap: "RingBuffer_capacity (pending_rpcs c) = 2048" using assms by (simp add: RingBuffer_capacity_def kPendingRpcBufferSize_def)
  have u: "unat i = 2048 \<longleftrightarrow> i = 2048" for i :: u64
    using word_unat_eq_iff [of i 2048] by simp
  show ?thesis
    by (cases "RingBuffer_find r s (pending_rpcs c)")
      (auto simp: PopPendingRpcResponseHandler_def RingBuffer_lookup_def kPendingRpcBufferSize_def cap u bind_res_def split: sum.splits)
qed

lemma pop_step:
  assumes "client_inv c"
  obtains b where "PopPendingRpcResponseHandler r s c = Inr (table_find (slot_of r) s (handlers c), c\<lparr>pending_rpcs := b\<rparr>)"
    and "RingBuffer_abs b = table_take (slot_of r) s (handlers c)" and "client_inv (c\<lparr>pending_rpcs := b\<rparr>)"
proof (cases "table_find (slot_of r) s (handlers c)")
  case None
  have "PopPendingRpcResponseHandler r s c = Inr (None, c)"
    using pop_lookup [OF client_invD(2) [OF assms]] lookup_view [OF client_invD(1) [OF assms]] None by (simp add: ridx_slot [OF assms])
  then show ?thesis using that [of "pending_rpcs c"] assms None by (simp add: table_take_def)
next
  case (Some k)
  obtain b where b: "RingBuffer_erase r (pending_rpcs c) = Inr (handlers c (slot_of r) \<noteq> None, b)" "RingBuffer_inv b"
    "RingBuffer_abs b = (handlers c)(slot_of r := None)" "length (rslots b) = kPendingRpcBufferSize"
    using erase_view [OF client_invD(1) [OF assms], of r] client_invD(2) [OF assms] by (auto simp: ridx_slot [OF assms])
  have "PopPendingRpcResponseHandler r s c = Inr (Some k, c\<lparr>pending_rpcs := b\<rparr>)"
    using pop_lookup [OF client_invD(2) [OF assms]] lookup_view [OF client_invD(1) [OF assms]] b(1) Some by (simp add: ridx_slot [OF assms])
  moreover have "client_inv (c\<lparr>pending_rpcs := b\<rparr>)"
    using assms b by (auto simp: client_inv_def awaits_def split: if_splits)
  ultimately show ?thesis using that [of b] b(3) Some by (simp add: table_take_def)
qed

text \<open>A popped handler belongs to a waiting call that no other entry refers to.\<close>

lemma popped:
  assumes "client_inv c" and "PopPendingRpcResponseHandler r s c = Inr (Some k, c')"
  shows "client_inv c'" and "receivers c' k = Waiting" and "\<not> awaits k c'" and "receivers c' = receivers c"
    and "handlers c' = (handlers c)(slot_of r := None)" and "handlers c (slot_of r) = Some (s, k)" and "stops c' = stops c"
proof -
  obtain b where b: "Inr (Some k, c') = (Inr (table_find (slot_of r) s (handlers c), c\<lparr>pending_rpcs := b\<rparr>) :: _ res)"
    "RingBuffer_abs b = table_take (slot_of r) s (handlers c)" "client_inv (c\<lparr>pending_rpcs := b\<rparr>)"
    using pop_step [OF assms(1), of r s] assms(2) by metis
  then have c': "c' = c\<lparr>pending_rpcs := b\<rparr>" and f: "table_find (slot_of r) s (handlers c) = Some k" by auto
  then show s: "handlers c (slot_of r) = Some (s, k)" by (auto simp: table_find_def split: option.splits prod.splits if_splits)
  show "client_inv c'" "receivers c' = receivers c" "stops c' = stops c" using b(3) c' by simp_all
  show h: "handlers c' = (handlers c)(slot_of r := None)" using b(2) f c' by (simp add: table_take_def)
  show "receivers c' k = Waiting" using client_invD(3) [OF assms(1)] s c' by (auto simp: awaits_def)
  show "\<not> awaits k c'" using client_invD(4) [OF assms(1) s] unfolding awaits_def h by (auto split: if_splits)
qed

lemma completed_call_inv:
  assumes "client_inv c" and "receivers c k = Waiting" and "\<not> awaits k c"
  shows "complete k s c = Inr (c\<lparr>receivers := (receivers c)(k := Completed s)\<rparr>)"
    and "client_inv (c\<lparr>receivers := (receivers c)(k := Completed s)\<rparr>)"
  using assms by (auto simp: complete_def client_inv_def awaits_def)

text \<open>The first result of a response can be read as its type tag says.\<close>

definition results_readable :: "'b handler_input \<Rightarrow> bool" where
  "results_readable inp \<longleftrightarrow> (case inp of Inl _ \<Rightarrow> True | Inr (h, _) \<Rightarrow> list_all param_wf (take 1 (rs_results h)))"

lemma callback_total:
  assumes "results_readable inp"
  shows "\<exists>s. response_callback tx reg stopped inp = Inr s"
proof -
  have "\<exists>m. response_error_text tx reg h = Inr m" if "list_all param_wf (take 1 (rs_results h))" for h
    using that by (cases "rs_results h") (auto simp: response_error_text_def param_wf_def value_type_cases dest: sym)
  then show ?thesis using assms
    by (auto simp: response_callback_def results_readable_def bind_res_def split: sum.splits prod.splits) (metis Inl_Inr_False)+
qed

lemma handler_step:
  assumes "client_inv c" and "receivers c k = Waiting" and "\<not> awaits k c" and "results_readable inp"
  shows "\<exists>s. response_callback tx reg (stops c k) inp = Inr s \<and>
    invoke_handler tx reg k inp c = Inr (c\<lparr>receivers := (receivers c)(k := Completed s)\<rparr>) \<and>
    client_inv (c\<lparr>receivers := (receivers c)(k := Completed s)\<rparr>)"
  using callback_total [OF assms(4)] completed_call_inv [OF assms(1-3)] by (fastforce simp: invoke_handler_def)

subsection \<open>Runs of the client\<close>

datatype ('hd, 'b) client_event =
    EvStart bool nat call
  | EvTimeout AxonErrorContext u32 u32
  | EvResponse u64 'hd "'b PayloadOrKey"
  | EvStop nat
  | EvCancel

fun client_step :: "status_texts \<Rightarrow> registry \<Rightarrow> ('hd \<Rightarrow> exn + RpcResponseHeader) \<Rightarrow> ('hd, 'b) client_event \<Rightarrow> 'b client \<Rightarrow> 'b client res" where
  "client_step tx reg deserialize (EvStart spurious k a) c = start_call spurious k a c"
| "client_step tx reg deserialize (EvTimeout ctx r s) c = timeout_call tx reg ctx r s c"
| "client_step tx reg deserialize (EvResponse now_ms m p) c = ClientProcessResponseMessage tx reg deserialize now_ms (m, p) c"
| "client_step tx reg deserialize (EvStop k) c = Inr (c\<lparr>stops := (stops c)(k := True)\<rparr>)"
| "client_step tx reg deserialize EvCancel c = cancel_pending tx reg c"

fun client_run :: "status_texts \<Rightarrow> registry \<Rightarrow> ('hd \<Rightarrow> exn + RpcResponseHeader) \<Rightarrow> ('hd, 'b) client_event list \<Rightarrow> 'b client \<Rightarrow> 'b client res" where
  "client_run tx reg deserialize [] c = Inr c"
| "client_run tx reg deserialize (e # es) c = bind_res (client_step tx reg deserialize e c) (client_run tx reg deserialize es)"

fun started :: "('hd, 'b) client_event list \<Rightarrow> nat list" where
  "started [] = []"
| "started (EvStart spurious k a # es) = k # started es"
| "started (e # es) = started es"

definition readable :: "('hd \<Rightarrow> exn + RpcResponseHeader) \<Rightarrow> bool" where
  "readable deserialize \<longleftrightarrow> (\<forall>m h. deserialize m = Inr h \<longrightarrow> list_all param_wf (take 1 (rs_results h)))"

text \<open>
  How one operation may move a call: only calls with a handler in the buffer (and the one that is
  started) are completed, a completed call keeps its signal, and handlers only leave the buffer
  (apart from the started one).
\<close>

definition advances :: "nat set \<Rightarrow> 'b client \<Rightarrow> 'b client \<Rightarrow> bool" where
  "advances ks c c' \<longleftrightarrow>
     (\<forall>k. k \<notin> ks \<longrightarrow> receivers c' k = receivers c k \<or> awaits k c \<and> (\<exists>s. receivers c' k = Completed s)) \<and>
     (\<forall>k. k \<notin> ks \<longrightarrow> awaits k c' \<longrightarrow> awaits k c)"

lemma advances_refl [simp]: "advances ks c c"
  by (simp add: advances_def)

lemma advances_same: "receivers c' = receivers c \<Longrightarrow> handlers c' = handlers c \<Longrightarrow> advances ks c c'"
  by (simp add: advances_def awaits_def)

lemma advances_trans:
  assumes "advances ks c c'" and "advances ks c' c''" and "client_inv c'"
  shows "advances ks c c''"
proof -
  have "receivers c'' k = receivers c k \<or> awaits k c \<and> (\<exists>s. receivers c'' k = Completed s)" if "k \<notin> ks" for k
  proof (cases "receivers c'' k = receivers c' k")
    case True
    then show ?thesis using assms(1) that unfolding advances_def by metis
  next
    case False
    then have "awaits k c'" "\<exists>s. receivers c'' k = Completed s" using assms(2) that unfolding advances_def by blast+
    then show ?thesis using assms(1) that unfolding advances_def by blast
  qed
  then show ?thesis using assms(1,2) unfolding advances_def by blast
qed

lemma pop_advances:
  assumes "client_inv c" and "PopPendingRpcResponseHandler r s c = Inr (x, c')"
  shows "client_inv c'" and "advances ks c c'" and "client_hlc c' = client_hlc c"
proof -
  obtain b where "Inr (x, c') = (Inr (table_find (slot_of r) s (handlers c), c\<lparr>pending_rpcs := b\<rparr>) :: _ res)"
    and b: "RingBuffer_abs b = table_take (slot_of r) s (handlers c)" "client_inv (c\<lparr>pending_rpcs := b\<rparr>)"
    using pop_step [OF assms(1), of r s] assms(2) by metis
  then have c': "c' = c\<lparr>pending_rpcs := b\<rparr>" by simp
  show "client_inv c'" "client_hlc c' = client_hlc c" using b(2) c' by simp_all
  show "advances ks c c'" using b(1) unfolding c' advances_def awaits_def by (auto simp: table_take_def split: if_splits)
qed

text \<open>Popping a handler and calling it: the step all completions share.\<close>

lemma pop_and_invoke:
  assumes "client_inv c" and "\<And>k c'. results_readable (inp k c')"
  obtains c' where "bind_res (PopPendingRpcResponseHandler r s c) (\<lambda>(h, c1).
      case h of Some k \<Rightarrow> invoke_handler tx reg k (inp k c1) c1 | None \<Rightarrow> Inr c1) = Inr c'"
    and "client_inv c'" and "advances ks c c'" and "handlers c' = table_take (slot_of r) s (handlers c)"
    and "stops c' = stops c" and "client_hlc c' = client_hlc c"
    and "\<forall>k. table_find (slot_of r) s (handlers c) = Some k \<longrightarrow>
      (\<exists>sg c1. client_hlc c1 = client_hlc c \<and> response_callback tx reg (stops c k) (inp k c1) = Inr sg \<and>
         receivers c' = (receivers c)(k := Completed sg))"
proof -
  obtain b where p: "PopPendingRpcResponseHandler r s c = Inr (table_find (slot_of r) s (handlers c), c\<lparr>pending_rpcs := b\<rparr>)"
    "RingBuffer_abs b = table_take (slot_of r) s (handlers c)"
    using pop_step [OF assms(1), of r s] by metis
  let ?c1 = "c\<lparr>pending_rpcs := b\<rparr>"
  show ?thesis
  proof (cases "table_find (slot_of r) s (handlers c)")
    case None
    then show ?thesis using that [of ?c1] p pop_advances [OF assms(1) p(1)] by simp
  next
    case (Some k)
    note q = popped [OF assms(1) p(1) [unfolded Some]]
    obtain sg where h: "response_callback tx reg (stops ?c1 k) (inp k ?c1) = Inr sg"
      "invoke_handler tx reg k (inp k ?c1) ?c1 = Inr (?c1\<lparr>receivers := (receivers ?c1)(k := Completed sg)\<rparr>)"
      "client_inv (?c1\<lparr>receivers := (receivers ?c1)(k := Completed sg)\<rparr>)"
      using handler_step [OF q(1-3) assms(2) [of k ?c1]] by blast
    have aw: "awaits k c" using q(6) by (auto simp: awaits_def)
    have "advances ks c (?c1\<lparr>receivers := (receivers ?c1)(k := Completed sg)\<rparr>)"
      using aw p(2) unfolding advances_def awaits_def by (auto simp: table_take_def split: if_splits)
    moreover have "\<exists>sg' c1. client_hlc c1 = client_hlc c \<and> response_callback tx reg (stops c k) (inp k c1) = Inr sg' \<and>
        (receivers c)(k := Completed sg) = (receivers c)(k := Completed sg')"
      using h(1) by (intro exI [of _ sg] exI [of _ ?c1]) simp
    ultimately show ?thesis using that [of "?c1\<lparr>receivers := (receivers ?c1)(k := Completed sg)\<rparr>"] p h(2,3) Some by simp
  qed
qed

lemma client_inv_other [simp]:
  "client_inv (c\<lparr>client_hlc := x\<rparr>) = client_inv c" "client_inv (c\<lparr>client_errors := y\<rparr>) = client_inv c"
  "client_inv (c\<lparr>stops := z\<rparr>) = client_inv c"
  by (simp_all add: client_inv_def awaits_def)

lemma timeout_step:
  assumes "client_inv c"
  shows "\<exists>c'. timeout_call tx reg ctx r s c = Inr c' \<and> client_inv c' \<and> advances {} c c'"
  using pop_and_invoke [OF assms, where inp = "\<lambda>_ _. Inl ctx" and r = r and s = s and tx = tx and reg = reg and ks = "{}"]
  unfolding timeout_call_def results_readable_def by (metis (no_types, lifting) old.sum.simps(5))

lemma response_step:
  assumes "client_inv c" and "readable deserialize"
  shows "\<exists>c'. ClientProcessResponseMessage tx reg deserialize now_ms (m, p) c = Inr c' \<and> client_inv c' \<and> advances {} c c'"
proof (cases "deserialize m")
  case (Inl e)
  then show ?thesis using assms(1)
    by (auto simp: ClientProcessResponseMessage_def ClientProcessHeader_def ReportClientError_def intro: advances_same)
next
  case (Inr h)
  let ?c0 = "c\<lparr>client_hlc := Merge (raw (rs_hlc h)) now_ms (client_hlc c)\<rparr>"
  have inv: "client_inv ?c0" using assms(1) by simp
  have adv: "advances {} c c'" if "advances {} ?c0 c'" for c'
    by (rule advances_trans [OF advances_same that inv]) simp_all
  obtain b where pop: "PopPendingRpcResponseHandler (rs_request_id h) (rs_session_id h) ?c0 =
      Inr (table_find (slot_of (rs_request_id h)) (rs_session_id h) (handlers ?c0), ?c0\<lparr>pending_rpcs := b\<rparr>)"
    using pop_step [OF inv] by metis
  note pa = pop_advances(1) [OF inv pop] pop_advances(2) [OF inv pop, where ks = "{}"]
  show ?thesis
  proof (cases "table_find (slot_of (rs_request_id h)) (rs_session_id h) (handlers ?c0)")
    case None
    then show ?thesis using pop pa(1) adv [OF pa(2)]
      by (auto simp: Inr ClientProcessResponseMessage_def ClientProcessHeader_def Let_def ReportClientError_def
          intro: advances_trans [OF _ advances_same])
  next
    case (Some k)
    have rd: "results_readable (Inr (h, p))" using assms(2) Inr by (auto simp: readable_def results_readable_def)
    obtain c' where c': "bind_res (PopPendingRpcResponseHandler (rs_request_id h) (rs_session_id h) ?c0) (\<lambda>(x, c1).
        case x of Some k \<Rightarrow> invoke_handler tx reg k (Inr (h, p)) c1 | None \<Rightarrow> Inr c1) = Inr c'" "client_inv c'" "advances {} ?c0 c'"
      by (rule pop_and_invoke [OF inv, where inp = "\<lambda>_ _. Inr (h, p)" and r = "rs_request_id h" and s = "rs_session_id h"
            and tx = tx and reg = reg and ks = "{}"]) (use rd in blast)+
    then have "invoke_handler tx reg k (Inr (h, p)) (?c0\<lparr>pending_rpcs := b\<rparr>) = Inr c'" using pop Some by simp
    then show ?thesis using pop Some c'(2) adv [OF c'(3)]
      by (simp add: Inr ClientProcessResponseMessage_def ClientProcessHeader_def Let_def)
  qed
qed

text \<open>A response that finds its handler is delivered to the call of that handler.\<close>

lemma response_delivered:
  assumes "client_inv c" and "deserialize m = Inr h" and "handlers c (slot_of (rs_request_id h)) = Some (rs_session_id h, k)"
    and "results_readable (Inr (h, p))"
  shows "\<exists>c' sg. ClientProcessResponseMessage tx reg deserialize now_ms (m, p) c = Inr c' \<and>
    response_callback tx reg (stops c k) (Inr (h, p)) = Inr sg \<and> receivers c' k = Completed sg"
proof -
  let ?c0 = "c\<lparr>client_hlc := Merge (raw (rs_hlc h)) now_ms (client_hlc c)\<rparr>"
  have inv: "client_inv ?c0" using assms(1) by simp
  have f: "table_find (slot_of (rs_request_id h)) (rs_session_id h) (handlers ?c0) = Some k" using assms(3) by (simp add: table_find_def)
  obtain b where pop: "PopPendingRpcResponseHandler (rs_request_id h) (rs_session_id h) ?c0 = Inr (Some k, ?c0\<lparr>pending_rpcs := b\<rparr>)"
    using pop_step [OF inv, of "rs_request_id h" "rs_session_id h"] f by metis
  obtain c' sg where "invoke_handler tx reg k (Inr (h, p)) (?c0\<lparr>pending_rpcs := b\<rparr>) = Inr c'"
    "response_callback tx reg (stops c k) (Inr (h, p)) = Inr sg" "receivers c' k = Completed sg"
    using handler_step [OF popped(1-3) [OF inv pop] assms(4), of tx reg] by auto
  then show ?thesis using pop by (auto simp: assms(2) ClientProcessResponseMessage_def ClientProcessHeader_def Let_def)
qed

lemma not_started_not_awaited: "client_inv c \<Longrightarrow> receivers c k = NotStarted \<Longrightarrow> \<not> awaits k c"
  using client_invD(3) by fastforce

lemma start_step:
  assumes "client_inv c" and "receivers c k = NotStarted"
  shows "\<exists>c'. start_call spurious k a c = Inr c' \<and> client_inv c' \<and> advances {k} c c'"
proof -
  let ?c = "c\<lparr>receivers := (receivers c)(k := Waiting)\<rparr>"
  have na: "\<not> awaits k c" by (rule not_started_not_awaited [OF assms])
  have inv: "client_inv ?c" and na': "\<not> awaits k ?c" using assms(1) na by (auto simp: client_inv_def awaits_def)
  have fin: "\<exists>c'. complete k sg c1 = Inr c' \<and> client_inv c' \<and> advances {k} c c'"
    if "client_inv c1" "handlers c1 = handlers c" "receivers c1 = receivers ?c" for c1 sg
    using completed_call_inv [OF that(1), of k sg] that na by (auto simp: advances_def awaits_def)
  obtain b where b: "RingBuffer_emplace spurious (cl_request a) (cl_session a) k (pending_rpcs c) =
      Inr (fst (table_put spurious (slot_of (cl_request a)) (cl_session a) k (handlers c)), b)"
    "RingBuffer_abs b = snd (table_put spurious (slot_of (cl_request a)) (cl_session a) k (handlers c))"
    "RingBuffer_inv b" "length (rslots b) = kPendingRpcBufferSize"
    using emplace_view [OF client_invD(1) [OF assms(1)], of spurious "cl_request a" "cl_session a" k] client_invD(2) [OF assms(1)]
    by (auto simp: ridx_slot [OF assms(1)])
  show ?thesis
  proof (cases "stops c k \<or> (\<exists>ec. cl_conn a = Inl ec)")
    case True
    then show ?thesis using fin [of ?c] inv by (auto simp: start_call_def Let_def)
  next
    case False
    then obtain cid where conn: "cl_conn a = Inr cid" "\<not> stops c k" by (cases "cl_conn a") auto
    show ?thesis
    proof (cases "fst (table_put spurious (slot_of (cl_request a)) (cl_session a) k (handlers c))")
      case True
      have h: "RingBuffer_abs b = (handlers c)(slot_of (cl_request a) \<mapsto> (cl_session a, k))"
        using True b(2) by (auto simp: table_put_def split: option.splits prod.splits if_splits)
      have "client_inv (?c\<lparr>pending_rpcs := b\<rparr>)"
        using inv b(3,4) na' unfolding client_inv_def awaits_def by (auto simp: h split: if_splits)
      moreover have "advances {k} c (?c\<lparr>pending_rpcs := b\<rparr>)" by (auto simp: advances_def awaits_def h split: if_splits)
      ultimately show ?thesis using b(1) True conn by (simp add: start_call_def Let_def)
    next
      case F: False
      have h: "RingBuffer_abs b = handlers c"
        using F b(2) by (auto simp: table_put_def split: option.splits prod.splits if_splits)
      have "client_inv (?c\<lparr>pending_rpcs := b\<rparr>)" using inv b(3,4) by (auto simp: client_inv_def awaits_def h)
      then show ?thesis using fin [of "?c\<lparr>pending_rpcs := b\<rparr>"] b(1) F conn h by (simp add: start_call_def Let_def)
    qed
  qed
qed

lemma advances_idle:
  assumes "advances ks c c'" and "k \<notin> ks" and "\<not> awaits k c"
  shows "receivers c' k = receivers c k" and "\<not> awaits k c'"
  using assms unfolding advances_def by blast+

lemma advances_completed:
  "client_inv c \<Longrightarrow> advances ks c c' \<Longrightarrow> k \<notin> ks \<Longrightarrow> receivers c k = Completed sg \<Longrightarrow> receivers c' k = Completed sg"
  using advances_idle(1) client_invD(3) by fastforce

lemma cancel_each_step:
  fixes c :: "'b client"
  assumes "client_inv c"
  shows "\<exists>c'. cancel_each tx reg es c = Inr c' \<and> client_inv c' \<and> advances {} c c' \<and>
    (\<forall>k sg. receivers c k = Completed sg \<longrightarrow> receivers c' k = Completed sg) \<and>
    ((\<forall>i s k. handlers c i = Some (s, k) \<longrightarrow> (\<exists>e \<in> set es. slot_of (entry_request_id e) = i \<and> entry_session_id e = s)) \<longrightarrow>
      handlers c' = Map.empty \<and>
      (\<forall>k. awaits k c \<longrightarrow> receivers c' k =
         Completed (if stops c k then SetDone else SetError (ErrPtr (MakeExceptionPtr (cancelled_context (client_hlc c)))))))"
  using assms
proof (induction es arbitrary: c)
  case Nil
  then show ?case by (auto simp: fun_eq_iff awaits_def) (metis not_None_eq old.prod.exhaust)
next
  case (Cons e es)
  let ?i = "slot_of (entry_request_id e)" and ?s = "entry_session_id e"
  let ?sig = "\<lambda>c k. if stops c k then SetDone else SetError (ErrPtr (MakeExceptionPtr (cancelled_context (client_hlc c))))"
  obtain c1 where c1: "bind_res (PopPendingRpcResponseHandler (entry_request_id e) ?s c) (\<lambda>(h, c1).
      case h of Some k \<Rightarrow> invoke_handler tx reg k (Inl (cancelled_context (client_hlc c1))) c1 | None \<Rightarrow> Inr c1) = Inr c1"
    "client_inv c1" "advances {} c c1" "handlers c1 = table_take ?i ?s (handlers c)" "stops c1 = stops c" "client_hlc c1 = client_hlc c"
    "\<forall>k. table_find ?i ?s (handlers c) = Some k \<longrightarrow> (\<exists>sg (c1' :: 'b client). client_hlc c1' = client_hlc c \<and>
       response_callback tx reg (stops c k) (Inl (cancelled_context (client_hlc c1'))) = Inr sg \<and> receivers c1 = (receivers c)(k := Completed sg))"
    by (rule pop_and_invoke [OF Cons.prems, where inp = "\<lambda>_ c1. Inl (cancelled_context (client_hlc c1))" and r = "entry_request_id e"
          and s = ?s and tx = tx and reg = reg and ks = "{}"]) (auto simp: results_readable_def)
  have sig: "receivers c1 k = Completed (?sig c k)" if "table_find ?i ?s (handlers c) = Some k" for k
    using c1(7) that by (auto simp: response_callback_def)
  have st: "cancel_each tx reg (e # es) c = cancel_each tx reg es c1"
    using c1(1) by (cases "PopPendingRpcResponseHandler (entry_request_id e) ?s c") (auto split: prod.splits)
  have keep: "receivers c1 k = Completed sg" if "receivers c k = Completed sg" for k sg
    using advances_completed [OF Cons.prems c1(3)] that by simp
  from Cons.IH [OF c1(2)] obtain c' where c': "cancel_each tx reg es c1 = Inr c'" "client_inv c'" "advances {} c1 c'"
    "\<forall>k sg. receivers c1 k = Completed sg \<longrightarrow> receivers c' k = Completed sg"
    "(\<forall>i s k. handlers c1 i = Some (s, k) \<longrightarrow> (\<exists>e \<in> set es. slot_of (entry_request_id e) = i \<and> entry_session_id e = s)) \<longrightarrow>
      handlers c' = Map.empty \<and> (\<forall>k. awaits k c1 \<longrightarrow> receivers c' k = Completed (?sig c1 k))" by blast
  have "handlers c' = Map.empty \<and> (\<forall>k. awaits k c \<longrightarrow> receivers c' k = Completed (?sig c k))"
    if all: "\<forall>i s k. handlers c i = Some (s, k) \<longrightarrow> (\<exists>e \<in> set (e # es). slot_of (entry_request_id e) = i \<and> entry_session_id e = s)"
  proof -
    have rest: "\<forall>i s k. handlers c1 i = Some (s, k) \<longrightarrow> (\<exists>e \<in> set es. slot_of (entry_request_id e) = i \<and> entry_session_id e = s)"
      using all unfolding c1(4) by (fastforce simp: table_take_def table_find_def split: if_splits option.splits prod.splits)
    have "receivers c' k = Completed (?sig c k)" if k: "awaits k c" for k
    proof (cases "table_find ?i ?s (handlers c) = Some k")
      case True
      then show ?thesis using sig c'(4) by blast
    next
      case False
      obtain i s where h: "handlers c i = Some (s, k)" using k by (auto simp: awaits_def)
      then have "handlers c1 i = Some (s, k)"
        using False unfolding c1(4) by (auto simp: table_take_def table_find_def split: option.splits prod.splits if_splits)
      then have "awaits k c1" by (auto simp: awaits_def)
      then show ?thesis using c'(5) rest c1(5,6) by auto
    qed
    then show ?thesis using c'(5) rest by blast
  qed
  then show ?case using st c'(1,2) advances_trans [OF c1(3) c'(3) c1(2)] keep c'(4) by auto
qed

lemma entries_listed:
  assumes "client_inv c" and "handlers c i = Some (s, k)"
  shows "\<exists>e \<in> set (iterate_from (pending_rpcs c) 0). slot_of (entry_request_id e) = i \<and> entry_session_id e = s"
proof -
  let ?b = "pending_rpcs c"
  have i: "i < length (rslots ?b)" "occupied (rslots ?b ! i)" "rs_session (rslots ?b ! i) = s"
    using assms(2) by (auto simp: RingBuffer_abs_def split: if_splits)
  have n: "i < kPendingRpcBufferSize" using i(1) client_invD(2) [OF assms(1)] by simp
  then have "unat (word_of_nat i :: u32) = i" by (intro unat_word_of_nat) (simp add: kPendingRpcBufferSize_def)
  then have "slot_of (entry_request_id (Iterator_deref ?b i)) = i" using n by (simp add: Iterator_deref_def)
  moreover have "Iterator_deref ?b i \<in> set (iterate_from ?b 0)" using i by (auto simp: iterate_from_filter)
  moreover have "entry_session_id (Iterator_deref ?b i) = s" using i(3) by (simp add: Iterator_deref_def)
  ultimately show ?thesis by blast
qed

lemma cancel_step:
  assumes "client_inv c"
  shows "\<exists>c'. cancel_pending tx reg c = Inr c' \<and> client_inv c' \<and> advances {} c c' \<and> handlers c' = Map.empty \<and>
    (\<forall>k. awaits k c \<longrightarrow> receivers c' k =
       Completed (if stops c k then SetDone else SetError (ErrPtr (MakeExceptionPtr (cancelled_context (client_hlc c))))))"
  using cancel_each_step [OF assms, of tx reg "iterate_from (pending_rpcs c) 0"] entries_listed [OF assms]
  unfolding cancel_pending_def by blast

fun starts :: "('hd, 'b) client_event \<Rightarrow> nat set" where
  "starts (EvStart spurious k a) = {k}"
| "starts e = {}"

lemma client_step_safe:
  assumes "client_inv c" and "readable deserialize" and "\<forall>k \<in> starts e. receivers c k = NotStarted"
  shows "\<exists>c'. client_step tx reg deserialize e c = Inr c' \<and> client_inv c' \<and> advances (starts e) c c'"
proof (cases e)
  case (EvStart spurious k a)
  then show ?thesis using start_step [OF assms(1)] assms(3) by simp
next
  case (EvTimeout ctx r s)
  then show ?thesis using timeout_step [OF assms(1)] by simp
next
  case (EvResponse now_ms m p)
  then show ?thesis using response_step [OF assms(1,2)] by simp
next
  case (EvStop k)
  then show ?thesis using assms(1) by (simp add: advances_same)
next
  case EvCancel
  then show ?thesis using cancel_step [OF assms(1), of tx reg] by auto
qed

lemma started_cons: "set (started (e # es)) = starts e \<union> set (started es)" "distinct (started (e # es)) \<Longrightarrow> distinct (started es) \<and> starts e \<inter> set (started es) = {}"
  by (cases e; auto)+

lemma client_run_safe:
  assumes "client_inv c" and "readable deserialize" and "distinct (started es)" and "\<forall>k \<in> set (started es). receivers c k = NotStarted"
  shows "\<exists>c'. client_run tx reg deserialize es c = Inr c' \<and> client_inv c' \<and>
    (\<forall>k sg. receivers c k = Completed sg \<longrightarrow> receivers c' k = Completed sg) \<and>
    (\<forall>k. k \<notin> set (started es) \<longrightarrow> \<not> awaits k c \<longrightarrow> receivers c' k = receivers c k)"
  using assms
proof (induction es arbitrary: c)
  case Nil
  then show ?case by simp
next
  case (Cons e es)
  obtain c1 where c1: "client_step tx reg deserialize e c = Inr c1" "client_inv c1" "advances (starts e) c c1"
    using client_step_safe [OF Cons.prems(1,2)] Cons.prems(4) started_cons(1) [of e es] by blast
  have ns: "\<forall>k \<in> set (started es). receivers c1 k = NotStarted"
    using Cons.prems advances_idle(1) [OF c1(3)] not_started_not_awaited [OF Cons.prems(1)] started_cons [of e es] by fastforce
  obtain c' where c': "client_run tx reg deserialize es c1 = Inr c'" "client_inv c'"
    "\<forall>k sg. receivers c1 k = Completed sg \<longrightarrow> receivers c' k = Completed sg"
    "\<forall>k. k \<notin> set (started es) \<longrightarrow> \<not> awaits k c1 \<longrightarrow> receivers c' k = receivers c1 k"
    using Cons.IH [OF c1(2) Cons.prems(2) _ ns] started_cons(2) [OF Cons.prems(3)] by blast
  have fin: "receivers c1 k = Completed sg" if "receivers c k = Completed sg" for k sg
  proof (rule advances_completed [OF Cons.prems(1) c1(3) _ that])
    show "k \<notin> starts e" using Cons.prems(4) that started_cons(1) [of e es] by force
  qed
  have "receivers c' k = receivers c k" if "k \<notin> set (started (e # es))" "\<not> awaits k c" for k
    using that advances_idle [OF c1(3) _ that(2)] c'(4) started_cons(1) [of e es] by auto
  then show ?case using c1(1) c'(1-3) fin by auto
qed

subsection \<open>Properties of calls\<close>

definition example_texts :: status_texts where
  "example_texts = \<lparr>strerror = (\<lambda>_. ''error''), ucs_status_string = (\<lambda>_. None)\<rparr>"

definition example_call :: "u32 \<Rightarrow> call" where
  "example_call r = \<lparr>cl_conn = Inr 5, cl_session = 9, cl_request = r, cl_function = 1, cl_workflow = 0\<rparr>"

definition no_header :: "unit \<Rightarrow> exn + RpcResponseHeader" where
  "no_header _ = Inl (runtime_error ''truncated'')"

lemma no_header_readable: "readable no_header"
  by (simp add: readable_def no_header_def)



text \<open>
  C25. A call whose handler is in the pending buffer is completed when its timer fires, with the deadline
  error or, after a stop request, as cancelled; the buffer slot is free again.
\<close>

theorem timeout_completes_call:
  assumes "client_inv c" and "handlers c (unat r mod kPendingRpcBufferSize) = Some (s, k)"
  shows "\<exists>c'. timeout_call tx reg ctx r s c = Inr c' \<and>
    receivers c' k = Completed (if stops c k then SetDone else SetError (ErrPtr (AxonEx ctx))) \<and>
    handlers c' (unat r mod kPendingRpcBufferSize) = None"
proof -
  have f: "table_find (slot_of r) s (handlers c) = Some k" using assms(2) by (simp add: table_find_def)
  obtain c' where "timeout_call tx reg ctx r s c = Inr c'" "handlers c' = table_take (slot_of r) s (handlers c)"
    "\<exists>sg. response_callback tx reg (stops c k) (Inl ctx) = Inr sg \<and> receivers c' = (receivers c)(k := Completed sg)"
    unfolding timeout_call_def
    by (rule pop_and_invoke [OF assms(1), where inp = "\<lambda>_ _. Inl ctx" and r = r and s = s and tx = tx and reg = reg and ks = "{}"])
      (use f in \<open>auto simp: results_readable_def\<close>)
  then show ?thesis using f by (auto simp: response_callback_def MakeExceptionPtr_def table_take_def)
qed

lemma started_handler:
  assumes "client_inv c" and "receivers c k = NotStarted" and "\<not> stops c k" and "cl_conn a = Inr cid"
    and "handlers c (slot_of (cl_request a)) = None \<or> (\<exists>k'. handlers c (slot_of (cl_request a)) = Some (cl_session a, k'))"
  shows "\<exists>c'. start_call False k a c = Inr c' \<and> client_inv c' \<and> receivers c' = (receivers c)(k := Waiting) \<and> stops c' = stops c \<and>
    handlers c' = (handlers c)(slot_of (cl_request a) \<mapsto> (cl_session a, k))"
proof -
  obtain b where b: "RingBuffer_emplace False (cl_request a) (cl_session a) k (pending_rpcs c) = Inr (True, b)"
    "RingBuffer_abs b = (handlers c)(slot_of (cl_request a) \<mapsto> (cl_session a, k))"
    using emplace_view [OF client_invD(1) [OF assms(1)], of False "cl_request a" "cl_session a" k] assms(5)
    by (auto simp: ridx_slot [OF assms(1)] table_put_def)
  have "start_call False k a c = Inr (c\<lparr>receivers := (receivers c)(k := Waiting), pending_rpcs := b\<rparr>)"
    using b(1) assms(3,4) by (simp add: start_call_def Let_def)
  then show ?thesis using start_step [OF assms(1,2), of False a] b(2) by auto
qed

lemma client_new_fields [simp]:
  "receivers (client_new hlc) = (\<lambda>_. NotStarted)" "stops (client_new hlc) = (\<lambda>_. False)" "handlers (client_new hlc) = Map.empty"
  by (simp_all add: client_new_def)

lemma example_call_fields [simp]:
  "cl_conn (example_call r) = Inr 5" "cl_session (example_call r) = 9" "cl_request (example_call r) = r"
  by (simp_all add: example_call_def)

lemma example_started:
  obtains c :: "unit client" where "start_call False 0 (example_call 1) (client_new (HybridLogicalClock 0)) = Inr c" "client_inv c"
    "stops c = (\<lambda>_. False)" "receivers c = (\<lambda>_. NotStarted)(0 := Waiting)"
    "handlers c = [unat (1 :: u32) mod kPendingRpcBufferSize \<mapsto> (9, 0)]"
  using started_handler [where c = "client_new (HybridLogicalClock 0) :: unit client" and k = 0 and a = "example_call 1" and cid = 5, OF client_new_inv]
  by auto

theorem timeout_completes_call_witness:
  "\<exists>c :: unit client. start_call False 0 (example_call 1) (client_new (HybridLogicalClock 0)) = Inr c \<and>
    (\<exists>c'. timeout_call example_texts axon_registry AxonErrorContext_new 1 9 c = Inr c' \<and>
       receivers c' 0 = Completed (SetError (ErrPtr (AxonEx AxonErrorContext_new))))"
proof -
  obtain c :: "unit client" where c: "start_call False 0 (example_call 1) (client_new (HybridLogicalClock 0)) = Inr c" "client_inv c"
    "stops c = (\<lambda>_. False)" "handlers c = [unat (1 :: u32) mod kPendingRpcBufferSize \<mapsto> (9, 0)]"
    using example_started by metis
  show ?thesis using timeout_completes_call [OF c(2), of 1 9 0 example_texts axon_registry AxonErrorContext_new] c(1,3,4) by auto
qed



text \<open>
  A call of the same session whose request id is congruent modulo the buffer size replaces the handler
  of a pending call. From then on no sequence of responses, timers, stops and cancellations completes
  the earlier call, and its timer completes the later one.
\<close>

theorem replaced_call_never_completes:
  assumes "client_inv c" and "handlers c (unat r mod kPendingRpcBufferSize) = Some (s, k)" and "receivers c k' = NotStarted" and "\<not> stops c k'"
    and "cl_conn a = Inr cid" and "cl_session a = s" and "unat (cl_request a) mod kPendingRpcBufferSize = unat r mod kPendingRpcBufferSize"
    and "readable deserialize" and "distinct (started es)" and "\<forall>j \<in> set (started es). j \<noteq> k' \<and> receivers c j = NotStarted"
  shows "\<exists>c1 c2 c3. start_call False k' a c = Inr c1 \<and> client_run tx reg deserialize es c1 = Inr c2 \<and> receivers c2 k = Waiting \<and>
    timeout_call tx reg ctx r s c1 = Inr c3 \<and> receivers c3 k' = Completed (SetError (ErrPtr (AxonEx ctx)))"
proof -
  have w: "receivers c k = Waiting" using client_invD(3) [OF assms(1), of k] assms(2) by (auto simp: awaits_def)
  then have ne: "k \<noteq> k'" using assms(3) by auto
  obtain c1 where c1: "start_call False k' a c = Inr c1" "client_inv c1" "receivers c1 = (receivers c)(k' := Waiting)" "stops c1 = stops c"
    "handlers c1 = (handlers c)(slot_of r \<mapsto> (s, k'))"
    using started_handler [OF assms(1,3,4,5)] assms(2,6,7) by auto
  have na: "\<not> awaits k c1" using client_invD(4) [OF assms(1,2)] ne unfolding awaits_def c1(5) by (auto split: if_splits)
  have nk: "k \<notin> set (started es)" using assms(10) w by auto
  obtain c2 where "client_run tx reg deserialize es c1 = Inr c2" "receivers c2 k = receivers c1 k"
    using client_run_safe [OF c1(2) assms(8,9), of tx reg] assms(10) na nk c1(3) by auto
  moreover obtain c3 where "timeout_call tx reg ctx r s c1 = Inr c3" "receivers c3 k' = Completed (SetError (ErrPtr (AxonEx ctx)))"
    using timeout_completes_call [OF c1(2), of r s k' tx reg ctx] c1(4,5) assms(4) by auto
  ultimately show ?thesis using c1(1,3) w ne by auto
qed

theorem replaced_call_never_completes_witness:
  "\<exists>c c1 c2 :: unit client. start_call False 0 (example_call 1) (client_new (HybridLogicalClock 0)) = Inr c \<and>
    start_call False 1 (example_call 2049) c = Inr c1 \<and>
    client_run example_texts axon_registry no_header [EvTimeout AxonErrorContext_new 1 9, EvTimeout AxonErrorContext_new 2049 9, EvCancel] c1 = Inr c2 \<and>
    receivers c2 0 = Waiting"
proof -
  obtain c :: "unit client" where c: "start_call False 0 (example_call 1) (client_new (HybridLogicalClock 0)) = Inr c" "client_inv c"
    "stops c = (\<lambda>_. False)" "receivers c = (\<lambda>_. NotStarted)(0 := Waiting)" "handlers c = [unat (1 :: u32) mod kPendingRpcBufferSize \<mapsto> (9, 0)]"
    using example_started by metis
  show ?thesis
    using replaced_call_never_completes [OF c(2), of 1 9 0 1 "example_call 2049" 5 no_header
        "[EvTimeout AxonErrorContext_new 1 9, EvTimeout AxonErrorContext_new 2049 9, EvCancel]"
        example_texts axon_registry AxonErrorContext_new] c no_header_readable
    by (auto simp: kPendingRpcBufferSize_def)
qed

text \<open>
  Recording a connection for a worker name is what a call by that name then uses: the name resolves to
  the new connection, every other name resolves as before, and a name that was never recorded gives
  \<open>WorkerNotFound\<close>.
\<close>

theorem recorded_connection_is_used:
  assumes "endpoints_inv w" and "length (slots (rw_endpoints w)) < 2 ^ 32 - 1"
  shows "\<exists>w'. AssociateConnection n cid w = Inr w' \<and> endpoints_inv w' \<and>
    GetConnectionId (resolve_worker n w') w' = Inr (Inr cid) \<and>
    (\<forall>n'. n' \<noteq> n \<longrightarrow> GetConnectionId (resolve_worker n' w') w' = GetConnectionId (resolve_worker n' w) w) \<and>
    (\<forall>n'. rw_slot w n' = None \<longrightarrow> GetConnectionId (resolve_worker n' w) w = Inr (Inl (make_axon_error_code WorkerNotFound)))"
proof -
  obtain w' where "AssociateConnection n cid w = Inr w'" "endpoints_inv w'" "connection_of w' n = Inr cid"
    "\<forall>n'. n' \<noteq> n \<longrightarrow> connection_of w' n' = connection_of w n'"
    using associate_step [OF assms] by blast
  then show ?thesis using lookup_by_name assms(1) by (auto simp: connection_of_def)
qed

theorem recorded_connection_is_used_witness:
  "endpoints_inv remote_workers_new \<and>
   (\<exists>w'. AssociateConnection ''worker'' 7 remote_workers_new = Inr w' \<and>
      GetConnectionId (resolve_worker ''worker'' w') w' = Inr (Inr 7))"
proof -
  have "length (slots (rw_endpoints remote_workers_new)) < 2 ^ 32 - 1" by (simp add: remote_workers_new_def SlotMap_new_def)
  then show ?thesis using recorded_connection_is_used [OF remote_workers_new_inv] remote_workers_new_inv by blast
qed

text \<open>
  The send side of a call is started before its handler is registered. A response that arrives in
  between finds no handler: it is reported and dropped, and the pending buffer and the calls are unchanged.
\<close>

lemma response_before_registration_is_dropped:
  assumes "client_inv c" and "handlers c (unat (rs_request_id h) mod kPendingRpcBufferSize) = None" and "deserialize m = Inr h"
  shows "\<exists>c' ctx. ClientProcessResponseMessage tx reg deserialize now_ms (m, p) c = Inr c' \<and> receivers c' = receivers c \<and>
    handlers c' = handlers c \<and> client_errors c' = client_errors c @ [ctx] \<and> ax_what ctx = ''Response handler not found''"
proof -
  let ?c0 = "c\<lparr>client_hlc := Merge (raw (rs_hlc h)) now_ms (client_hlc c)\<rparr>"
  have inv: "client_inv ?c0" using assms(1) by simp
  have f: "table_find (slot_of (rs_request_id h)) (rs_session_id h) (handlers ?c0) = None" using assms(2) by (simp add: table_find_def)
  obtain b where b: "PopPendingRpcResponseHandler (rs_request_id h) (rs_session_id h) ?c0 = Inr (None, ?c0\<lparr>pending_rpcs := b\<rparr>)"
    "RingBuffer_abs b = table_take (slot_of (rs_request_id h)) (rs_session_id h) (handlers ?c0)"
    using pop_step [OF inv, of "rs_request_id h" "rs_session_id h"] f by auto
  show ?thesis using b f
    by (simp add: ClientProcessResponseMessage_def ClientProcessHeader_def assms(3) Let_def ReportClientError_def table_take_def worker_error_def)
qed

text \<open>The request id counter starts at 1 and is documented never to be 0; it wraps around to 0.\<close>

lemma request_id_wraps_to_zero: "next_request_id c = 4294967295 \<Longrightarrow> fst (fetch_request_id (snd (fetch_request_id c))) = 0"
  by (simp add: fetch_request_id_def)

end
