(* ===== verification/Worker_Lifecycle.thy ===== *)
theory Worker_Lifecycle
  imports Worker_Client
begin

text \<open>
  Starting, stopping and destroying a worker (\<open>axon_worker.cpp\<close>, lines 103 to 208 and 1694 to 1744). Each
  side, server and client, has the flags of the class, the state of its thread, of its receive loop
  (a future in the scope) and of its scope. Creating the thread and spawning the loop may throw. As in
  the standard library, assigning to or destroying a thread that was not joined ends the program
  (\<open>Terminate\<close>). The wait for a joined thread is the return of the event loop after its stop request.
\<close>

subsection \<open>One side\<close>

datatype halt = Terminate | Broken fault

record worker_side =
  running :: bool
  stopped :: bool
  joinable :: bool
  loop_future :: bool
  loop_stop :: bool
  context_stop :: bool
  scope_joined :: bool

definition side_new :: worker_side where
  "side_new = \<lparr>running = False, stopped = False, joinable = False, loop_future = False, loop_stop = False,
     context_stop = False, scope_joined = False\<rparr>"

datatype start_failure = NoFailure | ThreadFails string | SpawnFails string

definition start_failed :: "HybridLogicalClock \<Rightarrow> string \<Rightarrow> string \<Rightarrow> AxonErrorContext" where
  "start_failed hlc name what = worker_error hlc (make_axon_error_code WorkerStartFailed) (name @ '' failed: '' @ what)"

text \<open>\<open>StartServer\<close> and \<open>StartClient\<close>, which differ in the name in the error text.\<close>

definition start_side :: "HybridLogicalClock \<Rightarrow> string \<Rightarrow> start_failure \<Rightarrow> worker_side \<Rightarrow> halt + AxonErrorContext option \<times> worker_side" where
  "start_side hlc name failure s =
     (if running s then Inr (None, s)
      else
        let s1 = s\<lparr>running := True\<rparr> in
        case failure of
          ThreadFails what \<Rightarrow> Inr (Some (start_failed hlc name what), s1\<lparr>running := False\<rparr>)
        | SpawnFails what \<Rightarrow>
            if joinable s1 then Inl Terminate
            else Inr (Some (start_failed hlc name what), s1\<lparr>joinable := True, running := False\<rparr>)
        | NoFailure \<Rightarrow>
            if joinable s1 then Inl Terminate else Inr (None, s1\<lparr>joinable := True, loop_future := True\<rparr>))"

definition StopServer :: "worker_side \<Rightarrow> worker_side" where
  "StopServer s =
     (if stopped s then s
      else
        let s1 = s\<lparr>stopped := True\<rparr> in
        if \<not> running s1 then s1\<lparr>running := False, scope_joined := True\<rparr>
        else s1\<lparr>running := False, loop_stop := True, loop_future := False, scope_joined := True,
                context_stop := True, joinable := False\<rparr>)"

subsection \<open>The worker\<close>

record 'b worker =
  server_side :: worker_side
  client_side :: worker_side
  calls :: "'b client"
  stopping :: bool

definition worker_new :: "HybridLogicalClock \<Rightarrow> 'b worker" where
  "worker_new hlc = \<lparr>server_side = side_new, client_side = side_new, calls = client_new hlc, stopping = False\<rparr>"

definition StartServer :: "start_failure \<Rightarrow> 'b worker \<Rightarrow> halt + AxonErrorContext option \<times> 'b worker" where
  "StartServer failure w =
     (case start_side (client_hlc (calls w)) ''StartServer'' failure (server_side w) of
        Inl h \<Rightarrow> Inl h | Inr (e, s) \<Rightarrow> Inr (e, w\<lparr>server_side := s\<rparr>))"

definition StartClient :: "start_failure \<Rightarrow> 'b worker \<Rightarrow> halt + AxonErrorContext option \<times> 'b worker" where
  "StartClient failure w =
     (case start_side (client_hlc (calls w)) ''StartClient'' failure (client_side w) of
        Inl h \<Rightarrow> Inl h | Inr (e, s) \<Rightarrow> Inr (e, w\<lparr>client_side := s\<rparr>))"

definition Start :: "start_failure \<Rightarrow> start_failure \<Rightarrow> 'b worker \<Rightarrow> halt + AxonErrorContext option \<times> 'b worker" where
  "Start fs fc w =
     (case StartServer fs w of
        Inl h \<Rightarrow> Inl h
      | Inr (Some e, w1) \<Rightarrow> Inr (Some e, w1)
      | Inr (None, w1) \<Rightarrow> StartClient fc w1)"

definition StopClient :: "status_texts \<Rightarrow> registry \<Rightarrow> 'b worker \<Rightarrow> halt + 'b worker" where
  "StopClient tx reg w =
     (let s = client_side w in
      if stopped s then Inr w
      else
        let s1 = s\<lparr>stopped := True\<rparr> in
        if \<not> running s1 then Inr (w\<lparr>client_side := s1\<lparr>running := False, scope_joined := True\<rparr>\<rparr>)
        else
          let s2 = s1\<lparr>running := False, loop_stop := True, loop_future := False\<rparr> in
          case cancel_pending tx reg (calls w) of
            Inl f \<Rightarrow> Inl (Broken f)
          | Inr c \<Rightarrow> Inr (w\<lparr>client_side := s2\<lparr>context_stop := True, scope_joined := True, joinable := False\<rparr>, calls := c\<rparr>))"

definition Stop :: "status_texts \<Rightarrow> registry \<Rightarrow> 'b worker \<Rightarrow> halt + 'b worker" where
  "Stop tx reg w = StopClient tx reg (w\<lparr>stopping := True, server_side := StopServer (server_side w)\<rparr>)"

text \<open>The destructor: \<open>Stop\<close>, the two contexts, and then the members with the threads among them.\<close>

definition AxonWorker_destroy :: "status_texts \<Rightarrow> registry \<Rightarrow> 'b worker \<Rightarrow> halt + 'b client" where
  "AxonWorker_destroy tx reg w =
     (case Stop tx reg w of
        Inl h \<Rightarrow> Inl h
      | Inr w' \<Rightarrow> if joinable (server_side w') \<or> joinable (client_side w') then Inl Terminate else Inr (calls w'))"

text \<open>\<open>SpawnClientTask\<close>: refused once the worker is stopping.\<close>

definition SpawnClientTask :: "'b worker \<Rightarrow> bool" where
  "SpawnClientTask w = (\<not> stopping w)"

datatype lifecycle_op = OpStart start_failure start_failure | OpStartServer start_failure | OpStartClient start_failure | OpStop | OpStopServer | OpStopClient

fun lifecycle_step :: "status_texts \<Rightarrow> registry \<Rightarrow> lifecycle_op \<Rightarrow> 'b worker \<Rightarrow> halt + 'b worker" where
  "lifecycle_step tx reg (OpStart fs fc) w = map_sum id snd (Start fs fc w)"
| "lifecycle_step tx reg (OpStartServer fs) w = map_sum id snd (StartServer fs w)"
| "lifecycle_step tx reg (OpStartClient fc) w = map_sum id snd (StartClient fc w)"
| "lifecycle_step tx reg OpStop w = Stop tx reg w"
| "lifecycle_step tx reg OpStopServer w = Inr (w\<lparr>server_side := StopServer (server_side w)\<rparr>)"
| "lifecycle_step tx reg OpStopClient w = StopClient tx reg w"

fun lifecycle_run :: "status_texts \<Rightarrow> registry \<Rightarrow> lifecycle_op list \<Rightarrow> 'b worker \<Rightarrow> halt + 'b worker" where
  "lifecycle_run tx reg [] w = Inr w"
| "lifecycle_run tx reg (p # ps) w = (case lifecycle_step tx reg p w of Inl h \<Rightarrow> Inl h | Inr w' \<Rightarrow> lifecycle_run tx reg ps w')"

subsection \<open>Starts before stops\<close>

fun spawns :: "start_failure \<Rightarrow> bool" where
  "spawns (SpawnFails what) = False"
| "spawns f = True"

fun is_start :: "lifecycle_op \<Rightarrow> bool" where
  "is_start (OpStart fs fc) = (spawns fs \<and> spawns fc)"
| "is_start (OpStartServer f) = spawns f"
| "is_start (OpStartClient f) = spawns f"
| "is_start p = False"

fun is_stop :: "lifecycle_op \<Rightarrow> bool" where
  "is_stop OpStop = True"
| "is_stop OpStopServer = True"
| "is_stop OpStopClient = True"
| "is_stop p = False"

definition fresh_side :: "worker_side \<Rightarrow> bool" where
  "fresh_side s \<longleftrightarrow> \<not> stopped s \<and> joinable s = running s"

definition settled_side :: "worker_side \<Rightarrow> bool" where
  "settled_side s \<longleftrightarrow> (if stopped s then \<not> joinable s \<and> \<not> running s else joinable s = running s)"

lemma fresh_settled: "fresh_side s \<Longrightarrow> settled_side s"
  by (simp add: fresh_side_def settled_side_def)

lemma start_side_fresh:
  assumes "fresh_side s" and "spawns f"
  shows "\<exists>e s'. start_side hlc name f s = Inr (e, s') \<and> fresh_side s'"
  using assms by (cases f) (auto simp: start_side_def fresh_side_def Let_def)

definition fresh_worker :: "'b worker \<Rightarrow> bool" where
  "fresh_worker w \<longleftrightarrow> fresh_side (server_side w) \<and> fresh_side (client_side w) \<and> client_inv (calls w)"

definition settled_worker :: "'b worker \<Rightarrow> bool" where
  "settled_worker w \<longleftrightarrow> settled_side (server_side w) \<and> settled_side (client_side w) \<and> client_inv (calls w)"

lemma start_server_fresh:
  assumes "fresh_worker w" and "spawns f"
  shows "\<exists>e w'. StartServer f w = Inr (e, w') \<and> fresh_worker w'"
  using start_side_fresh [of "server_side w" f "client_hlc (calls w)" "''StartServer''"] assms
  by (auto simp: StartServer_def fresh_worker_def)

lemma start_client_fresh:
  assumes "fresh_worker w" and "spawns f"
  shows "\<exists>e w'. StartClient f w = Inr (e, w') \<and> fresh_worker w'"
  using start_side_fresh [of "client_side w" f "client_hlc (calls w)" "''StartClient''"] assms
  by (auto simp: StartClient_def fresh_worker_def)

lemma start_run_fresh:
  "list_all is_start ps \<Longrightarrow> fresh_worker w \<Longrightarrow> \<exists>w'. lifecycle_run tx reg ps w = Inr w' \<and> fresh_worker w'"
proof (induction ps arbitrary: w)
  case Nil
  then show ?case by simp
next
  case (Cons p ps)
  have "\<exists>w'. lifecycle_step tx reg p w = Inr w' \<and> fresh_worker w'"
  proof (cases p)
    case (OpStart fs fc)
    then obtain e w1 where "StartServer fs w = Inr (e, w1)" "fresh_worker w1" using start_server_fresh Cons.prems by force
    then show ?thesis using start_client_fresh [of w1 fc] OpStart Cons.prems by (cases e) (auto simp: Start_def)
  next
    case (OpStartServer f)
    then show ?thesis using start_server_fresh [of w f] Cons.prems by auto
  next
    case (OpStartClient f)
    then show ?thesis using start_client_fresh [of w f] Cons.prems by auto
  qed (use Cons.prems in simp_all)
  then show ?case using Cons by auto
qed

lemma stop_server_settled: "settled_side s \<Longrightarrow> settled_side (StopServer s) \<and> stopped (StopServer s)"
  by (auto simp: StopServer_def settled_side_def Let_def)

lemma stop_client_settled:
  assumes "settled_worker w"
  shows "\<exists>w'. StopClient tx reg w = Inr w' \<and> settled_worker w' \<and> stopped (client_side w') \<and> server_side w' = server_side w \<and>
    (\<not> stopped (client_side w) \<and> running (client_side w) \<longrightarrow> handlers (calls w') = Map.empty)"
proof (cases "stopped (client_side w) \<or> \<not> running (client_side w)")
  case True
  then show ?thesis using assms by (auto simp: StopClient_def settled_worker_def settled_side_def Let_def)
next
  case False
  obtain c where "cancel_pending tx reg (calls w) = Inr c" "client_inv c" "handlers c = Map.empty"
    using cancel_step [of "calls w" tx reg] assms by (auto simp: settled_worker_def)
  then show ?thesis using False assms by (auto simp: StopClient_def settled_worker_def settled_side_def Let_def)
qed

lemma stop_settled:
  assumes "settled_worker w"
  shows "\<exists>w'. Stop tx reg w = Inr w' \<and> settled_worker w' \<and> stopped (client_side w') \<and> stopped (server_side w')"
proof -
  let ?w = "w\<lparr>stopping := True, server_side := StopServer (server_side w)\<rparr>"
  have "settled_worker ?w" using assms stop_server_settled by (simp add: settled_worker_def)
  then show ?thesis using stop_client_settled [of ?w tx reg] stop_server_settled [of "server_side w"] assms
    by (auto simp: Stop_def settled_worker_def)
qed

lemma stop_run_settled:
  "list_all is_stop ps \<Longrightarrow> settled_worker w \<Longrightarrow> \<exists>w'. lifecycle_run tx reg ps w = Inr w' \<and> settled_worker w'"
proof (induction ps arbitrary: w)
  case Nil
  then show ?case by simp
next
  case (Cons p ps)
  have "\<exists>w'. lifecycle_step tx reg p w = Inr w' \<and> settled_worker w'"
    using Cons.prems stop_settled [of w tx reg] stop_client_settled [of w tx reg] stop_server_settled [of "server_side w"]
    by (cases p) (auto simp: settled_worker_def)
  then show ?case using Cons by auto
qed

lemma run_append:
  "lifecycle_run tx reg (ps @ qs) w = (case lifecycle_run tx reg ps w of Inl h \<Rightarrow> Inl h | Inr w' \<Rightarrow> lifecycle_run tx reg qs w')"
  by (induction ps arbitrary: w) (auto split: sum.splits)

lemma worker_new_fresh: "fresh_worker (worker_new hlc)"
  using client_new_inv by (simp add: fresh_worker_def worker_new_def fresh_side_def side_new_def)

lemma fresh_worker_settled: "fresh_worker w \<Longrightarrow> settled_worker w"
  by (simp add: fresh_worker_def settled_worker_def fresh_settled)

subsection \<open>Properties\<close>

text \<open>
  C32. A worker that is started (any start may fail to create its thread) and then stopped any number of
  times, in any order of its two sides, is destroyed cleanly: no thread is left to be joined.
\<close>

theorem started_then_stopped_destroys:
  assumes "list_all is_start ps" and "list_all is_stop qs"
  shows "\<exists>(w :: 'b worker) c. lifecycle_run tx reg (ps @ qs) (worker_new hlc) = Inr w \<and> AxonWorker_destroy tx reg w = Inr c"
proof -
  obtain w1 :: "'b worker" where w1: "lifecycle_run tx reg ps (worker_new hlc) = Inr w1" "fresh_worker w1"
    using start_run_fresh [OF assms(1) worker_new_fresh] by blast
  obtain w2 where w2: "lifecycle_run tx reg qs w1 = Inr w2" "settled_worker w2"
    using stop_run_settled [OF assms(2) fresh_worker_settled [OF w1(2)]] by blast
  obtain w3 where "Stop tx reg w2 = Inr w3" "settled_worker w3" "stopped (client_side w3)" "stopped (server_side w3)"
    using stop_settled [OF w2(2)] by blast
  then have "AxonWorker_destroy tx reg w2 = Inr (calls w3)" by (auto simp: AxonWorker_destroy_def settled_worker_def settled_side_def)
  then show ?thesis using w1(1) w2(1) by (simp add: run_append)
qed

theorem started_then_stopped_destroys_witness:
  "\<exists>(w :: unit worker) c. lifecycle_run example_texts axon_registry ([OpStart NoFailure NoFailure] @ [OpStopClient, OpStop]) (worker_new (HybridLogicalClock 0)) = Inr w \<and>
     AxonWorker_destroy example_texts axon_registry w = Inr c"
  by (rule started_then_stopped_destroys) simp_all

text \<open>
  The stop flags are never reset: a server that is started again after it was stopped (or stopped
  before it was first started) is not stopped a second time, and destroying the worker ends the
  program with a thread that was not joined.
\<close>

theorem restart_after_stop_terminates:
  assumes "settled_worker w" and "stopped (server_side w)"
  shows "\<exists>w'. StartServer NoFailure w = Inr (None, w') \<and> AxonWorker_destroy tx reg w' = Inl Terminate"
proof -
  let ?s = "(server_side w)\<lparr>running := True, joinable := True, loop_future := True\<rparr>"
  let ?w = "w\<lparr>server_side := ?s\<rparr>"
  have st: "StartServer NoFailure w = Inr (None, ?w)"
    using assms by (cases "server_side w") (auto simp: StartServer_def start_side_def settled_worker_def settled_side_def)
  have keep: "StopServer ?s = ?s" using assms(2) by (simp add: StopServer_def)
  have "Stop tx reg ?w = StopClient tx reg (w\<lparr>stopping := True, server_side := ?s\<rparr>)" by (simp add: Stop_def keep)
  moreover have "\<exists>w'. StopClient tx reg (w\<lparr>stopping := True, server_side := ?s\<rparr>) = Inr w' \<and> server_side w' = ?s"
  proof -
    obtain w1 where "StopClient tx reg (w\<lparr>stopping := True\<rparr>) = Inr w1"
      using stop_client_settled [of "w\<lparr>stopping := True\<rparr>" tx reg] assms(1) by (auto simp: settled_worker_def)
    then show ?thesis by (auto simp: StopClient_def Let_def split: if_splits sum.splits)
  qed
  ultimately show ?thesis using st by (auto simp: AxonWorker_destroy_def)
qed

theorem restart_after_stop_terminates_witness:
  "\<exists>w w' :: unit worker. Stop example_texts axon_registry (worker_new (HybridLogicalClock 0)) = Inr w \<and>
     StartServer NoFailure w = Inr (None, w') \<and> AxonWorker_destroy example_texts axon_registry w' = Inl Terminate"
proof -
  obtain w :: "unit worker" where w: "Stop example_texts axon_registry (worker_new (HybridLogicalClock 0)) = Inr w"
    "settled_worker w" "stopped (server_side w)"
    using stop_settled [OF fresh_worker_settled [OF worker_new_fresh], of example_texts axon_registry "HybridLogicalClock 0"] by blast
  then show ?thesis using restart_after_stop_terminates [OF w(2,3)] by blast
qed

text \<open>A start whose loop could not be spawned leaves a thread that no later operation joins.\<close>

lemma spawn_failure_terminates:
  "\<exists>e w. StartServer (SpawnFails what) (worker_new hlc) = Inr (Some e, w) \<and> AxonWorker_destroy tx reg w = Inl Terminate \<and>
     StartServer NoFailure w = Inl Terminate"
  by (simp add: StartServer_def start_side_def worker_new_def side_new_def AxonWorker_destroy_def Stop_def StopServer_def
      StopClient_def Let_def)

end
