(* ===== verification/Worker_Server.thy ===== *)
theory Worker_Server
  imports Async_Dispatcher Worker_Requests Worker_Lifecycle
begin

text \<open>
  The server side of a worker: how a received request is checked, handed to its handler, dispatched and
  answered (\<open>axon_worker.cpp\<close>, lines 429 to 780 and 988 to 1385, and the handler visitor of
  \<open>axon_worker.hpp\<close>). A pipeline of senders is the signal it completes with. The environment gives what the
  other side and the libraries decide: the deserialised header, the signal of receiving a rendezvous payload
  and of sending a response, the clock, the address of a new request and what a move leaves of a header.
  Metrics are left out. \<open>ServerProcessMessage_\<close> is \<open>noexcept\<close>: an exception out of it ends the program.
\<close>

subsection \<open>State\<close>

datatype received_buffer = RB_monostate | RB_buffer | RB_vec | RB_variant

datatype mem_policy = AlwaysOnHostPolicy | CustomMemoryPolicy "TensorMeta list \<Rightarrow> exn + payload"

datatype lc_policy = TransientPolicy | RetentionPolicy "stored_request \<Rightarrow> u64 \<Rightarrow> LifecycleStatus \<times> bool"

record request_handler =
  received :: received_buffer
  handler_memory :: mem_policy
  handler_lifecycle :: lc_policy

record rndv_desc =
  desc_conn_id :: u64
  desc_length :: nat

type_synonym worker_dispatcher = "(UcxBuffer, UcxBufferVec) AsyncRpcDispatcher"

record server =
  server_hlc :: HybridLogicalClock
  dispatcher :: worker_dispatcher
  registered_handlers :: "u32 \<rightharpoonup> request_handler"
  reject_messages :: bool
  bypass_backpressure_checker :: "(u32 \<Rightarrow> bool) option"
  server_timeout :: nat
  am_descs :: "u64 \<rightharpoonup> rndv_desc"
  released_descs :: "u64 list"
  storage :: request_store
  server_errors :: "AxonErrorContext list"
  sent :: "(u64 \<times> RpcResponseHeader \<times> payload) list"
  failed_count :: nat

definition server_new :: "HybridLogicalClock \<Rightarrow> string \<Rightarrow> nat \<Rightarrow> server" where
  "server_new hlc name timeout =
     \<lparr>server_hlc = hlc, dispatcher = AsyncRpcDispatcher_new name, registered_handlers = Map.empty, reject_messages = False,
      bypass_backpressure_checker = None, server_timeout = timeout, am_descs = Map.empty, released_descs = [],
      storage = request_store_new, server_errors = [], sent = [], failed_count = 0\<rparr>"

text \<open>What a rendezvous payload is received into: memory the context allocates, or a buffer.\<close>

datatype recv_request = RecvHost | RecvHostVec "u64 list" | RecvInto payload

datatype 'a signal = Value 'a | Failed any_error | Done

record 'hd server_env =
  deserialize_request :: "'hd \<Rightarrow> exn + RpcRequestHeader"
  receive_payload :: "u64 \<Rightarrow> recv_request \<Rightarrow> payload signal"
  send_result :: "u64 \<Rightarrow> RpcResponseHeader \<Rightarrow> payload \<Rightarrow> unit signal"
  merge_ms :: u64
  tick_ms :: u64
  place :: placement
  moved_header :: "RpcRequestHeader \<Rightarrow> RpcRequestHeader"

datatype 'hd recv_message = RndvMessage u64 'hd | EagerMessage u64 'hd UcxBuffer

subsection \<open>Registration and configuration\<close>

definition RegisterFunction_worker ::
  "u32 \<Rightarrow> string \<Rightarrow> ParamType list \<Rightarrow> ParamType list \<Rightarrow> PayloadType \<Rightarrow> PayloadType \<Rightarrow>
   (ParamMeta list \<Rightarrow> payload option \<Rightarrow> exn + (ParamMeta list \<times> payload) completion) \<Rightarrow> request_handler \<Rightarrow>
   server \<Rightarrow> exn option \<times> server" where
  "RegisterFunction_worker fid name param_types return_types input_payload_type return_payload_type func h s =
     (case RegisterFunction_async_dynamic fid name param_types return_types input_payload_type return_payload_type func (dispatcher s) of
        (Some e, d) \<Rightarrow> (Some e, s\<lparr>dispatcher := d\<rparr>)
      | (None, d) \<Rightarrow> (None, s\<lparr>dispatcher := d, registered_handlers := map_emplace fid h (registered_handlers s)\<rparr>))"

definition SetRejectMessages :: "bool \<Rightarrow> server \<Rightarrow> server" where
  "SetRejectMessages r s = s\<lparr>reject_messages := r\<rparr>"

definition SetTimeout :: "nat \<Rightarrow> server \<Rightarrow> server" where
  "SetTimeout ms s = s\<lparr>server_timeout := ms\<rparr>"

definition SetBypassRejectionFunction :: "(u32 \<Rightarrow> bool) \<Rightarrow> server \<Rightarrow> server" where
  "SetBypassRejectionFunction checker s = s\<lparr>bypass_backpressure_checker := Some checker\<rparr>"

definition ReportServerError :: "AxonErrorContext \<Rightarrow> server \<Rightarrow> server" where
  "ReportServerError ctx s = s\<lparr>server_errors := server_errors s @ [ctx]\<rparr>"

subsection \<open>Checking a header\<close>

definition request_context :: "u64 \<Rightarrow> RpcRequestHeader \<Rightarrow> HybridLogicalClock \<Rightarrow> AxonErrorContext" where
  "request_context conn h hlc =
     AxonErrorContext_new\<lparr>ax_conn_id := conn, ax_session_id := rq_session_id h, ax_request_id := rq_request_id h,
       ax_function_id := rq_function_id h, ax_hlc := hlc, ax_workflow_id := rq_workflow_id h\<rparr>"

definition with_status :: "error_code \<Rightarrow> string \<Rightarrow> AxonErrorContext \<Rightarrow> AxonErrorContext" where
  "with_status ec what c = c\<lparr>ax_status := RpcStatus_of ec, ax_what := what\<rparr>"

definition ServerProcessHeader ::
  "'hd server_env \<Rightarrow> u64 \<Rightarrow> 'hd \<Rightarrow> server \<Rightarrow> (AxonErrorContext + RpcRequestHeader \<times> request_handler) \<times> server" where
  "ServerProcessHeader env conn header_bytes s =
     (case deserialize_request env header_bytes of
        Inl e \<Rightarrow>
          (Inl (with_status (make_axon_error_code DeserializeError) (''Invalid request header: '' @ exn_what e)
             (AxonErrorContext_new\<lparr>ax_conn_id := conn, ax_hlc := server_hlc s\<rparr>)), s)
      | Inr h \<Rightarrow>
          let s1 = s\<lparr>server_hlc := Merge (raw (rq_hlc h)) (merge_ms env) (server_hlc s)\<rparr>;
              ctx = request_context conn h (server_hlc s1);
              is_rejecting = reject_messages s1;
              can_bypass = (case bypass_backpressure_checker s1 of Some check \<Rightarrow> is_rejecting \<and> check (rq_function_id h) | None \<Rightarrow> False)
          in
          if is_rejecting \<and> \<not> can_bypass
          then (Inl (with_status (make_axon_error_code StorageBackpressure) ''Message rejected by server context'' ctx), s1)
          else
            (case registered_handlers s1 (rq_function_id h) of
               None \<Rightarrow> (Inl (with_status (make_error_code NOT_FOUND) ''Function not registered'' ctx), s1)
             | Some handler \<Rightarrow> (Inr (h, handler), s1)))"

subsection \<open>Dispatch\<close>

definition send_response :: "'hd server_env \<Rightarrow> u64 \<Rightarrow> RpcResponseHeader \<Rightarrow> payload \<Rightarrow> server \<Rightarrow> unit signal \<times> server" where
  "send_response env conn h p s = (send_result env conn h p, s\<lparr>sent := sent s @ [(conn, h, p)]\<rparr>)"

definition transform_error :: "status_texts \<Rightarrow> 'a signal \<times> server \<Rightarrow> 'a signal \<times> server" where
  "transform_error tx r =
     (case fst r of Failed e \<Rightarrow> (Failed (ErrPtr (TransformErrorToRpcException tx e)), snd r) | _ \<Rightarrow> r)"

definition dispatch_and_send ::
  "status_texts \<Rightarrow> 'hd server_env \<Rightarrow> u64 \<Rightarrow> RpcRequestHeader \<Rightarrow> payload \<Rightarrow> server \<Rightarrow> halt + unit signal \<times> server" where
  "dispatch_and_send tx env conn h p s =
     (case Dispatch_async_variant h (Some p) (dispatcher s) of
        Fault x \<Rightarrow> Inl (Broken x)
      | Throw e \<Rightarrow> Inr (transform_error tx (Failed (ErrPtr (StdEx (exn_what e))), s))
      | Ok (Completes (rh, rp)) \<Rightarrow> Inr (transform_error tx (send_response env conn rh rp s))
      | Ok (Fails e) \<Rightarrow> Inr (transform_error tx (Failed (ErrPtr e), s))
      | Ok Stops \<Rightarrow> Inr (Done, s))"

text \<open>
  \<open>ServerDispatchAndManageLifecycle_\<close>. With a retention policy the request takes over the header before
  the dispatch, which then reads what the move left of it, and the payload is read through a reference
  into the request.
\<close>

definition ServerDispatchAndManageLifecycle ::
  "status_texts \<Rightarrow> 'hd server_env \<Rightarrow> u64 \<Rightarrow> RpcRequestHeader \<Rightarrow> payload \<Rightarrow> lc_policy \<Rightarrow> server \<Rightarrow> halt + unit signal \<times> server" where
  "ServerDispatchAndManageLifecycle tx env conn h p policy s =
     (case policy of
        TransientPolicy \<Rightarrow> dispatch_and_send tx env conn h p s
      | RetentionPolicy lc \<Rightarrow>
          (case retention_fn (place env) lc h p (storage s) of
             Fault x \<Rightarrow> Inl (Broken x)
           | Throw e \<Rightarrow> Inr (transform_error tx (Failed (ErrPtr (StdEx (exn_what e))), s))
           | Ok (ob, st) \<Rightarrow>
               (case retained_payload ob st of
                  Ok p' \<Rightarrow> dispatch_and_send tx env conn (moved_header env h) p' (s\<lparr>storage := st\<rparr>)
                | Throw e \<Rightarrow> Inr (transform_error tx (Failed (ErrPtr (StdEx (exn_what e))), s\<lparr>storage := st\<rparr>))
                | Fault x \<Rightarrow> Inl (Broken x))))"

subsection \<open>Handlers\<close>

text \<open>The metadata for a payload without any; the variable is zero-initialised and \<open>ndim\<close> is not set.\<close>

definition fallback_meta :: "nat \<Rightarrow> TensorMeta" where
  "fallback_meta n =
     \<lparr>tm_device = \<lparr>device_type = 0, device_id = 0\<rparr>, tm_ndim = 0, tm_dtype = \<lparr>dt_code = 3, dt_bits = 8, dt_lanes = 1\<rparr>,
      tm_byte_offset = 0, tm_shape = [int n], tm_strides = []\<rparr>"

definition rndv_metas :: "RpcRequestHeader \<Rightarrow> rndv_desc option \<Rightarrow> TensorMeta list outcome" where
  "rndv_metas h d =
     bind_outcome (GetTensorMetas (rq_params h)) (\<lambda>ms. Ok
       (if ms = [] then (case d of Some x \<Rightarrow> if 0 < desc_length x then [fallback_meta (desc_length x)] else [] | None \<Rightarrow> []) else ms))"

definition ProcessRndvBuffer :: "PayloadType \<Rightarrow> mem_policy \<Rightarrow> TensorMeta list \<Rightarrow> recv_request outcome" where
  "ProcessRndvBuffer buffer_type policy metas =
     (case policy of
        AlwaysOnHostPolicy \<Rightarrow>
          if buffer_type = UCX_BUFFER_VEC then bind_outcome (collect CalculateTensorSize metas) (\<lambda>sizes. Ok (RecvHostVec sizes))
          else Ok RecvHost
      | CustomMemoryPolicy f \<Rightarrow>
          (case f metas of
             Inl e \<Rightarrow> Throw e
           | Inr p \<Rightarrow> if payload_tag p = buffer_type then Ok (RecvInto p)
                     else Throw (runtime_error ''Memory policy returned incompatible buffer type'')))"

datatype pipeline = PipeError AxonErrorContext | PipeReceive u64 recv_request | PipeDispatch payload

text \<open>\<open>ServerRequestHandlerVisitor_\<close> on the rendezvous path: the part that runs before a sender is returned.\<close>

definition visit_rndv :: "request_handler \<Rightarrow> u64 \<Rightarrow> RpcRequestHeader \<Rightarrow> u64 \<Rightarrow> server \<Rightarrow> pipeline outcome" where
  "visit_rndv hn conn h am_desc_key s =
     bind_outcome (rndv_metas h (am_descs s am_desc_key)) (\<lambda>metas.
       let ctx = request_context conn h (server_hlc s) in
       if metas = []
       then Ok (PipeError (with_status (make_error_code INTERNAL)
              ''RNDV request received but no tensor metas found in request header and no data expected.'' ctx))
       else
         (case received hn of
            RB_monostate \<Rightarrow> Ok (PipeError (with_status (make_error_code INVALID_ARGUMENT)
              ''Received RNDV request for function registered with std::monostate (no payload)'' ctx))
          | RB_variant \<Rightarrow>
              bind_outcome (ProcessRndvBuffer (if length metas = 1 then UCX_BUFFER else UCX_BUFFER_VEC) (handler_memory hn) metas)
                (\<lambda>r. Ok (PipeReceive am_desc_key r))
          | RB_buffer \<Rightarrow> bind_outcome (ProcessRndvBuffer UCX_BUFFER (handler_memory hn) metas) (\<lambda>r. Ok (PipeReceive am_desc_key r))
          | RB_vec \<Rightarrow> bind_outcome (ProcessRndvBuffer UCX_BUFFER_VEC (handler_memory hn) metas) (\<lambda>r. Ok (PipeReceive am_desc_key r))))"

definition visit_eager :: "request_handler \<Rightarrow> u64 \<Rightarrow> RpcRequestHeader \<Rightarrow> UcxBuffer \<Rightarrow> server \<Rightarrow> pipeline outcome" where
  "visit_eager hn conn h b s =
     (case received hn of
        RB_monostate \<Rightarrow> Ok (PipeError (with_status (make_error_code INVALID_ARGUMENT)
          ''Received Eager request for function registered with std::monostate (no payload)''
          (request_context conn h (server_hlc s))))
      | RB_vec \<Rightarrow>
          bind_outcome (GetTensorMetas (rq_params h)) (\<lambda>metas.
          bind_outcome (if metas = [] then Ok [b_size (ub_buffer b)]
                        else bind_outcome (collect CalculateTensorSize metas) (\<lambda>sizes. Ok (map unat sizes))) (\<lambda>sizes.
          bind_outcome (to_buffer_vec sizes b) (\<lambda>(v, _). Ok (PipeDispatch (UcxBufferVec v)))))
      | _ \<Rightarrow> Ok (PipeDispatch (UcxBuffer b)))"

text \<open>The part of a handler that runs as a sender; receiving takes the descriptor out of the table.\<close>

fun run_pipeline ::
  "status_texts \<Rightarrow> 'hd server_env \<Rightarrow> request_handler \<Rightarrow> u64 \<Rightarrow> RpcRequestHeader \<Rightarrow> pipeline \<Rightarrow> server \<Rightarrow> halt + unit signal \<times> server" where
  "run_pipeline tx env hn conn h (PipeError c) s = Inr (Failed (ErrCtx c), s)"
| "run_pipeline tx env hn conn h (PipeDispatch p) s = ServerDispatchAndManageLifecycle tx env conn h p (handler_lifecycle hn) s"
| "run_pipeline tx env hn conn h (PipeReceive key r) s =
     (let s1 = s\<lparr>am_descs := (am_descs s)(key := None)\<rparr> in
      case receive_payload env key r of
        Value p \<Rightarrow> ServerDispatchAndManageLifecycle tx env conn h p (handler_lifecycle hn) s1
      | Failed e \<Rightarrow> Inr (Failed e, s1)
      | Done \<Rightarrow> Inr (Done, s1))"

subsection \<open>Processing a message\<close>

definition deadline_exceeded :: "u64 \<Rightarrow> RpcRequestHeader \<Rightarrow> server \<Rightarrow> AxonErrorContext" where
  "deadline_exceeded conn h s =
     with_status (make_error_code DEADLINE_EXCEEDED)
       (''Deadline exceeded '' @ to_string (server_timeout s) @ '' milliseconds when executing registered function: '' @
        to_string (unat (rq_function_id h))) (request_context conn h (server_hlc s))"

definition settle :: "status_texts \<Rightarrow> u64 \<Rightarrow> RpcRequestHeader \<Rightarrow> server \<Rightarrow> unit signal \<Rightarrow> unit signal" where
  "settle tx conn h s r =
     (case r of
        Value u \<Rightarrow> Value u
      | Failed e \<Rightarrow> Failed (ErrCtx (RethrowErrorContextHelper tx (request_context conn h (server_hlc s)) e))
      | Done \<Rightarrow> Failed (ErrCtx (ReturnTimeoutErrorContextHelper (deadline_exceeded conn h s) None)))"

definition ServerProcessValidMessage ::
  "status_texts \<Rightarrow> 'hd server_env \<Rightarrow> request_handler \<Rightarrow> u64 \<Rightarrow> RpcRequestHeader \<Rightarrow> pipeline outcome \<Rightarrow> server \<Rightarrow> halt + unit signal \<times> server" where
  "ServerProcessValidMessage tx env hn conn h visited s =
     (case visited of
        Throw e \<Rightarrow> Inl Terminate
      | Fault x \<Rightarrow> Inl (Broken x)
      | Ok pipe \<Rightarrow>
          (case run_pipeline tx env hn conn h pipe s of
             Inl x \<Rightarrow> Inl x
           | Inr (r, s') \<Rightarrow> Inr (settle tx conn h s r, s')))"

fun ServerProcessMessage :: "status_texts \<Rightarrow> 'hd server_env \<Rightarrow> 'hd recv_message \<Rightarrow> server \<Rightarrow> halt + unit signal \<times> server" where
  "ServerProcessMessage tx env (RndvMessage am_desc_key header_bytes) s =
     (case am_descs s am_desc_key of
        None \<Rightarrow> Inr (Failed (ErrCtx (with_status (make_error_code NOT_FOUND) ''AM descriptor not found''
                  (AxonErrorContext_new\<lparr>ax_hlc := server_hlc s\<rparr>))), s)
      | Some d \<Rightarrow>
          (case ServerProcessHeader env (desc_conn_id d) header_bytes s of
             (Inr (h, hn), s1) \<Rightarrow>
               ServerProcessValidMessage tx env hn (desc_conn_id d) h (visit_rndv hn (desc_conn_id d) h am_desc_key s1) s1
           | (Inl c, s1) \<Rightarrow>
               Inr (Failed (ErrCtx c),
                 s1\<lparr>am_descs := (am_descs s1)(am_desc_key := None), released_descs := released_descs s1 @ [am_desc_key]\<rparr>)))"
| "ServerProcessMessage tx env (EagerMessage conn header_bytes b) s =
     (case ServerProcessHeader env conn header_bytes s of
        (Inr (h, hn), s1) \<Rightarrow> ServerProcessValidMessage tx env hn conn h (visit_eager hn conn h b s1) s1
      | (Inl c, s1) \<Rightarrow> Inr (Failed (ErrCtx c), s1))"

definition error_header :: "HybridLogicalClock \<Rightarrow> AxonErrorContext \<Rightarrow> RpcResponseHeader" where
  "error_header hlc c =
     \<lparr>rs_session_id = ax_session_id c, rs_request_id = ax_request_id c, rs_hlc = hlc, rs_workflow_id = ax_workflow_id c,
      rs_status = ax_status c, rs_results = [\<lparr>pm_type = STRING, pm_value = StringV (ax_what c), pm_name = []\<rparr>]\<rparr>"

definition ServerHandleSendErrorResponse :: "'hd server_env \<Rightarrow> AxonErrorContext \<Rightarrow> server \<Rightarrow> unit signal \<times> server" where
  "ServerHandleSendErrorResponse env c s =
     (let s1 = s\<lparr>failed_count := Suc (failed_count s), server_hlc := TickLocal (tick_ms env) (server_hlc s)\<rparr> in
      send_response env (ax_conn_id c) (error_header (server_hlc s1) c) Monostate s1)"

text \<open>\<open>ServerCtxLoopSpawnImpl_\<close>: the error response, and the report of what could not be answered.\<close>

definition ServerCtxLoopSpawnImpl :: "status_texts \<Rightarrow> 'hd server_env \<Rightarrow> 'hd recv_message \<Rightarrow> server \<Rightarrow> halt + server" where
  "ServerCtxLoopSpawnImpl tx env m s =
     (case ServerProcessMessage tx env m s of
        Inl x \<Rightarrow> Inl x
      | Inr (r, s1) \<Rightarrow>
          let (r2, s2) =
            (case r of
               Failed (ErrCtx c) \<Rightarrow> ServerHandleSendErrorResponse env c (ReportServerError c s1)
             | _ \<Rightarrow> (r, s1))
          in Inr (case r2 of Failed e \<Rightarrow> ReportServerError (message_error_context tx (server_hlc s2) e) s2 | _ \<Rightarrow> s2))"

subsection \<open>Lemmas\<close>

lemma header_keeps:
  assumes "ServerProcessHeader env conn hb s = (r, s1)"
  shows "\<exists>c. s1 = s\<lparr>server_hlc := c\<rparr>"
proof -
  have "s = s\<lparr>server_hlc := server_hlc s\<rparr>" by simp
  then have same: "\<exists>c. s = s\<lparr>server_hlc := c\<rparr>" by blast
  show ?thesis using assms same
    by (auto simp: ServerProcessHeader_def Let_def simp del: server.surjective split: sum.splits if_splits option.splits)
qed

definition has_ids :: "u64 \<Rightarrow> RpcRequestHeader \<Rightarrow> AxonErrorContext \<Rightarrow> bool" where
  "has_ids conn h c \<longleftrightarrow> ax_conn_id c = conn \<and> ax_session_id c = rq_session_id h \<and> ax_request_id c = rq_request_id h"

lemma has_ids_context [simp]: "has_ids conn h (request_context conn h hlc)" "has_ids conn h (with_status ec w c) = has_ids conn h c"
  by (auto simp: has_ids_def request_context_def with_status_def)

lemma header_error_ids:
  assumes "ServerProcessHeader env conn hb s = (Inl c, s1)" and "deserialize_request env hb = Inr h"
  shows "has_ids conn h c"
  using assms by (auto simp: ServerProcessHeader_def Let_def split: if_splits option.splits)

lemma header_ok:
  assumes "ServerProcessHeader env conn hb s = (Inr (h, hn), s1)"
  shows "deserialize_request env hb = Inr h \<and> registered_handlers s (rq_function_id h) = Some hn"
  using assms by (auto simp: ServerProcessHeader_def Let_def split: sum.splits if_splits option.splits)

lemma rethrow_has_ids:
  assumes "\<And>c. own_context e = Some c \<Longrightarrow> has_ids conn h c"
  shows "has_ids conn h (RethrowErrorContextHelper tx (request_context conn h hlc) e)"
proof (cases "own_context e")
  case None
  then show ?thesis using rethrow_ids [of e tx "request_context conn h hlc"]
    by (auto simp: has_ids_def request_context_def)
next
  case (Some c)
  then show ?thesis using assms by (simp add: rethrow_own)
qed

text \<open>
  What a handler leaves: either a response of the function was sent and nothing else, or nothing was sent
  and the error says whose request failed.
\<close>

definition handler_result :: "u64 \<Rightarrow> RpcRequestHeader \<Rightarrow> worker_dispatcher \<Rightarrow> server \<Rightarrow> unit signal \<Rightarrow> server \<Rightarrow> bool" where
  "handler_result conn h d s r s' \<longleftrightarrow> server_errors s' = server_errors s \<and>
     (case r of
        Value u \<Rightarrow> (\<exists>h' p rh rp. InvokeAsyncFunction h' (Some p) d = Ok (Completes (rh, rp)) \<and> sent s' = sent s @ [(conn, rh, rp)])
      | Failed e \<Rightarrow> sent s' = sent s \<and> (\<forall>c. own_context e = Some c \<longrightarrow> has_ids conn h c)
      | Done \<Rightarrow> sent s' = sent s)"

lemma handler_result_frame:
  assumes "sent s1 = sent s" and "server_errors s1 = server_errors s"
  shows "handler_result conn h d s1 r s' = handler_result conn h d s r s'"
  using assms by (cases r) (auto simp: handler_result_def)

text \<open>Functions and receive operations that fail with an error context of their own name their own request.\<close>

definition no_own_context :: "'hd server_env \<Rightarrow> worker_dispatcher \<Rightarrow> bool" where
  "no_own_context env d \<longleftrightarrow>
     (\<forall>h p c. InvokeAsyncFunction h (Some p) d \<noteq> Ok (Fails (AxonEx c))) \<and>
     (\<forall>key r e. receive_payload env key r = Failed e \<longrightarrow> own_context e = None)"

definition sends_succeed :: "'hd server_env \<Rightarrow> bool" where
  "sends_succeed env \<longleftrightarrow> (\<forall>conn h p. send_result env conn h p = Value ())"

lemma own_ptr: "(\<And>c. x \<noteq> AxonEx c) \<Longrightarrow> own_context (ErrPtr x) = None"
  by (cases x) auto

lemma dispatch_result:
  assumes "dispatch_and_send tx env conn h' p s = Inr (r, s')" and "sends_succeed env" and "no_own_context env (dispatcher s)"
  shows "handler_result conn h (dispatcher s) s r s'"
proof (cases "InvokeAsyncFunction h' (Some p) (dispatcher s)")
  case (Ok c)
  then have "c \<noteq> Fails (AxonEx x)" for x using assms(3) by (auto simp: no_own_context_def)
  then show ?thesis using assms(1,2) Ok
    by (cases c) (auto simp: dispatch_and_send_def transform_error_def send_response_def handler_result_def sends_succeed_def own_ptr
        split: prod.splits intro!: exI [of _ h'])
next
  case (Throw e)
  then show ?thesis using invoke_never_throws by blast
qed (use assms(1) in \<open>auto simp: dispatch_and_send_def\<close>)

lemma lifecycle_result:
  assumes "ServerDispatchAndManageLifecycle tx env conn h p policy s = Inr (r, s')" and "sends_succeed env" and "no_own_context env (dispatcher s)"
  shows "handler_result conn h (dispatcher s) s r s'"
proof (cases policy)
  case TransientPolicy
  then show ?thesis using assms dispatch_result by (auto simp: ServerDispatchAndManageLifecycle_def)
next
  case (RetentionPolicy lc)
  have keep: "handler_result conn h (dispatcher s) (s\<lparr>storage := st\<rparr>) r' s1 \<Longrightarrow> handler_result conn h (dispatcher s) s r' s1" for st r' s1
    by (simp add: handler_result_frame [of "s\<lparr>storage := st\<rparr>" s])
  have failed: "handler_result conn h (dispatcher s) s (Failed (ErrPtr (StdEx w))) s" for w
    by (simp add: handler_result_def)
  show ?thesis
  proof (cases "retention_fn (place env) lc h p (storage s)")
    case (Ok x)
    obtain ob st where x: "x = (ob, st)" by fastforce
    show ?thesis
    proof (cases "retained_payload ob st")
      case Read: (Ok p')
      then have "dispatch_and_send tx env conn (moved_header env h) p' (s\<lparr>storage := st\<rparr>) = Inr (r, s')"
        using assms(1) RetentionPolicy Ok x by (simp add: ServerDispatchAndManageLifecycle_def)
      from dispatch_result [OF this assms(2), of h] assms(3) show ?thesis by (intro keep) simp
    qed (use assms(1) RetentionPolicy Ok x failed keep in \<open>auto simp: ServerDispatchAndManageLifecycle_def transform_error_def handler_result_def\<close>)
  qed (use assms(1) RetentionPolicy failed in \<open>auto simp: ServerDispatchAndManageLifecycle_def transform_error_def\<close>)
qed

lemma pipeline_result:
  assumes "run_pipeline tx env hn conn h pipe s = Inr (r, s')" and "sends_succeed env" and "no_own_context env (dispatcher s)"
    and "\<And>c. pipe = PipeError c \<Longrightarrow> has_ids conn h c"
  shows "handler_result conn h (dispatcher s) s r s'"
proof (cases pipe)
  case (PipeError c)
  then show ?thesis using assms by (auto simp: handler_result_def)
next
  case (PipeReceive key rq)
  let ?s = "s\<lparr>am_descs := (am_descs s)(key := None)\<rparr>"
  have keep: "handler_result conn h (dispatcher s) ?s r' s1 \<Longrightarrow> handler_result conn h (dispatcher s) s r' s1" for r' s1
    by (simp add: handler_result_frame [of ?s s])
  show ?thesis
  proof (cases "receive_payload env key rq")
    case (Value p)
    then have "ServerDispatchAndManageLifecycle tx env conn h p (handler_lifecycle hn) ?s = Inr (r, s')"
      using assms(1) PipeReceive by simp
    from lifecycle_result [OF this assms(2)] assms(3) show ?thesis by (intro keep) simp
  next
    case (Failed e)
    then show ?thesis using assms(1,3) PipeReceive by (auto simp: handler_result_def no_own_context_def)
  next
    case Done
    then show ?thesis using assms(1) PipeReceive by (auto simp: handler_result_def)
  qed
next
  case (PipeDispatch p)
  then show ?thesis using lifecycle_result assms by simp
qed

lemma visits_name_request:
  "visit_rndv hn conn h key s = Ok (PipeError c) \<Longrightarrow> has_ids conn h c"
  "visit_eager hn conn h b s = Ok (PipeError c) \<Longrightarrow> has_ids conn h c"
  by (auto simp: visit_rndv_def visit_eager_def Let_def bind_outcome_Ok_iff split: if_splits received_buffer.splits)

definition message_result :: "u64 \<Rightarrow> RpcRequestHeader \<Rightarrow> worker_dispatcher \<Rightarrow> server \<Rightarrow> unit signal \<Rightarrow> server \<Rightarrow> bool" where
  "message_result conn h d s r s' \<longleftrightarrow> handler_result conn h d s r s' \<and> (r = Value () \<or> (\<exists>c. r = Failed (ErrCtx c)))"

lemma settle_result:
  assumes "handler_result conn h d s r s'"
  shows "message_result conn h d s (settle tx conn h s1 r) s'"
proof (cases r)
  case (Failed e)
  then show ?thesis using assms rethrow_has_ids [of e conn h tx]
    by (auto simp: message_result_def handler_result_def settle_def)
qed (use assms in \<open>auto simp: message_result_def handler_result_def settle_def ReturnTimeoutErrorContextHelper_def deadline_exceeded_def\<close>)

lemma valid_message_result:
  assumes "ServerProcessValidMessage tx env hn conn h visited s = Inr (r, s')" and "sends_succeed env"
    and "no_own_context env (dispatcher s)" and "\<And>c. visited = Ok (PipeError c) \<Longrightarrow> has_ids conn h c"
  shows "message_result conn h (dispatcher s) s r s'"
proof -
  obtain pipe r1 where "visited = Ok pipe" and "run_pipeline tx env hn conn h pipe s = Inr (r1, s')" and r: "r = settle tx conn h s r1"
    using assms(1) by (auto simp: ServerProcessValidMessage_def split: outcome.splits sum.splits)
  then have "handler_result conn h (dispatcher s) s r1 s'" using pipeline_result assms(2-4) by blast
  then show ?thesis unfolding r by (rule settle_result)
qed

fun message_conn :: "'hd recv_message \<Rightarrow> server \<Rightarrow> u64 option" where
  "message_conn (RndvMessage key hb) s = map_option desc_conn_id (am_descs s key)"
| "message_conn (EagerMessage conn hb b) s = Some conn"

fun message_header_bytes :: "'hd recv_message \<Rightarrow> 'hd" where
  "message_header_bytes (RndvMessage key hb) = hb"
| "message_header_bytes (EagerMessage conn hb b) = hb"

lemma message_result_hlc: "message_result conn h d (s\<lparr>server_hlc := c\<rparr>) r s' = message_result conn h d s r s'"
  by (simp add: message_result_def handler_result_frame [of "s\<lparr>server_hlc := c\<rparr>" s])

lemma process_message_result:
  assumes "ServerProcessMessage tx env m s = Inr (r, s')" and "message_conn m s = Some conn"
    and "deserialize_request env (message_header_bytes m) = Inr h"
    and "sends_succeed env" and "no_own_context env (dispatcher s)"
  shows "message_result conn h (dispatcher s) s r s'"
proof -
  obtain q s1 where q: "ServerProcessHeader env conn (message_header_bytes m) s = (q, s1)" by fastforce
  obtain c where s1: "s1 = s\<lparr>server_hlc := c\<rparr>" using header_keeps [OF q] by blast
  show ?thesis
  proof (cases q)
    case (Inl e)
    then show ?thesis using assms(1,2) q s1 header_error_ids [of env conn "message_header_bytes m" s e s1 h] assms(3)
      by (cases m) (auto simp: message_result_def handler_result_def)
  next
    case (Inr x)
    then obtain hn where x: "q = Inr (h, hn)" using header_ok [of env conn _ s _ _ s1] q assms(3) by (cases x) fastforce
    have valid: "message_result conn h (dispatcher s) s r s'"
      if "ServerProcessValidMessage tx env hn conn h visited s1 = Inr (r, s')" "\<And>c. visited = Ok (PipeError c) \<Longrightarrow> has_ids conn h c" for visited
      using valid_message_result [OF that(1) assms(4)] that(2) assms(5) by (simp add: s1 message_result_hlc)
    show ?thesis
    proof (cases m)
      case (RndvMessage key hb)
      then show ?thesis using assms(1,2) q x valid visits_name_request(1) by auto
    next
      case (EagerMessage conn' hb b)
      then show ?thesis using assms(1,2) q x valid visits_name_request(2) by auto
    qed
  qed
qed

text \<open>Only the receive and the rejection of a header touch the descriptors.\<close>

definition keeps_descs :: "server \<Rightarrow> server \<Rightarrow> bool" where
  "keeps_descs s s' \<longleftrightarrow> am_descs s' = am_descs s \<and> released_descs s' = released_descs s"

lemma transform_error_descs [simp]: "keeps_descs s (snd (transform_error tx x)) = keeps_descs s (snd x)"
  by (simp add: transform_error_def split: signal.splits)

lemma dispatch_descs: "dispatch_and_send tx env conn h p s = Inr (r, s') \<Longrightarrow> keeps_descs s s'"
  by (auto simp: dispatch_and_send_def transform_error_def keeps_descs_def send_response_def
      split: outcome.splits completion.splits signal.splits)

lemma lifecycle_descs: "ServerDispatchAndManageLifecycle tx env conn h p policy s = Inr (r, s') \<Longrightarrow> keeps_descs s s'"
  by (auto simp: ServerDispatchAndManageLifecycle_def transform_error_def keeps_descs_def
      split: lc_policy.splits outcome.splits dest!: dispatch_descs [unfolded keeps_descs_def])

lemma pipeline_descs:
  assumes "run_pipeline tx env hn conn h pipe s = Inr (r, s')"
  shows "released_descs s' = released_descs s \<and>
    am_descs s' = (case pipe of PipeReceive key _ \<Rightarrow> (am_descs s)(key := None) | _ \<Rightarrow> am_descs s)"
  using assms
  by (cases pipe) (auto simp: Let_def split: signal.splits dest!: lifecycle_descs [unfolded keeps_descs_def])

lemma visit_rndv_pipe:
  assumes "visit_rndv hn conn h key s = Ok pipe"
  shows "if received hn = RB_monostate \<or> rndv_metas h (am_descs s key) = Ok [] then \<exists>c. pipe = PipeError c else \<exists>r. pipe = PipeReceive key r"
  using assms
  by (auto simp: visit_rndv_def Let_def bind_outcome_Ok_iff split: if_splits received_buffer.splits)

lemma spawn_returns: "ServerProcessMessage tx env m s = Inr r \<Longrightarrow> \<exists>s'. ServerCtxLoopSpawnImpl tx env m s = Inr s'"
  by (cases r) (simp add: ServerCtxLoopSpawnImpl_def Let_def split: prod.splits)

lemma respond_descs:
  assumes "ServerProcessMessage tx env m s = Inr (r, s1)" and "ServerCtxLoopSpawnImpl tx env m s = Inr s'"
  shows "keeps_descs s1 s'"
  using assms
  by (auto simp: ServerCtxLoopSpawnImpl_def keeps_descs_def ServerHandleSendErrorResponse_def send_response_def ReportServerError_def
      Let_def split: signal.splits any_error.splits prod.splits)

subsection \<open>Properties\<close>

lemma request_answered:
  assumes "ServerCtxLoopSpawnImpl tx env m s = Inr s'" and "message_conn m s = Some conn"
    and "deserialize_request env (message_header_bytes m) = Inr h"
    and "sends_succeed env" and "no_own_context env (dispatcher s)"
  shows "\<exists>rh p. sent s' = sent s @ [(conn, rh, p)] \<and>
    ((server_errors s' = server_errors s \<and> (\<exists>h' q. InvokeAsyncFunction h' (Some q) (dispatcher s) = Ok (Completes (rh, p)))) \<or>
     (\<exists>c. server_errors s' = server_errors s @ [c] \<and> has_ids conn h c \<and> rh = error_header (server_hlc s') c \<and> p = Monostate))"
proof -
  obtain r s1 where p: "ServerProcessMessage tx env m s = Inr (r, s1)"
    using assms(1) by (auto simp: ServerCtxLoopSpawnImpl_def split: sum.splits)
  have res: "message_result conn h (dispatcher s) s r s1"
    using process_message_result [OF p assms(2-5)] .
  show ?thesis
  proof (cases "r = Value ()")
    case True
    then show ?thesis using assms(1) p res by (auto simp: ServerCtxLoopSpawnImpl_def message_result_def handler_result_def)
  next
    case False
    then obtain c where c: "r = Failed (ErrCtx c)" using res by (auto simp: message_result_def)
    then have "has_ids conn h c" "sent s1 = sent s" "server_errors s1 = server_errors s"
      using res by (auto simp: message_result_def handler_result_def)
    then show ?thesis using assms(1,4) p c
      by (auto simp: ServerCtxLoopSpawnImpl_def ServerHandleSendErrorResponse_def send_response_def sends_succeed_def
          ReportServerError_def Let_def has_ids_def)
  qed
qed


definition example_env :: "RpcRequestHeader \<Rightarrow> unit server_env" where
  "example_env h =
     \<lparr>deserialize_request = (\<lambda>_. Inr h), receive_payload = (\<lambda>_ _. Value Monostate), send_result = (\<lambda>_ _ _. Value ()),
      merge_ms = 0, tick_ms = 0, place = example_placement 0, moved_header = (\<lambda>h. h\<lparr>rq_params := []\<rparr>)\<rparr>"

definition example_server :: server where
  "example_server = server_new (HybridLogicalClock 0) ''worker'' 100"

definition example_buffer :: "nat \<Rightarrow> UcxBuffer" where
  "example_buffer n = UcxBuffer_of HOST \<lparr>b_data = At 1 0, b_size = n\<rparr> 0 True None"

lemma example_env_ok: "sends_succeed (example_env h)" "no_own_context (example_env h) (dispatcher example_server)"
  by (simp_all add: sends_succeed_def no_own_context_def example_env_def example_server_def server_new_def AsyncRpcDispatcher_new_def
      InvokeAsyncFunction_def MakeRpcExceptionPtr_def)


text \<open>
  C37. A client can end the server's program. An eager request for a function registered with a vector of
  buffers, whose tensor metadata promise more bytes than the message carries, makes the split of the buffer
  throw inside the \<open>noexcept\<close> message handler.
\<close>

theorem oversized_tensor_terminates_server:
  assumes "deserialize_request env hb = Inr h" and "\<not> reject_messages s"
    and "registered_handlers s (rq_function_id h) = Some hn" and "received hn = RB_vec"
    and "GetTensorMetas (rq_params h) = Ok metas" and "metas \<noteq> []" and "collect CalculateTensorSize metas = Ok sizes"
    and "b_size (ub_buffer b) < accumulate_sizes (map unat sizes)"
  shows "ServerCtxLoopSpawnImpl tx env (EagerMessage conn hb b) s = Inl Terminate"
  using assms
  by (simp add: ServerCtxLoopSpawnImpl_def ServerProcessHeader_def Let_def ServerProcessValidMessage_def visit_eager_def to_buffer_vec_def
      split: option.splits)

definition tensor_request :: RpcRequestHeader where
  "tensor_request = RpcRequestHeader_new\<lparr>rq_params := [\<lparr>pm_type = TENSOR_META, pm_value = TensorV
     \<lparr>tm_device = \<lparr>device_type = 1, device_id = 0\<rparr>, tm_ndim = 1, tm_dtype = \<lparr>dt_code = 2, dt_bits = 32, dt_lanes = 1\<rparr>,
      tm_byte_offset = 0, tm_shape = [10], tm_strides = [1]\<rparr>, pm_name = []\<rparr>]\<rparr>"

definition vec_server :: server where
  "vec_server = example_server\<lparr>registered_handlers :=
     [0 \<mapsto> \<lparr>received = RB_vec, handler_memory = AlwaysOnHostPolicy, handler_lifecycle = TransientPolicy\<rparr>]\<rparr>"

theorem oversized_tensor_terminates_server_witness:
  "ServerCtxLoopSpawnImpl example_texts (example_env tensor_request) (EagerMessage 7 () (example_buffer 4)) vec_server = Inl Terminate"
  by (rule oversized_tensor_terminates_server [where h = tensor_request and sizes = "[40]" and
        metas = "case pm_value (rq_params tensor_request ! 0) of TensorV m \<Rightarrow> [m]" and
        hn = "\<lparr>received = RB_vec, handler_memory = AlwaysOnHostPolicy, handler_lifecycle = TransientPolicy\<rparr>"])
    (simp_all add: example_env_def vec_server_def example_server_def server_new_def tensor_request_def RpcRequestHeader_new_def
      GetTensorMetas_def CalculateTensorSize_def example_buffer_def UcxBuffer_of_def accumulate_sizes_def)

text \<open>
  What becomes of the descriptor of a rendezvous request. It is released when the header is rejected
  and taken by the receive otherwise, but it stays in the table for ever when the handler itself rejects the
  request: because its function takes no payload, or because there are no tensors and no data.
\<close>

theorem rndv_descriptor_accounted:
  assumes "am_descs s key = Some d" and "ServerCtxLoopSpawnImpl tx env (RndvMessage key hb) s = Inr s'"
  shows "case fst (ServerProcessHeader env (desc_conn_id d) hb s) of
      Inl c \<Rightarrow> am_descs s' key = None \<and> released_descs s' = released_descs s @ [key]
    | Inr (h, hn) \<Rightarrow> released_descs s' = released_descs s \<and>
        am_descs s' key = (if received hn = RB_monostate \<or> rndv_metas h (Some d) = Ok [] then Some d else None)"
proof -
  obtain q s1 where q: "ServerProcessHeader env (desc_conn_id d) hb s = (q, s1)" by fastforce
  obtain c where s1: "s1 = s\<lparr>server_hlc := c\<rparr>" using header_keeps [OF q] by blast
  obtain r s2 where p: "ServerProcessMessage tx env (RndvMessage key hb) s = Inr (r, s2)"
    using assms(2) by (auto simp: ServerCtxLoopSpawnImpl_def split: sum.splits)
  have keep: "am_descs s' = am_descs s2" "released_descs s' = released_descs s2"
    using respond_descs [OF p assms(2)] by (simp_all add: keeps_descs_def)
  show ?thesis
  proof (cases q)
    case (Inl e)
    then show ?thesis using p q s1 keep assms(1) by auto
  next
    case (Inr x)
    obtain h hn where x: "x = (h, hn)" by fastforce
    then obtain pipe r1 where visit: "visit_rndv hn (desc_conn_id d) h key s1 = Ok pipe"
      and run: "run_pipeline tx env hn (desc_conn_id d) h pipe s1 = Inr (r1, s2)"
      using p q Inr assms(1) by (auto simp: ServerProcessValidMessage_def split: outcome.splits sum.splits)
    have "am_descs s1 = am_descs s" "released_descs s1 = released_descs s" by (simp_all add: s1)
    then show ?thesis
      using visit_rndv_pipe [OF visit] pipeline_descs [OF run] keep assms(1) q Inr x by (auto split: if_splits)
  qed
qed

theorem rndv_descriptor_accounted_witness:
  "case fst (ServerProcessHeader (example_env RpcRequestHeader_new) 7 () (vec_server\<lparr>am_descs := [1 \<mapsto> \<lparr>desc_conn_id = 7, desc_length = 0\<rparr>]\<rparr>)) of
      Inl c \<Rightarrow> False
    | Inr (h, hn) \<Rightarrow> (\<exists>s'. ServerCtxLoopSpawnImpl example_texts (example_env RpcRequestHeader_new) (RndvMessage 1 ())
          (vec_server\<lparr>am_descs := [1 \<mapsto> \<lparr>desc_conn_id = 7, desc_length = 0\<rparr>]\<rparr>) = Inr s' \<and>
        released_descs s' = [] \<and> am_descs s' 1 = Some \<lparr>desc_conn_id = 7, desc_length = 0\<rparr>)"
proof -
  let ?d = "\<lparr>desc_conn_id = 7, desc_length = 0\<rparr>"
  let ?s = "vec_server\<lparr>am_descs := [1 \<mapsto> ?d]\<rparr>"
  let ?env = "example_env RpcRequestHeader_new"
  have h: "fst (ServerProcessHeader ?env 7 () ?s) =
      Inr (RpcRequestHeader_new, \<lparr>received = RB_vec, handler_memory = AlwaysOnHostPolicy, handler_lifecycle = TransientPolicy\<rparr>)"
    by (simp add: ServerProcessHeader_def example_env_def vec_server_def example_server_def server_new_def RpcRequestHeader_new_def Let_def)
  have metas: "rndv_metas RpcRequestHeader_new (Some ?d) = Ok []"
    by (simp add: rndv_metas_def GetTensorMetas_def RpcRequestHeader_new_def)
  have "\<exists>r. ServerProcessMessage example_texts ?env (RndvMessage 1 ()) ?s = Inr r"
    by (simp add: ServerProcessHeader_def example_env_def vec_server_def example_server_def server_new_def Let_def
        RpcRequestHeader_new_def ServerProcessValidMessage_def visit_rndv_def rndv_metas_def GetTensorMetas_def)
  then obtain s' where run: "ServerCtxLoopSpawnImpl example_texts ?env (RndvMessage 1 ()) ?s = Inr s'"
    using spawn_returns by blast
  have "released_descs ?s = []" by (simp add: vec_server_def example_server_def server_new_def)
  then show ?thesis using rndv_descriptor_accounted [where d = ?d, OF _ run] run h metas by simp
qed

subsection \<open>Further behaviours\<close>

text \<open>
  A rendezvous payload without metadata, for a function that takes a vector of buffers, is received into a
  vector of one buffer of no bytes: the fallback metadata have the shape but no dimensions.
\<close>

lemma fallback_receives_nothing:
  assumes "GetTensorMetas (rq_params h) = Ok []" and "am_descs s key = Some d" and "0 < desc_length d"
    and "received hn = RB_vec" and "handler_memory hn = AlwaysOnHostPolicy"
  shows "visit_rndv hn conn h key s = Ok (PipeReceive key (RecvHostVec [0]))"
  using assms by (simp add: visit_rndv_def rndv_metas_def fallback_meta_def ProcessRndvBuffer_def CalculateTensorSize_def Let_def)

text \<open>
  A function registered for the variant of payloads gets an eager payload as one buffer, whatever payload
  type it declared: one that declared a vector reads the buffer as a vector.
\<close>

lemma variant_registration_confuses_payload:
  assumes "received hn = RB_variant" and "handler_lifecycle hn = TransientPolicy"
    and "async_functions (dispatcher s) (rq_function_id h) = Some (AsyncDynamicFunc f)" and "ad_input f = UCX_BUFFER_VEC"
  shows "ServerProcessValidMessage tx env hn conn h (visit_eager hn conn h b s) s = Inl (Broken BadVariant)"
  using assms
  by (simp add: ServerProcessValidMessage_def visit_eager_def ServerDispatchAndManageLifecycle_def dispatch_and_send_def
      InvokeAsyncFunction_def DynamicAsyncFuncWrapper_def dynamic_payload_def)

text \<open>
  Under a retention policy the parameters are gone when the function is called, if a move empties the
  vector of parameters: a function whose first argument is a number is never called.
\<close>

lemma retained_parameters_are_gone:
  assumes "moved_header env h = h\<lparr>rq_params := []\<rparr>"
    and "async_functions (dispatcher s) (rq_function_id h) = Some (AsyncStaticFunc f)" and "af_args f = CT_prim t # ts"
    and "ServerDispatchAndManageLifecycle tx env conn h p (RetentionPolicy lc) s = Inr (r, s')"
  shows "\<exists>e. r = Failed e \<and> sent s' = sent s"
proof -
  have get: "\<exists>e. GetPrimitive t 0 [] = Throw e" by (simp add: GetPrimitive_def)
  have gone: "\<exists>e. dispatch_and_send tx env conn (h\<lparr>rq_params := []\<rparr>) p' (s\<lparr>storage := st\<rparr>) = Inr (Failed e, s\<lparr>storage := st\<rparr>)" for p' st
    using get assms(2,3)
    by (auto simp: dispatch_and_send_def InvokeAsyncFunction_def MakeAsyncRpcWrapper_def transform_error_def split: option.splits)
  show ?thesis
  proof (cases "retention_fn (place env) lc h p (storage s)")
    case (Ok x)
    obtain ob st where x: "x = (ob, st)" by fastforce
    show ?thesis
    proof (cases "retained_payload ob st")
      case Read: (Ok p')
      then show ?thesis using assms(1,4) Ok x gone [of p' st] by (auto simp: ServerDispatchAndManageLifecycle_def)
    qed (use assms(4) Ok x in \<open>auto simp: ServerDispatchAndManageLifecycle_def transform_error_def\<close>)
  qed (use assms(4) in \<open>auto simp: ServerDispatchAndManageLifecycle_def transform_error_def\<close>)
qed

text \<open>
  An unreadable header and a missing descriptor are answered with the identifiers of no request, the
  latter on connection 0.
\<close>

lemma unreadable_header_answer:
  assumes "deserialize_request env hb = Inl e" and "sends_succeed env"
  shows "\<exists>s'. ServerCtxLoopSpawnImpl tx env (EagerMessage conn hb b) s = Inr s' \<and>
    (\<exists>rh. sent s' = sent s @ [(conn, rh, Monostate)] \<and> rs_session_id rh = 0 \<and> rs_request_id rh = 0)"
  using assms
  by (simp add: ServerCtxLoopSpawnImpl_def ServerProcessHeader_def ServerHandleSendErrorResponse_def send_response_def
      sends_succeed_def ReportServerError_def Let_def error_header_def with_status_def AxonErrorContext_new_def)

end
