(* ===== verification/Message_Receive.thy ===== *)
theory Message_Receive
  imports Rpc_Dispatcher
begin

text \<open>
  How a context receives active messages (\<open>ucx_am_context.cpp\<close>, \<open>am_recv_callback\<close>, and the operations of
  \<open>recv_header_sender\<close> and \<open>recv_buffer_sender_t\<close> in \<open>ucx_am_context.hpp\<close>). The callback queues a descriptor
  and wakes one waiting operation; a header receive takes the first descriptor, keeps a rendezvous one under a
  new key and delivers the message; a buffer receive takes the descriptor of a key. Everything runs on the
  thread of the event loop; stop requests of other threads arrive through its remote queue. The environment
  decides whether the rings have room, which connections exist and what UCX returns. Statuses are the
  integers of UCX.
\<close>

subsection \<open>Descriptors\<close>

datatype recv_attr = AttrNone | AttrData | AttrRndv

text \<open>What a descriptor holds besides its header: a copy in host memory or memory that UCX keeps.\<close>

datatype am_data = NoData | HostCopy nat | UcpMemory nat

record am_desc =
  am_header_block :: "nat option"
  am_desc_data :: am_data
  am_data_length :: nat
  am_desc_conn :: nat
  am_attr :: recv_attr

datatype fate =
    DeliveredEager
  | DeliveredRndv u64
  | DroppedByStop
  | DroppedByStatus int
  | DroppedWhileStopping
  | DroppedUnreachable

datatype rx_log = Took nat am_desc fate | StopDone nat | PoppedDesc u64

record header_op =
  on_pending :: bool
  cancel_flag :: bool
  ref_count :: nat
  stop_requested :: bool
  callback_constructed :: bool
  callback_armed :: bool

definition header_op_new :: header_op where
  "header_op_new = \<lparr>on_pending = False, cancel_flag = False, ref_count = 1, stop_requested = False,
     callback_constructed = False, callback_armed = False\<rparr>"

datatype rx_item = RxOp nat | RxCancel nat

record rx =
  am_desc_queue :: "am_desc list"
  am_desc_map :: "u64 \<rightharpoonup> am_desc"
  next_am_key :: u64
  pending_recv :: "nat list"
  pending_io :: "rx_item list"
  recv_cqes :: "rx_item list"
  remote_stops :: "nat list"
  header_ops :: "nat \<Rightarrow> header_op"
  live_blocks :: "nat list"
  next_block :: nat
  rx_logs :: "rx_log list"

definition rx_new :: rx where
  "rx_new = \<lparr>am_desc_queue = [], am_desc_map = Map.empty, next_am_key = 0, pending_recv = [], pending_io = [], recv_cqes = [],
     remote_stops = [], header_ops = (\<lambda>_. header_op_new), live_blocks = [], next_block = 0, rx_logs = []\<rparr>"

subsection \<open>The descriptor map\<close>

definition desc_push :: "am_desc \<Rightarrow> rx \<Rightarrow> u64 \<times> rx" where
  "desc_push d s = (next_am_key s, s\<lparr>next_am_key := next_am_key s + 1, am_desc_map := map_emplace (next_am_key s) d (am_desc_map s)\<rparr>)"

definition desc_pop :: "u64 \<Rightarrow> rx \<Rightarrow> am_desc option \<times> rx" where
  "desc_pop key s =
     (case am_desc_map s key of
        None \<Rightarrow> (None, s)
      | Some d \<Rightarrow> (Some d, s\<lparr>am_desc_map := (am_desc_map s)(key := None), rx_logs := rx_logs s @ [PoppedDesc key]\<rparr>))"

definition desc_view :: "u64 \<Rightarrow> rx \<Rightarrow> am_desc option" where
  "desc_view key s = am_desc_map s key"

subsection \<open>Arrival of a message\<close>

definition UCS_OK :: int where "UCS_OK = 0"
definition UCS_INPROGRESS :: int where "UCS_INPROGRESS = 1"
definition UCS_ERR_NO_MESSAGE :: int where "UCS_ERR_NO_MESSAGE = -1"
definition UCS_ERR_NO_MEMORY :: int where "UCS_ERR_NO_MEMORY = -4"
definition UCS_ERR_UNREACHABLE :: int where "UCS_ERR_UNREACHABLE = -6"
definition UCS_ERR_CANCELED :: int where "UCS_ERR_CANCELED = -16"

record arrival =
  ar_header_length :: nat
  ar_data :: nat
  ar_data_length :: nat
  ar_conn :: nat
  ar_attr :: recv_attr
  ar_conn_status :: "int option"
  ar_header_memory :: bool
  ar_data_memory :: bool

definition rx_allocate :: "bool \<Rightarrow> rx \<Rightarrow> nat option \<times> rx" where
  "rx_allocate ok s =
     (if ok then (Some (next_block s), s\<lparr>live_blocks := live_blocks s @ [next_block s], next_block := Suc (next_block s)\<rparr>)
      else (None, s))"

definition rx_deallocate :: "nat option \<Rightarrow> rx \<Rightarrow> rx" where
  "rx_deallocate b s = (case b of None \<Rightarrow> s | Some x \<Rightarrow> s\<lparr>live_blocks := remove1 x (live_blocks s)\<rparr>)"

text \<open>Queue the descriptor and wake the operation at the front of the waiting ones.\<close>

definition queue_desc :: "am_desc \<Rightarrow> rx \<Rightarrow> rx" where
  "queue_desc d s =
     (let s1 = s\<lparr>am_desc_queue := am_desc_queue s @ [d]\<rparr> in
      case pending_recv s1 of
        [] \<Rightarrow> s1
      | k # ks \<Rightarrow> s1\<lparr>pending_io := RxOp k # pending_io s1, pending_recv := ks\<rparr>)"

definition desc_of :: "arrival \<Rightarrow> nat option \<Rightarrow> am_data \<Rightarrow> am_desc" where
  "desc_of a new_header dat = \<lparr>am_header_block = new_header, am_desc_data = dat, am_data_length = ar_data_length a,
     am_desc_conn = ar_conn a, am_attr = ar_attr a\<rparr>"

text \<open>The second half of the callback: data without a flag are copied, everything else stays with UCX.\<close>

definition keep_data :: "arrival \<Rightarrow> nat option \<Rightarrow> rx \<Rightarrow> int \<times> rx" where
  "keep_data a new_header s =
     (if ar_attr a \<noteq> AttrNone then (UCS_INPROGRESS, queue_desc (desc_of a new_header (UcpMemory (ar_data a))) s)
      else if 0 < ar_data_length a then
        (case rx_allocate (ar_data_memory a) s of
           (None, s1) \<Rightarrow> (UCS_ERR_NO_MEMORY, rx_deallocate new_header s1)
         | (Some b, s1) \<Rightarrow> (UCS_OK, queue_desc (desc_of a new_header (HostCopy b)) s1))
      else (UCS_OK, queue_desc (desc_of a new_header NoData) s))"

definition am_recv_callback :: "arrival \<Rightarrow> rx \<Rightarrow> int \<times> rx" where
  "am_recv_callback a s =
     (case ar_conn_status a of
        None \<Rightarrow> (UCS_ERR_UNREACHABLE, s)
      | Some conn_status \<Rightarrow>
          if conn_status < UCS_OK then (conn_status, s)
          else if ar_header_length a = 0 then keep_data a None s
          else
            (case rx_allocate (ar_header_memory a) s of
               (None, s1) \<Rightarrow> (UCS_ERR_NO_MEMORY, s1)
             | (Some h, s1) \<Rightarrow> keep_data a (Some h) s1))"

subsection \<open>Header receives\<close>

definition upd_op :: "nat \<Rightarrow> (header_op \<Rightarrow> header_op) \<Rightarrow> rx \<Rightarrow> rx" where
  "upd_op k f s = s\<lparr>header_ops := (header_ops s)(k := f (header_ops s k))\<rparr>"

definition log_rx :: "rx_log \<Rightarrow> rx \<Rightarrow> rx" where
  "log_rx l s = s\<lparr>rx_logs := rx_logs s @ [l]\<rparr>"

record rx_env =
  room :: bool
  conn_state :: "nat \<Rightarrow> int option"

definition request_stop_local :: "rx_env \<Rightarrow> nat \<Rightarrow> rx \<Rightarrow> rx" where
  "request_stop_local env k s =
     (if room env then s\<lparr>recv_cqes := recv_cqes s @ [RxCancel k], pending_recv := filter (\<lambda>x. x \<noteq> k) (pending_recv s)\<rparr>
      else s\<lparr>pending_io := pending_io s @ [RxCancel k]\<rparr>)"

definition request_stop :: "rx_env \<Rightarrow> bool \<Rightarrow> nat \<Rightarrow> rx \<Rightarrow> rx" where
  "request_stop env on_io_thread k s =
     (if \<not> on_pending (header_ops s k) then s
      else if ref_count (header_ops s k) \<noteq> 1 then s
      else
        let s1 = upd_op k (\<lambda>p. p\<lparr>ref_count := 2, cancel_flag := True\<rparr>) s in
        if on_io_thread then request_stop_local env k s1 else s1\<lparr>remote_stops := remote_stops s1 @ [k]\<rparr>)"

text \<open>\<open>try_setup_start_io\<close>: constructing the stop callback runs it when the token was stopped already.\<close>

definition try_setup_start_io :: "rx_env \<Rightarrow> nat \<Rightarrow> rx \<Rightarrow> rx" where
  "try_setup_start_io env k s =
     (if callback_constructed (header_ops s k) then s
      else
        let s1 = upd_op k (\<lambda>p. p\<lparr>callback_constructed := True, callback_armed := True\<rparr>) s in
        if stop_requested (header_ops s1 k) then request_stop env True k s1 else s1)"

text \<open>Releasing what a descriptor without a connection holds; a rendezvous descriptor is not released.\<close>

definition release_unreachable :: "am_desc \<Rightarrow> rx \<Rightarrow> rx" where
  "release_unreachable d s =
     (let s1 = rx_deallocate (am_header_block d) s in
      case am_desc_data d of HostCopy b \<Rightarrow> rx_deallocate (Some b) s1 | _ \<Rightarrow> s1)"

definition on_read_complete :: "nat \<Rightarrow> am_desc \<Rightarrow> u64 option \<Rightarrow> int \<Rightarrow> rx \<Rightarrow> rx" where
  "on_read_complete k d key result s =
     (let p = header_ops s k;
          s1 = upd_op k (\<lambda>p. p\<lparr>ref_count := ref_count p - 1\<rparr>) s in
      if ref_count p \<noteq> 1 \<and> \<not> on_pending p then log_rx (Took k d DroppedWhileStopping) s1
      else
        let s2 = upd_op k (\<lambda>p. p\<lparr>callback_armed := False\<rparr>) s1 in
        log_rx (Took k d
          (if stop_requested p then DroppedByStop
           else if 0 \<le> result then (case key of Some x \<Rightarrow> DeliveredRndv x | None \<Rightarrow> DeliveredEager)
           else DroppedByStatus result)) s2)"

definition populateSqe :: "rx_env \<Rightarrow> nat \<Rightarrow> rx \<Rightarrow> rx" where
  "populateSqe env k s =
     (if cancel_flag (header_ops s k) then s
      else
        (case am_desc_queue s of
           [] \<Rightarrow> (upd_op k (\<lambda>p. p\<lparr>on_pending := True\<rparr>) s)\<lparr>pending_recv := k # pending_recv s\<rparr>
         | d # ds \<Rightarrow>
             let s1 = (upd_op k (\<lambda>p. p\<lparr>on_pending := False\<rparr>) s)\<lparr>am_desc_queue := ds\<rparr> in
             (case conn_state env (am_desc_conn d) of
                None \<Rightarrow> (log_rx (Took k d DroppedUnreachable) (release_unreachable d s1))\<lparr>recv_cqes := recv_cqes s1 @ [RxOp k]\<rparr>
              | Some status \<Rightarrow>
                  if am_attr d = AttrRndv \<and> 0 < am_data_length d then
                    (case desc_push d s1 of (key, s2) \<Rightarrow> on_read_complete k d (Some key) status s2)
                  else on_read_complete k d None status s1)))"

definition start_io :: "rx_env \<Rightarrow> nat \<Rightarrow> rx \<Rightarrow> rx" where
  "start_io env k s =
     (let s1 = try_setup_start_io env k s in
      if room env then populateSqe env k s1 else s1\<lparr>pending_io := pending_io s1 @ [RxOp k]\<rparr>)"

definition on_stop_complete :: "nat \<Rightarrow> rx \<Rightarrow> rx" where
  "on_stop_complete k s = log_rx (StopDone k) (upd_op k (\<lambda>p. p\<lparr>callback_armed := False\<rparr>) s)"

subsection \<open>Runs\<close>

datatype rx_event =
    RxArrive arrival
  | RxStart nat
  | RxPending
  | RxCompletion
  | RxRemote
  | RxStop bool nat
  | RxPop u64

text \<open>An item of the pending queue is an operation to start or a stop to submit.\<close>

fun run_pending :: "rx_env \<Rightarrow> rx_item \<Rightarrow> rx \<Rightarrow> rx" where
  "run_pending env (RxOp k) s = start_io env k s"
| "run_pending env (RxCancel k) s = request_stop_local env k s"

fun run_cqe :: "rx_env \<Rightarrow> rx_item \<Rightarrow> rx \<Rightarrow> rx" where
  "run_cqe env (RxOp k) s = start_io env k s"
| "run_cqe env (RxCancel k) s = on_stop_complete k s"

fun rx_step :: "rx_env \<times> rx_event \<Rightarrow> rx \<Rightarrow> rx" where
  "rx_step (env, RxArrive a) s = snd (am_recv_callback a s)"
| "rx_step (env, RxStart k) s = start_io env k s"
| "rx_step (env, RxPending) s = (case pending_io s of [] \<Rightarrow> s | i # is \<Rightarrow> run_pending env i (s\<lparr>pending_io := is\<rparr>))"
| "rx_step (env, RxCompletion) s = (case recv_cqes s of [] \<Rightarrow> s | i # is \<Rightarrow> run_cqe env i (s\<lparr>recv_cqes := is\<rparr>))"
| "rx_step (env, RxRemote) s = (case remote_stops s of [] \<Rightarrow> s | k # ks \<Rightarrow> request_stop_local env k (s\<lparr>remote_stops := ks\<rparr>))"
| "rx_step (env, RxStop on_io_thread k) s =
     (if stop_requested (header_ops s k) then s
      else
        let s1 = upd_op k (\<lambda>p. p\<lparr>stop_requested := True\<rparr>) s in
        if callback_armed (header_ops s1 k) then request_stop env on_io_thread k s1 else s1)"
| "rx_step (env, RxPop key) s = snd (desc_pop key s)"

definition rx_run :: "(rx_env \<times> rx_event) list \<Rightarrow> rx \<Rightarrow> rx" where
  "rx_run es s = fold rx_step es s"

subsection \<open>Lemmas\<close>

lemmas op_defs = upd_op_def log_rx_def request_stop_def request_stop_local_def Let_def

lemma upd_op_fields [simp]:
  "am_desc_queue (upd_op k f s) = am_desc_queue s" "rx_logs (upd_op k f s) = rx_logs s" "am_desc_map (upd_op k f s) = am_desc_map s"
  "next_am_key (upd_op k f s) = next_am_key s" "pending_recv (upd_op k f s) = pending_recv s" "pending_io (upd_op k f s) = pending_io s"
  "recv_cqes (upd_op k f s) = recv_cqes s" "remote_stops (upd_op k f s) = remote_stops s"
  "header_ops (upd_op k f s) j = (if j = k then f (header_ops s k) else header_ops s j)"
  by (simp_all add: upd_op_def)

lemma log_rx_fields [simp]:
  "am_desc_queue (log_rx l s) = am_desc_queue s" "rx_logs (log_rx l s) = rx_logs s @ [l]" "am_desc_map (log_rx l s) = am_desc_map s"
  "next_am_key (log_rx l s) = next_am_key s" "pending_recv (log_rx l s) = pending_recv s" "pending_io (log_rx l s) = pending_io s"
  "recv_cqes (log_rx l s) = recv_cqes s" "remote_stops (log_rx l s) = remote_stops s" "header_ops (log_rx l s) = header_ops s"
  by (simp_all add: log_rx_def)

lemma deallocate_fields [simp]:
  "am_desc_queue (rx_deallocate b s) = am_desc_queue s" "rx_logs (rx_deallocate b s) = rx_logs s" "am_desc_map (rx_deallocate b s) = am_desc_map s"
  "next_am_key (rx_deallocate b s) = next_am_key s" "header_ops (rx_deallocate b s) = header_ops s" "pending_recv (rx_deallocate b s) = pending_recv s"
  "pending_io (rx_deallocate b s) = pending_io s" "recv_cqes (rx_deallocate b s) = recv_cqes s" "remote_stops (rx_deallocate b s) = remote_stops s"
  by (simp_all add: rx_deallocate_def split: option.splits)

lemma release_fields_rx [simp]:
  "am_desc_queue (release_unreachable d s) = am_desc_queue s" "rx_logs (release_unreachable d s) = rx_logs s"
  "am_desc_map (release_unreachable d s) = am_desc_map s" "next_am_key (release_unreachable d s) = next_am_key s"
  by (simp_all add: release_unreachable_def Let_def split: am_data.splits)

text \<open>Stop requests and the setup of an operation touch neither messages nor the log.\<close>

definition same_messages :: "rx \<Rightarrow> rx \<Rightarrow> bool" where
  "same_messages s s' \<longleftrightarrow> am_desc_queue s' = am_desc_queue s \<and> rx_logs s' = rx_logs s \<and> am_desc_map s' = am_desc_map s \<and> next_am_key s' = next_am_key s"

lemma stop_same [simp]: "same_messages s (request_stop_local env k s)" "same_messages s (request_stop env b k s)"
  by (simp_all add: same_messages_def op_defs)

lemma setup_same [simp]: "same_messages s (try_setup_start_io env k s)"
proof -
  let ?s = "upd_op k (\<lambda>p. p\<lparr>callback_constructed := True, callback_armed := True\<rparr>) s"
  have "same_messages ?s (request_stop env True k ?s)" by simp
  then show ?thesis by (simp add: try_setup_start_io_def same_messages_def Let_def)
qed

subsection \<open>Order of messages\<close>

fun taken :: "rx_log list \<Rightarrow> am_desc list" where
  "taken [] = []"
| "taken (Took k d f # ls) = d # taken ls"
| "taken (l # ls) = taken ls"

lemma taken_append [simp]: "taken (xs @ ys) = taken xs @ taken ys"
  by (induction xs rule: taken.induct) auto

definition history :: "rx \<Rightarrow> am_desc list" where
  "history s = taken (rx_logs s) @ am_desc_queue s"

text \<open>The arrivals of a run that the callback accepts, and the descriptor of one.\<close>

fun accepted :: "(rx_env \<times> rx_event) list \<Rightarrow> rx \<Rightarrow> arrival list" where
  "accepted [] s = []"
| "accepted ((env, RxArrive a) # es) s =
     (if 0 \<le> fst (am_recv_callback a s) then [a] else []) @ accepted es (rx_step (env, RxArrive a) s)"
| "accepted (e # es) s = accepted es (rx_step e s)"

definition message_of :: "arrival \<Rightarrow> am_desc \<Rightarrow> bool" where
  "message_of a d \<longleftrightarrow> am_desc_conn d = ar_conn a \<and> am_data_length d = ar_data_length a \<and> am_attr d = ar_attr a \<and>
     (am_header_block d = None \<longleftrightarrow> ar_header_length a = 0) \<and>
     (case am_desc_data d of
        UcpMemory x \<Rightarrow> x = ar_data a \<and> ar_attr a \<noteq> AttrNone
      | HostCopy b \<Rightarrow> ar_attr a = AttrNone \<and> 0 < ar_data_length a
      | NoData \<Rightarrow> ar_attr a = AttrNone \<and> ar_data_length a = 0)"

lemma same_history: "same_messages s s' \<Longrightarrow> history s' = history s"
  by (simp add: same_messages_def history_def)

lemma read_complete_history: "history (on_read_complete k d key r s) = taken (rx_logs s) @ d # am_desc_queue s"
  by (simp add: on_read_complete_def history_def Let_def)

lemma populate_history: "history (populateSqe env k s) = history s"
  by (auto simp: populateSqe_def read_complete_history desc_push_def Let_def split: list.splits option.splits)
    (auto simp: history_def)

lemma start_io_history: "history (start_io env k s) = history s"
proof -
  have "history (try_setup_start_io env k s) = history s" by (rule same_history) simp
  then show ?thesis by (simp add: start_io_def Let_def populate_history) (simp add: history_def)
qed

lemma queue_history: "history (queue_desc d s) = history s @ [d]"
  by (simp add: queue_desc_def history_def Let_def split: list.splits)

lemma allocate_same: "rx_allocate ok s = (b, s') \<Longrightarrow> same_messages s s'"
  by (auto simp: rx_allocate_def same_messages_def split: if_splits)

lemma deallocate_same: "same_messages s (rx_deallocate b s)"
  by (simp add: same_messages_def)

lemmas ucs_values = UCS_OK_def UCS_INPROGRESS_def UCS_ERR_NO_MEMORY_def UCS_ERR_UNREACHABLE_def UCS_ERR_NO_MESSAGE_def UCS_ERR_CANCELED_def

definition arrives :: "arrival \<Rightarrow> rx \<Rightarrow> int \<times> rx \<Rightarrow> bool" where
  "arrives a s r \<longleftrightarrow> (\<exists>ds. history (snd r) = history s @ ds \<and> list_all2 message_of (if 0 \<le> fst r then [a] else []) ds)"

lemma arrives_fail: "same_messages s s' \<Longrightarrow> st < 0 \<Longrightarrow> arrives a s (st, s')"
  by (simp add: arrives_def same_history)

lemma arrives_ok: "same_messages s s' \<Longrightarrow> 0 \<le> st \<Longrightarrow> message_of a d \<Longrightarrow> arrives a s (st, queue_desc d s')"
  unfolding arrives_def by (intro exI [of _ "[d]"]) (simp add: queue_history same_history)

lemma same_messages_trans: "same_messages s s1 \<Longrightarrow> same_messages s1 s2 \<Longrightarrow> same_messages s s2"
  by (simp add: same_messages_def)

lemma keep_data_arrives:
  assumes "same_messages s s'" and "(b = None) = (ar_header_length a = 0)"
  shows "arrives a s (keep_data a b s')"
proof (cases "ar_attr a = AttrNone \<and> 0 < ar_data_length a")
  case True
  obtain x s1 where al: "rx_allocate (ar_data_memory a) s' = (x, s1)" by fastforce
  have same: "same_messages s s1" using same_messages_trans [OF assms(1) allocate_same [OF al]] .
  show ?thesis
  proof (cases x)
    case None
    then show ?thesis using True al arrives_fail [OF same_messages_trans [OF same deallocate_same]]
      by (simp add: keep_data_def UCS_ERR_NO_MEMORY_def)
  next
    case (Some y)
    then show ?thesis using True al assms(2) arrives_ok [OF same, where d = "desc_of a b (HostCopy y)"]
      by (simp add: keep_data_def UCS_OK_def message_of_def desc_of_def)
  qed
next
  case False
  then show ?thesis using assms(2) arrives_ok [OF assms(1), where d = "desc_of a b (UcpMemory (ar_data a))"]
      arrives_ok [OF assms(1), where d = "desc_of a b NoData"]
    by (auto simp: keep_data_def UCS_OK_def UCS_INPROGRESS_def message_of_def desc_of_def)
qed

lemma callback_arrives: "arrives a s (am_recv_callback a s)"
proof -
  have refl: "same_messages s s" by (simp add: same_messages_def)
  show ?thesis
    by (auto simp: am_recv_callback_def ucs_values split: option.splits prod.splits
        intro!: arrives_fail keep_data_arrives refl dest!: allocate_same)
qed

lemma step_history:
  "\<exists>ds. history (rx_step e s) = history s @ ds \<and> list_all2 message_of (accepted [e] s) ds"
proof -
  obtain env ev where e: "e = (env, ev)" by fastforce
  have same: "history (rx_step e s) = history s" if "\<And>a. ev \<noteq> RxArrive a"
  proof (cases ev)
    case (RxStart k)
    then show ?thesis by (simp add: e start_io_history)
  next
    case RxPending
    have "history (run_pending env i x) = history x" for i x
      by (cases i) (simp_all add: start_io_history same_history)
    then show ?thesis by (simp add: e RxPending split: list.splits) (simp add: history_def)
  next
    case RxCompletion
    have "history (run_cqe env i x) = history x" for i x
      using start_io_history by (cases i) (simp_all add: on_stop_complete_def history_def)
    then show ?thesis by (simp add: e RxCompletion split: list.splits) (simp add: history_def)
  next
    case RxRemote
    have "history (request_stop_local env k x) = history x" for k x by (simp add: same_history)
    then show ?thesis by (simp add: e RxRemote split: list.splits) (simp add: history_def)
  next
    case (RxStop b k)
    have "history (request_stop env b k x) = history x" for x by (simp add: same_history)
    then show ?thesis by (simp add: e RxStop Let_def) (simp add: history_def)
  next
    case (RxPop key)
    then show ?thesis by (simp add: e desc_pop_def history_def split: option.splits)
  qed (use that in blast)
  show ?thesis
  proof (cases ev)
    case (RxArrive a)
    then show ?thesis using callback_arrives [of a s] by (simp add: e arrives_def)
  qed (use same e in simp_all)
qed

lemma accepted_cons: "accepted (e # es) s = accepted [e] s @ accepted es (rx_step e s)"
  by (cases e; cases "snd e") auto

lemma run_history: "\<exists>ds. history (rx_run es s) = history s @ ds \<and> list_all2 message_of (accepted es s) ds"
proof (induction es arbitrary: s)
  case Nil
  then show ?case by (simp add: rx_run_def)
next
  case (Cons e es)
  obtain ds where "history (rx_step e s) = history s @ ds" "list_all2 message_of (accepted [e] s) ds"
    using step_history by blast
  moreover obtain ds' where "history (rx_run es (rx_step e s)) = history (rx_step e s) @ ds'" "list_all2 message_of (accepted es (rx_step e s)) ds'"
    using Cons by blast
  ultimately have "history (rx_run (e # es) s) = history s @ ds @ ds'" and "list_all2 message_of (accepted (e # es) s) (ds @ ds')"
    by (simp_all add: rx_run_def accepted_cons [of e es] list_all2_appendI)
  then show ?case by blast
qed

subsection \<open>Keys of rendezvous descriptors\<close>

text \<open>Keys below the counter are used, and every delivered key that was not taken yet leads to its descriptor.\<close>

definition key_inv :: "nat \<Rightarrow> rx \<Rightarrow> bool" where
  "key_inv n s \<longleftrightarrow> unat (next_am_key s) \<le> n \<and>
     (\<forall>key d. am_desc_map s key = Some d \<longrightarrow> unat key < unat (next_am_key s)) \<and>
     (\<forall>k d key. Took k d (DeliveredRndv key) \<in> set (rx_logs s) \<longrightarrow>
        unat key < unat (next_am_key s) \<and> (PoppedDesc key \<notin> set (rx_logs s) \<longrightarrow> am_desc_map s key = Some d))"

lemma key_inv_mono: "key_inv n s \<Longrightarrow> n \<le> m \<Longrightarrow> key_inv m s"
  by (auto simp: key_inv_def)

lemma key_inv_same: "same_messages s s' \<Longrightarrow> key_inv n s' = key_inv n s"
  by (simp add: same_messages_def key_inv_def)

lemma key_inv_cong:
  assumes "am_desc_map s' = am_desc_map s" and "next_am_key s' = next_am_key s" and "rx_logs s' = rx_logs s"
  shows "key_inv n s' = key_inv n s"
  using assms by (simp add: key_inv_def)

lemma key_inv_log:
  assumes "key_inv n s" and "\<And>k d key. l \<noteq> Took k d (DeliveredRndv key)"
  shows "key_inv n (log_rx l s)"
  using assms by (auto simp: key_inv_def)

lemma read_complete_keys:
  assumes "key_inv n s" and "\<And>x. key = Some x \<Longrightarrow> am_desc_map s x = Some d"
  shows "key_inv n (on_read_complete k d key r s)"
  using assms unfolding on_read_complete_def Let_def
  by (auto simp: key_inv_def split: option.splits)

lemma push_keys:
  assumes "key_inv n s" and "Suc n < 2 ^ 64"
  shows "key_inv (Suc n) (snd (desc_push d s))" and "am_desc_map (snd (desc_push d s)) (fst (desc_push d s)) = Some d"
proof -
  have next_key: "unat (next_am_key s + 1) = Suc (unat (next_am_key s))"
    using assms unat_add1 [of "next_am_key s"] by (simp add: key_inv_def)
  have new: "am_desc_map s (next_am_key s) = None" using assms(1) by (auto simp: key_inv_def)
  then show "am_desc_map (snd (desc_push d s)) (fst (desc_push d s)) = Some d" by (simp add: desc_push_def map_emplace_def)
  show "key_inv (Suc n) (snd (desc_push d s))"
    using assms(1) next_key new by (fastforce simp: key_inv_def desc_push_def map_emplace_def split: if_splits)
qed

lemma populate_keys:
  assumes "key_inv n s" and "Suc n < 2 ^ 64"
  shows "key_inv (Suc n) (populateSqe env k s)"
proof -
  have base: "key_inv (Suc n) s'" if "am_desc_map s' = am_desc_map s" "next_am_key s' = next_am_key s" "rx_logs s' = rx_logs s" for s'
    using key_inv_mono [OF assms(1), of "Suc n"] key_inv_cong [OF that] by simp
  have base0: "key_inv n s'" if "am_desc_map s' = am_desc_map s" "next_am_key s' = next_am_key s" "rx_logs s' = rx_logs s" for s'
    using assms(1) key_inv_cong [OF that] by simp
  show ?thesis
  proof (cases "am_desc_queue s")
    case Nil
    then show ?thesis by (auto simp: populateSqe_def intro!: base)
  next
    case (Cons d ds)
    let ?s1 = "(upd_op k (\<lambda>p. p\<lparr>on_pending := False\<rparr>) s)\<lparr>am_desc_queue := ds\<rparr>"
    have s1: "key_inv (Suc n) ?s1" "key_inv n ?s1" by (auto intro!: base base0)
    have drop: "key_inv (Suc n) ((log_rx (Took k d DroppedUnreachable) (release_unreachable d ?s1))\<lparr>recv_cqes := c\<rparr>)" for c
    proof -
      have "key_inv (Suc n) (release_unreachable d ?s1)" by (rule base) simp_all
      from key_inv_log [OF this, of "Took k d DroppedUnreachable"] show ?thesis by (simp add: key_inv_def)
    qed
    have rndv: "key_inv (Suc n) (on_read_complete k d (Some (fst (desc_push d ?s1))) st (snd (desc_push d ?s1)))" for st
      using push_keys [OF s1(2) assms(2), of d] by (intro read_complete_keys) auto
    have eager: "key_inv (Suc n) (on_read_complete k d None st ?s1)" for st
      using s1(1) by (intro read_complete_keys) auto
    show ?thesis
      using drop rndv eager by (auto simp: populateSqe_def Cons Let_def case_prod_unfold intro!: base split: option.splits)
  qed
qed

lemma start_io_keys:
  assumes "key_inv n s" and "Suc n < 2 ^ 64"
  shows "key_inv (Suc n) (start_io env k s)"
proof -
  have "key_inv n (try_setup_start_io env k s)" using assms(1) key_inv_same [OF setup_same, of n] by simp
  then show ?thesis
    using populate_keys [OF _ assms(2)] key_inv_mono [of n _ "Suc n"]
    by (auto simp: start_io_def Let_def key_inv_cong [of "_\<lparr>pending_io := _\<rparr>"])
qed

lemma arrival_keys: "key_inv n s \<Longrightarrow> key_inv n (snd (am_recv_callback a s))"
proof -
  have q: "key_inv n (queue_desc d x) = key_inv n x" for d x
    by (simp add: queue_desc_def Let_def key_inv_def split: list.splits)
  have al: "key_inv n x' = key_inv n x" if "rx_allocate ok x = (b, x')" for ok x b x'
    using key_inv_same [OF allocate_same [OF that]] .
  have de: "key_inv n (rx_deallocate b x) = key_inv n x" for b x using key_inv_same [OF deallocate_same] .
  have kd: "key_inv n x \<Longrightarrow> key_inv n (snd (keep_data a b x))" for b x
    by (auto simp: keep_data_def q de split: prod.splits option.splits dest!: al)
  show "key_inv n s \<Longrightarrow> key_inv n (snd (am_recv_callback a s))"
    using kd by (auto simp: am_recv_callback_def split: option.splits prod.splits dest!: al)
qed

lemma step_keys:
  assumes "key_inv n s" and "Suc n < 2 ^ 64"
  shows "key_inv (Suc n) (rx_step e s)"
proof -
  obtain env ev where e: "e = (env, ev)" by fastforce
  have up: "key_inv (Suc n) x" if "key_inv n x" for x using key_inv_mono [OF that] by simp
  have loc: "key_inv n (request_stop_local env k x) = key_inv n x" for k x using key_inv_same [OF stop_same(1)] .
  have req: "key_inv n (request_stop env b k x) = key_inv n x" for b k x using key_inv_same [OF stop_same(2)] .
  show ?thesis
  proof (cases ev)
    case (RxArrive a)
    then show ?thesis using up arrival_keys assms(1) by (simp add: e)
  next
    case (RxStart k)
    then show ?thesis using start_io_keys assms by (simp add: e)
  next
    case RxPending
    have "key_inv n (s\<lparr>pending_io := is\<rparr>)" for "is" using assms(1) by (simp add: key_inv_def)
    then have "key_inv (Suc n) (run_pending env i (s\<lparr>pending_io := is\<rparr>))" for i "is"
      using start_io_keys assms(2) up loc by (cases i) auto
    then show ?thesis using up assms(1) by (simp add: e RxPending split: list.splits)
  next
    case RxCompletion
    have st: "key_inv n (s\<lparr>recv_cqes := is\<rparr>)" for "is" using assms(1) by (simp add: key_inv_def)
    then have "key_inv (Suc n) (on_stop_complete k (s\<lparr>recv_cqes := is\<rparr>))" for k "is"
      unfolding on_stop_complete_def by (intro up key_inv_log) (simp_all add: key_inv_def)
    then have "key_inv (Suc n) (run_cqe env i (s\<lparr>recv_cqes := is\<rparr>))" for i "is"
      using start_io_keys assms(2) st by (cases i) auto
    then show ?thesis using up assms(1) by (simp add: e RxCompletion split: list.splits)
  next
    case RxRemote
    have "key_inv n (s\<lparr>remote_stops := ks\<rparr>)" for ks using assms(1) by (simp add: key_inv_def)
    then show ?thesis using up assms(1) loc by (simp add: e RxRemote split: list.splits)
  next
    case (RxStop b k)
    have "key_inv n (upd_op k f s)" for f using assms(1) by (simp add: key_inv_def)
    then show ?thesis using up assms(1) req by (simp add: e RxStop Let_def)
  next
    case (RxPop key)
    have "key_inv n (snd (desc_pop key s))"
      using assms(1) by (auto simp: desc_pop_def key_inv_def split: option.splits)
    then show ?thesis using up by (simp add: e RxPop)
  qed
qed

lemma run_keys: "key_inv n s \<Longrightarrow> n + length es < 2 ^ 64 \<Longrightarrow> key_inv (n + length es) (rx_run es s)"
proof (induction es arbitrary: n s)
  case Nil
  then show ?case by (simp add: rx_run_def)
next
  case (Cons e es)
  then show ?case using step_keys [of n s e] Cons.IH [of "Suc n" "rx_step e s"] by (simp add: rx_run_def)
qed

subsection \<open>A receive that was stopped before it started\<close>

definition finished :: "nat \<Rightarrow> rx \<Rightarrow> bool" where
  "finished k s \<longleftrightarrow> StopDone k \<in> set (rx_logs s) \<or> (\<exists>d f. Took k d f \<in> set (rx_logs s))"

definition unscheduled :: "nat \<Rightarrow> rx \<Rightarrow> bool" where
  "unscheduled k s \<longleftrightarrow> RxOp k \<notin> set (pending_io s) \<and> RxCancel k \<notin> set (pending_io s) \<and> RxOp k \<notin> set (recv_cqes s) \<and>
     RxCancel k \<notin> set (recv_cqes s) \<and> k \<notin> set (remote_stops s) \<and> \<not> finished k s"

definition stuck :: "nat \<Rightarrow> rx \<Rightarrow> bool" where
  "stuck k s \<longleftrightarrow> am_desc_queue s = [] \<and> stop_requested (header_ops s k) \<and> unscheduled k s"

lemma stuck_stop_local: "stuck k s \<Longrightarrow> j \<noteq> k \<Longrightarrow> stuck k (request_stop_local env j s)"
  by (simp add: stuck_def unscheduled_def finished_def request_stop_local_def)

lemma stuck_upd: "stuck k s \<Longrightarrow> j \<noteq> k \<Longrightarrow> stuck k (upd_op j f s)"
  by (simp add: stuck_def unscheduled_def finished_def)

lemma stuck_stop:
  assumes "stuck k s" and "j \<noteq> k"
  shows "stuck k (request_stop env b j s)"
proof -
  have s1: "stuck k (upd_op j (\<lambda>p. p\<lparr>ref_count := 2, cancel_flag := True\<rparr>) s)" using stuck_upd [OF assms] .
  then have "stuck k ((upd_op j (\<lambda>p. p\<lparr>ref_count := 2, cancel_flag := True\<rparr>) s)\<lparr>remote_stops := r @ [j]\<rparr>)"
    if "r = remote_stops s" for r
    using that assms(2) by (simp add: stuck_def unscheduled_def finished_def)
  then show ?thesis using assms stuck_stop_local [OF s1 assms(2)] by (simp add: request_stop_def Let_def)
qed

lemma stuck_start:
  assumes "stuck k s" and "j \<noteq> k"
  shows "stuck k (start_io env j s)"
proof -
  have started_op: "stuck k (try_setup_start_io env j s)"
    using assms stuck_stop stuck_upd by (simp add: try_setup_start_io_def Let_def)
  then have "stuck k (populateSqe env j (try_setup_start_io env j s))"
    using assms(2) by (auto simp: populateSqe_def stuck_def unscheduled_def finished_def)
  then show ?thesis using started_op assms(2) by (simp add: start_io_def Let_def) (simp add: stuck_def unscheduled_def finished_def)
qed

lemma stuck_queues:
  assumes "stuck k s"
  shows "pending_io s = RxOp j # is \<Longrightarrow> j \<noteq> k \<and> stuck k (s\<lparr>pending_io := is\<rparr>)"
    and "pending_io s = RxCancel j # is \<Longrightarrow> j \<noteq> k \<and> stuck k (s\<lparr>pending_io := is\<rparr>)"
    and "recv_cqes s = RxOp j # is \<Longrightarrow> j \<noteq> k \<and> stuck k (s\<lparr>recv_cqes := is\<rparr>)"
    and "recv_cqes s = RxCancel j # is \<Longrightarrow> j \<noteq> k \<and> stuck k (s\<lparr>recv_cqes := is\<rparr>)"
    and "remote_stops s = j # js \<Longrightarrow> j \<noteq> k \<and> stuck k (s\<lparr>remote_stops := js\<rparr>)"
  using assms by (auto simp: stuck_def unscheduled_def finished_def)

fun quiet :: "nat \<Rightarrow> rx_env \<times> rx_event \<Rightarrow> bool" where
  "quiet k (env, RxArrive a) = False"
| "quiet k (env, RxStart j) = (j \<noteq> k)"
| "quiet k (env, _) = True"

lemma stuck_step:
  assumes "stuck k s" and "quiet k e"
  shows "stuck k (rx_step e s)"
proof -
  obtain env ev where e: "e = (env, ev)" by fastforce
  note q = stuck_queues [OF assms(1)]
  show ?thesis
  proof (cases ev)
    case (RxStart j)
    then show ?thesis using assms stuck_start by (simp add: e)
  next
    case RxPending
    then show ?thesis using assms(1) q(1,2) stuck_start stuck_stop_local
      by (cases "pending_io s"; cases "hd (pending_io s)") (auto simp: e)
  next
    case RxCompletion
    have stop: "stuck k (on_stop_complete j x)" if "stuck k x" "j \<noteq> k" for j x
      using that by (simp add: on_stop_complete_def stuck_def unscheduled_def finished_def)
    show ?thesis using assms(1) q(3,4) stuck_start stop RxCompletion
      by (cases "recv_cqes s"; cases "hd (recv_cqes s)") (auto simp: e)
  next
    case RxRemote
    then show ?thesis using assms(1) q(5) stuck_stop_local by (cases "remote_stops s") (auto simp: e)
  next
    case (RxStop b j)
    show ?thesis
    proof (cases "j = k")
      case True
      then show ?thesis using assms(1) RxStop by (simp add: e stuck_def)
    next
      case False
      then show ?thesis using assms(1) RxStop stuck_upd stuck_stop by (simp add: e Let_def)
    qed
  next
    case (RxPop key)
    then show ?thesis using assms(1)
      by (auto simp: e desc_pop_def stuck_def unscheduled_def finished_def split: option.splits)
  qed (use assms(2) e in simp)
qed

lemma stuck_run: "stuck k s \<Longrightarrow> list_all (quiet k) es \<Longrightarrow> stuck k (rx_run es s)"
proof (induction es arbitrary: s)
  case Nil
  then show ?case by (simp add: rx_run_def)
next
  case (Cons e es)
  then show ?case using stuck_step [of k s e] Cons.IH [of "rx_step e s"] by (simp add: rx_run_def)
qed

subsection \<open>Properties\<close>


text \<open>
  C17. The key delivered with a rendezvous message leads to the descriptor of that message until the
  descriptor is taken out of the map.
\<close>

theorem rndv_key_finds_descriptor:
  assumes "length es < 2 ^ 64" and "Took k d (DeliveredRndv key) \<in> set (rx_logs (rx_run es rx_new))"
    and "PoppedDesc key \<notin> set (rx_logs (rx_run es rx_new))"
  shows "desc_view key (rx_run es rx_new) = Some d"
proof -
  have "key_inv 0 rx_new" by (simp add: key_inv_def rx_new_def)
  then show ?thesis using run_keys [of 0 rx_new es] assms by (auto simp: key_inv_def desc_view_def)
qed

definition example_rx_env :: rx_env where
  "example_rx_env = \<lparr>room = True, conn_state = (\<lambda>_. Some 0)\<rparr>"

definition example_arrival :: arrival where
  "example_arrival = \<lparr>ar_header_length = 8, ar_data = 5, ar_data_length = 64, ar_conn = 1, ar_attr = AttrRndv,
     ar_conn_status = Some 0, ar_header_memory = True, ar_data_memory = True\<rparr>"

definition example_rx_run :: "(rx_env \<times> rx_event) list" where
  "example_rx_run = [(example_rx_env, RxStart 0), (example_rx_env, RxArrive example_arrival), (example_rx_env, RxPending)]"

lemma example_rx_logs: "rx_logs (rx_run example_rx_run rx_new) = [Took 0 (desc_of example_arrival (Some 0) (UcpMemory 5)) (DeliveredRndv 0)]"
  by (simp add: rx_run_def example_rx_run_def rx_new_def start_io_def try_setup_start_io_def header_op_new_def populateSqe_def
      example_rx_env_def example_arrival_def am_recv_callback_def keep_data_def rx_allocate_def queue_desc_def desc_of_def
      on_read_complete_def desc_push_def upd_op_def log_rx_def ucs_values Let_def)

theorem rndv_key_finds_descriptor_witness:
  "desc_view 0 (rx_run example_rx_run rx_new) = Some (desc_of example_arrival (Some 0) (UcpMemory 5))"
  by (rule rndv_key_finds_descriptor [where k = 0]) (simp_all add: example_rx_logs, simp add: example_rx_run_def)

text \<open>
  A header receive whose stop token was stopped before it started is not cancelled: the stop callback
  returns because the operation does not wait yet, and then it waits. As long as no message arrives it never
  completes, whatever else happens, so a loop that is stopped between two receives does not end.
\<close>

theorem receive_started_after_stop_hangs:
  assumes "am_desc_queue s = []" and "header_ops s k = header_op_new\<lparr>stop_requested := True\<rparr>" and "unscheduled k s"
    and "room env" and "list_all (quiet k) es"
  shows "\<not> finished k (rx_run ((env, RxStart k) # es) s)"
proof -
  have "stuck k (rx_step (env, RxStart k) s)"
    using assms(1-4)
    by (simp add: start_io_def try_setup_start_io_def request_stop_def header_op_new_def populateSqe_def stuck_def unscheduled_def
        finished_def Let_def)
  then have "stuck k (rx_run es (rx_step (env, RxStart k) s))" using stuck_run assms(5) by blast
  then show ?thesis by (simp add: rx_run_def stuck_def unscheduled_def)
qed

theorem receive_started_after_stop_hangs_witness:
  "\<not> finished 0 (rx_run ((example_rx_env, RxStart 0) # [(example_rx_env, RxRemote), (example_rx_env, RxPending), (example_rx_env, RxCompletion)])
     (rx_step (example_rx_env, RxStop True 0) rx_new))"
  by (rule receive_started_after_stop_hangs)
    (simp_all add: rx_new_def header_op_new_def upd_op_def unscheduled_def finished_def example_rx_env_def Let_def)

text \<open>
  A message the callback refuses leaves nothing behind: no memory stays allocated, and neither the queue
  nor the waiting operations change.
\<close>

theorem refused_message_leaves_nothing:
  assumes "fst (am_recv_callback a s) < 0" and "list_all (\<lambda>b. b < next_block s) (live_blocks s)"
  shows "live_blocks (snd (am_recv_callback a s)) = live_blocks s \<and> am_desc_queue (snd (am_recv_callback a s)) = am_desc_queue s \<and>
    pending_recv (snd (am_recv_callback a s)) = pending_recv s"
proof -
  have new: "next_block s \<notin> set (live_blocks s)" using assms(2) by (auto simp: list_all_iff)
  have undo: "remove1 (next_block s) (live_blocks s @ [next_block s]) = live_blocks s" using new by (simp add: remove1_append)
  show ?thesis using assms(1)
    by (auto simp: am_recv_callback_def keep_data_def rx_allocate_def rx_deallocate_def ucs_values undo split: option.splits if_splits)
qed

theorem refused_message_leaves_nothing_witness:
  "live_blocks (snd (am_recv_callback (example_arrival\<lparr>ar_attr := AttrNone, ar_data_memory := False\<rparr>) rx_new)) = live_blocks rx_new \<and>
   am_desc_queue (snd (am_recv_callback (example_arrival\<lparr>ar_attr := AttrNone, ar_data_memory := False\<rparr>) rx_new)) = am_desc_queue rx_new \<and>
   pending_recv (snd (am_recv_callback (example_arrival\<lparr>ar_attr := AttrNone, ar_data_memory := False\<rparr>) rx_new)) = pending_recv rx_new"
  by (rule refused_message_leaves_nothing)
    (simp_all add: am_recv_callback_def keep_data_def rx_allocate_def example_arrival_def ucs_values rx_new_def)

end
