(* ===== verification/Buffer_Receive.thy ===== *)
theory Buffer_Receive
  imports Message_Receive
begin

text \<open>
  The operation of \<open>recv_buffer_sender_t\<close> (\<open>ucx_am_context.hpp\<close>): it takes the descriptor
  of a key, receives the payload through UCX and signals its receiver. The operation has a reference
  count, so that a completion and a stop request that meet signal only once. An entry of the completion ring
  carries the status that the loop stores into the operation before it runs it. A UCX request that was posted
  completes by putting one entry into the ring, as shown for connections.
\<close>

subsection \<open>State\<close>

datatype execute = ExecStart | ExecRead

datatype buf_signal = BufValue | BufDone | BufError int

datatype buf_cqe = OwnCqe int | CancelCqe

datatype buf_item = OwnItem | CancelItem

record buf_op =
  buf_desc :: "am_desc option"
  buf_released :: "am_desc list"
  buf_started :: bool
  buf_refs :: nat
  buf_cancel :: bool
  buf_stop :: bool
  buf_armed :: bool
  buf_constructed :: bool
  buf_execute :: execute
  buf_result :: int
  buf_request :: bool
  buf_cqes :: "buf_cqe list"
  buf_pending :: "buf_item list"
  buf_remote :: nat
  buf_signals :: "buf_signal list"

definition buf_new :: "am_desc option \<Rightarrow> buf_op" where
  "buf_new d = \<lparr>buf_desc = d, buf_released = [], buf_started = False, buf_refs = 1, buf_cancel = False, buf_stop = False,
     buf_armed = False, buf_constructed = False, buf_execute = ExecStart, buf_result = 0, buf_request = False, buf_cqes = [], buf_pending = [],
     buf_remote = 0, buf_signals = []\<rparr>"

record buf_env =
  buf_room :: bool
  buf_conn :: bool
  recv_outcome :: "int option"

subsection \<open>Operations\<close>

definition UCS_ERR_NOT_IMPLEMENTED :: int where "UCS_ERR_NOT_IMPLEMENTED = -8"

definition release_desc :: "buf_op \<Rightarrow> buf_op" where
  "release_desc s =
     (case buf_desc s of
        None \<Rightarrow> s
      | Some d \<Rightarrow> s\<lparr>buf_desc := None, buf_released := (if am_attr d = AttrRndv then buf_released s @ [d] else buf_released s)\<rparr>)"

text \<open>A posted request that is cancelled completes later; only the entry of the stop is submitted here.\<close>

definition buf_stop_local :: "buf_env \<Rightarrow> buf_op \<Rightarrow> buf_op" where
  "buf_stop_local env s =
     (if buf_room env then release_desc (s\<lparr>buf_cqes := buf_cqes s @ [CancelCqe], buf_result := UCS_ERR_CANCELED\<rparr>)
      else s\<lparr>buf_pending := buf_pending s @ [CancelItem]\<rparr>)"

definition buf_request_stop :: "buf_env \<Rightarrow> bool \<Rightarrow> buf_op \<Rightarrow> buf_op" where
  "buf_request_stop env on_io_thread s =
     (if buf_refs s \<noteq> 1 then s
      else
        let s1 = s\<lparr>buf_refs := 2, buf_cancel := True\<rparr> in
        if on_io_thread then buf_stop_local env s1 else s1\<lparr>buf_remote := Suc (buf_remote s1)\<rparr>)"

definition buf_setup :: "buf_env \<Rightarrow> buf_op \<Rightarrow> buf_op" where
  "buf_setup env s =
     (if buf_constructed s then s
      else
        let s1 = s\<lparr>buf_constructed := True, buf_armed := True\<rparr> in
        if buf_stop s1 then buf_request_stop env True s1 else s1)"

definition set_completion_entry :: "int \<Rightarrow> buf_op \<Rightarrow> buf_op" where
  "set_completion_entry status s = s\<lparr>buf_cqes := buf_cqes s @ [OwnCqe status], buf_execute := ExecStart, buf_result := status\<rparr>"

definition buf_populate :: "buf_env \<Rightarrow> buf_op \<Rightarrow> buf_op" where
  "buf_populate env s =
     (if buf_cancel s
      then (release_desc (s\<lparr>buf_result := UCS_ERR_CANCELED\<rparr>))\<lparr>buf_cqes := buf_cqes s @ [OwnCqe UCS_ERR_CANCELED], buf_execute := ExecRead\<rparr>
      else
        (case buf_desc s of
           None \<Rightarrow> set_completion_entry UCS_ERR_NO_MESSAGE s
         | Some d \<Rightarrow>
             let s1 = s\<lparr>buf_desc := None\<rparr> in
             if \<not> buf_conn env then set_completion_entry UCS_ERR_UNREACHABLE s1
             else if am_attr d \<noteq> AttrRndv then set_completion_entry UCS_ERR_NOT_IMPLEMENTED s1
             else
               let s2 = s1\<lparr>buf_execute := ExecRead\<rparr> in
               (case recv_outcome env of
                  None \<Rightarrow> s2\<lparr>buf_result := UCS_OK, buf_request := True\<rparr>
                | Some st \<Rightarrow> s2\<lparr>buf_result := st, buf_cqes := buf_cqes s2 @ [OwnCqe st]\<rparr>)))"

definition buf_start_io :: "buf_env \<Rightarrow> buf_op \<Rightarrow> buf_op" where
  "buf_start_io env s =
     (let s1 = buf_setup env s in
      if buf_room env then buf_populate env s1 else s1\<lparr>buf_execute := ExecStart, buf_pending := buf_pending s1 @ [OwnItem]\<rparr>)"

definition buf_read_complete :: "buf_op \<Rightarrow> buf_op" where
  "buf_read_complete s =
     (let s1 = s\<lparr>buf_refs := buf_refs s - 1\<rparr> in
      if buf_refs s \<noteq> 1 then s1
      else s1\<lparr>buf_armed := False, buf_signals := buf_signals s @
        [if buf_stop s then BufDone
         else if 0 \<le> buf_result s then BufValue
         else if buf_result s = UCS_ERR_CANCELED then BufDone
         else BufError (buf_result s)]\<rparr>)"

definition buf_stop_complete :: "buf_op \<Rightarrow> buf_op" where
  "buf_stop_complete s =
     (let s1 = s\<lparr>buf_refs := buf_refs s - 1\<rparr> in
      if buf_refs s \<noteq> 1 then s1 else s1\<lparr>buf_armed := False, buf_signals := buf_signals s @ [BufDone]\<rparr>)"

fun buf_run_cqe :: "buf_env \<Rightarrow> buf_cqe \<Rightarrow> buf_op \<Rightarrow> buf_op" where
  "buf_run_cqe env (OwnCqe st) s =
     (let s1 = s\<lparr>buf_result := st\<rparr> in
      case buf_execute s1 of ExecStart \<Rightarrow> buf_start_io env s1 | ExecRead \<Rightarrow> buf_read_complete s1)"
| "buf_run_cqe env CancelCqe s = buf_stop_complete s"

fun buf_run_item :: "buf_env \<Rightarrow> buf_item \<Rightarrow> buf_op \<Rightarrow> buf_op" where
  "buf_run_item env OwnItem s = buf_start_io env s"
| "buf_run_item env CancelItem s = buf_stop_local env s"

subsection \<open>Runs\<close>

text \<open>Another thread or operation may take the descriptor; a posted request completes with any status.\<close>

datatype buf_event = BufStart | BufPending | BufCqe | BufRemote | BufStop bool | BufUcx int | BufTaken

fun buf_step :: "buf_env \<times> buf_event \<Rightarrow> buf_op \<Rightarrow> buf_op" where
  "buf_step (env, BufStart) s = (if buf_started s then s else buf_start_io env (s\<lparr>buf_started := True\<rparr>))"
| "buf_step (env, BufPending) s = (case buf_pending s of [] \<Rightarrow> s | i # is \<Rightarrow> buf_run_item env i (s\<lparr>buf_pending := is\<rparr>))"
| "buf_step (env, BufCqe) s = (case buf_cqes s of [] \<Rightarrow> s | c # cs \<Rightarrow> buf_run_cqe env c (s\<lparr>buf_cqes := cs\<rparr>))"
| "buf_step (env, BufRemote) s = (if buf_remote s = 0 then s else buf_stop_local env (s\<lparr>buf_remote := buf_remote s - 1\<rparr>))"
| "buf_step (env, BufStop on_io_thread) s =
     (if buf_stop s then s
      else
        let s1 = s\<lparr>buf_stop := True\<rparr> in
        if buf_armed s1 then buf_request_stop env on_io_thread s1 else s1)"
| "buf_step (env, BufUcx st) s =
     (if buf_request s then s\<lparr>buf_request := False, buf_cqes := buf_cqes s @ [OwnCqe st]\<rparr> else s)"
| "buf_step (env, BufTaken) s = s\<lparr>buf_desc := None\<rparr>"

definition buf_run :: "(buf_env \<times> buf_event) list \<Rightarrow> buf_op \<Rightarrow> buf_op" where
  "buf_run es s = fold buf_step es s"

subsection \<open>Lemmas\<close>

text \<open>What is still going to touch the operation: its own continuation and the entry of a stop.\<close>

definition own_tokens :: "buf_op \<Rightarrow> nat" where
  "own_tokens s = (if buf_started s then 0 else 1) + length (filter (\<lambda>c. c \<noteq> CancelCqe) (buf_cqes s)) +
     length (filter (\<lambda>i. i = OwnItem) (buf_pending s)) + (if buf_request s then 1 else 0)"

definition stop_tokens :: "buf_op \<Rightarrow> nat" where
  "stop_tokens s = length (filter (\<lambda>c. c = CancelCqe) (buf_cqes s)) + length (filter (\<lambda>i. i = CancelItem) (buf_pending s)) + buf_remote s"

definition outstanding :: "buf_op \<Rightarrow> nat" where
  "outstanding s = own_tokens s + stop_tokens s"

definition buf_inv :: "buf_op \<Rightarrow> bool" where
  "buf_inv s \<longleftrightarrow> buf_refs s = outstanding s \<and> own_tokens s \<le> 1 \<and> stop_tokens s \<le> 1 \<and>
     length (buf_signals s) = (if outstanding s = 0 then 1 else 0) \<and>
     (buf_cancel s \<longrightarrow> buf_stop s) \<and> (0 < stop_tokens s \<longrightarrow> buf_cancel s) \<and> (buf_armed s \<longrightarrow> 0 < outstanding s) \<and>
     (buf_stop s \<and> buf_armed s \<longrightarrow> buf_cancel s) \<and> (\<not> buf_constructed s \<longrightarrow> \<not> buf_armed s \<and> \<not> buf_cancel s) \<and>
     (buf_cancel s \<longrightarrow> set (buf_signals s) \<subseteq> {BufDone})"

lemmas token_defs = own_tokens_def stop_tokens_def outstanding_def

lemma release_desc_fields [simp]:
  "own_tokens (release_desc s) = own_tokens s" "stop_tokens (release_desc s) = stop_tokens s" "buf_refs (release_desc s) = buf_refs s"
  "buf_signals (release_desc s) = buf_signals s" "buf_cancel (release_desc s) = buf_cancel s" "buf_stop (release_desc s) = buf_stop s"
  "buf_armed (release_desc s) = buf_armed s" "buf_constructed (release_desc s) = buf_constructed s" "buf_cqes (release_desc s) = buf_cqes s"
  "buf_pending (release_desc s) = buf_pending s" "buf_request (release_desc s) = buf_request s" "buf_remote (release_desc s) = buf_remote s"
  "buf_started (release_desc s) = buf_started s"
  by (simp_all add: release_desc_def token_defs split: option.splits)

lemma buf_new_inv: "buf_inv (buf_new d)"
  by (simp add: buf_inv_def buf_new_def token_defs)

text \<open>An operation while one of its tokens is being run: its own continuation, or its stop entry.\<close>

definition hand_base :: "buf_op \<Rightarrow> bool" where
  "hand_base s \<longleftrightarrow> buf_signals s = [] \<and> (buf_cancel s \<longrightarrow> buf_stop s) \<and> (buf_stop s \<and> buf_armed s \<longrightarrow> buf_cancel s) \<and>
     (\<not> buf_constructed s \<longrightarrow> \<not> buf_armed s \<and> \<not> buf_cancel s)"

definition own_hand :: "buf_op \<Rightarrow> bool" where
  "own_hand s \<longleftrightarrow> hand_base s \<and> buf_refs s = Suc (stop_tokens s) \<and> own_tokens s = 0 \<and> stop_tokens s \<le> 1 \<and> (0 < stop_tokens s \<longrightarrow> buf_cancel s)"

definition stop_hand :: "buf_op \<Rightarrow> bool" where
  "stop_hand s \<longleftrightarrow> hand_base s \<and> buf_refs s = Suc (own_tokens s) \<and> own_tokens s \<le> 1 \<and> stop_tokens s = 0 \<and> buf_cancel s"

lemmas hand_defs = own_hand_def stop_hand_def hand_base_def buf_inv_def

lemma stop_local_tokens:
  "own_tokens (buf_stop_local env s) = own_tokens s \<and> stop_tokens (buf_stop_local env s) = Suc (stop_tokens s) \<and>
   buf_refs (buf_stop_local env s) = buf_refs s \<and> buf_signals (buf_stop_local env s) = buf_signals s \<and>
   buf_cancel (buf_stop_local env s) = buf_cancel s \<and> buf_stop (buf_stop_local env s) = buf_stop s \<and>
   buf_armed (buf_stop_local env s) = buf_armed s \<and> buf_constructed (buf_stop_local env s) = buf_constructed s"
  by (simp add: buf_stop_local_def) (simp add: token_defs)

lemma stop_local_inv: "stop_hand s \<Longrightarrow> buf_inv (buf_stop_local env s)"
  by (auto simp: hand_defs stop_local_tokens outstanding_def)

lemma setup_hand:
  assumes "own_hand s"
  shows "own_hand (buf_setup env s) \<and> buf_constructed (buf_setup env s)"
proof (cases "buf_constructed s \<or> \<not> buf_stop s")
  case True
  then show ?thesis using assms by (auto simp: buf_setup_def hand_defs token_defs Let_def)
next
  case False
  let ?s = "s\<lparr>buf_constructed := True, buf_armed := True, buf_refs := 2, buf_cancel := True\<rparr>"
  have tok: "own_tokens ?s = own_tokens s" "stop_tokens ?s = stop_tokens s" by (simp_all add: token_defs)
  have zero: "stop_tokens s = 0" "buf_refs s = 1" using False assms by (auto simp: hand_defs)
  have set_up: "buf_setup env s = buf_stop_local env ?s" using False zero by (simp add: buf_setup_def buf_request_stop_def Let_def)
  show ?thesis unfolding set_up using assms zero tok False by (simp add: hand_defs stop_local_tokens)
qed

lemma own_hand_inv:
  assumes "own_hand s" and "buf_constructed s" and "own_tokens s' = 1" and "stop_tokens s' = stop_tokens s" and "buf_refs s' = buf_refs s"
    and "buf_signals s' = buf_signals s" and "buf_cancel s' = buf_cancel s" and "buf_stop s' = buf_stop s" and "buf_armed s' = buf_armed s"
    and "buf_constructed s' = buf_constructed s"
  shows "buf_inv s'"
  using assms by (simp add: hand_defs outstanding_def)

lemma populate_inv:
  assumes "own_hand s" and "buf_constructed s"
  shows "buf_inv (buf_populate env s)"
proof -
  have started: "buf_started s" "filter (\<lambda>c. c \<noteq> CancelCqe) (buf_cqes s) = []" "filter (\<lambda>i. i = OwnItem) (buf_pending s) = []" "\<not> buf_request s"
    using assms(1) by (auto simp: own_hand_def own_tokens_def split: if_splits)
  show ?thesis
    by (rule own_hand_inv [OF assms])
      (use started in \<open>auto simp: buf_populate_def set_completion_entry_def token_defs Let_def split: option.splits\<close>)
qed

lemma start_io_inv:
  assumes "own_hand s"
  shows "buf_inv (buf_start_io env s)"
proof -
  let ?s = "buf_setup env s"
  have hand: "own_hand ?s" "buf_constructed ?s" using setup_hand [OF assms] by auto
  have "buf_inv (?s\<lparr>buf_execute := ExecStart, buf_pending := buf_pending ?s @ [OwnItem]\<rparr>)"
    by (rule own_hand_inv [OF hand]) (use hand(1) in \<open>auto simp: own_hand_def token_defs split: if_splits\<close>)
  then show ?thesis using populate_inv [OF hand] by (simp add: buf_start_io_def Let_def)
qed

lemma read_complete_inv: "own_hand s \<Longrightarrow> buf_inv (buf_read_complete s)"
  by (auto simp: buf_read_complete_def hand_defs token_defs Let_def)

lemma stop_complete_inv: "stop_hand s \<Longrightarrow> buf_inv (buf_stop_complete s)"
  by (auto simp: buf_stop_complete_def hand_defs token_defs Let_def)

lemma request_stop_inv:
  assumes "buf_inv s" and "buf_armed s" and "\<not> buf_stop s"
  shows "buf_inv (buf_request_stop env b (s\<lparr>buf_stop := True\<rparr>))"
proof -
  let ?s = "s\<lparr>buf_stop := True, buf_refs := 2, buf_cancel := True\<rparr>"
  have own: "own_tokens s = 1" "stop_tokens s = 0" "buf_refs s = 1" "buf_signals s = []" "buf_constructed s"
    using assms by (auto simp: buf_inv_def outstanding_def)
  have tok: "own_tokens ?s = 1" "stop_tokens ?s = 0" using own by (simp_all add: token_defs)
  have hand: "stop_hand ?s" using tok own by (simp add: stop_hand_def hand_base_def)
  have "own_tokens (?s\<lparr>buf_remote := Suc (buf_remote s)\<rparr>) = 1" "stop_tokens (?s\<lparr>buf_remote := Suc (buf_remote s)\<rparr>) = 1"
    using own by (simp_all add: token_defs)
  then have "buf_inv (?s\<lparr>buf_remote := Suc (buf_remote s)\<rparr>)" using own by (simp add: buf_inv_def outstanding_def)
  then show ?thesis using own stop_local_inv [OF hand] by (simp add: buf_request_stop_def Let_def)
qed

text \<open>Taking a token off a queue.\<close>

lemma take_own:
  assumes "buf_inv s" and "own_tokens s = Suc (own_tokens s')" and "stop_tokens s' = stop_tokens s" and "buf_refs s' = buf_refs s"
    and "buf_signals s' = buf_signals s" and "buf_cancel s' = buf_cancel s" and "buf_stop s' = buf_stop s" and "buf_armed s' = buf_armed s"
    and "buf_constructed s' = buf_constructed s"
  shows "own_hand s'"
  using assms by (auto simp: buf_inv_def own_hand_def hand_base_def outstanding_def)

lemma take_stop:
  assumes "buf_inv s" and "stop_tokens s = Suc (stop_tokens s')" and "own_tokens s' = own_tokens s" and "buf_refs s' = buf_refs s"
    and "buf_signals s' = buf_signals s" and "buf_cancel s' = buf_cancel s" and "buf_stop s' = buf_stop s" and "buf_armed s' = buf_armed s"
    and "buf_constructed s' = buf_constructed s"
  shows "stop_hand s'"
  using assms by (auto simp: buf_inv_def stop_hand_def hand_base_def outstanding_def)

lemma inv_cong:
  assumes "buf_inv s" and "own_tokens s' = own_tokens s" and "stop_tokens s' = stop_tokens s" and "buf_refs s' = buf_refs s"
    and "buf_signals s' = buf_signals s" and "buf_cancel s' = buf_cancel s" and "buf_stop s' = buf_stop s" and "buf_armed s' = buf_armed s"
    and "buf_constructed s' = buf_constructed s"
  shows "buf_inv s'"
  using assms by (simp add: buf_inv_def outstanding_def)

lemma buf_step_inv:
  assumes "buf_inv s"
  shows "buf_inv (buf_step e s)"
proof -
  obtain env ev where e: "e = (env, ev)" by fastforce
  show ?thesis
  proof (cases ev)
    case BufStart
    have "own_hand (s\<lparr>buf_started := True\<rparr>)" if "\<not> buf_started s"
      by (rule take_own [OF assms]) (use that in \<open>simp_all add: token_defs\<close>)
    then show ?thesis using start_io_inv assms by (simp add: e BufStart)
  next
    case BufPending
    have "buf_inv (buf_run_item env i (s\<lparr>buf_pending := is\<rparr>))" if "buf_pending s = i # is" for i "is"
    proof (cases i)
      case OwnItem
      have "own_hand (s\<lparr>buf_pending := is\<rparr>)" by (rule take_own [OF assms]) (simp_all add: token_defs that OwnItem)
      then show ?thesis using start_io_inv OwnItem by simp
    next
      case CancelItem
      have "stop_hand (s\<lparr>buf_pending := is\<rparr>)" by (rule take_stop [OF assms]) (simp_all add: token_defs that CancelItem)
      then show ?thesis using stop_local_inv CancelItem by simp
    qed
    then show ?thesis using assms by (simp add: e BufPending split: list.splits)
  next
    case BufCqe
    have "buf_inv (buf_run_cqe env c (s\<lparr>buf_cqes := cs\<rparr>))" if "buf_cqes s = c # cs" for c cs
    proof (cases c)
      case (OwnCqe st)
      have "own_hand (s\<lparr>buf_cqes := cs, buf_result := st\<rparr>)" by (rule take_own [OF assms]) (simp_all add: token_defs that OwnCqe)
      then show ?thesis using start_io_inv read_complete_inv OwnCqe by (simp add: Let_def split: execute.splits)
    next
      case CancelCqe
      have "stop_hand (s\<lparr>buf_cqes := cs\<rparr>)" by (rule take_stop [OF assms]) (simp_all add: token_defs that CancelCqe)
      then show ?thesis using stop_complete_inv CancelCqe by simp
    qed
    then show ?thesis using assms by (simp add: e BufCqe split: list.splits)
  next
    case BufRemote
    have "stop_hand (s\<lparr>buf_remote := buf_remote s - 1\<rparr>)" if "0 < buf_remote s"
      by (rule take_stop [OF assms]) (use that in \<open>simp_all add: token_defs\<close>)
    then show ?thesis using stop_local_inv assms by (simp add: e BufRemote)
  next
    case (BufStop b)
    have "buf_inv (s\<lparr>buf_stop := True\<rparr>)" if "\<not> buf_stop s" "\<not> buf_armed s"
      using assms that by (auto simp: buf_inv_def token_defs)
    then show ?thesis using assms request_stop_inv by (simp add: e BufStop Let_def)
  next
    case (BufUcx st)
    have "buf_inv (s\<lparr>buf_request := False, buf_cqes := buf_cqes s @ [OwnCqe st]\<rparr>)" if "buf_request s"
      by (rule inv_cong [OF assms]) (use that in \<open>simp_all add: token_defs\<close>)
    then show ?thesis using assms by (simp add: e BufUcx)
  next
    case BufTaken
    show ?thesis using assms by (simp add: e BufTaken) (rule inv_cong, auto simp: token_defs)
  qed
qed

lemma buf_run_inv: "buf_inv s \<Longrightarrow> buf_inv (buf_run es s)"
proof (induction es arbitrary: s)
  case Nil
  then show ?case by (simp add: buf_run_def)
next
  case (Cons e es)
  then show ?case using buf_step_inv [of s e] Cons.IH [of "buf_step e s"] by (simp add: buf_run_def)
qed

subsection \<open>A receive without its descriptor\<close>

definition spins :: "buf_op \<Rightarrow> bool" where
  "spins s \<longleftrightarrow> buf_desc s = None \<and> \<not> buf_cancel s \<and> \<not> buf_stop s \<and> buf_execute s = ExecStart \<and> \<not> buf_request s \<and>
     CancelCqe \<notin> set (buf_cqes s) \<and> CancelItem \<notin> set (buf_pending s) \<and> buf_remote s = 0 \<and> buf_signals s = []"

lemma spins_start: "spins s \<Longrightarrow> spins (buf_start_io env s)"
  by (auto simp: spins_def buf_start_io_def buf_setup_def buf_populate_def set_completion_entry_def Let_def)

fun not_stopping :: "buf_env \<times> buf_event \<Rightarrow> bool" where
  "not_stopping (env, BufStop b) = False"
| "not_stopping e = True"

lemma spins_step:
  assumes "spins s" and "not_stopping e"
  shows "spins (buf_step e s)"
proof -
  obtain env ev where e: "e = (env, ev)" by fastforce
  have item: "spins (buf_run_item env i (s\<lparr>buf_pending := is\<rparr>))" if "buf_pending s = i # is" for i "is"
  proof -
    have "i = OwnItem" "spins (s\<lparr>buf_pending := is\<rparr>)" using assms(1) that by (cases i; auto simp: spins_def)+
    then show ?thesis using spins_start by simp
  qed
  have cqe: "spins (buf_run_cqe env c (s\<lparr>buf_cqes := cs\<rparr>))" if "buf_cqes s = c # cs" for c cs
  proof -
    note cqes = that
    obtain st where c: "c = OwnCqe st" using assms(1) cqes by (cases c) (auto simp: spins_def)
    have "spins (s\<lparr>buf_cqes := cs, buf_result := st\<rparr>)" "buf_execute s = ExecStart" using assms(1) that by (auto simp: spins_def)
    then show ?thesis using spins_start c by (simp add: Let_def)
  qed
  have start: "spins (buf_start_io env (s\<lparr>buf_started := True\<rparr>))" using assms(1) by (intro spins_start) (simp add: spins_def)
  show ?thesis using assms start item cqe by (cases ev) (auto simp: e spins_def split: list.splits)
qed

lemma spins_run: "spins s \<Longrightarrow> list_all not_stopping es \<Longrightarrow> spins (buf_run es s)"
proof (induction es arbitrary: s)
  case Nil
  then show ?case by (simp add: buf_run_def)
next
  case (Cons e es)
  then show ?case using spins_step [of s e] Cons.IH [of "buf_step e s"] by (simp add: buf_run_def)
qed

subsection \<open>Properties\<close>

text \<open>
  C11. However its own completion, stop requests of any thread, a full ring and UCX interleave, a buffer
  receive signals its receiver at most once, and exactly once when nothing is left that could run it. A
  cancelled one only signals done.
\<close>

theorem buffer_receive_signals_once:
  "length (buf_signals (buf_run es (buf_new d))) = (if outstanding (buf_run es (buf_new d)) = 0 then 1 else 0) \<and>
   set (buf_signals (buf_run es (buf_new d))) \<subseteq> (if buf_cancel (buf_run es (buf_new d)) then {BufDone} else UNIV)"
  using buf_run_inv [OF buf_new_inv, of es d] by (simp add: buf_inv_def)

text \<open>
  A buffer receive whose descriptor is not in the map does not fail: the completion entry it posts with
  \<open>UCS_ERR_NO_MESSAGE\<close> starts it again. Unless it is stopped, it occupies the completion ring for ever and
  never signals its receiver.
\<close>

theorem missing_descriptor_spins:
  assumes "list_all not_stopping es"
  shows "buf_signals (buf_run es (buf_new None)) = [] \<and> 0 < outstanding (buf_run es (buf_new None))"
proof -
  have "spins (buf_run es (buf_new None))" by (rule spins_run [OF _ assms]) (simp add: spins_def buf_new_def)
  then show ?thesis using buf_run_inv [OF buf_new_inv, of es None] by (auto simp: spins_def buf_inv_def split: if_splits)
qed

definition example_buf_env :: buf_env where
  "example_buf_env = \<lparr>buf_room = True, buf_conn = True, recv_outcome = None\<rparr>"

theorem missing_descriptor_spins_witness:
  "buf_signals (buf_run (map (Pair example_buf_env) [BufStart, BufCqe, BufCqe, BufCqe]) (buf_new None)) = [] \<and>
   0 < outstanding (buf_run (map (Pair example_buf_env) [BufStart, BufCqe, BufCqe, BufCqe]) (buf_new None))"
  by (rule missing_descriptor_spins) simp

text \<open>A payload that arrives is signalled; a descriptor without a connection is dropped and the receive spins.\<close>

lemma payload_is_delivered:
  "0 \<le> st \<Longrightarrow> am_attr d = AttrRndv \<Longrightarrow> buf_signals (buf_run (map (Pair example_buf_env) [BufStart, BufUcx st, BufCqe]) (buf_new (Some d))) = [BufValue]"
  by (simp add: buf_run_def buf_new_def buf_start_io_def buf_setup_def buf_populate_def buf_read_complete_def example_buf_env_def Let_def)

lemma unreachable_descriptor_is_lost:
  assumes "\<not> buf_conn env" and "buf_room env" and "list_all not_stopping es"
  shows "buf_signals (buf_run ((env, BufStart) # es) (buf_new (Some d))) = [] \<and>
    buf_released (buf_step (env, BufStart) (buf_new (Some d))) = [] \<and> buf_desc (buf_step (env, BufStart) (buf_new (Some d))) = None"
proof -
  have "spins (buf_step (env, BufStart) (buf_new (Some d)))" using assms(1,2)
    by (simp add: spins_def buf_new_def buf_start_io_def buf_setup_def buf_populate_def set_completion_entry_def Let_def)
  from spins_run [OF this assms(3)] have "buf_signals (buf_run ((env, BufStart) # es) (buf_new (Some d))) = []"
    by (simp add: spins_def buf_run_def)
  then show ?thesis using assms(1,2)
    by (simp add: buf_new_def buf_start_io_def buf_setup_def buf_populate_def set_completion_entry_def Let_def)
qed

end
