(* ===== verification/Send_Operation.thy ===== *)
theory Send_Operation
  imports Buffer_Receive
begin

text \<open>
  The operation of \<open>send_sender_t\<close> (\<open>ucx_am_context.hpp\<close>). A send posts a request whose callback lives in the
  operation: an entry of the completion ring for large payloads, the front of the pending queue for small
  ones. A stop replaces the callback of the request in flight by a \<open>DeferredReleaseCallback\<close> that takes over
  the payload, cancels the request and completes through the ring. The receiver destroys the operation when
  it is signalled, so that touching it afterwards, or writing to a request that UCX has released, is the fault
  \<open>UseAfterFree\<close>. The environment decides whether the rings have room, whether the connection is still in
  the active map, the protocol, and what posting returns.
\<close>

subsection \<open>State\<close>

datatype send_execute = SendStart | SendWrite

datatype send_callback = CqeEntryCb | DirectEntryCb | DeferredCb

datatype send_signal = SendValue | SendDone | SendError int

datatype send_cqe = SendOwn int | SendCancel

record send_op =
  sn_conn :: bool
  sn_started :: bool
  sn_refs :: nat
  sn_cancel :: bool
  sn_stop :: bool
  sn_constructed :: bool
  sn_armed :: bool
  sn_execute :: send_execute
  sn_result :: int
  sn_pointer :: bool
  sn_live :: "send_callback option"
  sn_leaked :: nat
  sn_cqes :: "send_cqe list"
  sn_pending :: "buf_item list"
  sn_remote :: nat
  sn_signals :: "send_signal list"

definition send_new :: "bool \<Rightarrow> send_op" where
  "send_new conn = \<lparr>sn_conn = conn, sn_started = False, sn_refs = 1, sn_cancel = False, sn_stop = False, sn_constructed = False,
     sn_armed = False, sn_execute = SendStart, sn_result = 0, sn_pointer = False, sn_live = None, sn_leaked = 0, sn_cqes = [],
     sn_pending = [], sn_remote = 0, sn_signals = []\<rparr>"

record send_env =
  sn_room :: bool
  sn_valid :: bool
  use_rndv :: bool
  send_outcome :: "int option"

subsection \<open>Operations\<close>

text \<open>
  The completion callback of the operation. \<open>DirectEntryCallback\<close> stores the status and puts the operation in
  front of the pending queue; \<open>CqeEntryCallback\<close> fills an entry of the completion ring.
\<close>

fun run_callback :: "send_callback \<Rightarrow> int \<Rightarrow> send_op \<Rightarrow> send_op" where
  "run_callback CqeEntryCb st s = s\<lparr>sn_cqes := sn_cqes s @ [SendOwn st]\<rparr>"
| "run_callback DirectEntryCb st s = s\<lparr>sn_result := st, sn_pending := OwnItem # sn_pending s\<rparr>"
| "run_callback DeferredCb st s = s"

text \<open>
  \<open>request_stop_local\<close>. When the submission does not fit, the whole function runs again later, so that the
  request gets a second deferred callback and the first one, with the payload, is leaked.
\<close>

definition send_defer :: "send_env \<Rightarrow> send_op \<Rightarrow> send_op res" where
  "send_defer env s =
     (if sn_conn s \<and> sn_valid env \<and> sn_pointer s then
        (case sn_live s of
           None \<Rightarrow> Inl UseAfterFree
         | Some DeferredCb \<Rightarrow> Inr (s\<lparr>sn_leaked := Suc (sn_leaked s)\<rparr>)
         | Some _ \<Rightarrow> Inr (s\<lparr>sn_live := Some DeferredCb\<rparr>))
      else Inr s)"

definition send_stop_local :: "send_env \<Rightarrow> send_op \<Rightarrow> send_op res" where
  "send_stop_local env s =
     bind_res (send_defer env s) (\<lambda>s1. Inr
       (if sn_room env then s1\<lparr>sn_cqes := sn_cqes s1 @ [SendCancel], sn_result := UCS_ERR_CANCELED\<rparr>
        else s1\<lparr>sn_pending := sn_pending s1 @ [CancelItem]\<rparr>))"

definition send_request_stop :: "send_env \<Rightarrow> bool \<Rightarrow> send_op \<Rightarrow> send_op res" where
  "send_request_stop env on_io_thread s =
     (if sn_refs s \<noteq> 1 then Inr s
      else
        let s1 = s\<lparr>sn_refs := 2, sn_cancel := True\<rparr> in
        if on_io_thread then send_stop_local env s1 else Inr (s1\<lparr>sn_remote := Suc (sn_remote s1)\<rparr>))"

definition send_setup :: "send_env \<Rightarrow> send_op \<Rightarrow> send_op res" where
  "send_setup env s =
     (if sn_constructed s then Inr s
      else
        let s1 = s\<lparr>sn_constructed := True, sn_armed := True\<rparr> in
        if sn_stop s1 then send_request_stop env True s1 else Inr s1)"

definition send_populate :: "send_env \<Rightarrow> send_op \<Rightarrow> send_op" where
  "send_populate env s =
     (if sn_cancel s then s\<lparr>sn_result := UCS_ERR_CANCELED\<rparr>
      else
        let s1 = s\<lparr>sn_execute := SendWrite\<rparr>; cb = (if use_rndv env then CqeEntryCb else DirectEntryCb) in
        if \<not> sn_conn s then s1\<lparr>sn_result := UCS_ERR_UNREACHABLE\<rparr>
        else
          (case send_outcome env of
             Some st \<Rightarrow> (run_callback cb st s1)\<lparr>sn_result := st, sn_pointer := False\<rparr>
           | None \<Rightarrow> s1\<lparr>sn_live := Some cb, sn_result := UCS_OK, sn_pointer := True\<rparr>))"

definition send_start_io :: "send_env \<Rightarrow> send_op \<Rightarrow> send_op res" where
  "send_start_io env s =
     bind_res (send_setup env s) (\<lambda>s1. Inr
       (if sn_room env then send_populate env s1
        else s1\<lparr>sn_execute := SendStart, sn_pending := sn_pending s1 @ [OwnItem]\<rparr>))"

definition on_write_complete :: "send_op \<Rightarrow> send_op" where
  "on_write_complete s =
     (let s1 = s\<lparr>sn_refs := sn_refs s - 1\<rparr> in
      if sn_refs s \<noteq> 1 then s1
      else s1\<lparr>sn_armed := False, sn_signals := sn_signals s @
        [if sn_stop s then SendDone
         else if 0 \<le> sn_result s then SendValue
         else if sn_result s = UCS_ERR_CANCELED then SendDone
         else SendError (sn_result s)]\<rparr>)"

text \<open>Unlike that of a buffer receive, the completion of a stop does not look at the reference count.\<close>

definition send_stop_complete :: "send_op \<Rightarrow> send_op" where
  "send_stop_complete s = s\<lparr>sn_armed := False, sn_signals := sn_signals s @ [SendDone]\<rparr>"

definition send_execute_op :: "send_env \<Rightarrow> send_op \<Rightarrow> send_op res" where
  "send_execute_op env s = (case sn_execute s of SendStart \<Rightarrow> send_start_io env s | SendWrite \<Rightarrow> Inr (on_write_complete s))"

subsection \<open>Runs\<close>

text \<open>Whoever holds a pointer to the operation after it signalled finds it destroyed.\<close>

definition touch :: "(send_op \<Rightarrow> send_op res) \<Rightarrow> send_op \<Rightarrow> send_op res" where
  "touch f s = (if sn_signals s = [] then f s else Inl UseAfterFree)"

datatype send_event = StartSend | RunPending | RunCqe | RunRemote | StopSend bool | UcxCompletes int

fun send_run_cqe :: "send_env \<Rightarrow> send_cqe \<Rightarrow> send_op \<Rightarrow> send_op res" where
  "send_run_cqe env (SendOwn st) s = send_execute_op env (s\<lparr>sn_result := st\<rparr>)"
| "send_run_cqe env SendCancel s = Inr (send_stop_complete s)"

fun send_run_item :: "send_env \<Rightarrow> buf_item \<Rightarrow> send_op \<Rightarrow> send_op res" where
  "send_run_item env OwnItem s = send_execute_op env s"
| "send_run_item env CancelItem s = send_stop_local env s"

fun send_step :: "send_env \<times> send_event \<Rightarrow> send_op \<Rightarrow> send_op res" where
  "send_step (env, StartSend) s = (if sn_started s then Inr s else touch (send_start_io env) (s\<lparr>sn_started := True\<rparr>))"
| "send_step (env, RunPending) s =
     (case sn_pending s of [] \<Rightarrow> Inr s | i # is \<Rightarrow> touch (send_run_item env i) (s\<lparr>sn_pending := is\<rparr>))"
| "send_step (env, RunCqe) s =
     (case sn_cqes s of [] \<Rightarrow> Inr s | c # cs \<Rightarrow> touch (send_run_cqe env c) (s\<lparr>sn_cqes := cs\<rparr>))"
| "send_step (env, RunRemote) s =
     (if sn_remote s = 0 then Inr s else touch (send_stop_local env) (s\<lparr>sn_remote := sn_remote s - 1\<rparr>))"
| "send_step (env, StopSend on_io_thread) s =
     (if sn_stop s then Inr s
      else
        let s1 = s\<lparr>sn_stop := True\<rparr> in
        if sn_armed s1 then send_request_stop env on_io_thread s1 else Inr s1)"
| "send_step (env, UcxCompletes st) s =
     (case sn_live s of
        None \<Rightarrow> Inr s
      | Some DeferredCb \<Rightarrow> Inr (s\<lparr>sn_live := None\<rparr>)
      | Some cb \<Rightarrow> touch (\<lambda>s. Inr (run_callback cb st s)) (s\<lparr>sn_live := None\<rparr>))"

fun send_run :: "(send_env \<times> send_event) list \<Rightarrow> send_op \<Rightarrow> send_op res" where
  "send_run [] s = Inr s"
| "send_run (e # es) s = bind_res (send_step e s) (send_run es)"

subsection \<open>Lemmas\<close>

text \<open>What is still going to run the operation: its own continuation and the entry of a stop.\<close>

definition own_left :: "send_op \<Rightarrow> nat" where
  "own_left s = (if sn_started s then 0 else 1) + length (filter (\<lambda>c. c \<noteq> SendCancel) (sn_cqes s)) +
     length (filter (\<lambda>i. i = OwnItem) (sn_pending s)) + (if sn_live s \<in> {Some CqeEntryCb, Some DirectEntryCb} then 1 else 0)"

definition stop_left :: "send_op \<Rightarrow> nat" where
  "stop_left s = length (filter (\<lambda>c. c = SendCancel) (sn_cqes s)) + length (filter (\<lambda>i. i = CancelItem) (sn_pending s)) + sn_remote s"

lemmas left_defs = own_left_def stop_left_def

definition send_flags :: "send_op \<Rightarrow> bool" where
  "send_flags s \<longleftrightarrow> sn_conn s \<and> (sn_cancel s \<longrightarrow> sn_stop s \<and> sn_constructed s) \<and> (sn_stop s \<and> sn_armed s \<longrightarrow> sn_cancel s) \<and>
     (\<not> sn_constructed s \<longrightarrow> \<not> sn_armed s)"

definition send_running :: "nat \<Rightarrow> nat \<Rightarrow> send_op \<Rightarrow> bool" where
  "send_running own stop s \<longleftrightarrow> send_flags s \<and> sn_signals s = [] \<and>
     (if sn_cancel s then stop = 1 \<and> (own \<le> 1 \<and> sn_refs s = 2 \<or> own = 0 \<and> sn_refs s = 1) else own = 1 \<and> stop = 0 \<and> sn_refs s = 1)"

definition send_signalled :: "send_op \<Rightarrow> bool" where
  "send_signalled s \<longleftrightarrow> send_flags s \<and> length (sn_signals s) = 1 \<and> stop_left s = 0 \<and> \<not> sn_armed s \<and>
     (if sn_cancel s then sn_signals s = [SendDone] else own_left s = 0)"

definition send_inv :: "send_op \<Rightarrow> bool" where
  "send_inv s \<longleftrightarrow> send_running (own_left s) (stop_left s) s \<or> send_signalled s"

lemmas send_inv_defs = send_inv_def send_running_def send_signalled_def send_flags_def

lemma send_new_inv: "send_inv (send_new True)"
  by (simp add: send_inv_defs send_new_def left_defs)

text \<open>Nothing the phase of an operation depends on, its tokens apart, has changed.\<close>

definition send_same :: "send_op \<Rightarrow> send_op \<Rightarrow> bool" where
  "send_same s s' \<longleftrightarrow> sn_refs s' = sn_refs s \<and> sn_signals s' = sn_signals s \<and> sn_conn s' = sn_conn s \<and> sn_cancel s' = sn_cancel s \<and>
     sn_stop s' = sn_stop s \<and> sn_armed s' = sn_armed s \<and> sn_constructed s' = sn_constructed s"

lemma running_same: "send_same s s' \<Longrightarrow> send_running own stop s' = send_running own stop s"
  by (simp add: send_same_def send_running_def send_flags_def)

lemma signalled_same:
  "send_same s s' \<Longrightarrow> own_left s' = own_left s \<Longrightarrow> stop_left s' = stop_left s \<Longrightarrow> send_signalled s' = send_signalled s"
  by (simp add: send_signalled_def send_same_def send_flags_def)

lemma send_inv_same: "send_same s s' \<Longrightarrow> own_left s' = own_left s \<Longrightarrow> stop_left s' = stop_left s \<Longrightarrow> send_inv s \<Longrightarrow> send_inv s'"
  using running_same [of s s'] signalled_same [of s s'] by (simp add: send_inv_def)

lemma running_fewer: "send_running own stop s \<Longrightarrow> sn_cancel s \<Longrightarrow> own' \<le> own \<Longrightarrow> send_running own' stop s"
  by (auto simp: send_running_def)

lemma send_defer_kept:
  assumes "send_defer env s = Inr s'"
  shows "send_same s s' \<and> own_left s' \<le> own_left s \<and> stop_left s' = stop_left s"
proof (cases "sn_conn s \<and> sn_valid env \<and> sn_pointer s")
  case True
  then obtain cb where "sn_live s = Some cb" using assms by (cases "sn_live s") (simp_all add: send_defer_def)
  then show ?thesis using assms True by (cases cb) (clarsimp simp: send_defer_def left_defs send_same_def)+
next
  case False
  then show ?thesis using assms by (simp only: send_defer_def if_not_P [OF False]) (simp add: send_same_def)
qed

lemma send_stop_local_kept:
  assumes "send_stop_local env s = Inr s'"
  shows "send_same s s' \<and> own_left s' \<le> own_left s \<and> stop_left s' = Suc (stop_left s)"
proof -
  obtain s1 where d: "send_defer env s = Inr s1" using assms by (auto simp: send_stop_local_def bind_res_Inr_iff)
  have s': "s' = (if sn_room env then s1\<lparr>sn_cqes := sn_cqes s1 @ [SendCancel], sn_result := UCS_ERR_CANCELED\<rparr>
      else s1\<lparr>sn_pending := sn_pending s1 @ [CancelItem]\<rparr>)" using assms by (simp add: send_stop_local_def d)
  have "send_same s1 s'" "own_left s' = own_left s1" "stop_left s' = Suc (stop_left s1)"
    unfolding s' by (simp_all add: send_same_def left_defs)
  then show ?thesis using send_defer_kept [OF d] by (simp add: send_same_def)
qed

text \<open>The stop entry in hand becomes a stop entry in a queue.\<close>

lemma send_stop_local_running:
  assumes "send_running (own_left s) (Suc (stop_left s)) s" and "send_stop_local env s = Inr s'"
  shows "send_running (own_left s') (stop_left s') s'"
proof -
  have "sn_cancel s" using assms(1) by (auto simp: send_running_def split: if_splits)
  then show ?thesis using send_stop_local_kept [OF assms(2)] running_same [of s s'] running_fewer [OF assms(1)] by simp
qed

text \<open>The own continuation in hand: one more than what is left.\<close>

definition in_hand :: "send_op \<Rightarrow> bool" where
  "in_hand s \<longleftrightarrow> own_left s = 0 \<and> send_running 1 (stop_left s) s"

lemma in_hand_empty:
  assumes "in_hand s"
  shows "sn_started s \<and> filter (\<lambda>c. c \<noteq> SendCancel) (sn_cqes s) = [] \<and> filter (\<lambda>i. i = OwnItem) (sn_pending s) = [] \<and>
    sn_live s \<noteq> Some CqeEntryCb \<and> sn_live s \<noteq> Some DirectEntryCb \<and> sn_conn s"
  using assms by (auto simp: in_hand_def own_left_def send_running_def send_flags_def split: if_splits)

lemma in_hand_done:
  assumes "in_hand s" and "send_same s s'" and "stop_left s' = stop_left s" and "own_left s' = 1 \<or> own_left s' = 0 \<and> sn_cancel s"
  shows "send_inv s'"
proof -
  have "send_running 1 (stop_left s) s" using assms(1) by (simp add: in_hand_def)
  then have "send_running (own_left s') (stop_left s') s" using assms(3,4) running_fewer [of 1 "stop_left s" s 0] by auto
  then show ?thesis using running_same [OF assms(2)] by (simp add: send_inv_def)
qed

lemma send_setup_in_hand:
  assumes "in_hand s" and "send_setup env s = Inr s'"
  shows "in_hand s'"
proof (cases "sn_constructed s \<or> \<not> sn_stop s")
  case True
  let ?s = "s\<lparr>sn_constructed := True, sn_armed := True\<rparr>"
  have left: "own_left ?s = own_left s" "stop_left ?s = stop_left s" by (simp_all add: left_defs)
  have "in_hand ?s" if "\<not> sn_stop s"
  proof -
    have "\<not> sn_cancel s" "sn_conn s" "sn_signals s = []" "own_left s = 0" "stop_left s = 0" "sn_refs s = 1"
      using that assms(1) by (cases "sn_cancel s"; simp add: in_hand_def send_running_def send_flags_def)+
    then show ?thesis using that left by (simp add: in_hand_def send_running_def send_flags_def)
  qed
  then show ?thesis using assms True by (cases "sn_constructed s") (simp_all add: send_setup_def Let_def)
next
  case False
  let ?s = "s\<lparr>sn_constructed := True, sn_armed := True, sn_refs := 2, sn_cancel := True\<rparr>"
  have one: "sn_refs s = 1" "stop_left s = 0" "sn_signals s = []" "sn_conn s" "own_left s = 0"
    using False assms(1) by (cases "sn_cancel s"; simp add: in_hand_def send_running_def send_flags_def)+
  have left: "own_left ?s = 0" "stop_left ?s = 0" using one by (simp_all add: left_defs)
  have loc: "send_stop_local env ?s = Inr s'" using assms(2) False one by (simp add: send_setup_def send_request_stop_def Let_def)
  have "send_running 1 1 ?s" using one False by (simp add: send_running_def send_flags_def)
  then show ?thesis using send_stop_local_kept [OF loc] left running_same [of ?s s'] by (simp add: in_hand_def)
qed

lemma send_populate_inv:
  assumes "in_hand s"
  shows "send_inv (send_populate env s)"
  by (rule in_hand_done [OF assms])
    (use in_hand_empty [OF assms] in \<open>auto simp: send_populate_def left_defs send_same_def Let_def split: option.splits\<close>)

lemma send_start_io_inv:
  assumes "in_hand s" and "send_start_io env s = Inr s'"
  shows "send_inv s'"
proof -
  obtain s1 where s1: "send_setup env s = Inr s1" using assms(2) by (auto simp: send_start_io_def bind_res_Inr_iff)
  note hand = send_setup_in_hand [OF assms(1) s1]
  have "send_inv (s1\<lparr>sn_execute := SendStart, sn_pending := sn_pending s1 @ [OwnItem]\<rparr>)"
    by (rule in_hand_done [OF hand]) (use in_hand_empty [OF hand] in \<open>simp_all add: left_defs send_same_def\<close>)
  then show ?thesis using assms(2) send_populate_inv [OF hand, of env] by (simp add: send_start_io_def s1 split: if_splits)
qed

lemma on_write_complete_inv:
  assumes "in_hand s"
  shows "send_inv (on_write_complete s)"
proof -
  have left: "own_left (on_write_complete s) = 0" "stop_left (on_write_complete s) = stop_left s"
    using in_hand_empty [OF assms] by (simp_all add: on_write_complete_def left_defs Let_def)
  show ?thesis
  proof (cases "sn_cancel s")
    case True
    then have s: "sn_refs s = 2" "stop_left s = 1" "sn_signals s = []" "send_flags s" using assms by (auto simp: in_hand_def send_running_def)
    then have "send_running 0 1 (on_write_complete s)" using True by (simp add: on_write_complete_def send_running_def send_flags_def Let_def)
    then show ?thesis using left s by (simp add: send_inv_def)
  next
    case False
    then have s: "sn_refs s = 1" "stop_left s = 0" "sn_signals s = []" "send_flags s" using assms by (auto simp: in_hand_def send_running_def)
    then have "send_signalled (on_write_complete s)"
      using False left unfolding send_signalled_def by (simp add: on_write_complete_def send_flags_def Let_def)
    then show ?thesis by (simp add: send_inv_def)
  qed
qed

lemma send_execute_inv: "in_hand s \<Longrightarrow> send_execute_op env s = Inr s' \<Longrightarrow> send_inv s'"
  using send_start_io_inv on_write_complete_inv by (auto simp: send_execute_op_def split: send_execute.splits)

lemma send_stop_complete_inv:
  assumes "send_running (own_left s) (Suc (stop_left s)) s"
  shows "send_inv (send_stop_complete s)"
proof -
  have s: "sn_cancel s" "send_flags s" "sn_signals s = []" "stop_left s = 0" using assms by (auto simp: send_running_def split: if_splits)
  have left: "stop_left (send_stop_complete s) = stop_left s" by (simp add: send_stop_complete_def left_defs)
  have "send_signalled (send_stop_complete s)"
    using s left unfolding send_signalled_def by (simp add: send_stop_complete_def send_flags_def)
  then show ?thesis by (simp add: send_inv_def)
qed

lemma send_request_stop_inv:
  assumes "send_inv s" and "sn_armed s" and "\<not> sn_stop s" and "send_request_stop env b (s\<lparr>sn_stop := True\<rparr>) = Inr s'"
  shows "send_inv s'"
proof -
  let ?s = "s\<lparr>sn_stop := True, sn_refs := 2, sn_cancel := True\<rparr>"
  have run: "own_left s = 1" "stop_left s = 0" "sn_refs s = 1" "sn_signals s = []" "sn_conn s" "sn_constructed s"
    using assms(1-3) by (cases "sn_cancel s"; simp add: send_inv_defs)+
  have left: "own_left ?s = 1" "stop_left ?s = 0" "own_left (?s\<lparr>sn_remote := Suc (sn_remote s)\<rparr>) = 1"
    "stop_left (?s\<lparr>sn_remote := Suc (sn_remote s)\<rparr>) = 1" using run by (simp_all add: left_defs)
  have "send_running 1 1 ?s" using run by (simp add: send_running_def send_flags_def)
  then have remote: "send_inv (?s\<lparr>sn_remote := Suc (sn_remote s)\<rparr>)" and loc: "send_stop_local env ?s = Inr x \<Longrightarrow> send_inv x" for x
    using left send_stop_local_running [of ?s env x] running_same [of ?s "?s\<lparr>sn_remote := Suc (sn_remote s)\<rparr>"]
    by (simp_all add: send_inv_def send_same_def)
  show ?thesis
  proof (cases b)
    case True
    then show ?thesis using assms(4) run loc by (simp add: send_request_stop_def Let_def)
  next
    case False
    then show ?thesis using assms(4) run remote by (simp add: send_request_stop_def Let_def)
  qed
qed

lemma touch_running:
  assumes "send_inv s" and "touch f s1 = Inr s'" and "sn_signals s1 = sn_signals s"
  shows "send_running (own_left s) (stop_left s) s \<and> f s1 = Inr s'"
proof -
  have "sn_signals s = []" "f s1 = Inr s'" using assms(2,3) by (simp_all add: touch_def split: if_splits)
  then show ?thesis using assms(1) by (simp add: send_inv_def send_signalled_def)
qed

lemma take_own_left:
  assumes "send_running (own_left s) (stop_left s) s" and "send_same s s'" and "own_left s = Suc (own_left s')" and "stop_left s' = stop_left s"
  shows "in_hand s'"
proof -
  have "own_left s = 1" using assms(1,3) by (auto simp: send_running_def split: if_splits)
  then show ?thesis using assms running_same [OF assms(2)] by (simp add: in_hand_def)
qed

lemma take_stop_left:
  assumes "send_running (own_left s) (stop_left s) s" and "send_same s s'" and "stop_left s = Suc (stop_left s')" and "own_left s' = own_left s"
  shows "send_running (own_left s') (Suc (stop_left s')) s'"
  using assms running_same [OF assms(2)] by simp

lemma send_step_inv:
  assumes "send_inv s" and "send_step e s = Inr s'"
  shows "send_inv s'"
proof -
  obtain env ev where e: "e = (env, ev)" by fastforce
  note held = touch_running [OF assms(1)]
  show ?thesis
  proof (cases ev)
    case StartSend
    have "send_inv s'" if "\<not> sn_started s" "touch (send_start_io env) (s\<lparr>sn_started := True\<rparr>) = Inr s'"
    proof -
      have run: "send_running (own_left s) (stop_left s) s" and r: "send_start_io env (s\<lparr>sn_started := True\<rparr>) = Inr s'" using held [OF that(2)] by auto
      have "in_hand (s\<lparr>sn_started := True\<rparr>)" by (rule take_own_left [OF run]) (use that(1) in \<open>simp_all add: left_defs send_same_def\<close>)
      then show ?thesis using send_start_io_inv r by blast
    qed
    then show ?thesis using assms by (simp add: e StartSend split: if_splits)
  next
    case RunPending
    have "send_inv s'" if q: "sn_pending s = i # is" and t: "touch (send_run_item env i) (s\<lparr>sn_pending := is\<rparr>) = Inr s'" for i "is"
    proof (cases i)
      case OwnItem
      have run: "send_running (own_left s) (stop_left s) s" and r: "send_execute_op env (s\<lparr>sn_pending := is\<rparr>) = Inr s'" using held [OF t] OwnItem by auto
      have "in_hand (s\<lparr>sn_pending := is\<rparr>)" by (rule take_own_left [OF run]) (simp_all add: left_defs send_same_def q OwnItem)
      then show ?thesis using send_execute_inv r by blast
    next
      case CancelItem
      have run: "send_running (own_left s) (stop_left s) s" and r: "send_stop_local env (s\<lparr>sn_pending := is\<rparr>) = Inr s'" using held [OF t] CancelItem by auto
      have "send_running (own_left (s\<lparr>sn_pending := is\<rparr>)) (Suc (stop_left (s\<lparr>sn_pending := is\<rparr>))) (s\<lparr>sn_pending := is\<rparr>)"
        by (rule take_stop_left [OF run]) (simp_all add: left_defs send_same_def q CancelItem)
      then show ?thesis using send_stop_local_running r by (auto simp: send_inv_def)
    qed
    then show ?thesis using assms by (simp add: e RunPending split: list.splits)
  next
    case RunCqe
    have "send_inv s'" if q: "sn_cqes s = c # cs" and t: "touch (send_run_cqe env c) (s\<lparr>sn_cqes := cs\<rparr>) = Inr s'" for c cs
    proof (cases c)
      case (SendOwn st)
      have run: "send_running (own_left s) (stop_left s) s" and r: "send_execute_op env (s\<lparr>sn_cqes := cs, sn_result := st\<rparr>) = Inr s'"
        using held [OF t] SendOwn by auto
      have "in_hand (s\<lparr>sn_cqes := cs, sn_result := st\<rparr>)" by (rule take_own_left [OF run]) (simp_all add: left_defs send_same_def q SendOwn)
      then show ?thesis using send_execute_inv r by blast
    next
      case SendCancel
      have run: "send_running (own_left s) (stop_left s) s" and r: "s' = send_stop_complete (s\<lparr>sn_cqes := cs\<rparr>)" using held [OF t] SendCancel by auto
      have "send_running (own_left (s\<lparr>sn_cqes := cs\<rparr>)) (Suc (stop_left (s\<lparr>sn_cqes := cs\<rparr>))) (s\<lparr>sn_cqes := cs\<rparr>)"
        by (rule take_stop_left [OF run]) (simp_all add: left_defs send_same_def q SendCancel)
      then show ?thesis using send_stop_complete_inv r by blast
    qed
    then show ?thesis using assms by (simp add: e RunCqe split: list.splits)
  next
    case RunRemote
    let ?s = "s\<lparr>sn_remote := sn_remote s - 1\<rparr>"
    have "send_inv s'" if q: "0 < sn_remote s" and t: "touch (send_stop_local env) ?s = Inr s'"
    proof -
      have run: "send_running (own_left s) (stop_left s) s" and r: "send_stop_local env ?s = Inr s'" using held [OF t] by auto
      have "send_running (own_left ?s) (Suc (stop_left ?s)) ?s" by (rule take_stop_left [OF run]) (use q in \<open>simp_all add: left_defs send_same_def\<close>)
      then show ?thesis using send_stop_local_running r by (auto simp: send_inv_def)
    qed
    then show ?thesis using assms by (simp add: e RunRemote split: if_splits)
  next
    case (StopSend b)
    have left: "own_left (s\<lparr>sn_stop := True\<rparr>) = own_left s" "stop_left (s\<lparr>sn_stop := True\<rparr>) = stop_left s" by (simp_all add: left_defs)
    have "send_inv (s\<lparr>sn_stop := True\<rparr>)" if "\<not> sn_armed s"
      using assms(1) that unfolding send_inv_defs left by (cases "sn_cancel s") (simp_all, blast)
    then show ?thesis using assms send_request_stop_inv by (simp add: e StopSend Let_def split: if_splits)
  next
    case (UcxCompletes st)
    have drop: "send_inv (s\<lparr>sn_live := None\<rparr>)" if "sn_live s = Some DeferredCb"
    proof -
      have "own_left (s\<lparr>sn_live := None\<rparr>) = own_left s" "stop_left (s\<lparr>sn_live := None\<rparr>) = stop_left s" using that by (simp_all add: left_defs)
      then show ?thesis using assms(1) by (rule_tac send_inv_same [of s]) (simp_all add: send_same_def)
    qed
    have own: "send_inv (run_callback cb st (s\<lparr>sn_live := None\<rparr>))"
      if "cb \<noteq> DeferredCb" "sn_live s = Some cb" "send_running (own_left s) (stop_left s) s" for cb
    proof -
      let ?s = "run_callback cb st (s\<lparr>sn_live := None\<rparr>)"
      have "own_left ?s = own_left s" "stop_left ?s = stop_left s" "send_same s ?s"
        using that(1,2) by (cases cb; simp add: left_defs send_same_def)+
      then show ?thesis using that(3) running_same [of s ?s] by (simp add: send_inv_def)
    qed
    show ?thesis
    proof (cases "sn_live s")
      case (Some cb)
      show ?thesis
      proof (cases "cb = DeferredCb")
        case False
        then have t: "touch (\<lambda>s. Inr (run_callback cb st s)) (s\<lparr>sn_live := None\<rparr>) = Inr s'" using assms(2) Some by (cases cb) (simp_all add: e UcxCompletes)
        show ?thesis using held [OF t] own [OF False Some] by auto
      qed (use assms(2) Some drop in \<open>simp add: e UcxCompletes\<close>)
    qed (use assms in \<open>simp add: e UcxCompletes\<close>)
  qed
qed

text \<open>Without a stop nothing faults: every token is used while the operation is alive.\<close>

fun no_stop :: "send_env \<times> send_event \<Rightarrow> bool" where
  "no_stop (env, StopSend b) = False"
| "no_stop e = True"

lemma send_start_unstopped: "\<not> sn_stop s \<Longrightarrow> \<exists>s'. send_start_io env s = Inr s' \<and> \<not> sn_stop s'"
  by (cases "use_rndv env") (auto simp: send_start_io_def send_setup_def send_populate_def Let_def split: option.splits)

lemma send_execute_unstopped: "\<not> sn_stop s \<Longrightarrow> \<exists>s'. send_execute_op env s = Inr s' \<and> \<not> sn_stop s'"
  using send_start_unstopped [of s env]
  by (cases "sn_execute s") (simp_all add: send_execute_op_def on_write_complete_def Let_def)

lemma unstopped_tokens:
  assumes "send_inv s" and "\<not> sn_stop s"
  shows "stop_left s = 0" and "0 < own_left s \<Longrightarrow> sn_signals s = []"
proof -
  have "\<not> sn_cancel s" using assms by (auto simp: send_inv_defs)
  then have "sn_signals s = [] \<and> own_left s = 1 \<and> stop_left s = 0 \<or> stop_left s = 0 \<and> own_left s = 0" using assms(1) by (auto simp: send_inv_defs)
  then show "stop_left s = 0" and "0 < own_left s \<Longrightarrow> sn_signals s = []" by auto
qed

lemma unstopped_queues:
  assumes "send_inv s" and "\<not> sn_stop s"
  shows "\<not> sn_started s \<Longrightarrow> sn_signals s = []" and "sn_pending s = i # is \<Longrightarrow> i = OwnItem \<and> sn_signals s = []"
    and "sn_cqes s = c # cs \<Longrightarrow> c \<noteq> SendCancel \<and> sn_signals s = []" and "sn_remote s = 0"
    and "sn_live s = Some cb \<Longrightarrow> cb \<noteq> DeferredCb \<Longrightarrow> sn_signals s = []"
proof -
  note t = unstopped_tokens [OF assms]
  show "\<not> sn_started s \<Longrightarrow> sn_signals s = []" "sn_remote s = 0" using t by (simp_all add: left_defs)
  show "sn_pending s = i # is \<Longrightarrow> i = OwnItem \<and> sn_signals s = []" using t by (cases i) (simp_all add: left_defs)
  show "sn_cqes s = c # cs \<Longrightarrow> c \<noteq> SendCancel \<and> sn_signals s = []" using t by (cases c) (simp_all add: left_defs)
  show "sn_live s = Some cb \<Longrightarrow> cb \<noteq> DeferredCb \<Longrightarrow> sn_signals s = []" using t by (cases cb) (simp_all add: left_defs)
qed

lemma unstopped_step:
  assumes "send_inv s" and "\<not> sn_stop s" and "no_stop e"
  shows "\<exists>s'. send_step e s = Inr s' \<and> \<not> sn_stop s'"
proof -
  obtain env ev where e: "e = (env, ev)" by fastforce
  note q = unstopped_queues [OF assms(1,2)]
  have start: "\<exists>s'. send_start_io env (s\<lparr>sn_started := True\<rparr>) = Inr s' \<and> \<not> sn_stop s'" using send_start_unstopped assms(2) by simp
  have pending: "\<exists>s'. send_execute_op env (s\<lparr>sn_pending := is\<rparr>) = Inr s' \<and> \<not> sn_stop s'" for "is" using send_execute_unstopped assms(2) by simp
  have cqe: "\<exists>s'. send_execute_op env (s\<lparr>sn_cqes := cs, sn_result := st\<rparr>) = Inr s' \<and> \<not> sn_stop s'" for cs st using send_execute_unstopped assms(2) by simp
  show ?thesis
  proof (cases ev)
    case StartSend
    then show ?thesis using start q(1) assms(2) by (cases "sn_started s") (simp_all add: e touch_def)
  next
    case RunPending
    then show ?thesis using pending q(2) assms(2) by (cases "sn_pending s") (simp_all add: e touch_def)
  next
    case RunCqe
    then show ?thesis using cqe q(3) assms(2)
      by (cases "sn_cqes s"; cases "hd (sn_cqes s)") (simp_all add: e touch_def)
  next
    case RunRemote
    then show ?thesis using q(4) assms(2) by (simp add: e)
  next
    case (UcxCompletes st)
    then show ?thesis using q(5) assms(2) by (cases "sn_live s"; cases "the (sn_live s)") (simp_all add: e touch_def)
  qed (use assms(3) e in simp)
qed

lemma send_run_inv: "send_inv s \<Longrightarrow> send_run es s = Inr s' \<Longrightarrow> send_inv s'"
proof (induction es arbitrary: s)
  case (Cons e es)
  then show ?case using send_step_inv [of s e] by (auto simp: bind_res_Inr_iff)
qed simp

lemma unstopped_run: "send_inv s \<Longrightarrow> \<not> sn_stop s \<Longrightarrow> list_all no_stop es \<Longrightarrow> \<exists>s'. send_run es s = Inr s'"
proof (induction es arbitrary: s)
  case (Cons e es)
  then obtain s1 where s1: "send_step e s = Inr s1" "\<not> sn_stop s1" using unstopped_step [of s e] by auto
  have "send_inv s1" using send_step_inv Cons.prems(1) s1(1) by blast
  then show ?case using Cons.IH [of s1] Cons.prems(3) s1 by simp
qed simp

subsection \<open>Properties\<close>


text \<open>
  A send that UCX has completed still points to its released request until its entry is processed. A stop
  request in this window writes a callback into the released request and cancels it.
\<close>

theorem stop_after_completion_writes_released_request:
  assumes "sn_room env" and "send_outcome env = None" and "sn_valid env"
  shows "send_run (map (Pair env) [StartSend, UcxCompletes st, StopSend True]) (send_new True) = Inl UseAfterFree"
  using assms
  by (cases "use_rndv env") (simp_all add: send_new_def send_start_io_def send_setup_def send_populate_def send_request_stop_def send_stop_local_def
      send_defer_def touch_def Let_def)

definition example_send_env :: send_env where
  "example_send_env = \<lparr>sn_room = True, sn_valid = True, use_rndv = True, send_outcome = None\<rparr>"

theorem stop_after_completion_writes_released_request_witness:
  "send_run (map (Pair example_send_env) [StartSend, UcxCompletes 0, StopSend True]) (send_new True) = Inl UseAfterFree"
  by (rule stop_after_completion_writes_released_request) (simp_all add: example_send_env_def)

text \<open>
  The usual runs: a send that completes, one that is stopped in flight, one that completed at once. And two
  more runs that reach a destroyed operation: the connection has left the active map when the send is
  stopped, so that its own callback stays in the request; or the ring has no room for a small send that
  completed at once while its stop passes it by. A stop that does not fit leaks the payload.
\<close>

lemmas send_run_simps = send_new_def send_start_io_def send_setup_def send_populate_def send_request_stop_def send_stop_local_def
  send_defer_def touch_def on_write_complete_def send_stop_complete_def send_execute_op_def example_send_env_def Let_def

lemma send_completes:
  "0 \<le> st \<Longrightarrow> map_sum id sn_signals (send_run (map (Pair example_send_env) [StartSend, UcxCompletes st, RunCqe]) (send_new True)) = Inr [SendValue]"
  by (simp add: send_run_simps)

lemma send_stopped_in_flight:
  "map_sum id sn_signals (send_run (map (Pair example_send_env) [StartSend, StopSend True, RunCqe, UcxCompletes st]) (send_new True)) = Inr [SendDone]"
  by (simp add: send_run_simps)

lemma small_send_completes:
  "0 \<le> st \<Longrightarrow> map_sum id sn_signals (send_run (map (Pair (example_send_env\<lparr>use_rndv := False, send_outcome := Some st\<rparr>))
     [StartSend, RunPending]) (send_new True)) = Inr [SendValue]"
  by (simp add: send_run_simps)

lemma stop_on_inactive_connection:
  "send_run (map (Pair (example_send_env\<lparr>sn_valid := False\<rparr>)) [StartSend, StopSend True, RunCqe, UcxCompletes st]) (send_new True) = Inl UseAfterFree"
  by (simp add: send_run_simps)

lemma stop_overtakes_small_send:
  "send_run (map (Pair (example_send_env\<lparr>use_rndv := False, send_outcome := Some st\<rparr>)) [StartSend, StopSend True, RunCqe, RunPending])
     (send_new True) = Inl UseAfterFree"
  by (simp add: send_run_simps)

lemma stop_without_room_leaks:
  "map_sum id sn_leaked (send_run [(example_send_env, StartSend), (example_send_env\<lparr>sn_room := False\<rparr>, StopSend True), (example_send_env, RunPending)]
     (send_new True)) = Inr 1"
  by (simp add: send_run_simps)

end
