(* ===== verification/Connection_Setup.thy ===== *)
theory Connection_Setup
  imports Connection_Manager
begin

text \<open>
  How a context creates, accepts and recovers connections (\<open>ucx_am_context.cpp\<close>, and the operations of
  \<open>connect_sender\<close>, \<open>accept_sender\<close> and \<open>dispatch_connection_error_sender\<close> in \<open>ucx_am_context.hpp\<close>), on top of
  the connection manager and the UCX connection. What UCX answers is a record of the environment: the endpoint
  it creates, the status of a rejection, the requests that complete while an endpoint is closed. An exception
  that leaves a \<open>noexcept\<close> function ends the program like a failed assertion and is the same fault.
\<close>

subsection \<open>Environment\<close>

text \<open>A connection object as the manager owns it: its address, \<open>remote_address_\<close> and the object.\<close>

record managed =
  mc_addr :: nat
  mc_peer :: string
  mc_conn :: UcxConnection

record setup_env =
  se_errors :: bool
  se_addr :: nat
  se_zcopy :: "int option"
  se_names :: "string list option"
  se_created :: "ucs_status + nat"
  se_modify :: ucs_status
  se_sync :: "nat \<Rightarrow> ucs_status option"
  se_prog :: "(nat \<times> ucs_status) list"
  se_closed :: close_ptr
  se_pending :: bool
  se_pending_later :: bool

text \<open>The constructor sets \<open>remote_address_\<close> to the text of a zeroed IPv4 address.\<close>

definition no_peer :: string where
  "no_peer = sockaddr_str AF_INET ''0.0.0.0'' 0"

definition new_connection :: "setup_env \<Rightarrow> bool \<Rightarrow> nat option \<Rightarrow> managed" where
  "new_connection env errors e = \<lparr>mc_addr = se_addr env, mc_peer = no_peer, mc_conn = UcxConnection_new errors e (se_modify env)\<rparr>"

subsection \<open>Creating connections\<close>

text \<open>
  A connection that is not added to the manager is disconnected, with the marks of
  \<open>ucx_disconnect_callback\<close>, and destroyed at the end of the function.
\<close>

definition mark_disconnect :: "UcxConnection \<Rightarrow> managed ConnectionManager \<Rightarrow> managed ConnectionManager res" where
  "mark_disconnect c cm =
     (if ep c = None then Inr cm
      else bind_res (remove_connection_to_inactive_map (conn_id c) cm)
             (move_connection_from_inactive_to_disconnecting_queue (conn_id c)))"

definition destroy_unique :: "setup_env \<Rightarrow> managed \<Rightarrow> managed ConnectionManager \<Rightarrow> managed ConnectionManager res" where
  "destroy_unique env m cm =
     bind_res (UcxConnection_destroy (se_sync env) (se_prog env) (se_closed env) (se_pending env) (se_pending_later env) (mc_conn m))
       (\<lambda>c. Inr (cm\<lparr>released := released cm @ [m\<lparr>mc_conn := c\<rparr>]\<rparr>))"

definition discard_connection :: "setup_env \<Rightarrow> managed \<Rightarrow> managed ConnectionManager \<Rightarrow> managed ConnectionManager res" where
  "discard_connection env m cm =
     bind_res (mark_disconnect (mc_conn m) cm) (\<lambda>cm1.
     bind_res (disconnect (se_zcopy env) (se_names env) (se_sync env) (se_closed env) (se_pending env) 0 (mc_conn m)) (\<lambda>c.
       destroy_unique env (m\<lparr>mc_conn := c\<rparr>) cm1))"

definition handle_new_connection ::
  "setup_env \<Rightarrow> managed \<Rightarrow> managed ConnectionManager \<Rightarrow> (nat \<times> managed ConnectionManager) res" where
  "handle_new_connection env m cm =
     (let cid = conn_id (mc_conn m) in
      if ucx_status (mc_conn m) = UCS_OK
      then bind_res (add_connection cid m cm) (\<lambda>(_, cm'). Inr (cid, cm'))
      else bind_res (discard_connection env m cm) (\<lambda>cm'. Inr (cid, cm')))"

text \<open>
  The overloads for socket addresses (\<open>peer\<close> is the text of the destination) and for UCP addresses (which
  leave \<open>remote_address_\<close> as it was), and the one for the endpoint of a received message.
\<close>

definition create_new_connection ::
  "setup_env \<Rightarrow> string \<Rightarrow> managed ConnectionManager \<Rightarrow> (nat \<times> managed ConnectionManager) res" where
  "create_new_connection env peer cm =
     (let m = new_connection env (se_errors env) None in
      bind_res (connect_common (se_zcopy env) (se_names env) (se_created env) 0 (mc_conn m)) (\<lambda>c.
        handle_new_connection env (m\<lparr>mc_peer := peer, mc_conn := c\<rparr>) cm))"

definition create_from_endpoint ::
  "setup_env \<Rightarrow> nat \<Rightarrow> managed ConnectionManager \<Rightarrow> (nat \<times> managed ConnectionManager) res" where
  "create_from_endpoint env e cm = handle_new_connection env (new_connection env (se_errors env) (Some e)) cm"

subsection \<open>Connecting\<close>

datatype address = UcpAddress nat | SockAddr "string option" nat

definition UCS_ERR_INVALID_PARAM :: ucs_status where "UCS_ERR_INVALID_PARAM = UCS_ERR 5"
definition UCS_ERR_UNREACHABLE :: ucs_status where "UCS_ERR_UNREACHABLE = UCS_ERR 6"

fun valid_address :: "address \<Rightarrow> string option" where
  "valid_address (UcpAddress len) = (if len = 0 then None else Some no_peer)"
| "valid_address (SockAddr dst addrlen) = (if addrlen = 0 then None else dst)"

text \<open>The status stored for \<open>on_connect\<close>, and the connection id it delivers when the status is no error.\<close>

definition connect_populate ::
  "setup_env \<Rightarrow> bool \<Rightarrow> address \<Rightarrow> managed ConnectionManager \<Rightarrow> ((ucs_status \<times> nat) \<times> managed ConnectionManager) res" where
  "connect_populate env cancelled addr cm =
     (if cancelled then Inr ((UCS_ERR_CANCELED, 0), cm)
      else
        (case valid_address addr of
           None \<Rightarrow> Inr ((UCS_ERR_INVALID_PARAM, 0), cm)
         | Some peer \<Rightarrow>
             bind_res (create_new_connection env peer cm) (\<lambda>(cid, cm').
             bind_res (get_connection cid cm') (\<lambda>conn.
               Inr (case conn of None \<Rightarrow> ((UCS_ERR_UNREACHABLE, cid), cm') | Some m \<Rightarrow> ((ucx_status (mc_conn m), cid), cm'))))))"

subsection \<open>Accepting\<close>

record conn_request =
  cr_arrival :: int
  cr_client :: "string option"
  cr_env :: setup_env
  cr_now :: int
  cr_reject :: ucs_status

definition get_remaining_timeout :: "int \<Rightarrow> int \<Rightarrow> int \<Rightarrow> int" where
  "get_remaining_timeout now timestamp timeout = timeout - (now - timestamp)"

definition accept_connection :: "conn_request \<Rightarrow> managed res" where
  "accept_connection rq =
     (let env = cr_env rq; m = new_connection env True None; peer = (case cr_client rq of None \<Rightarrow> mc_peer m | Some p \<Rightarrow> p) in
      bind_res (connect_common (se_zcopy env) (se_names env) (se_created env) 0 (mc_conn m)) (\<lambda>c.
        Inr (m\<lparr>mc_peer := peer, mc_conn := c\<rparr>)))"

definition progress_conn_request ::
  "int \<Rightarrow> conn_request \<Rightarrow> managed ConnectionManager \<Rightarrow> ((ucs_status \<times> nat) \<times> managed ConnectionManager) res" where
  "progress_conn_request timeout rq cm =
     (if get_remaining_timeout (cr_now rq) (cr_arrival rq) timeout \<le> 0 then Inr ((cr_reject rq, 0), cm)
      else
        bind_res (accept_connection rq) (\<lambda>m.
          let status = ucx_status (mc_conn m); cid = conn_id (mc_conn m) in
          if status = UCS_OK then bind_res (add_connection cid m cm) (\<lambda>(_, cm'). Inr ((status, cid), cm'))
          else if status \<noteq> UCS_ERR_CANCELED \<or> \<not> is_disconnecting (mc_conn m)
            then bind_res (discard_connection (cr_env rq) m cm) (\<lambda>cm'. Inr ((status, 0), cm'))
          else bind_res (destroy_unique (cr_env rq) m cm) (\<lambda>cm'. Inr ((status, 0), cm'))))"

text \<open>The loop over \<open>epConnReqQueue_\<close>; the vector it returns has the id first.\<close>

fun progress_pending_conn_requests ::
  "int \<Rightarrow> conn_request list \<Rightarrow> managed ConnectionManager \<Rightarrow> ((nat \<times> ucs_status) list \<times> managed ConnectionManager) res" where
  "progress_pending_conn_requests timeout [] cm = Inr ([], cm)"
| "progress_pending_conn_requests timeout (rq # rqs) cm =
     bind_res (progress_conn_request timeout rq cm) (\<lambda>((status, cid), cm1).
     bind_res (progress_pending_conn_requests timeout rqs cm1) (\<lambda>(answers, cm2).
       Inr ((cid, status) # answers, cm2)))"

subsection \<open>Recovering failed connections\<close>

definition is_digit :: "char \<Rightarrow> bool" where
  "is_digit c \<longleftrightarrow> c \<in> set ''0123456789''"

text \<open>\<open>find(':')\<close> and \<open>substr\<close>; \<open>std::stoi\<close> throws when the rest, which has no blanks or signs, does not start with a digit.\<close>

fun port_text :: "string \<Rightarrow> string option" where
  "port_text [] = None"
| "port_text (c # cs) = (if c = CHR '':'' then Some cs else port_text cs)"

definition recreate_connection_from_failed ::
  "setup_env \<Rightarrow> managed \<Rightarrow> managed ConnectionManager \<Rightarrow> (nat \<times> managed ConnectionManager) res" where
  "recreate_connection_from_failed env m cm =
     (case port_text (mc_peer m) of
        None \<Rightarrow> Inr (0, cm)
      | Some port \<Rightarrow> if port \<noteq> [] \<and> is_digit (hd port) then create_new_connection env (mc_peer m) cm else Inl AssertFailed)"

text \<open>
  One turn of the loop over the failed connections. \<open>re_setup\<close> is what UCX answers to the new connection,
  \<open>re_close\<close> what it answers while the old one is closed; the connections \<open>re_fails\<close> fail meanwhile.
\<close>

record recover_env =
  re_setup :: setup_env
  re_close :: setup_env
  re_fails :: "nat list"

fun fail_each :: "nat list \<Rightarrow> managed ConnectionManager \<Rightarrow> managed ConnectionManager res" where
  "fail_each [] cm = Inr cm"
| "fail_each (k # ks) cm = bind_res (remove_connection_to_failed_queue k cm) (fail_each ks)"

definition reconnect ::
  "recover_env \<Rightarrow> managed \<Rightarrow> managed ConnectionManager \<Rightarrow> (ucs_status \<times> managed ConnectionManager) res" where
  "reconnect env m cm =
     bind_res (recreate_connection_from_failed (re_setup env) m cm) (\<lambda>(new_id, cm').
     bind_res (get_connection new_id cm') (\<lambda>conn.
       case conn of None \<Rightarrow> Inl AssertFailed | Some m' \<Rightarrow> Inr (ucx_status (mc_conn m'), cm')))"

definition recover_one ::
  "(nat \<Rightarrow> ucs_status \<Rightarrow> bool) \<Rightarrow> recover_env \<Rightarrow> ucs_status \<Rightarrow> managed \<Rightarrow> managed ConnectionManager \<Rightarrow>
   (ucs_status \<times> managed ConnectionManager) res" where
  "recover_one handler env res m cm =
     bind_res
       (if handler (conn_id (mc_conn m)) (ucx_status (mc_conn m)) then reconnect env m cm else Inr (res, cm)) (\<lambda>(res', cm1).
     bind_res (disconnect_direct (se_sync (re_close env)) (se_prog (re_close env)) (se_closed (re_close env)) (se_pending (re_close env)) (mc_conn m)) (\<lambda>c.
     bind_res (fail_each (re_fails env) (add_connection_to_disconnecting_queue (m\<lparr>mc_conn := c\<rparr>) cm1)) (\<lambda>cm2.
       Inr (res', cm2))))"

text \<open>The loop of \<open>dispatch_connection_error_sender\<close>: one environment for each turn.\<close>

fun dispatch_failed ::
  "(nat \<Rightarrow> ucs_status \<Rightarrow> bool) \<Rightarrow> recover_env list \<Rightarrow> ucs_status \<Rightarrow> managed ConnectionManager \<Rightarrow>
   (ucs_status \<times> managed ConnectionManager) res" where
  "dispatch_failed handler envs res cm =
     (case failedConns cm of
        [] \<Rightarrow> Inr (res, cm)
      | None # ps \<Rightarrow> Inl NullDeref
      | Some m # ps \<Rightarrow>
          (case envs of
             [] \<Rightarrow> Inl OutOfFuel
           | env # envs' \<Rightarrow>
               bind_res (recover_one handler env res m (cm\<lparr>failedConns := ps\<rparr>)) (\<lambda>(res', cm').
                 dispatch_failed handler envs' res' cm')))"

declare dispatch_failed.simps [simp del]

definition HANDLE_IF_ERROR_RETRY_TIMES :: nat where "HANDLE_IF_ERROR_RETRY_TIMES = 1"

text \<open>What the operation does: cancelled, retry later, or the status it completes with.\<close>

datatype dispatch_result = DispatchCancelled | DispatchRetry nat | DispatchDone ucs_status

definition dispatch_populate ::
  "(nat \<Rightarrow> ucs_status \<Rightarrow> bool) \<Rightarrow> recover_env list \<Rightarrow> bool \<Rightarrow> nat \<Rightarrow> managed ConnectionManager \<Rightarrow>
   (dispatch_result \<times> managed ConnectionManager) res" where
  "dispatch_populate handler envs cancelled retryTimes cm =
     (if cancelled then Inr (DispatchCancelled, cm)
      else if failedConns cm = [] \<and> retryTimes \<le> HANDLE_IF_ERROR_RETRY_TIMES then Inr (DispatchRetry (Suc retryTimes), cm)
      else bind_res (dispatch_failed handler envs UCS_OK cm) (\<lambda>(res, cm'). Inr (DispatchDone res, cm')))"

subsection \<open>Lemmas\<close>

lemma add_connection_frame:
  assumes "add_connection k c cm = Inr (i, cm')"
  shows "failedConns cm' = failedConns cm \<and> disconnectingConns cm' = disconnectingConns cm \<and> inactive_map cm' = inactive_map cm \<and>
    active_map cm' = map_assign k (the (map_of (active_map cm') k)) (active_map cm)"
  using assms by (auto simp: add_connection_def bind_res_Inr_iff Let_def split: prod.splits option.splits if_splits)

definition same_queues :: "managed ConnectionManager \<Rightarrow> managed ConnectionManager \<Rightarrow> bool" where
  "same_queues cm cm' \<longleftrightarrow> failedConns cm' = failedConns cm \<and> disconnectingConns cm' = disconnectingConns cm"

definition free_id :: "managed ConnectionManager \<Rightarrow> nat \<Rightarrow> bool" where
  "free_id cm k \<longleftrightarrow> map_of (entries cm) k = None"

lemma free_id_iff: "free_id cm k \<longleftrightarrow> map_of (active_map cm) k = None \<and> map_of (inactive_map cm) k = None"
  by (simp add: free_id_def entries_def map_of_append map_add_None del: map_of_append) (simp add: map_add_def split: option.splits)

lemma added_connection:
  assumes "cm_inv cm" and "free_id cm k"
  shows "\<exists>cm'. add_connection k m cm = Inr (k, cm') \<and> cm_inv cm' \<and> mset (holdings cm') = mset (holdings cm) + {#m#} \<and>
    active_conns cm' = (active_conns cm)(k \<mapsto> m) \<and> same_queues cm cm' \<and> (\<forall>j. free_id cm' j \<longleftrightarrow> free_id cm j \<and> j \<noteq> k)"
proof -
  have free: "map_of (entries cm) k = None" using assms(2) by (simp add: free_id_def)
  obtain cm' where cm': "add_connection k m cm = Inr (k, cm')" "cm_inv cm'" "mset (holdings cm') = mset (holdings cm) + {#m#}"
    using add_ok [OF assms(1) free] by blast
  note frame = add_connection_frame [OF cm'(1)]
  have "free_id cm' j \<longleftrightarrow> free_id cm j \<and> j \<noteq> k" for j
    unfolding free_id_iff using frame by (metis (no_types, lifting) fun_upd_apply map_of_map_assign option.distinct(1))
  then show ?thesis using cm' add_lookup [OF assms(1) free cm'(1)] frame by (auto simp: same_queues_def)
qed

text \<open>What \<open>connect_common\<close> makes of a new connection: established, or failed without an endpoint.\<close>

lemma connect_common_new:
  "connect_common zc names (Inr e) cb (UcxConnection_new b None m) = Inr ((connected zc names e cb)\<lparr>has_err_cb := b\<rparr>)"
  by (simp add: connect_common_def connected_def established_def invoke_establish_cb_def is_zcopy_query_def
      UcxConnection_new_def emit_def)

lemma connect_common_failed:
  assumes "is_err s"
  shows "\<exists>c. connect_common zc names (Inl s) cb (UcxConnection_new b None m) = Inr c \<and> ucx_status c = s \<and> ep c = None \<and>
    conn_ok c \<and> close_request c = CloseNull \<and> disconnect_cb c = None \<and> all_requests c = []"
  using assms
  by (simp add: connect_common_def handle_connection_error_def UcxConnection_new_def is_established_def is_disconnecting_def
      invoke_establish_cb_def emit_def conn_ok_def conn_inv_def Let_def) (cases s; simp)

text \<open>UCX creates an endpoint at an address that is not in use, or fails with an error.\<close>

definition setup_ok :: "managed ConnectionManager \<Rightarrow> setup_env \<Rightarrow> bool" where
  "setup_ok cm env \<longleftrightarrow> (case se_created env of Inl s \<Rightarrow> is_err s \<and> se_prog env = [] | Inr e \<Rightarrow> e \<noteq> 0 \<and> free_id cm e)"

text \<open>The manager after a connection object was created: it owns one object more, and no queue has changed.\<close>

definition one_more :: "setup_env \<Rightarrow> managed ConnectionManager \<Rightarrow> managed ConnectionManager \<Rightarrow> bool" where
  "one_more env cm cm' \<longleftrightarrow> cm_inv cm' \<and> same_queues cm cm' \<and>
     image_mset mc_addr (mset (holdings cm')) = add_mset (se_addr env) (image_mset mc_addr (mset (holdings cm)))"

definition activated :: "nat \<Rightarrow> managed \<Rightarrow> managed ConnectionManager \<Rightarrow> managed ConnectionManager \<Rightarrow> bool" where
  "activated e m cm cm' \<longleftrightarrow> active_conns cm' = (active_conns cm)(e \<mapsto> m) \<and> (\<forall>j. free_id cm' j \<longleftrightarrow> free_id cm j \<and> j \<noteq> e)"

definition same_table :: "managed ConnectionManager \<Rightarrow> managed ConnectionManager \<Rightarrow> bool" where
  "same_table cm cm' \<longleftrightarrow> active_conns cm' = active_conns cm \<and> (\<forall>j. free_id cm' j \<longleftrightarrow> free_id cm j)"

lemma destroyed_unused:
  assumes "cm_inv cm" and "conn_ok (mc_conn m)" and "ep (mc_conn m) = None" and "close_request (mc_conn m) = CloseNull"
    and "all_requests (mc_conn m) = []" and "se_prog env = []" and "mc_addr m = se_addr env"
  shows "\<exists>cm'. destroy_unique env m cm = Inr cm' \<and> one_more env cm cm' \<and> same_table cm cm'"
proof -
  have "destroy_env (se_sync env) (se_prog env) (mc_conn m)" using assms(5,6) by (simp add: destroy_env_def sync_ok_def)
  then obtain c where "UcxConnection_destroy (se_sync env) (se_prog env) (se_closed env) (se_pending env) (se_pending_later env) (mc_conn m) = Inr c"
    using conn_destroy_ok [OF assms(2), of "se_sync env" "se_prog env"] assms(3,4) by (metis close_ptr.distinct(3))
  then show ?thesis using assms(1,7)
    by (auto simp: destroy_unique_def one_more_def same_table_def same_queues_def cm_inv_def entries_def holdings_def active_conns_def
        free_id_def fun_eq_iff split: option.splits)
qed

lemma discarded_unused:
  assumes "cm_inv cm" and "conn_ok (mc_conn m)" and "ep (mc_conn m) = None" and "close_request (mc_conn m) = CloseNull"
    and "all_requests (mc_conn m) = []" and "se_prog env = []" and "mc_addr m = se_addr env"
  shows "\<exists>cm'. discard_connection env m cm = Inr cm' \<and> one_more env cm cm' \<and> same_table cm cm'"
  using destroyed_unused [OF assms] assms(3) by (simp add: discard_connection_def mark_disconnect_def disconnect_def)

lemma created_connection:
  assumes "cm_inv cm" and "se_created env = Inr e" and "setup_ok cm env"
  shows "\<exists>m cm'. create_new_connection env peer cm = Inr (e, cm') \<and> one_more env cm cm' \<and> activated e m cm cm' \<and>
    ucx_status (mc_conn m) = UCS_OK \<and> mc_peer m = peer \<and> conn_id (mc_conn m) = e"
proof -
  let ?m = "(new_connection env (se_errors env) None)\<lparr>mc_peer := peer, mc_conn := (connected (se_zcopy env) (se_names env) e 0)\<lparr>has_err_cb := se_errors env\<rparr>\<rparr>"
  have free: "free_id cm e" using assms(2,3) by (simp add: setup_ok_def)
  have m: "ucx_status (mc_conn ?m) = UCS_OK" "conn_id (mc_conn ?m) = e" "mc_addr ?m = se_addr env" "mc_peer ?m = peer"
    by (simp_all add: connected_def UcxConnection_new_def conn_id_def new_connection_def)
  obtain cm' where cm': "add_connection e ?m cm = Inr (e, cm')" "cm_inv cm'" "mset (holdings cm') = mset (holdings cm) + {#?m#}"
    "active_conns cm' = (active_conns cm)(e \<mapsto> ?m)" "same_queues cm cm'" "\<forall>j. free_id cm' j \<longleftrightarrow> free_id cm j \<and> j \<noteq> e"
    using added_connection [OF assms(1) free] by blast
  have "create_new_connection env peer cm = handle_new_connection env ?m cm"
    by (simp add: create_new_connection_def assms(2) connect_common_new new_connection_def Let_def)
  then have "create_new_connection env peer cm = Inr (e, cm')" using cm'(1) m(1,2) by (simp add: handle_new_connection_def Let_def)
  moreover have "one_more env cm cm'" "activated e ?m cm cm'" using cm' m(3) by (simp_all add: one_more_def activated_def)
  ultimately show ?thesis using m by blast
qed

lemma failed_creation:
  assumes "cm_inv cm" and "se_created env = Inl s" and "setup_ok cm env"
  shows "\<exists>cm'. create_new_connection env peer cm = Inr (0, cm') \<and> one_more env cm cm' \<and> same_table cm cm'"
proof -
  have s: "is_err s" "se_prog env = []" using assms(2,3) by (simp_all add: setup_ok_def)
  obtain c where c: "connect_common (se_zcopy env) (se_names env) (Inl s) 0 (UcxConnection_new (se_errors env) None (se_modify env)) = Inr c"
    "ucx_status c = s" "ep c = None" "conn_ok c" "close_request c = CloseNull" "all_requests c = []"
    using connect_common_failed [OF s(1)] by blast
  let ?m = "(new_connection env (se_errors env) None)\<lparr>mc_peer := peer, mc_conn := c\<rparr>"
  obtain cm' where "discard_connection env ?m cm = Inr cm'" "one_more env cm cm'" "same_table cm cm'"
    using discarded_unused [OF assms(1), of ?m env] c s(2) by (auto simp: new_connection_def)
  moreover have "s \<noteq> UCS_OK" using s(1) by auto
  ultimately show ?thesis using c
    by (simp add: create_new_connection_def assms(2) handle_new_connection_def conn_id_def new_connection_def Let_def)
qed

text \<open>Connections that fail leave the active map for the end of the failed queue.\<close>

lemma container_queues:
  assumes "remove_connection_to_container k FailedQueue source cm = Inr cm'"
  shows "(\<exists>new. failedConns cm' = failedConns cm @ new) \<and> disconnectingConns cm' = disconnectingConns cm"
proof (cases "map_of (source_map source cm) k")
  case None
  then show ?thesis using assms by (simp add: remove_connection_to_container_def find_connection_in_map_def)
next
  case (Some s)
  then obtain c q where "cm' = (erase_source source k (push_target FailedQueue (Some c) (cm\<lparr>connections := (connections cm)[s := None]\<rparr>)))\<lparr>freeSlots := q\<rparr>"
    using assms by (auto simp: remove_connection_to_container_def find_connection_in_map_def bind_res_Inr_iff free_slot_def Let_def)
  then show ?thesis by (cases source) simp_all
qed

lemma failing_connections:
  "cm_inv cm \<Longrightarrow> \<exists>cm'. fail_each ks cm = Inr cm' \<and> cm_inv cm' \<and> (\<exists>new. failedConns cm' = failedConns cm @ new) \<and>
     disconnectingConns cm' = disconnectingConns cm \<and> mset (holdings cm') = mset (holdings cm)"
proof (induction ks arbitrary: cm)
  case Nil
  then show ?case by auto
next
  case (Cons k ks)
  obtain cm1 where cm1: "remove_connection_to_failed_queue k cm = Inr cm1" "cm_inv cm1" "mset (holdings cm1) = mset (holdings cm)"
    using container_ok [OF Cons.prems, of k FailedQueue ActiveMap] by (auto simp: keeps_def remove_connection_to_failed_queue_def)
  have q: "\<exists>new. failedConns cm1 = failedConns cm @ new" "disconnectingConns cm1 = disconnectingConns cm"
    using container_queues [of k ActiveMap cm cm1] cm1(1) by (auto simp: remove_connection_to_failed_queue_def)
  obtain cm' where "fail_each ks cm1 = Inr cm'" "cm_inv cm'" "\<exists>new. failedConns cm' = failedConns cm1 @ new"
    "disconnectingConns cm' = disconnectingConns cm1" "mset (holdings cm') = mset (holdings cm1)" using Cons.IH [OF cm1(2)] by blast
  then show ?case using cm1 q by auto
qed

abbreviation addrs :: "managed option list \<Rightarrow> nat list" where
  "addrs ps \<equiv> map mc_addr (somes ps)"

abbreviation owned :: "managed ConnectionManager \<Rightarrow> nat multiset" where
  "owned cm \<equiv> image_mset mc_addr (mset (holdings cm))"

text \<open>What one turn of the recovery relies on: UCX lets the old connection go, and gives a new one when asked.\<close>

definition recover_ok :: "(nat \<Rightarrow> ucs_status \<Rightarrow> bool) \<Rightarrow> recover_env \<Rightarrow> managed \<Rightarrow> managed ConnectionManager \<Rightarrow> bool" where
  "recover_ok handler env m cm \<longleftrightarrow> conn_ok (mc_conn m) \<and> destroy_env (se_sync (re_close env)) (se_prog (re_close env)) (mc_conn m) \<and>
     (handler (conn_id (mc_conn m)) (ucx_status (mc_conn m)) \<longrightarrow>
        (case port_text (mc_peer m) of None \<Rightarrow> False | Some port \<Rightarrow> port \<noteq> [] \<and> is_digit (hd port)) \<and>
        \<not> isl (se_created (re_setup env)) \<and> setup_ok cm (re_setup env))"

lemma reconnected:
  assumes "cm_inv cm" and "port_text (mc_peer m) = Some port" and "port \<noteq> []" and "is_digit (hd port)"
    and "se_created (re_setup env) = Inr e" and "setup_ok cm (re_setup env)"
  shows "\<exists>cm'. reconnect env m cm = Inr (UCS_OK, cm') \<and> one_more (re_setup env) cm cm' \<and> active_conns cm' e \<noteq> None"
proof -
  obtain m' cm' where cm': "create_new_connection (re_setup env) (mc_peer m) cm = Inr (e, cm')" "one_more (re_setup env) cm cm'"
    "activated e m' cm cm'" "ucx_status (mc_conn m') = UCS_OK" using created_connection [OF assms(1,5,6)] by blast
  have "get_connection e cm' = Inr (Some m')" using get_connection_active [of cm' e] cm'(2,3) by (simp add: one_more_def activated_def)
  then show ?thesis using cm' assms(2-4) by (simp add: reconnect_def recreate_connection_from_failed_def activated_def)
qed

lemma recovered:
  assumes "cm_inv cm" and "recover_ok handler env m cm"
  shows "\<exists>res' cm'. recover_one handler env res m cm = Inr (res', cm') \<and> cm_inv cm' \<and> (\<exists>new. failedConns cm' = failedConns cm @ new) \<and>
    addrs (disconnectingConns cm') = addrs (disconnectingConns cm) @ [mc_addr m] \<and> add_mset (mc_addr m) (owned cm) \<subseteq># owned cm'"
proof -
  obtain res' cm1 where cm1: "(if handler (conn_id (mc_conn m)) (ucx_status (mc_conn m)) then reconnect env m cm else Inr (res, cm)) = Inr (res', cm1)"
    "cm_inv cm1" "same_queues cm cm1" "owned cm \<subseteq># owned cm1"
  proof (cases "handler (conn_id (mc_conn m)) (ucx_status (mc_conn m))")
    case True
    then obtain port e where "port_text (mc_peer m) = Some port" "port \<noteq> []" "is_digit (hd port)" "se_created (re_setup env) = Inr e" "setup_ok cm (re_setup env)"
      using assms(2) by (cases "se_created (re_setup env)") (auto simp: recover_ok_def split: option.splits)
    then obtain cm' where "reconnect env m cm = Inr (UCS_OK, cm')" "one_more (re_setup env) cm cm'" using reconnected [OF assms(1)] by blast
    then show ?thesis using that True by (simp add: one_more_def)
  next
    case False
    then show ?thesis using that assms(1) by (simp add: same_queues_def)
  qed
  obtain c where c: "disconnect_direct (se_sync (re_close env)) (se_prog (re_close env)) (se_closed (re_close env)) (se_pending (re_close env)) (mc_conn m) = Inr c"
    using assms(2) disconnect_direct_ok [of "mc_conn m"] unfolding recover_ok_def by blast
  let ?cm = "add_connection_to_disconnecting_queue (m\<lparr>mc_conn := c\<rparr>) cm1"
  have inv: "cm_inv ?cm" "owned ?cm = add_mset (mc_addr m) (owned cm1)"
    using cm1(2) by (simp_all add: add_connection_to_disconnecting_queue_def cm_inv_def entries_def holdings_def)
  obtain cm2 where "fail_each (re_fails env) ?cm = Inr cm2" "cm_inv cm2" "\<exists>new. failedConns cm2 = failedConns ?cm @ new"
    "disconnectingConns cm2 = disconnectingConns ?cm" "mset (holdings cm2) = mset (holdings ?cm)" using failing_connections [OF inv(1)] by blast
  then show ?thesis using cm1 c inv(2)
    by (simp add: recover_one_def add_connection_to_disconnecting_queue_def same_queues_def)
qed

fun dispatch_env :: "(nat \<Rightarrow> ucs_status \<Rightarrow> bool) \<Rightarrow> recover_env list \<Rightarrow> managed ConnectionManager \<Rightarrow> bool" where
  "dispatch_env handler [] cm = (failedConns cm = [])"
| "dispatch_env handler (env # envs) cm =
     (case failedConns cm of
        Some m # ps \<Rightarrow> recover_ok handler env m (cm\<lparr>failedConns := ps\<rparr>) \<and>
          (case recover_one handler env UCS_OK m (cm\<lparr>failedConns := ps\<rparr>) of Inl f \<Rightarrow> True | Inr (_, cm') \<Rightarrow> dispatch_env handler envs cm')
      | _ \<Rightarrow> True)"

lemma recover_one_res:
  "recover_one handler env res m cm = Inr (r, cm') \<Longrightarrow> \<exists>r'. recover_one handler env res' m cm = Inr (r', cm')"
  by (auto simp: recover_one_def bind_res_Inr_iff split: if_splits)

lemma dispatch_failed_Nil: "failedConns cm = [] \<Longrightarrow> dispatch_failed handler envs res cm = Inr (res, cm)"
  by (subst dispatch_failed.simps) simp

lemma dispatched:
  assumes "cm_inv cm" and "dispatch_env handler envs cm"
  shows "\<exists>res' cm' more. dispatch_failed handler envs res cm = Inr (res', cm') \<and> cm_inv cm' \<and> failedConns cm' = [] \<and>
    addrs (disconnectingConns cm') = addrs (disconnectingConns cm) @ addrs (failedConns cm) @ more \<and> owned cm \<subseteq># owned cm'"
  using assms
proof (induction envs arbitrary: cm res)
  case Nil
  then show ?case using dispatch_failed_Nil [of cm handler "[]" res] by auto
next
  case (Cons env envs)
  show ?case
  proof (cases "failedConns cm")
    case Nil
    then show ?thesis using Cons.prems(1) dispatch_failed_Nil [OF Nil, of handler "env # envs" res] by auto
  next
    case (Cons p ps)
    then obtain m where p: "p = Some m" using Cons.prems(1) by (cases p) (auto simp: cm_inv_def)
    let ?cm = "cm\<lparr>failedConns := ps\<rparr>"
    have inv: "cm_inv ?cm" and own: "owned cm = add_mset (mc_addr m) (owned ?cm)"
      using Cons.prems(1) Cons p by (auto simp: cm_inv_def entries_def holdings_def)
    have ok: "recover_ok handler env m ?cm" using Cons.prems(2) Cons p by simp
    obtain res1 cm1 where cm1: "recover_one handler env res m ?cm = Inr (res1, cm1)" "cm_inv cm1" "\<exists>new. failedConns cm1 = ps @ new"
      "addrs (disconnectingConns cm1) = addrs (disconnectingConns ?cm) @ [mc_addr m]" "add_mset (mc_addr m) (owned ?cm) \<subseteq># owned cm1"
      using recovered [OF inv ok, of res] by auto
    obtain r' where "recover_one handler env UCS_OK m ?cm = Inr (r', cm1)" using recover_one_res [OF cm1(1)] by blast
    then have "dispatch_env handler envs cm1" using Cons.prems(2) Cons p by simp
    from Cons.IH [OF cm1(2) this, of res1] obtain res' cm' more where
      "dispatch_failed handler envs res1 cm1 = Inr (res', cm')" "cm_inv cm'" "failedConns cm' = []"
      "addrs (disconnectingConns cm') = addrs (disconnectingConns cm1) @ addrs (failedConns cm1) @ more" "owned cm1 \<subseteq># owned cm'" by blast
    moreover have "dispatch_failed handler (env # envs) res cm = dispatch_failed handler envs res1 cm1"
      by (subst dispatch_failed.simps) (simp add: Cons p cm1(1))
    ultimately show ?thesis using cm1(3-5) own Cons p by (auto intro: subset_mset.order_trans)
  qed
qed

subsection \<open>Accepted connections\<close>

definition expired :: "int \<Rightarrow> conn_request \<Rightarrow> bool" where
  "expired timeout rq \<longleftrightarrow> timeout \<le> cr_now rq - cr_arrival rq"

fun accepted_id :: "int \<Rightarrow> conn_request \<Rightarrow> nat option" where
  "accepted_id timeout rq = (if expired timeout rq then None else case se_created (cr_env rq) of Inl s \<Rightarrow> None | Inr e \<Rightarrow> Some e)"

fun accept_answer :: "int \<Rightarrow> conn_request \<Rightarrow> nat \<times> ucs_status" where
  "accept_answer timeout rq =
     (if expired timeout rq then (0, cr_reject rq) else case se_created (cr_env rq) of Inl s \<Rightarrow> (0, s) | Inr e \<Rightarrow> (e, UCS_OK))"

declare accepted_id.simps [simp del] accept_answer.simps [simp del]

definition accepted_ids :: "int \<Rightarrow> conn_request list \<Rightarrow> nat list" where
  "accepted_ids timeout rqs = List.map_filter (accepted_id timeout) rqs"

definition accept_env :: "int \<Rightarrow> conn_request list \<Rightarrow> managed ConnectionManager \<Rightarrow> bool" where
  "accept_env timeout rqs cm \<longleftrightarrow> distinct (accepted_ids timeout rqs) \<and> list_all (\<lambda>e. e \<noteq> 0 \<and> free_id cm e) (accepted_ids timeout rqs) \<and>
     list_all (\<lambda>rq. case se_created (cr_env rq) of Inl s \<Rightarrow> is_err s \<and> se_prog (cr_env rq) = [] | Inr e \<Rightarrow> True) rqs"

lemma expired_iff: "get_remaining_timeout (cr_now rq) (cr_arrival rq) timeout \<le> 0 \<longleftrightarrow> expired timeout rq"
  by (auto simp: get_remaining_timeout_def expired_def)

text \<open>One request: its answer, and the table extended by the connection when there is one.\<close>

lemma accepted_one:
  assumes "cm_inv cm" and "setup_ok cm (cr_env rq)" and "\<not> expired timeout rq"
  shows "\<exists>cm'. progress_conn_request timeout rq cm = Inr (prod.swap (accept_answer timeout rq), cm') \<and> cm_inv cm' \<and>
    (case se_created (cr_env rq) of Inl s \<Rightarrow> same_table cm cm' | Inr e \<Rightarrow> \<exists>m. activated e m cm cm')"
proof (cases "se_created (cr_env rq)")
  case (Inl s)
  let ?e = "cr_env rq"
  have s: "is_err s" "se_prog ?e = []" "s \<noteq> UCS_OK" using Inl assms(2) by (auto simp: setup_ok_def)
  obtain c where c: "connect_common (se_zcopy ?e) (se_names ?e) (Inl s) 0 (UcxConnection_new True None (se_modify ?e)) = Inr c"
    "ucx_status c = s" "ep c = None" "conn_ok c" "close_request c = CloseNull" "all_requests c = []"
    using connect_common_failed [OF s(1)] by blast
  obtain m where m: "accept_connection rq = Inr m" "mc_conn m = c" "mc_addr m = se_addr ?e"
    using c(1) Inl by (auto simp: accept_connection_def new_connection_def Let_def)
  obtain a b where "discard_connection ?e m cm = Inr a" "one_more ?e cm a" "same_table cm a"
    "destroy_unique ?e m cm = Inr b" "one_more ?e cm b" "same_table cm b"
    using discarded_unused [OF assms(1), of m ?e] destroyed_unused [OF assms(1), of m ?e] c m s(2) by auto
  then show ?thesis using assms(3) m(1,2) c(2) s(3) Inl
    by (auto simp: progress_conn_request_def expired_iff accept_answer.simps one_more_def Let_def)
next
  case (Inr e)
  let ?e = "cr_env rq"
  have free: "free_id cm e" using assms(2) Inr by (simp add: setup_ok_def)
  let ?c = "(connected (se_zcopy ?e) (se_names ?e) e 0)\<lparr>has_err_cb := True\<rparr>"
  have c: "ucx_status ?c = UCS_OK" "conn_id ?c = e" by (simp_all add: connected_def UcxConnection_new_def conn_id_def)
  obtain m where m: "accept_connection rq = Inr m" "mc_conn m = ?c"
    by (simp add: accept_connection_def new_connection_def connect_common_new Inr Let_def)
  obtain cm' where "add_connection e m cm = Inr (e, cm')" "cm_inv cm'" "activated e m cm cm'"
    using added_connection [OF assms(1) free, of m] unfolding activated_def by blast
  then show ?thesis using assms(3) m(1) c Inr by (auto simp: m(2) progress_conn_request_def expired_iff accept_answer.simps Let_def)
qed

lemma expired_one: "expired timeout rq \<Longrightarrow> progress_conn_request timeout rq cm = Inr (prod.swap (accept_answer timeout rq), cm)"
  by (simp add: progress_conn_request_def expired_iff accept_answer.simps)

lemma accepted_all:
  assumes "cm_inv cm" and "accept_env timeout rqs cm"
  shows "\<exists>cm'. progress_pending_conn_requests timeout rqs cm = Inr (map (accept_answer timeout) rqs, cm') \<and> cm_inv cm' \<and>
    dom (active_conns cm') = dom (active_conns cm) \<union> set (accepted_ids timeout rqs)"
  using assms
proof (induction rqs arbitrary: cm)
  case Nil
  then show ?case by (simp add: accepted_ids_def map_filter_simps)
next
  case (Cons rq rqs)
  obtain cm1 where cm1: "progress_conn_request timeout rq cm = Inr (prod.swap (accept_answer timeout rq), cm1)" "cm_inv cm1"
    "accept_env timeout rqs cm1" "dom (active_conns cm1) = dom (active_conns cm) \<union> set_option (accepted_id timeout rq)"
  proof (cases "expired timeout rq")
    case True
    have "accept_env timeout rqs cm" using Cons.prems(2) True by (simp add: accept_env_def accepted_ids_def map_filter_simps accepted_id.simps)
    then show ?thesis using that expired_one [OF True] Cons.prems(1) True by (simp add: accepted_id.simps)
  next
    case False
    have "setup_ok cm (cr_env rq)" using Cons.prems(2) False
      by (auto simp: setup_ok_def accept_env_def accepted_ids_def map_filter_simps accepted_id.simps split: sum.splits)
    from accepted_one [OF Cons.prems(1) this False] obtain cm' where cm':
      "progress_conn_request timeout rq cm = Inr (prod.swap (accept_answer timeout rq), cm')" "cm_inv cm'"
      "case se_created (cr_env rq) of Inl s \<Rightarrow> same_table cm cm' | Inr e \<Rightarrow> \<exists>m. activated e m cm cm'" by blast
    have "accept_env timeout rqs cm'" using Cons.prems(2) cm'(3) False
      by (auto simp: accept_env_def accepted_ids_def map_filter_simps accepted_id.simps same_table_def activated_def list_all_iff split: sum.splits)
    moreover have "dom (active_conns cm') = dom (active_conns cm) \<union> set_option (accepted_id timeout rq)"
      using cm'(3) False by (auto simp: accepted_id.simps same_table_def activated_def split: sum.splits)
    ultimately show ?thesis using that cm' by blast
  qed
  obtain cm' where cm': "progress_pending_conn_requests timeout rqs cm1 = Inr (map (accept_answer timeout) rqs, cm')" "cm_inv cm'"
    "dom (active_conns cm') = dom (active_conns cm1) \<union> set (accepted_ids timeout rqs)" using Cons.IH [OF cm1(2,3)] by blast
  have "set (accepted_ids timeout (rq # rqs)) = set_option (accepted_id timeout rq) \<union> set (accepted_ids timeout rqs)"
    by (auto simp: accepted_ids_def map_filter_simps split: option.splits)
  then show ?case using cm1 cm' by (cases "accept_answer timeout rq") (simp add: Un_assoc)
qed

subsection \<open>Properties\<close>

text \<open>
  C24. Connecting registers a connection exactly when it succeeds. A connect operation that is not cancelled,
  has an address and gets an endpoint from UCX delivers the id of a new active connection; in every other case it
  completes with an error and the table is as before. The manager stays consistent.
\<close>

theorem connect_registers_on_success:
  assumes "cm_inv cm" and "free_id cm 0" and "setup_ok cm env"
  shows "\<exists>status cid cm'. connect_populate env cancelled addr cm = Inr ((status, cid), cm') \<and> cm_inv cm' \<and>
    (if \<not> cancelled \<and> valid_address addr \<noteq> None \<and> \<not> isl (se_created env)
     then status = UCS_OK \<and> cid = projr (se_created env) \<and> (\<exists>m. active_conns cm' = (active_conns cm)(cid \<mapsto> m))
     else is_err status \<and> active_conns cm' = active_conns cm)"
proof (cases "cancelled \<or> valid_address addr = None")
  case True
  then show ?thesis using assms(1) by (cases cancelled) (simp_all add: connect_populate_def UCS_ERR_INVALID_PARAM_def)
next
  case False
  then obtain peer where peer: "valid_address addr = Some peer" "\<not> cancelled" by auto
  show ?thesis
  proof (cases "se_created env")
    case (Inl s)
    obtain cm' where cm': "create_new_connection env peer cm = Inr (0, cm')" "one_more env cm cm'" "same_table cm cm'"
      using failed_creation [OF assms(1) Inl assms(3)] by blast
    have "free_id cm' 0" using cm'(3) assms(2) by (simp add: same_table_def)
    then have "get_connection 0 cm' = Inr None" by (simp add: get_connection_def free_id_iff)
    then show ?thesis using cm' peer Inl by (simp add: connect_populate_def one_more_def same_table_def UCS_ERR_UNREACHABLE_def)
  next
    case (Inr e)
    obtain m cm' where cm': "create_new_connection env peer cm = Inr (e, cm')" "one_more env cm cm'" "activated e m cm cm'"
      "ucx_status (mc_conn m) = UCS_OK" using created_connection [OF assms(1) Inr assms(3)] by blast
    have "get_connection e cm' = Inr (Some m)" using get_connection_active [of cm' e] cm'(2,3) by (simp add: one_more_def activated_def)
    then show ?thesis using cm' peer Inr by (auto simp: connect_populate_def one_more_def activated_def)
  qed
qed

definition example_setup :: "ucs_status + nat \<Rightarrow> setup_env" where
  "example_setup created = \<lparr>se_errors = True, se_addr = 1, se_zcopy = None, se_names = None, se_created = created, se_modify = UCS_OK,
     se_sync = (\<lambda>_. None), se_prog = [], se_closed = CloseNull, se_pending = False, se_pending_later = False\<rparr>"

theorem connect_registers_on_success_witness:
  "\<exists>status cid cm'. connect_populate (example_setup (Inr 64)) False (SockAddr (Some ''10.0.0.2:1234'') 16) ConnectionManager_new = Inr ((status, cid), cm') \<and>
    cm_inv cm' \<and> status = UCS_OK \<and> cid = 64 \<and> (\<exists>m. active_conns cm' = (active_conns ConnectionManager_new)(cid \<mapsto> m))"
proof -
  have "free_id ConnectionManager_new 0" "setup_ok ConnectionManager_new (example_setup (Inr 64))"
    by (simp_all add: free_id_def entries_def ConnectionManager_new_def setup_ok_def example_setup_def)
  from connect_registers_on_success [OF ConnectionManager_new_inv(1) this, of False "SockAddr (Some ''10.0.0.2:1234'') 16"]
  show ?thesis by (simp add: example_setup_def)
qed

text \<open>
  C33. Every queued connection request is answered, in order: with id 0 and the status of the rejection when it
  waited longer than the timeout, with id 0 and the error when no endpoint could be made, and with its
  connection otherwise. The table gains exactly the accepted connections.
\<close>

theorem every_connection_request_answered:
  assumes "cm_inv cm" and "accept_env timeout rqs cm"
  shows "\<exists>cm'. progress_pending_conn_requests timeout rqs cm = Inr (map (accept_answer timeout) rqs, cm') \<and> cm_inv cm' \<and>
    dom (active_conns cm') = dom (active_conns cm) \<union> set (accepted_ids timeout rqs)"
  by (rule accepted_all [OF assms])

definition example_request :: "int \<Rightarrow> nat \<Rightarrow> conn_request" where
  "example_request arrival e = \<lparr>cr_arrival = arrival, cr_client = None, cr_env = example_setup (Inr e), cr_now = 100, cr_reject = UCS_OK\<rparr>"

theorem every_connection_request_answered_witness:
  "\<exists>cm'. progress_pending_conn_requests 10 [example_request 95 64, example_request 50 80] ConnectionManager_new =
      Inr ([(64, UCS_OK), (0, UCS_OK)], cm') \<and> cm_inv cm' \<and> dom (active_conns cm') = {64}"
proof -
  have ids: "accepted_ids 10 [example_request 95 64, example_request 50 80] = [64]"
    by (simp add: accepted_ids_def map_filter_simps accepted_id.simps expired_def example_request_def example_setup_def)
  have "accept_env 10 [example_request 95 64, example_request 50 80] ConnectionManager_new"
    by (simp add: accept_env_def ids) (simp add: free_id_def entries_def ConnectionManager_new_def example_request_def example_setup_def)
  note answered = every_connection_request_answered [OF ConnectionManager_new_inv(1) this]
  have answers: "map (accept_answer 10) [example_request 95 64, example_request 50 80] = [(64, UCS_OK), (0, UCS_OK)]"
    by (simp add: accept_answer.simps expired_def example_request_def example_setup_def)
  have "dom (active_conns (ConnectionManager_new :: managed ConnectionManager)) = {}"
    by (simp add: active_conns_def ConnectionManager_new_def dom_def)
  then show ?thesis using answered unfolding answers ids by simp
qed


definition example_failed :: managed where
  "example_failed = \<lparr>mc_addr = 7, mc_peer = ''10.0.0.2:1234'', mc_conn = connected None None 64 0\<rparr>"

definition example_failing :: "managed ConnectionManager" where
  "example_failing = ConnectionManager_new\<lparr>failedConns := [Some example_failed]\<rparr>"

definition example_recovery :: "ucs_status + nat \<Rightarrow> recover_env" where
  "example_recovery created = \<lparr>re_setup = example_setup created, re_close = example_setup created, re_fails = []\<rparr>"

lemma example_failing_inv: "cm_inv example_failing"
  using ConnectionManager_new_inv(1) by (simp add: example_failing_def cm_inv_def entries_def) (simp add: ConnectionManager_new_def)


text \<open>
  C38. When the error handler asks to reconnect and no new connection can be made, because UCX refuses the
  endpoint or because the peer has no IPv4 address text, the recovery fails an assertion: the error of one
  peer ends the program.
\<close>

theorem failed_reconnect_ends_program:
  assumes "cm_inv cm" and "free_id cm 0" and "handler (conn_id (mc_conn m)) (ucx_status (mc_conn m))"
    and "port_text (mc_peer m) = None \<or> isl (se_created (re_setup env))" and "setup_ok cm (re_setup env)"
  shows "recover_one handler env res m cm = Inl AssertFailed"
proof -
  have none: "get_connection 0 x = Inr None" if "free_id x 0" for x using that by (simp add: get_connection_def free_id_iff)
  have "recreate_connection_from_failed (re_setup env) m cm = Inl AssertFailed \<or>
      (\<exists>cm'. recreate_connection_from_failed (re_setup env) m cm = Inr (0, cm') \<and> free_id cm' 0)"
  proof (cases "port_text (mc_peer m)")
    case None
    then show ?thesis using assms(2) by (simp add: recreate_connection_from_failed_def)
  next
    case (Some port)
    then obtain s where s: "se_created (re_setup env) = Inl s" using assms(4) by (cases "se_created (re_setup env)") auto
    show ?thesis using failed_creation [OF assms(1) s assms(5), of "mc_peer m"] assms(2) Some
      by (auto simp: recreate_connection_from_failed_def same_table_def)
  qed
  then have "reconnect env m cm = Inl AssertFailed" using none by (auto simp: reconnect_def)
  then show ?thesis using assms(3) by (simp add: recover_one_def)
qed

theorem failed_reconnect_ends_program_witness:
  "recover_one (\<lambda>_ _. True) (example_recovery (Inl UCS_ERR_NOT_CONNECTED)) UCS_OK example_failed ConnectionManager_new = Inl AssertFailed"
  by (rule failed_reconnect_ends_program [OF ConnectionManager_new_inv(1)])
    (simp_all add: free_id_def entries_def ConnectionManager_new_def setup_ok_def example_recovery_def example_setup_def)

text \<open>
  A request that waited too long and is rejected successfully is reported with status \<open>UCS_OK\<close> and id 0, as if
  a connection had been accepted; a connection made from a reply endpoint reconnects to address 0.0.0.0:0; the
  text of an IPv6 peer has no port.
\<close>

lemma rejected_request_looks_accepted:
  "expired timeout rq \<Longrightarrow> cr_reject rq = UCS_OK \<Longrightarrow> progress_conn_request timeout rq cm = Inr ((UCS_OK, 0), cm)"
  by (simp add: progress_conn_request_def expired_iff)

lemma reply_endpoint_has_no_peer: "mc_peer (new_connection env errors (Some e)) = ''0.0.0.0:0''"
proof -
  have "no_peer = ''0.0.0.0:0''" by code_simp
  then show ?thesis by (simp add: new_connection_def)
qed

lemma ipv6_peer_has_no_port: "port_text (sockaddr_str AF_INET6 addr port) = None"
  by (simp add: sockaddr_str_def)

end
